(* ===== verification/JsValue.thy ===== *)
theory JsValue
  imports Complex_Main Prelude
begin

text \<open>
  JavaScript values as the sources see them after \<open>JSON.parse\<close> or as \<open>unknown\<close>
  arguments: numbers are IEEE doubles (their exact rational value, or an infinity or
  NaN; the sign of zero is not modelled, since no modelled comparison observes it),
  objects are association lists in insertion order with distinct keys.
\<close>

section \<open>Numbers\<close>

datatype jsnum = Fin rat | PosInf | NegInf | NaN

text \<open>The relational operators of JavaScript on numbers: false whenever a side is NaN.\<close>

instantiation jsnum :: ord
begin

fun less_eq_jsnum :: "jsnum \<Rightarrow> jsnum \<Rightarrow> bool" where
  "less_eq_jsnum (Fin x) (Fin y) = (x \<le> y)"
| "less_eq_jsnum NaN b = False"
| "less_eq_jsnum a NaN = False"
| "less_eq_jsnum NegInf b = True"
| "less_eq_jsnum a PosInf = True"
| "less_eq_jsnum a b = False"

fun less_jsnum :: "jsnum \<Rightarrow> jsnum \<Rightarrow> bool" where
  "less_jsnum (Fin x) (Fin y) = (x < y)"
| "less_jsnum NaN b = False"
| "less_jsnum a NaN = False"
| "less_jsnum a NegInf = False"
| "less_jsnum PosInf b = False"
| "less_jsnum a b = True"

instance ..

end

text \<open>\<open>Number.isInteger\<close> and \<open>Number.isSafeInteger\<close>.\<close>

fun is_integer :: "jsnum \<Rightarrow> bool" where
  "is_integer (Fin r) = (of_int \<lfloor>r\<rfloor> = r)"
| "is_integer _ = False"

fun is_safe_integer :: "jsnum \<Rightarrow> bool" where
  "is_safe_integer (Fin r) = (of_int \<lfloor>r\<rfloor> = r \<and> \<bar>\<lfloor>r\<rfloor>\<bar> < 2 ^ 53)"
| "is_safe_integer _ = False"

lemma is_safe_integer_int: "\<bar>i\<bar> < 2 ^ 53 \<Longrightarrow> is_safe_integer (Fin (of_int i))"
  by simp

lemma is_safe_integerD:
  assumes "is_safe_integer n"
  obtains i where "n = Fin (of_int i)" and "\<bar>i\<bar> < 2 ^ 53"
proof (cases n)
  case (Fin r)
  with assms have "n = Fin (of_int \<lfloor>r\<rfloor>)" and "\<bar>\<lfloor>r\<rfloor>\<bar> < 2 ^ 53"
    by auto
  then show thesis by (rule that)
qed (use assms in auto)

subsection \<open>Rounding to the nearest double, ties to even\<close>

function nbits :: "int \<Rightarrow> int" where
  "nbits n = (if n \<le> 0 then 0 else 1 + nbits (n div 2))"
  by pat_completeness auto
termination
  by (relation "measure nat") auto

declare nbits.simps [simp del]

definition pow2 :: "int \<Rightarrow> rat" where
  "pow2 e = (if 0 \<le> e then 2 ^ nat e else 1 / 2 ^ nat (- e))"

text \<open>The exponent \<open>e\<close> with \<open>2^e \<le> q < 2^(e+1)\<close>, for a positive \<open>q\<close>.\<close>

definition ilog2 :: "rat \<Rightarrow> int" where
  "ilog2 q =
     (let (a, b) = quotient_of q;
          k = nbits a - nbits b
      in if pow2 k \<le> q then k else k - 1)"

definition round_even :: "rat \<Rightarrow> int" where
  "round_even q =
     (let f = \<lfloor>q\<rfloor>; r = q - of_int f
      in if r < 1 / 2 then f
         else if 1 / 2 < r then f + 1
         else if even f then f else f + 1)"

definition dbl_pos :: "rat \<Rightarrow> jsnum" where
  "dbl_pos q =
     (let s = max (ilog2 q - 52) (- 1074);
          v = of_int (round_even (q / pow2 s)) * pow2 s
      in if pow2 1024 \<le> v then PosInf else Fin v)"

definition dbl_round :: "rat \<Rightarrow> jsnum" where
  "dbl_round q =
     (if q = 0 then Fin 0
      else if 0 < q then dbl_pos q
      else (case dbl_pos (- q) of Fin v \<Rightarrow> Fin (- v) | _ \<Rightarrow> NegInf))"

text \<open>The product of a finite constant and a number, as the double multiplication gives it.\<close>

fun dbl_scale :: "rat \<Rightarrow> jsnum \<Rightarrow> jsnum" where
  "dbl_scale c (Fin x) = dbl_round (c * x)"
| "dbl_scale c PosInf = (if 0 < c then PosInf else if c < 0 then NegInf else NaN)"
| "dbl_scale c NegInf = (if 0 < c then NegInf else if c < 0 then PosInf else NaN)"
| "dbl_scale c NaN = NaN"

lemma pow2_pos [simp]: "0 < pow2 e"
  by (simp add: pow2_def)

lemma round_even_int [simp]: "round_even (of_int i) = i"
  by (simp add: round_even_def)

section \<open>Values\<close>

datatype jsval =
    Undefined
  | Null
  | Bool bool
  | Num jsnum
  | Str string
  | Arr "jsval list"
  | Obj "(string \<times> jsval) list"

text \<open>\<open>o[k]\<close> on an object's own properties; \<open>undefined\<close> when absent.\<close>

definition prop_of :: "(string \<times> jsval) list \<Rightarrow> string \<Rightarrow> jsval" where
  "prop_of ps k = (case map_of ps k of None \<Rightarrow> Undefined | Some v \<Rightarrow> v)"

fun get_prop :: "jsval \<Rightarrow> string \<Rightarrow> jsval" where
  "get_prop (Obj ps) k = prop_of ps k"
| "get_prop _ k = Undefined"

text \<open>\<open>v !== null && typeof v === "object" && !Array.isArray(v)\<close>\<close>

fun is_plain_object :: "jsval \<Rightarrow> bool" where
  "is_plain_object (Obj ps) = True"
| "is_plain_object _ = False"

lemma is_plain_objectE:
  assumes "is_plain_object v"
  obtains ps where "v = Obj ps"
  using assms by (cases v) auto

definition nat_num :: "nat \<Rightarrow> jsval" where
  "nat_num n = Num (Fin (of_nat n))"

end
