(* ===== verification/JsonText.thy ===== *)
theory JsonText
  imports JsValue
begin

text \<open>
  \<open>JSON.parse\<close> and \<open>JSON.stringify\<close> as the ledger and the stores use them.  The parser
  takes the whole JSON grammar (duplicate keys: the last value wins at the first
  position; numbers are rounded to doubles; \<open>\u\<close> escapes above \<open>00FF\<close> are outside the
  character set and are refused).  The printer covers what the sources print:
  strings, natural numbers, \<open>null\<close> and objects of these.  Recursion is by fuel;
  \<open>json_parse\<close> passes \<open>2 * length s + 2\<close>, which \<open>pval_fuel_enough\<close> shows never changes
  the result.
\<close>

section \<open>Printing\<close>

definition digit_char :: "nat \<Rightarrow> char" where
  "digit_char d = char_of (48 + d)"

definition digit_val :: "char \<Rightarrow> nat" where
  "digit_val c = of_char c - 48"

fun show_nat :: "nat \<Rightarrow> string" where
  "show_nat n = (if n < 10 then [digit_char n] else show_nat (n div 10) @ [digit_char (n mod 10)])"

declare show_nat.simps [simp del]

definition hex_char :: "nat \<Rightarrow> char" where
  "hex_char d = (if d < 10 then char_of (48 + d) else char_of (87 + d))"

definition hex_val :: "char \<Rightarrow> nat option" where
  "hex_val c =
     (if is_digit c then Some (of_char c - 48)
      else if char_between CHR ''a'' CHR ''f'' c then Some (of_char c - 87)
      else if char_between CHR ''A'' CHR ''F'' c then Some (of_char c - 55)
      else None)"

definition quote_char :: "char \<Rightarrow> string" where
  "quote_char c =
     (if c = CHR 0x22 then [CHR 0x5C, CHR 0x22]
      else if c = CHR 0x5C then [CHR 0x5C, CHR 0x5C]
      else if c = CHR 0x08 then [CHR 0x5C, CHR ''b'']
      else if c = CHR 0x0C then [CHR 0x5C, CHR ''f'']
      else if c = CHR 0x0A then [CHR 0x5C, CHR ''n'']
      else if c = CHR 0x0D then [CHR 0x5C, CHR ''r'']
      else if c = CHR 0x09 then [CHR 0x5C, CHR ''t'']
      else if (of_char c :: nat) < 32
        then [CHR 0x5C, CHR ''u'', CHR ''0'', CHR ''0'',
              hex_char (of_char c div 16), hex_char (of_char c mod 16)]
      else [c])"

definition quote :: "string \<Rightarrow> string" where
  "quote s = CHR 0x22 # concat (map quote_char s) @ [CHR 0x22]"

datatype jout = ONull | OBool bool | OStr string | ONat nat | OArr "jout list" | OObj "(string \<times> jout) list"

fun json_print :: "jout \<Rightarrow> string"
  and print_elems :: "jout list \<Rightarrow> string"
  and print_members :: "(string \<times> jout) list \<Rightarrow> string" where
  "json_print ONull = ''null''"
| "json_print (OBool b) = (if b then ''true'' else ''false'')"
| "json_print (OStr s) = quote s"
| "json_print (ONat n) = show_nat n"
| "json_print (OArr vs) = CHR ''['' # print_elems vs @ '']''"
| "json_print (OObj ps) = CHR ''{'' # print_members ps @ ''}''"
| "print_elems [] = []"
| "print_elems [v] = json_print v"
| "print_elems (v # w # vs) = json_print v @ CHR '','' # print_elems (w # vs)"
| "print_members [] = []"
| "print_members [(k, v)] = quote k @ CHR '':'' # json_print v"
| "print_members ((k, v) # p # ps) = quote k @ CHR '':'' # json_print v @ CHR '','' # print_members (p # ps)"

section \<open>Parsing\<close>

definition is_ws :: "char \<Rightarrow> bool" where
  "is_ws c = (c = CHR 0x20 \<or> c = CHR 0x09 \<or> c = CHR 0x0A \<or> c = CHR 0x0D)"

definition skip_ws :: "string \<Rightarrow> string" where
  "skip_ws s = dropWhile is_ws s"

definition unescape :: "char \<Rightarrow> char option" where
  "unescape c =
     (if c = CHR 0x22 \<or> c = CHR 0x5C \<or> c = CHR ''/'' then Some c
      else if c = CHR ''b'' then Some CHR 0x08
      else if c = CHR ''f'' then Some CHR 0x0C
      else if c = CHR ''n'' then Some CHR 0x0A
      else if c = CHR ''r'' then Some CHR 0x0D
      else if c = CHR ''t'' then Some CHR 0x09
      else None)"

definition hex4 :: "char \<Rightarrow> char \<Rightarrow> char \<Rightarrow> char \<Rightarrow> char option" where
  "hex4 a b c d =
     (case (hex_val a, hex_val b, hex_val c, hex_val d) of
        (Some 0, Some 0, Some x, Some y) \<Rightarrow> Some (char_of (16 * x + y))
      | _ \<Rightarrow> None)"

definition consume :: "'a \<Rightarrow> ('a list \<times> 'b) option \<Rightarrow> ('a list \<times> 'b) option" where
  "consume x res = (case res of None \<Rightarrow> None | Some (xs, r) \<Rightarrow> Some (x # xs, r))"

lemma consume_Some_iff [simp]:
  "consume x res = Some (ys, r) \<longleftrightarrow> (\<exists>xs. res = Some (xs, r) \<and> ys = x # xs)"
  by (auto simp: consume_def split: option.splits)

lemma consume_simps [simp]: "consume x (Some (xs, r)) = Some (x # xs, r)" "consume x None = None"
  by (simp_all add: consume_def)

fun parse_chars :: "string \<Rightarrow> (string \<times> string) option" where
  "parse_chars [] = None"
| "parse_chars (c # r) =
     (if c = CHR 0x22 then Some ([], r)
      else if c = CHR 0x5C then
        (case r of
           [] \<Rightarrow> None
         | d # r' \<Rightarrow>
             if d = CHR ''u'' then
               (case r' of
                  h1 # h2 # h3 # h4 # r'' \<Rightarrow>
                    (case hex4 h1 h2 h3 h4 of
                       None \<Rightarrow> None
                     | Some x \<Rightarrow> consume x (parse_chars r''))
                | _ \<Rightarrow> None)
             else (case unescape d of None \<Rightarrow> None | Some x \<Rightarrow> consume x (parse_chars r')))
      else if (of_char c :: nat) < 32 then None
      else consume c (parse_chars r))"

definition digits_val :: "string \<Rightarrow> nat" where
  "digits_val ds = foldl (\<lambda>a c. 10 * a + digit_val c) 0 ds"

fun parse_exp :: "string \<Rightarrow> (int \<times> string) option" where
  "parse_exp s =
     (case s of
        c # r \<Rightarrow>
          if c = CHR ''e'' \<or> c = CHR ''E'' then
            (let (neg, r1) = (case r of d # r' \<Rightarrow> if d = CHR ''-'' then (True, r')
                                                 else if d = CHR ''+'' then (False, r') else (False, r)
                              | [] \<Rightarrow> (False, r));
                 ds = takeWhile is_digit r1
             in if ds = [] then None
                else Some (if neg then - int (digits_val ds) else int (digits_val ds), dropWhile is_digit r1))
          else Some (0, s)
      | [] \<Rightarrow> Some (0, s))"

definition ten_pow :: "int \<Rightarrow> rat" where
  "ten_pow e = (if 0 \<le> e then 10 ^ nat e else 1 / 10 ^ nat (- e))"

definition parse_number :: "string \<Rightarrow> (jsval \<times> string) option" where
  "parse_number s =
     (let (neg, s1) = (case s of c # r \<Rightarrow> if c = CHR ''-'' then (True, r) else (False, s) | [] \<Rightarrow> (False, s));
          ip = takeWhile is_digit s1;
          r1 = dropWhile is_digit s1
      in if ip = [] \<or> (hd ip = CHR ''0'' \<and> 1 < length ip) then None
         else
           (let (dot, r2) = (case r1 of c # r \<Rightarrow> if c = CHR ''.'' then (True, r) else (False, r1) | [] \<Rightarrow> (False, r1));
                fp = (if dot then takeWhile is_digit r2 else []);
                r3 = (if dot then dropWhile is_digit r2 else r2)
            in if dot \<and> fp = [] then None
               else (case parse_exp r3 of
                       None \<Rightarrow> None
                     | Some (e, r4) \<Rightarrow>
                         (let q = of_nat (digits_val (ip @ fp)) * ten_pow (e - int (length fp))
                          in Some (Num (dbl_round (if neg then - q else q)), r4)))))"

text \<open>Own properties as successive definitions leave them.\<close>

definition make_object :: "(string \<times> jsval) list \<Rightarrow> jsval" where
  "make_object ps = Obj (foldl (\<lambda>o' (k, v). AList.update k v o') [] ps)"

fun pval :: "nat \<Rightarrow> string \<Rightarrow> (jsval \<times> string) option"
  and pelems :: "nat \<Rightarrow> string \<Rightarrow> (jsval list \<times> string) option"
  and pmembers :: "nat \<Rightarrow> string \<Rightarrow> ((string \<times> jsval) list \<times> string) option" where
  "pval 0 s = None"
| "pval (Suc n) s =
     (case skip_ws s of
        [] \<Rightarrow> None
      | c # r \<Rightarrow>
          if c = CHR ''{'' then
            (if take 1 (skip_ws r) = ''}'' then Some (Obj [], drop 1 (skip_ws r))
             else map_option (\<lambda>(ps, t). (make_object ps, t)) (pmembers n r))
          else if c = CHR ''['' then
            (if take 1 (skip_ws r) = '']'' then Some (Arr [], drop 1 (skip_ws r))
             else map_option (\<lambda>(vs, t). (Arr vs, t)) (pelems n r))
          else if c = CHR 0x22 then map_option (\<lambda>(x, t). (Str x, t)) (parse_chars r)
          else if starts_with ''true'' (c # r) then Some (Bool True, drop 4 (c # r))
          else if starts_with ''false'' (c # r) then Some (Bool False, drop 5 (c # r))
          else if starts_with ''null'' (c # r) then Some (Null, drop 4 (c # r))
          else parse_number (c # r))"
| "pelems 0 s = None"
| "pelems (Suc n) s =
     (case pval n s of
        None \<Rightarrow> None
      | Some (v, r) \<Rightarrow>
          (case skip_ws r of
             [] \<Rightarrow> None
           | c # r' \<Rightarrow>
               if c = CHR '','' then consume v (pelems n r')
               else if c = CHR '']'' then Some ([v], r')
               else None))"
| "pmembers 0 s = None"
| "pmembers (Suc n) s =
     (case skip_ws s of
        [] \<Rightarrow> None
      | q # r \<Rightarrow>
          if q \<noteq> CHR 0x22 then None
          else (case parse_chars r of
                  None \<Rightarrow> None
                | Some (k, r1) \<Rightarrow>
                    (case skip_ws r1 of
                       [] \<Rightarrow> None
                     | c # r2 \<Rightarrow>
                         if c \<noteq> CHR '':'' then None
                         else (case pval n r2 of
                                 None \<Rightarrow> None
                               | Some (v, r3) \<Rightarrow>
                                   (case skip_ws r3 of
                                      [] \<Rightarrow> None
                                    | d # r4 \<Rightarrow>
                                        if d = CHR '','' then consume (k, v) (pmembers n r4)
                                        else if d = CHR ''}'' then Some ([(k, v)], r4)
                                        else None)))))"

definition json_parse :: "string \<Rightarrow> jsval option" where
  "json_parse s =
     (case pval (2 * length s + 2) s of
        None \<Rightarrow> None
      | Some (v, r) \<Rightarrow> if skip_ws r = [] then Some v else None)"

section \<open>Round trips\<close>

lemma dropWhile_is_ws_Cons [simp]: "\<not> is_ws c \<Longrightarrow> skip_ws (c # s) = c # s"
  by (simp add: skip_ws_def)

lemma skip_ws_length: "length (skip_ws s) \<le> length s"
  by (simp add: skip_ws_def length_dropWhile_le)

lemma of_char_less_256 [simp]: "(of_char c :: nat) < 256"
  by (metis of_char_mod_256 mod_less_divisor zero_less_numeral)

lemma hex_val_hex_char: "d < 16 \<Longrightarrow> hex_val (hex_char d) = Some d"
  by (simp add: hex_val_def hex_char_def char_class_defs)

lemma hex4_control:
  "(of_char c :: nat) < 32 \<Longrightarrow>
     hex4 CHR ''0'' CHR ''0'' (hex_char (of_char c div 16)) (hex_char (of_char c mod 16)) = Some c"
  by (simp add: hex4_def hex_val_hex_char) (simp add: hex_val_def char_class_defs)

lemma parse_chars_quote_char:
  "parse_chars (quote_char c @ s) = consume c (parse_chars s)"
  by (auto simp: quote_char_def unescape_def hex4_control)

lemma parse_chars_quoted:
  "parse_chars (concat (map quote_char s) @ CHR 0x22 # rest) = Some (s, rest)"
  by (induction s) (simp_all add: parse_chars_quote_char)

lemma is_digit_digit_char: "d < 10 \<Longrightarrow> is_digit (digit_char d)"
  by (simp add: digit_char_def char_class_defs)

lemma digit_val_digit_char: "d < 10 \<Longrightarrow> digit_val (digit_char d) = d"
  by (simp add: digit_char_def digit_val_def)

lemma show_nat_digits: "list_all is_digit (show_nat n)"
proof (induction n rule: show_nat.induct)
  case (1 n)
  then show ?case
    by (subst show_nat.simps) (auto simp: is_digit_digit_char)
qed

lemma digits_val_append: "digits_val (xs @ [d]) = 10 * digits_val xs + digit_val d"
  by (simp add: digits_val_def)

lemma digits_val_show_nat: "digits_val (show_nat n) = n"
proof (induction n rule: show_nat.induct)
  case (1 n)
  show ?case
  proof (cases "n < 10")
    case True
    then show ?thesis
      by (subst show_nat.simps) (simp add: digits_val_def digit_val_digit_char)
  next
    case False
    with 1 show ?thesis
      by (subst show_nat.simps) (simp add: digits_val_append digit_val_digit_char)
  qed
qed

lemma show_nat_nonempty [simp]: "show_nat n \<noteq> []"
  by (subst show_nat.simps) simp

lemma char_of_48: "char_of (48 :: nat) = CHR ''0''"
  by code_simp

lemma digit_char_zero: "d < 10 \<Longrightarrow> digit_char d = CHR ''0'' \<longleftrightarrow> d = 0"
  by (auto simp: digit_char_def char_of_48 dest: arg_cong [where f = "of_char :: char \<Rightarrow> nat"])

lemma hd_show_nat: "hd (show_nat n) = CHR ''0'' \<longleftrightarrow> n = 0"
proof (induction n rule: show_nat.induct)
  case (1 n)
  then show ?case
    by (subst show_nat.simps) (auto simp: digit_char_zero hd_append)
qed

lemma show_nat_0: "show_nat 0 = ''0''"
  by (subst show_nat.simps) (simp add: digit_char_def char_of_48)

lemma show_nat_inject: "show_nat m = show_nat n \<longleftrightarrow> m = n"
  by (metis digits_val_show_nat)

definition num_stop :: "string \<Rightarrow> bool" where
  "num_stop s = (case s of [] \<Rightarrow> True
                 | c # _ \<Rightarrow> \<not> is_digit c \<and> c \<noteq> CHR ''.'' \<and> c \<noteq> CHR ''e'' \<and> c \<noteq> CHR ''E'')"

lemma takeWhile_digits:
  "list_all is_digit ds \<Longrightarrow> num_stop rest \<Longrightarrow>
     takeWhile is_digit (ds @ rest) = ds \<and> dropWhile is_digit (ds @ rest) = rest"
  by (cases rest) (auto simp: num_stop_def list_all_iff takeWhile_append dropWhile_append)

lemma parse_exp_stop: "num_stop rest \<Longrightarrow> parse_exp rest = Some (0, rest)"
  by (cases rest) (auto simp: num_stop_def)

declare parse_exp.simps [simp del]

lemma parse_number_show_nat:
  assumes "num_stop rest"
  shows "parse_number (show_nat n @ rest) = Some (Num (dbl_round (of_nat n)), rest)"
proof -
  obtain d ds where d: "show_nat n = d # ds"
    by (cases "show_nat n") auto
  have dig: "is_digit d" using show_nat_digits [of n] by (simp add: d)
  then have nm: "d \<noteq> CHR ''-''" by (auto simp: char_class_defs)
  note tw = takeWhile_digits [OF show_nat_digits assms, of n]
  have zero: "\<not> (hd (show_nat n) = CHR ''0'' \<and> 1 < length (show_nat n))"
    by (auto simp: hd_show_nat show_nat_0)
  have dot: "(case rest of c # r \<Rightarrow> if c = CHR ''.'' then (True, r) else (False, rest) | [] \<Rightarrow> (False, rest))
    = (False, rest)"
    using assms by (auto simp: num_stop_def split: list.splits)
  have neg: "(case show_nat n @ rest of c # r \<Rightarrow> if c = CHR ''-'' then (True, r) else (False, show_nat n @ rest)
      | [] \<Rightarrow> (False, show_nat n @ rest)) = (False, show_nat n @ rest)"
    using nm by (simp add: d)
  show ?thesis
    unfolding parse_number_def neg Let_def prod.case
      tw [THEN conjunct1] tw [THEN conjunct2] dot
    using zero by (simp add: parse_exp_stop [OF assms] digits_val_show_nat ten_pow_def)
qed

subsection \<open>Natural numbers below \<open>2^53\<close> are exact doubles\<close>

lemma nbits_le: "n < 2 ^ m \<Longrightarrow> nbits n \<le> int m"
proof (induction m arbitrary: n)
  case 0
  then show ?case by (subst nbits.simps) simp
next
  case (Suc m)
  then have "n div 2 < 2 ^ m" by (auto simp: algebra_simps)
  from Suc.IH [OF this] show ?case by (subst nbits.simps) simp
qed

lemma nbits_1: "nbits 1 = 1"
  by (simp add: nbits.simps)

lemma ilog2_int_le: "0 < i \<Longrightarrow> i < 2 ^ 53 \<Longrightarrow> ilog2 (of_int i) \<le> 52"
  using nbits_le [of i 53] by (simp add: ilog2_def quotient_of_int nbits_1 Let_def)

lemma dbl_round_int:
  assumes "0 \<le> i" and "i < 2 ^ 53"
  shows "dbl_round (of_int i) = Fin (of_int i)"
proof (cases "i = 0")
  case True
  then show ?thesis by (simp add: dbl_round_def)
next
  case False
  with assms have pos: "0 < i" by simp
  define s where "s = max (ilog2 (of_int i) - 52) (- 1074)"
  have s0: "s \<le> 0" using ilog2_int_le [OF pos assms(2)] by (simp add: s_def)
  have q: "of_int i / pow2 s = of_int (i * 2 ^ nat (- s))"
    using s0 by (cases "s = 0") (simp_all add: pow2_def)
  have "of_int (round_even (of_int i / pow2 s)) * pow2 s = of_int i / pow2 s * pow2 s"
    unfolding q round_even_int by simp
  also have "\<dots> = of_int i"
    using pow2_pos [of s] by (simp del: pow2_pos)
  finally have v: "of_int (round_even (of_int i / pow2 s)) * pow2 s = (of_int i :: rat)" .
  have "(of_int i :: rat) < of_int (2 ^ 53)" using assms(2) by (simp only: of_int_less_iff)
  also have "\<dots> \<le> pow2 1024" by (simp add: pow2_def)
  finally have "\<not> pow2 1024 \<le> (of_int i :: rat)" by simp
  then show ?thesis
    using pos v by (simp add: dbl_round_def dbl_pos_def Let_def flip: s_def)
qed

lemma dbl_round_nat: "n < 2 ^ 53 \<Longrightarrow> dbl_round (of_nat n) = Fin (of_nat n)"
  using dbl_round_int [of "int n"] by simp

subsection \<open>Printing then parsing\<close>

fun embed :: "jout \<Rightarrow> jsval"
  and embed_elems :: "jout list \<Rightarrow> jsval list"
  and embed_members :: "(string \<times> jout) list \<Rightarrow> (string \<times> jsval) list" where
  "embed ONull = Null"
| "embed (OBool b) = Bool b"
| "embed (OStr s) = Str s"
| "embed (ONat n) = nat_num n"
| "embed (OArr vs) = Arr (embed_elems vs)"
| "embed (OObj ps) = Obj (embed_members ps)"
| "embed_elems [] = []"
| "embed_elems (v # vs) = embed v # embed_elems vs"
| "embed_members [] = []"
| "embed_members ((k, v) # ps) = (k, embed v) # embed_members ps"

text \<open>What a program can print: distinct keys, numbers below \<open>2^53\<close>.\<close>

fun jout_ok :: "jout \<Rightarrow> bool"
  and elems_ok :: "jout list \<Rightarrow> bool"
  and members_ok :: "(string \<times> jout) list \<Rightarrow> bool" where
  "jout_ok ONull = True"
| "jout_ok (OBool b) = True"
| "jout_ok (OStr s) = True"
| "jout_ok (ONat n) = (n < 2 ^ 53)"
| "jout_ok (OArr vs) = elems_ok vs"
| "jout_ok (OObj ps) = (distinct (map fst ps) \<and> members_ok ps)"
| "elems_ok [] = True"
| "elems_ok (v # vs) = (jout_ok v \<and> elems_ok vs)"
| "members_ok [] = True"
| "members_ok ((k, v) # ps) = (jout_ok v \<and> members_ok ps)"

lemma embed_members_fst [simp]: "map fst (embed_members ps) = map fst ps"
  by (induction ps) auto

lemma foldl_update_fresh:
  "distinct (map fst acc @ map fst ps) \<Longrightarrow>
     foldl (\<lambda>o' (k, v). AList.update k v o') acc ps = acc @ ps"
proof (induction ps arbitrary: acc)
  case (Cons p ps)
  obtain k v where p: "p = (k, v)" by (cases p)
  with Cons.prems have "k \<notin> fst ` set acc" by auto
  then have "AList.update k v acc = acc @ [(k, v)]"
    by (induction acc) auto
  with Cons p show ?case by simp
qed simp

lemma make_object_distinct: "distinct (map fst ps) \<Longrightarrow> make_object ps = Obj ps"
  using foldl_update_fresh [of "[]" ps] by (simp add: make_object_def)

lemma quote_not_ws: "skip_ws (quote k @ s) = quote k @ s"
  by (simp add: quote_def is_ws_def)

lemma json_print_hd:
  obtains c s where "json_print v = c # s" and "\<not> is_ws c"
proof (cases v)
  case (ONat n)
  obtain d ds where d: "show_nat n = d # ds" by (cases "show_nat n") auto
  with show_nat_digits [of n] have "is_digit d" by simp
  then have "\<not> is_ws d" by (auto simp: is_ws_def char_class_defs)
  with ONat d that show thesis by simp
next
  case (OBool b)
  then show thesis using that by (cases b) (simp_all add: is_ws_def)
qed (use that in \<open>auto simp: quote_def is_ws_def\<close>)

lemma skip_ws_json_print [simp]: "skip_ws (json_print v @ s) = json_print v @ s"
  by (rule json_print_hd [of v]) simp

lemma json_print_length: "1 \<le> length (json_print v)"
  by (rule json_print_hd [of v]) simp

lemma pval_digit:
  assumes "is_digit c"
  shows "pval (Suc n) (c # s) = parse_number (c # s)"
proof -
  have "\<not> is_ws c" and "c \<noteq> CHR ''{''" and "c \<noteq> CHR ''[''" and "c \<noteq> CHR 0x22"
    and "c \<noteq> CHR ''t''" and "c \<noteq> CHR ''f''" and "c \<noteq> CHR ''n''"
    using assms by (auto simp: is_ws_def char_class_defs)
  then show ?thesis by (simp add: starts_with_def)
qed

lemma pval_show_nat:
  assumes "num_stop rest" and "m < 2 ^ 53"
  shows "pval (Suc n) (show_nat m @ rest) = Some (nat_num m, rest)"
proof -
  obtain d ds where d: "show_nat m = d # ds" by (cases "show_nat m") auto
  with show_nat_digits [of m] have "is_digit d" by simp
  then have "pval (Suc n) (show_nat m @ rest) = parse_number (show_nat m @ rest)"
    by (simp only: d append_Cons pval_digit)
  with parse_number_show_nat [OF assms(1), of m] show ?thesis
    by (simp add: nat_num_def dbl_round_nat [OF assms(2)])
qed

lemma print_members_hd:
  "ps \<noteq> [] \<Longrightarrow> \<exists>s. print_members ps = CHR 0x22 # s"
  by (cases ps rule: print_members.cases) (auto simp: quote_def)

lemma num_stop_simps [simp]: "num_stop (CHR '','' # s)" "num_stop (CHR ''}'' # s)" "num_stop (CHR '']'' # s)" "num_stop []"
  by (simp_all add: num_stop_def char_class_defs)

lemma print_members_Cons:
  "print_members ((k, v) # ps) =
     quote k @ CHR '':'' # json_print v @ (if ps = [] then [] else CHR '','' # print_members ps)"
  by (cases ps) auto

lemma print_elems_Cons:
  "print_elems (v # vs) = json_print v @ (if vs = [] then [] else CHR '','' # print_elems vs)"
  by (cases vs) auto

declare print_members.simps(2,3) [simp del]
declare print_elems.simps(2,3) [simp del]
declare print_elems_Cons [simp]
declare print_members_Cons [simp]

lemma print_elems_hd:
  assumes "vs \<noteq> []"
  obtains c s where "print_elems vs = c # s" and "\<not> is_ws c" and "c \<noteq> CHR '']''"
proof -
  obtain v ws where vs: "vs = v # ws" using assms by (cases vs) auto
  obtain c s where c: "json_print v = c # s" "\<not> is_ws c" by (rule json_print_hd)
  have "c \<noteq> CHR '']''"
  proof (cases v)
    case (ONat n)
    then show ?thesis using c(1) show_nat_digits [of n] by (auto simp: char_class_defs)
  qed (use c in \<open>auto simp: quote_def split: if_splits\<close>)
  with c show thesis by (intro that) (simp_all add: vs)
qed

lemma pval_print:
  "jout_ok v \<Longrightarrow> num_stop rest \<Longrightarrow> 2 * length (json_print v) \<le> n \<Longrightarrow>
     pval n (json_print v @ rest) = Some (embed v, rest)"
  "elems_ok vs \<Longrightarrow> vs \<noteq> [] \<Longrightarrow> 2 * length (print_elems vs) + 1 \<le> n \<Longrightarrow>
     pelems n (print_elems vs @ CHR '']'' # rest) = Some (embed_elems vs, rest)"
  "members_ok ps \<Longrightarrow> ps \<noteq> [] \<Longrightarrow> 2 * length (print_members ps) \<le> n \<Longrightarrow>
     pmembers n (print_members ps @ CHR ''}'' # rest) = Some (embed_members ps, rest)"
proof (induction v and vs and ps arbitrary: n rest and n rest and n rest
    rule: embed_embed_elems_embed_members.induct)
  case 1
  then show ?case
    by (cases n) (simp_all add: is_ws_def starts_with_def)
next
  case (2 b)
  then show ?case
    by (cases n; cases b) (simp_all add: is_ws_def starts_with_def)
next
  case (3 s)
  then show ?case
    by (cases n) (simp_all add: quote_def is_ws_def parse_chars_quoted)
next
  case (4 m)
  then show ?case
    using json_print_length [of "ONat m"] by (cases n) (auto simp: pval_show_nat simp del: pval.simps)
next
  case (5 vs)
  show ?case
  proof (cases "vs = []")
    case True
    with 5 show ?thesis by (cases n) (simp_all add: is_ws_def)
  next
    case False
    then obtain c s where s: "print_elems vs = c # s" "\<not> is_ws c" "c \<noteq> CHR '']''"
      by (rule print_elems_hd)
    from 5 obtain m where n: "n = Suc m" and m: "2 * length (print_elems vs) + 1 \<le> m"
      by (cases n) auto
    from 5 m False have "pelems m (print_elems vs @ CHR '']'' # rest) = Some (embed_elems vs, rest)"
      by simp
    then show ?thesis using s by (simp add: n is_ws_def)
  qed
next
  case (6 ps)
  show ?case
  proof (cases "ps = []")
    case True
    with 6 show ?thesis by (cases n) (simp_all add: is_ws_def)
  next
    case False
    from print_members_hd [OF this] obtain s where s: "print_members ps = CHR 0x22 # s" by blast
    from 6 obtain m where n: "n = Suc m" and m: "2 * length (print_members ps) \<le> m"
      by (cases n) auto
    from 6 m False have "pmembers m (print_members ps @ CHR ''}'' # rest) = Some (embed_members ps, rest)"
      by simp
    moreover have "make_object (embed_members ps) = Obj (embed_members ps)"
      using 6 by (intro make_object_distinct) simp
    ultimately show ?thesis using s by (simp add: n is_ws_def)
  qed
next
  case 7
  then show ?case by simp
next
  case (8 v vs)
  obtain m where n: "n = Suc m" using 8 by (cases n) auto
  let ?tail = "if vs = [] then CHR '']'' # rest else CHR '','' # print_elems vs @ CHR '']'' # rest"
  have v: "pval m (json_print v @ ?tail) = Some (embed v, ?tail)"
    using 8 by (intro "8.IH"(1)) (auto simp: n)
  have vs: "vs \<noteq> [] \<Longrightarrow> pelems m (print_elems vs @ CHR '']'' # rest) = Some (embed_elems vs, rest)"
    using 8 by (intro "8.IH"(2)) (auto simp: n)
  have eq: "print_elems (v # vs) @ CHR '']'' # rest = json_print v @ ?tail"
    by simp
  show ?case
    unfolding n eq using v vs by (auto simp: is_ws_def)
next
  case 9
  then show ?case by simp
next
  case (10 k v ps)
  obtain m where n: "n = Suc m" using 10 by (cases n) (auto simp: quote_def)
  let ?tail = "if ps = [] then CHR ''}'' # rest else CHR '','' # print_members ps @ CHR ''}'' # rest"
  have v: "pval m (json_print v @ ?tail) = Some (embed v, ?tail)"
    using 10 by (intro "10.IH"(1)) (auto simp: n)
  have ps: "ps \<noteq> [] \<Longrightarrow> pmembers m (print_members ps @ CHR ''}'' # rest) = Some (embed_members ps, rest)"
    using 10 by (intro "10.IH"(2)) (auto simp: n)
  have eq: "print_members ((k, v) # ps) @ CHR ''}'' # rest
    = CHR 0x22 # concat (map quote_char k) @ CHR 0x22 # CHR '':'' # json_print v @ ?tail"
    by (simp add: quote_def)
  show ?case
    unfolding n eq using v ps by (auto simp: is_ws_def parse_chars_quoted)
qed

theorem json_parse_print: "jout_ok v \<Longrightarrow> json_parse (json_print v) = Some (embed v)"
  using pval_print(1) [of v "[]" "2 * length (json_print v) + 2"]
  by (simp add: json_parse_def skip_ws_def)

subsection \<open>The fuel is enough\<close>

lemma parse_chars_shrinks: "parse_chars s = Some (x, r) \<Longrightarrow> length r < length s"
proof (induction s arbitrary: x rule: parse_chars.induct)
  case (2 c s)
  then show ?case
    by (fastforce split: if_splits list.splits option.splits)
qed simp

lemma parse_exp_shrinks: "parse_exp s = Some (e, r) \<Longrightarrow> length r \<le> length s"
  by (auto simp: parse_exp.simps Let_def split: list.splits if_splits prod.splits
      intro: le_trans [OF length_dropWhile_le])

lemma dropWhile_takeWhile_shrinks:
  "takeWhile P s \<noteq> [] \<Longrightarrow> length (dropWhile P s) < length s"
  by (cases s) (auto simp: le_imp_less_Suc length_dropWhile_le split: if_splits)

lemma strip_char_length:
  "(case xs of c # r \<Rightarrow> if c = k then (True, r) else (False, xs) | [] \<Rightarrow> (False, xs)) = (b, ys)
     \<Longrightarrow> length ys \<le> length xs"
  by (auto split: list.splits if_splits)

lemma parse_number_shrinks: "parse_number s = Some (v, r) \<Longrightarrow> length r < length s"
proof -
  assume a: "parse_number s = Some (v, r)"
  obtain neg s1 where s1: "(case s of c # r \<Rightarrow> if c = CHR ''-'' then (True, r) else (False, s) | [] \<Rightarrow> (False, s)) = (neg, s1)"
    by fastforce
  from strip_char_length [OF this] have l1: "length s1 \<le> length s" .
  let ?r1 = "dropWhile is_digit s1"
  obtain dot r2 where r2: "(case ?r1 of c # r \<Rightarrow> if c = CHR ''.'' then (True, r) else (False, ?r1) | [] \<Rightarrow> (False, ?r1)) = (dot, r2)"
    by fastforce
  from strip_char_length [OF this] have l2: "length r2 \<le> length ?r1" .
  from a obtain e where ip: "takeWhile is_digit s1 \<noteq> []"
    and e: "parse_exp (if dot then dropWhile is_digit r2 else r2) = Some (e, r)"
    by (auto simp: parse_number_def s1 r2 Let_def split: if_splits option.splits)
  have "length r \<le> length (if dot then dropWhile is_digit r2 else r2)"
    using parse_exp_shrinks [OF e] .
  also have "\<dots> \<le> length r2" by (simp add: length_dropWhile_le)
  finally show ?thesis
    using l1 l2 dropWhile_takeWhile_shrinks [OF ip] by linarith
qed

lemma skip_ws_Cons_length: "skip_ws s = c # r \<Longrightarrow> length r < length s"
  using skip_ws_length [of s] by simp

lemma drop_skip_shrinks:
  "skip_ws s = c # r \<Longrightarrow> length (drop m (skip_ws r)) < length s"
  using skip_ws_length [of r] skip_ws_Cons_length [of s c r] by simp

lemma parsers_shrink:
  "pval n s = Some (v, r) \<Longrightarrow> length r < length s"
  "pelems n s = Some (vs, r) \<Longrightarrow> length r < length s"
  "pmembers n s = Some (ps, r) \<Longrightarrow> length r < length s"
proof (induction n s and n s and n s arbitrary: v r and vs r and ps r
    rule: pval_pelems_pmembers.induct)
  case (2 n s)
  show ?case
  proof (cases "skip_ws s")
    case (Cons c t)
    note len = skip_ws_Cons_length [OF Cons] drop_skip_shrinks [OF Cons, of 1] skip_ws_length [of s]
    from 2 Cons len show ?thesis
      by (auto split: if_splits dest!: parse_chars_shrinks parse_number_shrinks
          intro: less_trans [OF _ len(1)])
  qed (use 2 in simp)
next
  case (4 n s)
  then obtain v0 t where v0: "pval n s = Some (v0, t)"
    by (auto split: option.splits)
  then have t: "length t < length s" by (rule "4.IH"(1))
  show ?case
  proof (cases "skip_ws t")
    case (Cons c u)
    with 4 v0 t skip_ws_Cons_length [OF Cons] show ?thesis
      by (auto split: if_splits) (metis less_trans)+
  qed (use 4 v0 in simp)
next
  case (6 n s)
  then obtain q t k r1 c r2 v0 r3 d r4 where
    eqs: "skip_ws s = q # t" "parse_chars t = Some (k, r1)" "skip_ws r1 = c # r2"
      "pval n r2 = Some (v0, r3)" "skip_ws r3 = d # r4" and q: "q = CHR 0x22" "c = CHR '':''"
    by (auto split: list.splits option.splits if_splits)
  have l3: "length r3 < length r2" using 6 eqs q by auto
  have "length r4 < length s"
    using l3 skip_ws_Cons_length [OF eqs(1)] parse_chars_shrinks [OF eqs(2)]
      skip_ws_Cons_length [OF eqs(3)] skip_ws_Cons_length [OF eqs(5)] by linarith
  moreover have "length r \<le> length r4"
    using 6 eqs q by (auto split: if_splits intro: less_imp_le)
  ultimately show ?case by simp
qed simp_all

lemma parsers_fuel:
  "2 * length s + 1 \<le> n \<Longrightarrow> 2 * length s + 1 \<le> m \<Longrightarrow> pval n s = pval m s"
  "2 * length s + 2 \<le> n \<Longrightarrow> 2 * length s + 2 \<le> m \<Longrightarrow> pelems n s = pelems m s"
  "2 * length s + 2 \<le> n \<Longrightarrow> 2 * length s + 2 \<le> m \<Longrightarrow> pmembers n s = pmembers m s"
proof (induction n s and n s and n s arbitrary: m and m and m
    rule: pval_pelems_pmembers.induct)
  case (2 n s)
  from "2.prems" obtain m' where m: "m = Suc m'" by (cases m) auto
  show ?case
  proof (cases "skip_ws s")
    case (Cons c t)
    have "length t < length s" by (rule skip_ws_Cons_length [OF Cons])
    then have len: "2 * length t + 2 \<le> n" "2 * length t + 2 \<le> m'" using "2.prems" m by auto
    then have mem: "pmembers n t = pmembers m' t" if "c = CHR ''{''" "take 1 (skip_ws t) \<noteq> ''}''"
      using "2.IH"(1) [OF Cons that] by blast
    from len have el: "pelems n t = pelems m' t"
      if "c \<noteq> CHR ''{''" "c = CHR ''[''" "take 1 (skip_ws t) \<noteq> '']''"
      using "2.IH"(2) [OF Cons that] by blast
    show ?thesis unfolding m pval.simps Cons list.case
      by (intro if_cong refl) (drule (1) mem, simp only:, drule (2) el, simp only:)
  qed (simp add: m)
next
  case (4 n s)
  from "4.prems" obtain m' where m: "m = Suc m'" by (cases m) auto
  have v: "pval n s = pval m' s"
    by (rule "4.IH"(1)) (use "4.prems" m in simp_all)
  show ?case
  proof (cases "pval m' s")
    case (Some p)
    obtain v0 t where p: "p = (v0, t)" by (cases p)
    have t: "length t < length s" using parsers_shrink(1) Some p by blast
    show ?thesis
    proof (cases "skip_ws t")
      case (Cons c u)
      have "length u < length t" by (rule skip_ws_Cons_length [OF Cons])
      with t have "2 * length u + 2 \<le> n" "2 * length u + 2 \<le> m'" using "4.prems" m by auto
      then have el: "pelems n u = pelems m' u" if "c = CHR '',''"
        by (intro "4.IH"(2) [OF _ refl Cons that]) (simp_all add: v Some p)
      show ?thesis unfolding m pelems.simps v Some p option.case prod.case Cons list.case
        by (intro if_cong refl) (drule el, simp only:)
    qed (use Some p v in \<open>simp add: m\<close>)
  qed (use v in \<open>simp add: m\<close>)
next
  case (6 n s)
  from "6.prems" obtain m' where m: "m = Suc m'" by (cases m) auto
  have val: "pval n r2 = pval m' r2"
    if "skip_ws s = CHR 0x22 # t" "parse_chars t = Some (k, r1)" "skip_ws r1 = CHR '':'' # r2" for t k r1 r2
    by (rule "6.IH"(1) [OF that(1) _ that(2) refl that(3)])
      (use "6.prems" m skip_ws_Cons_length [OF that(1)]
      parse_chars_shrinks [OF that(2)] skip_ws_Cons_length [OF that(3)] in simp_all)
  have mem: "pmembers n r4 = pmembers m' r4"
    if h: "skip_ws s = CHR 0x22 # t" "parse_chars t = Some (k, r1)" "skip_ws r1 = CHR '':'' # r2"
      "pval m' r2 = Some (v, r3)" "skip_ws r3 = CHR '','' # r4" for t k r1 r2 v r3 r4
  proof -
    have "length r4 < length s"
      using skip_ws_Cons_length [OF h(1)] parse_chars_shrinks [OF h(2)]
        skip_ws_Cons_length [OF h(3)] parsers_shrink(1) [OF h(4)] skip_ws_Cons_length [OF h(5)]
      by linarith
    then show ?thesis
      by (intro "6.IH"(2) [OF h(1) _ h(2) refl h(3) _ _ refl h(5)])
        (use val [OF h(1-3)] h(4) "6.prems" m in simp_all)
  qed
  show ?case
    unfolding m by (auto simp: val mem split: list.split option.split)
qed simp_all

theorem json_parse_fuel_enough:
  "2 * length s + 2 \<le> n \<Longrightarrow>
     json_parse s = (case pval n s of None \<Rightarrow> None | Some (v, r) \<Rightarrow> if skip_ws r = [] then Some v else None)"
  using parsers_fuel(1) [of s "2 * length s + 2" n] by (simp add: json_parse_def)

end
