(* ===== verification/ZodSchema.thy ===== *)
theory ZodSchema
  imports JsValue
begin

text \<open>
  The schemas the sources declare with the \<open>zod\<close> library (version 4), as data, and what
  the documentation of the library says a schema accepts.  The library itself is not
  under the repository: \<open>safeParse\<close> is a parameter of every definition that calls it
  (the field \<open>zparse\<close> of a \<open>zod\<close> record), and \<open>zod_documented\<close> is the named hypothesis
  that it behaves as documented.  \<open>zod_ref\<close> is a concrete parser that satisfies it.
\<close>

datatype pseg = Key string | Idx nat

datatype issue_code = TooSmall | TooBig | InvalidType | InvalidValue | UnrecognizedKeys | Custom

text \<open>
  An issue has a path and a code; \<open>icont\<close> is the library's internal mark that later
  checks of the same node still run.
\<close>

datatype issue = Issue (ipath: "pseg list") (icode: issue_code) (icont: bool)

datatype zschema =
    ZUnknown
  | ZString "nat option" "nat option" "(string \<Rightarrow> bool) list"
  | ZNumber bool "(rat \<times> bool) option" "rat option"
  | ZEnum "string list"
  | ZLiteral jsval
  | ZOptional zschema
  | ZDefault zschema jsval
  | ZArray zschema "nat option" "(jsval list \<Rightarrow> issue list) list"
  | ZStrict "(string \<times> zschema) list"

record zod =
  zparse :: "zschema \<Rightarrow> jsval \<Rightarrow> issue list + jsval"
  zmessage :: "issue list \<Rightarrow> string"

section \<open>What a schema accepts\<close>

fun string_issues :: "nat option \<Rightarrow> nat option \<Rightarrow> (string \<Rightarrow> bool) list \<Rightarrow> jsval \<Rightarrow> issue list" where
  "string_issues lo hi refs (Str s) =
     (case lo of None \<Rightarrow> [] | Some n \<Rightarrow> if length s < n then [Issue [] TooSmall True] else [])
     @ (case hi of None \<Rightarrow> [] | Some n \<Rightarrow> if n < length s then [Issue [] TooBig True] else [])
     @ concat (map (\<lambda>p. if p s then [] else [Issue [] Custom True]) refs)"
| "string_issues lo hi refs _ = [Issue [] InvalidType False]"

fun number_issues :: "bool \<Rightarrow> (rat \<times> bool) option \<Rightarrow> rat option \<Rightarrow> jsval \<Rightarrow> issue list" where
  "number_issues isint lo hi (Num (Fin r)) =
     (if isint \<and> \<not> is_integer (Fin r) then [Issue [] InvalidType False]
      else (if isint \<and> \<not> is_safe_integer (Fin r)
            then [Issue [] (if 0 < r then TooBig else TooSmall) True] else [])
         @ (case lo of None \<Rightarrow> []
            | Some (l, incl) \<Rightarrow> if r < l \<or> (\<not> incl \<and> r = l) then [Issue [] TooSmall True] else [])
         @ (case hi of None \<Rightarrow> [] | Some h \<Rightarrow> if h < r then [Issue [] TooBig True] else []))"
| "number_issues isint lo hi _ = [Issue [] InvalidType False]"

definition at_path :: "pseg \<Rightarrow> issue list \<Rightarrow> issue list" where
  "at_path p iss = map (\<lambda>i. Issue (p # ipath i) (icode i) (icont i)) iss"

fun zissues :: "zschema \<Rightarrow> jsval \<Rightarrow> issue list" where
  "zissues ZUnknown v = []"
| "zissues (ZString lo hi refs) v = string_issues lo hi refs v"
| "zissues (ZNumber isint lo hi) v = number_issues isint lo hi v"
| "zissues (ZEnum opts) v =
     (case v of Str s \<Rightarrow> if s \<in> set opts then [] else [Issue [] InvalidValue False]
      | _ \<Rightarrow> [Issue [] InvalidValue False])"
| "zissues (ZLiteral l) v = (if v = l then [] else [Issue [] InvalidValue False])"
| "zissues (ZOptional s) v = (if v = Undefined then [] else zissues s v)"
| "zissues (ZDefault s d) v = (if v = Undefined then [] else zissues s v)"
| "zissues (ZArray s hi refs) v =
     (case v of
        Arr vs \<Rightarrow>
          (let iss = concat (map (\<lambda>(i, x). at_path (Idx i) (zissues s x)) (enumerate 0 vs))
                    @ (case hi of None \<Rightarrow> [] | Some n \<Rightarrow> if n < length vs then [Issue [] TooBig True] else [])
           in iss @ (if list_all icont iss then concat (map (\<lambda>r. r vs) refs) else []))
      | _ \<Rightarrow> [Issue [] InvalidType False])"
| "zissues (ZStrict fs) v =
     (case v of
        Obj ps \<Rightarrow>
          concat (map (\<lambda>(k, s). at_path (Key k) (zissues s (prop_of ps k))) fs)
          @ (if set (map fst ps) \<subseteq> set (map fst fs) then [] else [Issue [] UnrecognizedKeys False])
      | _ \<Rightarrow> [Issue [] InvalidType False])"

text \<open>The output value: defaults filled in, the fields in the schema's order.\<close>

fun znorm :: "zschema \<Rightarrow> jsval \<Rightarrow> jsval" where
  "znorm (ZOptional s) v = (if v = Undefined then Undefined else znorm s v)"
| "znorm (ZDefault s d) v = (if v = Undefined then d else znorm s v)"
| "znorm (ZArray s hi refs) v = (case v of Arr vs \<Rightarrow> Arr (map (znorm s) vs) | _ \<Rightarrow> v)"
| "znorm (ZStrict fs) v =
     (case v of
        Obj ps \<Rightarrow>
          Obj (filter (\<lambda>(k, x). k \<in> set (map fst ps) \<or> x \<noteq> Undefined)
                (map (\<lambda>(k, s). (k, znorm s (prop_of ps k))) fs))
      | _ \<Rightarrow> v)"
| "znorm s v = v"

definition zaccepts :: "zschema \<Rightarrow> jsval \<Rightarrow> bool" where
  "zaccepts s v = (zissues s v = [])"

text \<open>
  The documented behaviour the sources rely on: a successful parse means the value
  satisfies the schema and gives the normalised value; a failure reports the issues of
  the value (in some order) and at least one.
\<close>

definition zod_documented :: "zod \<Rightarrow> bool" where
  "zod_documented z \<longleftrightarrow>
     (\<forall>s v. case zparse z s v of
        Inr out \<Rightarrow> zissues s v = [] \<and> out = znorm s v
      | Inl iss \<Rightarrow> iss \<noteq> [] \<and> set iss = set (zissues s v))"

definition zod_ref :: zod where
  "zod_ref = \<lparr>zparse = (\<lambda>s v. if zissues s v = [] then Inr (znorm s v) else Inl (zissues s v)),
              zmessage = (\<lambda>_. ''invalid'')\<rparr>"

lemma zod_documented_ref [simp]: "zod_documented zod_ref"
  by (auto simp: zod_documented_def zod_ref_def)

lemma zparse_accepts:
  assumes "zod_documented z"
  shows "zparse z s v = Inr out \<longleftrightarrow> zaccepts s v \<and> out = znorm s v"
  using assms[unfolded zod_documented_def, rule_format, of s v]
  by (cases "zparse z s v") (auto simp: zaccepts_def)

lemma zparse_rejects:
  assumes "zod_documented z" and "zparse z s v = Inl iss"
  shows "set iss = set (zissues s v)" and "iss \<noteq> []" and "\<not> zaccepts s v"
  using assms(1)[unfolded zod_documented_def, rule_format, of s v] assms(2)
  by (auto simp: zaccepts_def)

lemma zparse_cases:
  assumes "zod_documented z"
  obtains (accept) "zaccepts s v" "zparse z s v = Inr (znorm s v)"
  | (reject) iss where "\<not> zaccepts s v" "zparse z s v = Inl iss" "set iss = set (zissues s v)"
proof (cases "zparse z s v")
  case (Inl iss)
  with zparse_rejects [OF assms Inl] reject show thesis by blast
next
  case (Inr out)
  with zparse_accepts [OF assms] accept show thesis by blast
qed

section \<open>Acceptance, schema by schema\<close>

lemma at_path_Nil [simp]: "at_path p iss = [] \<longleftrightarrow> iss = []"
  by (simp add: at_path_def)

lemma set_at_path: "i \<in> set (at_path p iss) \<longleftrightarrow> (\<exists>j\<in>set iss. i = Issue (p # ipath j) (icode j) (icont j))"
  by (auto simp: at_path_def)

lemma zaccepts_unknown [simp]: "zaccepts ZUnknown v"
  by (simp add: zaccepts_def)

lemma zaccepts_string:
  "zaccepts (ZString lo hi refs) v \<longleftrightarrow>
     (\<exists>s. v = Str s \<and> (\<forall>n. lo = Some n \<longrightarrow> n \<le> length s) \<and> (\<forall>n. hi = Some n \<longrightarrow> length s \<le> n)
        \<and> (\<forall>p\<in>set refs. p s))"
  by (cases v) (auto simp: zaccepts_def split: option.splits)

lemma zaccepts_number:
  "zaccepts (ZNumber isint lo hi) v \<longleftrightarrow>
     (\<exists>r. v = Num (Fin r) \<and> (isint \<longrightarrow> is_safe_integer (Fin r))
        \<and> (\<forall>l incl. lo = Some (l, incl) \<longrightarrow> l \<le> r \<and> (incl \<or> l \<noteq> r))
        \<and> (\<forall>h. hi = Some h \<longrightarrow> r \<le> h))"
proof (cases v)
  case (Num n)
  then show ?thesis
    by (cases n) (auto simp: zaccepts_def split: option.splits if_splits)
qed (auto simp: zaccepts_def)

lemma zaccepts_enum: "zaccepts (ZEnum opts) v \<longleftrightarrow> (\<exists>s\<in>set opts. v = Str s)"
  by (cases v) (auto simp: zaccepts_def)

lemma zaccepts_literal: "zaccepts (ZLiteral l) v \<longleftrightarrow> v = l"
  by (auto simp: zaccepts_def)

lemma zaccepts_optional: "zaccepts (ZOptional s) v \<longleftrightarrow> v = Undefined \<or> zaccepts s v"
  by (auto simp: zaccepts_def)

lemma zaccepts_default: "zaccepts (ZDefault s d) v \<longleftrightarrow> v = Undefined \<or> zaccepts s v"
  by (auto simp: zaccepts_def)

lemma zaccepts_strict:
  "zaccepts (ZStrict fs) v \<longleftrightarrow>
     (\<exists>ps. v = Obj ps \<and> (\<forall>(k, s)\<in>set fs. zaccepts s (prop_of ps k))
        \<and> set (map fst ps) \<subseteq> set (map fst fs))"
  by (cases v) (auto simp: zaccepts_def)

lemma zaccepts_array:
  "zaccepts (ZArray s hi refs) v \<longleftrightarrow>
     (\<exists>vs. v = Arr vs \<and> (\<forall>x\<in>set vs. zaccepts s x) \<and> (\<forall>n. hi = Some n \<longrightarrow> length vs \<le> n)
        \<and> (\<forall>r\<in>set refs. r vs = []))"
proof (cases v)
  case (Arr vs)
  define el where "el = concat (map (\<lambda>(i, x). at_path (Idx i) (zissues s x)) (enumerate 0 vs))"
  have "el = [] \<longleftrightarrow> (\<forall>x\<in>set (map snd (enumerate 0 vs)). zissues s x = [])"
    by (auto simp: el_def case_prod_beta simp del: map_snd_enumerate)
  then have "el = [] \<longleftrightarrow> (\<forall>x\<in>set vs. zaccepts s x)"
    by (simp add: zaccepts_def)
  moreover have "zissues (ZArray s hi refs) v =
      (let iss = el @ (case hi of None \<Rightarrow> [] | Some n \<Rightarrow> if n < length vs then [Issue [] TooBig True] else [])
       in iss @ (if list_all icont iss then concat (map (\<lambda>r. r vs) refs) else []))"
    by (simp add: Arr el_def)
  ultimately show ?thesis
    by (cases "el = []") (auto simp: zaccepts_def Arr Let_def split: option.splits)
qed (auto simp: zaccepts_def)

lemmas zaccepts_simps = zaccepts_string zaccepts_number zaccepts_enum zaccepts_literal
  zaccepts_optional zaccepts_default zaccepts_strict zaccepts_array

text \<open>The issues of a strict object below one of its keys are those of the field.\<close>

lemma strict_issue_at_key:
  "(\<exists>i\<in>set (zissues (ZStrict fs) (Obj ps)). ipath i \<noteq> [] \<and> hd (ipath i) = Key k) \<longleftrightarrow>
     (\<exists>s. (k, s) \<in> set fs \<and> \<not> zaccepts s (prop_of ps k))"
proof
  assume "\<exists>i\<in>set (zissues (ZStrict fs) (Obj ps)). ipath i \<noteq> [] \<and> hd (ipath i) = Key k"
  then show "\<exists>s. (k, s) \<in> set fs \<and> \<not> zaccepts s (prop_of ps k)"
    by (fastforce simp: zaccepts_def set_at_path split: if_splits)
next
  assume "\<exists>s. (k, s) \<in> set fs \<and> \<not> zaccepts s (prop_of ps k)"
  then obtain s i where s: "(k, s) \<in> set fs" and i: "i \<in> set (zissues s (prop_of ps k))"
    by (metis zaccepts_def list.set_intros(1) neq_Nil_conv)
  let ?j = "Issue (Key k # ipath i) (icode i) (icont i)"
  have "?j \<in> set (at_path (Key k) (zissues s (prop_of ps k)))" using i by (auto simp: set_at_path)
  with s have "?j \<in> set (zissues (ZStrict fs) (Obj ps))"
    by (auto intro!: bexI [of _ "(k, s)"])
  then show "\<exists>i\<in>set (zissues (ZStrict fs) (Obj ps)). ipath i \<noteq> [] \<and> hd (ipath i) = Key k"
    by (intro bexI [of _ ?j]) simp
qed

end
