(* ===== verification/CapabilityRegistry.thy ===== *)
theory CapabilityRegistry
  imports ZodSchema
begin

text \<open>
  \<open>router/src/schemas/registry.ts\<close>: the capability table, the parameter schemas, and the
  checks of a proposed patch (the path predicate and the line count over the diffs).
  The regular expressions of the path check are translated segment by segment: with
  \<open>(^|/)\<close> before and \<open>(/|$)\<close> or \<open>$\<close> after, a pattern without a slash speaks about one
  segment of \<open>path.split("/")\<close>, or about the last one.
\<close>

section \<open>Patch paths\<close>

definition path_segments :: "string \<Rightarrow> string list" where
  "path_segments path = split_on CHR ''/'' path"

text \<open>\<open>/(^|/)P(/|$)/i\<close> and \<open>/(^|/)P$/i\<close>\<close>

definition re_segment :: "(string \<Rightarrow> bool) \<Rightarrow> string \<Rightarrow> bool" where
  "re_segment P path = list_ex (\<lambda>seg. P (map ascii_lower seg)) (path_segments path)"

definition re_last_segment :: "(string \<Rightarrow> bool) \<Rightarrow> string \<Rightarrow> bool" where
  "re_last_segment P path = P (map ascii_lower (last (path_segments path)))"

definition re_drive :: "string \<Rightarrow> bool" where
  "re_drive path = (case path of a # b # _ \<Rightarrow> (is_upper a \<or> is_lower a) \<and> b = CHR '':'' | _ \<Rightarrow> False)"

definition manifest_name :: "string \<Rightarrow> bool" where
  "manifest_name seg =
     (seg = ''package.json'' \<or> ends_with ''.lock'' seg
      \<or> (starts_with ''requirements'' seg \<and> ends_with ''.txt'' (drop 12 seg))
      \<or> seg = ''pyproject.toml'' \<or> seg = ''cargo.toml'' \<or> seg = ''go.mod'' \<or> seg = ''go.sum'')"

definition safe_patch_path :: "string \<Rightarrow> bool" where
  "safe_patch_path path =
     (\<not> starts_with ''/'' path
      \<and> CHR 0x5C \<notin> set path
      \<and> \<not> re_drive path
      \<and> list_all (\<lambda>part. part \<noteq> '''' \<and> part \<noteq> ''.'' \<and> part \<noteq> ''..'') (path_segments path)
      \<and> \<not> re_segment (\<lambda>seg. seg = ''.github'') path
      \<and> \<not> re_segment (\<lambda>seg. seg \<in> {''auth'', ''crypto'', ''migrations'', ''payment''}) path
      \<and> \<not> re_segment (js_includes ''secret'') path
      \<and> \<not> re_last_segment (starts_with ''dockerfile'') path
      \<and> \<not> ends_with ''.tf'' (map ascii_lower path)
      \<and> \<not> re_last_segment manifest_name path
      \<and> \<not> re_segment (\<lambda>seg. seg \<in> {''.github'', ''.gitlab'', ''.circleci''}) path)"

definition test_path :: "string \<Rightarrow> bool" where
  "test_path path = re_segment (\<lambda>seg. seg \<in> {''__tests__'', ''test'', ''tests'', ''spec''}) path"

section \<open>Diffs\<close>

text \<open>\<open>diff.split(/\r?\n/)\<close>: a carriage return is part of the separator that follows it.\<close>

definition strip_cr :: "string \<Rightarrow> string" where
  "strip_cr l = (if l \<noteq> [] \<and> last l = CHR 0x0D then butlast l else l)"

definition split_lines :: "string \<Rightarrow> string list" where
  "split_lines s = (let ps = split_on CHR 0x0A s in map strip_cr (butlast ps) @ [last ps])"

definition added_line :: "string \<Rightarrow> bool" where
  "added_line l = (starts_with ''+'' l \<and> \<not> starts_with ''+++'' l)"

definition deleted_line :: "string \<Rightarrow> bool" where
  "deleted_line l = (starts_with ''-'' l \<and> \<not> starts_with ''---'' l)"

definition changed_lines :: "string \<Rightarrow> nat" where
  "changed_lines diff = length (filter (\<lambda>l. added_line l \<or> deleted_line l) (split_lines diff))"

definition str_of :: "jsval \<Rightarrow> string" where
  "str_of v = (case v of Str s \<Rightarrow> s | _ \<Rightarrow> [])"

text \<open>The \<open>superRefine\<close> callback on the array of files.\<close>

definition patch_files_issues :: "jsval list \<Rightarrow> issue list" where
  "patch_files_issues files =
     concat (map (\<lambda>(index, file).
        if test_path (str_of (get_prop file ''path''))
           \<and> list_ex deleted_line (split_lines (str_of (get_prop file ''diff'')))
        then [Issue [Idx index, Key ''diff''] Custom True] else []) (enumerate 0 files))
     @ (if 50 < sum_list (map (\<lambda>file. changed_lines (str_of (get_prop file ''diff''))) files)
        then [Issue [Key ''files''] Custom True] else [])"

section \<open>The capability table\<close>

datatype risk = Low | Medium | ReviewOnly

record capability =
  cap_risk :: risk
  cap_backend :: string
  cap_reversible :: bool
  cap_params :: zschema

definition service_targets :: "string list" where
  "service_targets = [''selfheal-svc-api'', ''selfheal-svc-db'', ''selfheal-svc-worker'', ''selfheal-svc-auth'']"

definition scale_params :: zschema where
  "scale_params = ZStrict
     [(''target'', ZEnum service_targets),
      (''replicas'', ZNumber True (Some (1, True)) (Some 5)),
      (''delta'', ZOptional (ZNumber True None None))]"

definition restart_params :: zschema where
  "restart_params = ZStrict
     [(''target'', ZEnum service_targets),
      (''grace_period_s'', ZDefault (ZNumber True (Some (0, True)) (Some 120)) (Num (Fin 30)))]"

definition patch_file_schema :: zschema where
  "patch_file_schema = ZStrict
     [(''path'', ZString (Some 1) (Some 256) [safe_patch_path]),
      (''diff'', ZString (Some 1) (Some 20000) [])]"

definition patch_params :: zschema where
  "patch_params = ZStrict
     [(''files'', ZArray patch_file_schema (Some 3) [patch_files_issues]),
      (''explanation'', ZString None (Some 2000) []),
      (''test_added'', ZLiteral (Bool True)),
      (''confidence'', ZNumber False (Some (0, True)) (Some 1))]"

definition capabilities :: "(string \<times> capability) list" where
  "capabilities =
     [(''scale_service'', \<lparr>cap_risk = Low, cap_backend = ''docker'', cap_reversible = True, cap_params = scale_params\<rparr>),
      (''restart_service'', \<lparr>cap_risk = Medium, cap_backend = ''docker'', cap_reversible = False, cap_params = restart_params\<rparr>),
      (''propose_patch'', \<lparr>cap_risk = ReviewOnly, cap_backend = ''none'', cap_reversible = True, cap_params = patch_params\<rparr>)]"

section \<open>What the registry accepts\<close>

text \<open>How a relative path resolves against a directory (\<open>path.posix.join\<close>).\<close>

fun resolve_from :: "string list \<Rightarrow> string list \<Rightarrow> string list" where
  "resolve_from dir [] = dir"
| "resolve_from dir (seg # segs) =
     resolve_from (if seg = '''' \<or> seg = ''.'' then dir
                   else if seg = ''..'' then butlast dir
                   else dir @ [seg]) segs"

lemma resolve_plain:
  "list_all (\<lambda>p. p \<noteq> '''' \<and> p \<noteq> ''.'' \<and> p \<noteq> ''..'') segs \<Longrightarrow> resolve_from dir segs = dir @ segs"
  by (induction segs arbitrary: dir) auto

lemma safe_path_resolves:
  "safe_patch_path path \<Longrightarrow> resolve_from dir (path_segments path) = dir @ path_segments path"
  by (intro resolve_plain) (simp add: safe_patch_path_def)

text \<open>The segments no patch may name (case-insensitively).\<close>

definition protected_segment :: "string \<Rightarrow> bool" where
  "protected_segment seg =
     (map ascii_lower seg \<in> {''auth'', ''crypto'', ''migrations'', ''payment''}
      \<or> js_includes ''secret'' (map ascii_lower seg)
      \<or> map ascii_lower seg \<in> {''.github'', ''.gitlab'', ''.circleci''})"

lemma list_ex_none3:
  "\<not> list_ex (\<lambda>x. P (g x)) xs \<Longrightarrow> \<not> list_ex (\<lambda>x. Q (g x)) xs \<Longrightarrow> \<not> list_ex (\<lambda>x. R (g x)) xs
     \<Longrightarrow> list_all (\<lambda>x. \<not> (P (g x) \<or> Q (g x) \<or> R (g x))) xs"
  by (induction xs) auto

lemma safe_path_unprotected:
  assumes "safe_patch_path path"
  shows "list_all (\<lambda>seg. \<not> protected_segment seg) (path_segments path)"
  unfolding protected_segment_def
  by (rule list_ex_none3 [where g = "map ascii_lower"
        and P = "\<lambda>seg. seg \<in> {''auth'', ''crypto'', ''migrations'', ''payment''}"
        and Q = "js_includes ''secret''"
        and R = "\<lambda>seg. seg \<in> {''.github'', ''.gitlab'', ''.circleci''}"];
      insert assms; unfold safe_patch_path_def re_segment_def; elim conjE; assumption)

lemma scale_params_accepts:
  "zaccepts scale_params v \<longleftrightarrow>
     (\<exists>ps t n. v = Obj ps \<and> prop_of ps ''target'' = Str t \<and> t \<in> set service_targets
        \<and> prop_of ps ''replicas'' = Num (Fin (of_int n)) \<and> 1 \<le> n \<and> n \<le> 5
        \<and> (prop_of ps ''delta'' = Undefined
           \<or> (\<exists>d. prop_of ps ''delta'' = Num (Fin (of_int d)) \<and> \<bar>d\<bar> < 2 ^ 53))
        \<and> set (map fst ps) \<subseteq> {''target'', ''replicas'', ''delta''})"
proof -
  have r1: "\<exists>n. r = of_int n \<and> 1 \<le> n \<and> n \<le> 5" if "is_safe_integer (Fin r)" "1 \<le> r" "r \<le> 5" for r
    using that by (elim is_safe_integerD) auto
  have r2: "is_safe_integer (Fin (of_int n))" if "1 \<le> n" "n \<le> 5" for n
    using that by (intro is_safe_integer_int) simp
  have d: "(\<exists>r. x = Num (Fin r) \<and> is_safe_integer (Fin r)) \<longleftrightarrow> (\<exists>d. x = Num (Fin (of_int d)) \<and> \<bar>d\<bar> < 2 ^ 53)" for x
    by (metis is_safe_integerD is_safe_integer_int jsnum.inject)
  show ?thesis
    by (auto simp: scale_params_def zaccepts_simps d r1 r2 simp del: is_safe_integer.simps)
qed

definition file_path :: "jsval \<Rightarrow> string" where
  "file_path f = str_of (get_prop f ''path'')"

definition file_diff :: "jsval \<Rightarrow> string" where
  "file_diff f = str_of (get_prop f ''diff'')"

lemma patch_file_accepts:
  "zaccepts patch_file_schema f \<Longrightarrow>
     safe_patch_path (file_path f) \<and> 1 \<le> length (file_path f) \<and> length (file_path f) \<le> 256
     \<and> 1 \<le> length (file_diff f) \<and> length (file_diff f) \<le> 20000"
  by (auto simp: patch_file_schema_def zaccepts_simps file_path_def file_diff_def str_of_def)

lemma patch_params_files:
  assumes "zaccepts patch_params v"
  obtains vs where "get_prop v ''files'' = Arr vs" and "length vs \<le> 3"
    and "patch_files_issues vs = []" and "\<forall>f\<in>set vs. zaccepts patch_file_schema f"
    and "get_prop v ''test_added'' = Bool True"
  using assms by (auto simp: patch_params_def zaccepts_strict zaccepts_array zaccepts_literal)

lemma patch_files_issues_Nil:
  "patch_files_issues files = [] \<longleftrightarrow>
     sum_list (map (\<lambda>f. changed_lines (file_diff f)) files) \<le> 50
     \<and> (\<forall>f\<in>set files. test_path (file_path f) \<longrightarrow>
          \<not> list_ex deleted_line (split_lines (file_diff f)))"
proof -
  let ?bad = "\<lambda>f. test_path (file_path f)
           \<and> list_ex deleted_line (split_lines (file_diff f))"
  have "concat (map (\<lambda>(i, f). if ?bad f then [Issue [Idx i, Key ''diff''] Custom True] else []) (enumerate 0 files)) = []
    \<longleftrightarrow> (\<forall>f\<in>set (map snd (enumerate 0 files)). \<not> ?bad f)"
    by (auto simp: case_prod_beta simp del: map_snd_enumerate)
  then show ?thesis
    unfolding patch_files_issues_def file_path_def file_diff_def by (auto simp: not_less)
qed

end
