(* ===== verification/GateRouter.thy ===== *)
theory GateRouter
  imports CapabilityRegistry
begin

text \<open>
  \<open>router/src/router.ts\<close>: \<open>processActionPlan\<close>, the untrusted-plan entry point, which
  checks a plan gate by gate and approves none.  Then the properties of the registry's
  patch schema, which only this entry point uses.
\<close>

record gate_result =
  gr_status :: string
  gr_gate :: string
  gr_detail :: string

definition rejected :: "string \<Rightarrow> string \<Rightarrow> gate_result" where
  "rejected gate detail = \<lparr>gr_status = ''REJECTED'', gr_gate = gate, gr_detail = detail\<rparr>"

definition action_plan_schema :: zschema where
  "action_plan_schema = ZStrict [(''capability'', ZString (Some 1) None []), (''params'', ZUnknown)]"

text \<open>How JavaScript turns a value into a property key (the schema makes it a string here).\<close>

fun key_of :: "jsval \<Rightarrow> string" where
  "key_of (Str s) = s"
| "key_of Undefined = ''undefined''"
| "key_of Null = ''null''"
| "key_of (Bool b) = (if b then ''true'' else ''false'')"
| "key_of _ = ''[object Object]''"

definition issue_at_target :: "issue \<Rightarrow> bool" where
  "issue_at_target i = (ipath i \<noteq> [] \<and> hd (ipath i) = Key ''target'')"

definition issue_bounds :: "issue \<Rightarrow> bool" where
  "issue_bounds i = (icode i = TooSmall \<or> icode i = TooBig)"

definition process_action_plan :: "zod \<Rightarrow> jsval \<Rightarrow> gate_result" where
  "process_action_plan z payload =
     (case zparse z action_plan_schema payload of
        Inl iss \<Rightarrow> rejected ''GATE_1'' (zmessage z iss)
      | Inr plan \<Rightarrow>
          (let cap = key_of (get_prop plan ''capability'') in
           case map_of capabilities cap of
             None \<Rightarrow> rejected ''GATE_2'' (''Capability '' @ [CHR 0x27] @ cap @ [CHR 0x27] @ '' does not exist'')
           | Some def \<Rightarrow>
               (case zparse z (cap_params def) (get_prop plan ''params'') of
                  Inl iss \<Rightarrow>
                    (if list_ex issue_at_target iss then rejected ''GATE_4'' (zmessage z iss)
                     else if list_ex issue_bounds iss then rejected ''GATE_3'' (zmessage z iss)
                     else rejected ''GATE_1'' (zmessage z iss))
                | Inr params \<Rightarrow>
                    (if cap_risk def = ReviewOnly
                     then rejected ''GATE_6'' ''Capability requires external review; automatic approval is prohibited''
                     else rejected ''GATE_5''
                       ''Execution approval disabled: trusted blast-radius and cause-coherence checks are not implemented''))))"

section \<open>Which gate rejects\<close>

lemma rejected_sel [simp]:
  "gr_status (rejected g d) = ''REJECTED''" "gr_gate (rejected g d) = g" "gr_detail (rejected g d) = d"
  by (simp_all add: rejected_def)

lemma action_plan_accepts:
  "zaccepts action_plan_schema v \<longleftrightarrow>
     (\<exists>ps c. v = Obj ps \<and> prop_of ps ''capability'' = Str c \<and> c \<noteq> []
        \<and> set (map fst ps) \<subseteq> {''capability'', ''params''})"
  by (auto simp: action_plan_schema_def zaccepts_simps Suc_le_eq)

lemma action_plan_norm:
  assumes "zaccepts action_plan_schema v"
  shows "get_prop (znorm action_plan_schema v) ''capability'' = get_prop v ''capability''"
    and "get_prop (znorm action_plan_schema v) ''params'' = get_prop v ''params''"
  using assms by (auto simp: action_plan_accepts) (auto simp: action_plan_schema_def prop_of_def split: option.splits)

lemma list_ex_cong_set: "set xs = set ys \<Longrightarrow> list_ex P xs = list_ex P ys"
  by (simp add: list_ex_iff)

text \<open>The gate of a plan whose shape is right, by what its parameters are.\<close>

lemma process_known:
  assumes "zod_documented z" and "zaccepts action_plan_schema p"
    and "get_prop p ''capability'' = Str c" and "map_of capabilities c = Some def"
  shows "gr_gate (process_action_plan z p) =
     (let iss = zissues (cap_params def) (get_prop p ''params'') in
      if iss = [] then (if cap_risk def = ReviewOnly then ''GATE_6'' else ''GATE_5'')
      else if list_ex issue_at_target iss then ''GATE_4''
      else if list_ex issue_bounds iss then ''GATE_3''
      else ''GATE_1'')"
proof -
  note norm = action_plan_norm [OF assms(2)]
  have top: "zparse z action_plan_schema p = Inr (znorm action_plan_schema p)"
    using assms zparse_accepts by blast
  show ?thesis
    using assms(1)
  proof (cases rule: zparse_cases [of z "cap_params def" "get_prop p ''params''"])
    case accept
    then show ?thesis
      by (simp add: process_action_plan_def top norm assms zaccepts_def Let_def)
  next
    case (reject iss)
    note ex = list_ex_cong_set [OF reject(3)]
    from reject show ?thesis
      by (simp add: process_action_plan_def top norm assms zaccepts_def Let_def ex)
  qed
qed

lemma process_bad_shape:
  assumes "zod_documented z" and "\<not> zaccepts action_plan_schema p"
  shows "gr_gate (process_action_plan z p) = ''GATE_1''"
  using assms by (cases rule: zparse_cases [of z action_plan_schema p]) (simp_all add: process_action_plan_def)

lemma process_unknown:
  assumes "zod_documented z" and "zaccepts action_plan_schema p"
    and "get_prop p ''capability'' = Str c" and "map_of capabilities c = None"
  shows "gr_gate (process_action_plan z p) = ''GATE_2''"
proof -
  have "zparse z action_plan_schema p = Inr (znorm action_plan_schema p)"
    using assms zparse_accepts by blast
  then show ?thesis
    by (simp add: process_action_plan_def action_plan_norm [OF assms(2)] assms)
qed

lemma number_issues_code:
  "list_ex issue_bounds (number_issues True lo hi v) \<longleftrightarrow>
     (\<exists>r. v = Num (Fin r) \<and> is_integer (Fin r) \<and> number_issues True lo hi v \<noteq> [])"
proof (cases v)
  case (Num n)
  then show ?thesis
    by (cases n) (auto simp: issue_bounds_def split: option.splits if_splits simp del: is_safe_integer.simps)
qed (simp_all add: issue_bounds_def)

lemma issue_bounds_at_path: "list_ex issue_bounds (at_path p iss) = list_ex issue_bounds iss"
  by (auto simp: at_path_def list_ex_iff issue_bounds_def)

lemma strict_issue_bounds:
  "list_ex issue_bounds (zissues (ZStrict fs) (Obj ps)) \<longleftrightarrow>
     (\<exists>(k, s)\<in>set fs. list_ex issue_bounds (zissues s (prop_of ps k)))"
proof -
  have "list_ex issue_bounds (concat (map (\<lambda>(k, s). at_path (Key k) (zissues s (prop_of ps k))) fs)) \<longleftrightarrow>
     (\<exists>(k, s)\<in>set fs. list_ex issue_bounds (zissues s (prop_of ps k)))"
    by (induction fs) (auto simp: issue_bounds_at_path)
  then show ?thesis by (simp add: issue_bounds_def)
qed

lemma strict_issue_target:
  "list_ex issue_at_target (zissues (ZStrict fs) (Obj ps)) \<longleftrightarrow>
     (\<exists>s. (''target'', s) \<in> set fs \<and> \<not> zaccepts s (prop_of ps ''target''))"
  unfolding list_ex_iff issue_at_target_def by (rule strict_issue_at_key)

definition int_out_of :: "int \<Rightarrow> int \<Rightarrow> jsval \<Rightarrow> bool" where
  "int_out_of lo hi v = (case v of Num (Fin r) \<Rightarrow> is_integer (Fin r) \<and> \<not> (of_int lo \<le> r \<and> r \<le> of_int hi) | _ \<Rightarrow> False)"

lemma int_out_of_issues:
  assumes "\<bar>lo\<bar> < 2 ^ 53" and "\<bar>hi\<bar> < 2 ^ 53"
  shows "list_ex issue_bounds (number_issues True (Some (of_int lo, True)) (Some (of_int hi)) v) = int_out_of lo hi v"
proof (cases v)
  case (Num n)
  show ?thesis
  proof (cases n)
    case (Fin r)
    have safe: "is_integer (Fin r) \<Longrightarrow> of_int lo \<le> r \<Longrightarrow> r \<le> of_int hi \<Longrightarrow> is_safe_integer (Fin r)"
    proof -
      assume h: "is_integer (Fin r)" "of_int lo \<le> r" "r \<le> of_int hi"
      then obtain n where r: "r = of_int n" by (metis is_integer.simps(1))
      with h assms show ?thesis by (auto simp: abs_less_iff)
    qed
    show ?thesis
      unfolding number_issues_code int_out_of_def Num Fin using safe
      by (auto simp del: is_safe_integer.simps split: if_splits)
  qed (simp_all add: Num int_out_of_def issue_bounds_def)
qed (simp_all add: int_out_of_def issue_bounds_def)

lemma unsafe_int_issues:
  "list_ex issue_bounds (number_issues True None None v) = int_out_of (- (2 ^ 53 - 1)) (2 ^ 53 - 1) v"
proof (cases v)
  case (Num n)
  show ?thesis
  proof (cases n)
    case (Fin r)
    have "is_safe_integer (Fin (of_int i)) \<longleftrightarrow>
        of_int (- (2 ^ 53 - 1)) \<le> (of_int i :: rat) \<and> (of_int i :: rat) \<le> of_int (2 ^ 53 - 1)" for i
      unfolding of_int_le_iff by auto
    then have "is_integer (Fin r) \<Longrightarrow> is_safe_integer (Fin r) \<longleftrightarrow>
        of_int (- (2 ^ 53 - 1)) \<le> r \<and> r \<le> of_int (2 ^ 53 - 1)"
      by (metis is_integer.simps(1))
    then show ?thesis
      unfolding number_issues_code int_out_of_def Num Fin
      by (auto simp del: is_safe_integer.simps split: if_splits)
  qed (simp_all add: Num int_out_of_def issue_bounds_def)
qed (simp_all add: int_out_of_def issue_bounds_def)

lemma enum_no_bounds: "\<not> list_ex issue_bounds (zissues (ZEnum opts) v)"
  by (cases v) (auto simp: issue_bounds_def)

definition scale_plan :: "(string \<times> jsval) list \<Rightarrow> jsval" where
  "scale_plan ps = Obj [(''capability'', Str ''scale_service''), (''params'', Obj ps)]"

lemma scale_plan_simps [simp]:
  "zaccepts action_plan_schema (scale_plan ps)"
  "get_prop (scale_plan ps) ''capability'' = Str ''scale_service''"
  "get_prop (scale_plan ps) ''params'' = Obj ps"
  by (simp_all add: scale_plan_def action_plan_accepts prop_of_def)

text \<open>C12: \<open>processActionPlan\<close> on a \<open>scale_service\<close> plan.  An unknown target is reported at
  gate 4 whatever else is wrong; then an integer outside 1..5 replicas (or an unsafe
  \<open>delta\<close>) at gate 3; then any other malformed field at gate 1; and a plan with nothing
  wrong is still rejected, at gate 5, so this entry point approves no scaling.\<close>

theorem scale_plan_gate:
  assumes "zod_documented z"
  shows "gr_status (process_action_plan z (scale_plan ps)) = ''REJECTED'' \<and>
    gr_gate (process_action_plan z (scale_plan ps)) =
      (if \<not> (\<exists>t\<in>set service_targets. prop_of ps ''target'' = Str t) then ''GATE_4''
       else if int_out_of 1 5 (prop_of ps ''replicas'')
            \<or> int_out_of (- (2 ^ 53 - 1)) (2 ^ 53 - 1) (prop_of ps ''delta'') then ''GATE_3''
       else if zaccepts scale_params (Obj ps) then ''GATE_5''
       else ''GATE_1'')"
proof -
  have cap: "map_of capabilities ''scale_service'' =
      Some \<lparr>cap_risk = Low, cap_backend = ''docker'', cap_reversible = True, cap_params = scale_params\<rparr>"
    by (simp add: capabilities_def)
  have target: "list_ex issue_at_target (zissues scale_params (Obj ps)) \<longleftrightarrow>
      \<not> (\<exists>t\<in>set service_targets. prop_of ps ''target'' = Str t)"
    unfolding scale_params_def strict_issue_target by (auto simp: zaccepts_enum)
  have delta: "list_ex issue_bounds (zissues (ZOptional (ZNumber True None None)) (prop_of ps ''delta'')) =
      int_out_of (- (2 ^ 53 - 1)) (2 ^ 53 - 1) (prop_of ps ''delta'')"
    using unsafe_int_issues by (auto simp: int_out_of_def)
  have bounds: "list_ex issue_bounds (zissues scale_params (Obj ps)) \<longleftrightarrow>
      int_out_of 1 5 (prop_of ps ''replicas'') \<or> int_out_of (- (2 ^ 53 - 1)) (2 ^ 53 - 1) (prop_of ps ''delta'')"
    unfolding scale_params_def strict_issue_bounds
    using int_out_of_issues [of 1 5 "prop_of ps ''replicas''"] delta enum_no_bounds
    by (auto simp del: number_issues.simps zissues.simps(1,4-9))
  have empty: "zissues scale_params (Obj ps) = [] \<longleftrightarrow> zaccepts scale_params (Obj ps)"
    by (simp add: zaccepts_def)
  have gate: "gr_gate (process_action_plan z (scale_plan ps)) =
      (let iss = zissues scale_params (Obj ps) in
       if iss = [] then ''GATE_5'' else if list_ex issue_at_target iss then ''GATE_4''
       else if list_ex issue_bounds iss then ''GATE_3'' else ''GATE_1'')"
    using process_known [OF assms scale_plan_simps(1,2) cap] by simp
  have "gr_status (process_action_plan z (scale_plan ps)) = ''REJECTED''"
    by (auto simp: process_action_plan_def Let_def split: sum.splits option.splits)
  moreover have "zissues scale_params (Obj ps) = [] \<Longrightarrow>
      \<not> list_ex issue_at_target (zissues scale_params (Obj ps)) \<and> \<not> list_ex issue_bounds (zissues scale_params (Obj ps))"
    by simp
  ultimately show ?thesis
    unfolding gate Let_def target [symmetric] bounds [symmetric] empty [symmetric] by auto
qed

theorem scale_plan_gate_witness:
  "gr_gate (process_action_plan zod_ref (scale_plan [(''target'', Str ''selfheal-svc-api''), (''replicas'', Num (Fin 9))])) = ''GATE_3''"
  using scale_plan_gate [OF zod_documented_ref, of "[(''target'', Str ''selfheal-svc-api''), (''replicas'', Num (Fin 9))]"]
  by (simp add: prop_of_def service_targets_def int_out_of_def)

text \<open>C13: a plan that passes the patch checks (rejected only at gate 6, for review) has at
  most three files; each path stays inside the directory it is applied to, whatever that
  is, and names no protected segment; the counted changes over all diffs are at most 50,
  no counted deletion touches a test file, and a test was added.\<close>

theorem reviewed_patch_is_bounded:
  assumes "zod_documented z" and "gr_gate (process_action_plan z p) = ''GATE_6''"
  shows "\<exists>files. get_prop (get_prop p ''params'') ''files'' = Arr files \<and> length files \<le> 3
     \<and> sum_list (map (\<lambda>f. changed_lines (file_diff f)) files) \<le> 50
     \<and> get_prop (get_prop p ''params'') ''test_added'' = Bool True
     \<and> list_all (\<lambda>f. resolve_from dir (path_segments (file_path f)) = dir @ path_segments (file_path f)
          \<and> list_all (\<lambda>seg. \<not> protected_segment seg) (path_segments (file_path f))
          \<and> \<not> (test_path (file_path f) \<and> list_ex deleted_line (split_lines (file_diff f)))) files"
proof -
  have acc: "zaccepts action_plan_schema p"
    using process_bad_shape [OF assms(1), of p] assms(2) by force
  then obtain c where c: "get_prop p ''capability'' = Str c"
    by (auto simp: action_plan_accepts)
  obtain def where def: "map_of capabilities c = Some def"
    using process_unknown [OF assms(1) acc c] assms(2) by force
  have "zissues (cap_params def) (get_prop p ''params'') = []" and "cap_risk def = ReviewOnly"
    using process_known [OF assms(1) acc c def] assms(2) by (auto simp: Let_def split: if_splits)
  with def have "zaccepts patch_params (get_prop p ''params'')"
    by (auto simp: capabilities_def zaccepts_def split: if_splits)
  then obtain vs where vs: "get_prop (get_prop p ''params'') ''files'' = Arr vs" "length vs \<le> 3"
    "patch_files_issues vs = []" "\<forall>f\<in>set vs. zaccepts patch_file_schema f"
    "get_prop (get_prop p ''params'') ''test_added'' = Bool True"
    by (rule patch_params_files)
  moreover have "safe_patch_path (file_path f)" if "f \<in> set vs" for f
    using vs(4) patch_file_accepts that by blast
  ultimately show ?thesis
    unfolding patch_files_issues_Nil
    using safe_path_resolves safe_path_unprotected
    by (intro exI [of _ vs] conjI) (simp_all add: list_all_iff [of _ vs])
qed

definition patch_plan :: "string \<Rightarrow> string \<Rightarrow> jsval" where
  "patch_plan path diff = Obj
     [(''capability'', Str ''propose_patch''),
      (''params'', Obj
        [(''files'', Arr [Obj [(''path'', Str path), (''diff'', Str diff)]]),
         (''explanation'', Str []), (''test_added'', Bool True), (''confidence'', Num (Fin 1))])]"

lemma patch_plan_gate:
  assumes "zod_documented z" and "safe_patch_path path" and "1 \<le> length path" and "length path \<le> 256"
    and "1 \<le> length diff" and "length diff \<le> 20000" and "changed_lines diff \<le> 50"
    and "\<not> (test_path path \<and> list_ex deleted_line (split_lines diff))"
  shows "gr_gate (process_action_plan z (patch_plan path diff)) = ''GATE_6''"
proof -
  let ?f = "Obj [(''path'', Str path), (''diff'', Str diff)]"
  have fl: "file_path ?f = path" "file_diff ?f = diff"
    by (simp_all add: file_path_def file_diff_def str_of_def prop_of_def)
  have "zaccepts patch_file_schema ?f"
    using assms by (simp add: patch_file_schema_def zaccepts_simps prop_of_def)
  moreover have "patch_files_issues [?f] = []"
    using assms by (simp add: patch_files_issues_Nil fl)
  ultimately have "zaccepts patch_params (get_prop (patch_plan path diff) ''params'')"
    by (simp add: patch_params_def patch_plan_def zaccepts_simps prop_of_def)
  moreover have "map_of capabilities ''propose_patch'' =
      Some \<lparr>cap_risk = ReviewOnly, cap_backend = ''none'', cap_reversible = True, cap_params = patch_params\<rparr>"
    by (simp add: capabilities_def)
  moreover have "zaccepts action_plan_schema (patch_plan path diff)"
    "get_prop (patch_plan path diff) ''capability'' = Str ''propose_patch''"
    by (simp_all add: patch_plan_def action_plan_accepts prop_of_def)
  ultimately show ?thesis
    using process_known [OF assms(1)] by (simp add: zaccepts_def)
qed

theorem reviewed_patch_is_bounded_witness:
  "\<exists>files. get_prop (get_prop (patch_plan ''src/a.ts'' ''+x'') ''params'') ''files'' = Arr files \<and> length files \<le> 3"
proof -
  have "safe_patch_path ''src/a.ts''" and "changed_lines ''+x'' = 1" and "\<not> test_path ''src/a.ts''"
    by code_simp+
  then have "gr_gate (process_action_plan zod_ref (patch_plan ''src/a.ts'' ''+x'')) = ''GATE_6''"
    by (intro patch_plan_gate) simp_all
  from reviewed_patch_is_bounded [OF zod_documented_ref this] show ?thesis by blast
qed

text \<open>A hunk that deletes \<open>n\<close> lines reading \<open>-- x\<close> (a comment in SQL, Lua or Haskell).\<close>

definition comment_deletion :: "nat \<Rightarrow> string" where
  "comment_deletion n = concat (replicate n (''--- x'' @ [CHR 0x0A]))"

lemma split_comment_deletion:
  "split_on CHR 0x0A (comment_deletion n) = replicate n ''--- x'' @ [[]]"
proof (induction n)
  case (Suc n)
  have "comment_deletion (Suc n) = ''--- x'' @ CHR 0x0A # comment_deletion n"
    by (simp add: comment_deletion_def)
  then show ?case
    using split_on_append_sep [of "CHR 0x0A" "''--- x''"] Suc by simp
qed (simp add: comment_deletion_def)

lemma split_lines_comment_deletion: "split_lines (comment_deletion n) = replicate n ''--- x'' @ [[]]"
  by (simp add: split_lines_def split_comment_deletion strip_cr_def butlast_append)

text \<open>C14: the limit of 50 changed lines and the ban on deletions in test files do not
  bind.  In a unified diff the deletion of a line that starts with two dashes is itself
  written with three, which \<open>deleted_line\<close> takes for diff metadata: a patch that deletes
  up to 3333 such lines of a test file passes every automatic check.\<close>

theorem comment_deletions_are_not_counted:
  assumes "zod_documented z" and "0 < n" and "n \<le> 3333"
  shows "gr_gate (process_action_plan z (patch_plan ''tests/schema.sql'' (comment_deletion n))) = ''GATE_6''
     \<and> test_path ''tests/schema.sql''
     \<and> length (filter (starts_with ''-'') (split_lines (comment_deletion n))) = n"
proof -
  have len: "length (comment_deletion n) = 6 * n"
    by (simp add: comment_deletion_def length_concat sum_list_replicate)
  have path: "safe_patch_path ''tests/schema.sql''" and test: "test_path ''tests/schema.sql''"
    by code_simp+
  have "changed_lines (comment_deletion n) = 0"
    by (simp add: changed_lines_def split_lines_comment_deletion added_line_def deleted_line_def starts_with_def)
  moreover have "\<not> list_ex deleted_line (split_lines (comment_deletion n))"
    by (simp add: split_lines_comment_deletion list_ex_iff deleted_line_def starts_with_def)
  ultimately have "gr_gate (process_action_plan z (patch_plan ''tests/schema.sql'' (comment_deletion n))) = ''GATE_6''"
    using assms path by (intro patch_plan_gate) (simp_all add: len)
  with test show ?thesis
    by (simp add: split_lines_comment_deletion starts_with_def)
qed

theorem comment_deletions_are_not_counted_witness:
  "gr_gate (process_action_plan zod_ref (patch_plan ''tests/schema.sql'' (comment_deletion 1000))) = ''GATE_6''"
  using comment_deletions_are_not_counted [OF zod_documented_ref, of 1000] by simp

end
