(* ===== verification/CauseGate.thy ===== *)
theory CauseGate
  imports JsValue
begin

text \<open>
  \<open>router/src/security/cause-gate.ts\<close>: \<open>checkCauseCoherence\<close>, the hard veto that compares
  a proposed action with the trusted classification of the incident.  Numbers are
  doubles; \<open>1.2 * rpsBaseline\<close> is the double product with the double nearest to 1.2.
\<close>

record trusted_evidence =
  ev_cause :: string
  ev_ip_concentration :: "jsnum option"
  ev_tail_ratio :: "jsnum option"
  ev_rps :: "jsnum option"
  ev_rps_baseline :: "jsnum option"
  ev_replicas :: "jsnum option"
  ev_root_target :: "string option"

record proposed_action =
  pa_capability :: string
  pa_params :: jsval

datatype gate_decision = Allowed | Denied string

definition cause_allowed :: "(string \<times> string list) list" where
  "cause_allowed =
     [(''organic'', [''scale_service'', ''enable_cache'', ''warm_cache'']),
      (''attack_or_bot'', [''rate_limit_client'', ''challenge_client'', ''block_asn'', ''enable_waiting_room'']),
      (''crawler'', [''rate_limit_client'']),
      (''cache_transient'', [''warm_cache'', ''none'']),
      (''analytics_artifact'', [''none'']),
      (''UNKNOWN'', [''enable_waiting_room'', ''none'']),
      (''load_proportional'', [''scale_service'', ''enable_cache'']),
      (''pathological_request'', [''rate_limit_client'', ''set_flag'']),
      (''code_regression'', [''rollback_deploy'', ''set_flag'']),
      (''noisy_neighbour'', [''none''])]"

text \<open>The doubles nearest to 1.2 and 0.70.\<close>

definition dbl_1_2 :: rat where
  "dbl_1_2 = 5404319552844595 / 4503599627370496"

definition dbl_0_70 :: jsnum where
  "dbl_0_70 = Fin (3152519739159347 / 4503599627370496)"

definition concentrated :: "trusted_evidence \<Rightarrow> bool" where
  "concentrated e = (case ev_ip_concentration e of None \<Rightarrow> False | Some c \<Rightarrow> dbl_0_70 < c)"

definition pathological :: "trusted_evidence \<Rightarrow> bool" where
  "pathological e =
     (case (ev_tail_ratio e, ev_rps e, ev_rps_baseline e) of
        (Some t, Some r, Some b) \<Rightarrow> Fin 20 < t \<and> r \<le> dbl_scale dbl_1_2 b
      | _ \<Rightarrow> False)"

definition check_cause_coherence :: "proposed_action \<Rightarrow> trusted_evidence option \<Rightarrow> gate_decision" where
  "check_cause_coherence action evidence =
     (case evidence of
        None \<Rightarrow> Denied ''Unknown or missing trusted cause''
      | Some e \<Rightarrow>
          (case map_of cause_allowed (ev_cause e) of
             None \<Rightarrow> Denied ''Unknown or missing trusted cause''
           | Some allowed \<Rightarrow>
               if pa_capability action \<notin> set allowed
               then Denied ''Capability not permitted for trusted cause''
               else if pa_capability action = ''scale_service'' \<and> concentrated e
               then Denied ''Refusing to scale concentrated traffic''
               else if pa_capability action = ''scale_service'' \<and> pathological e
               then Denied ''Refusing to scale pathological request pattern''
               else if pa_capability action = ''restart_service''
                    \<and> (case ev_replicas e of None \<Rightarrow> True | Some n \<Rightarrow> n < Fin 2)
               then Denied ''Restart could remove last healthy replica''
               else if (case ev_root_target e of None \<Rightarrow> False
                        | Some t \<Rightarrow> t \<noteq> [] \<and> get_prop (pa_params action) ''target'' \<noteq> Str t
                                    \<and> pa_capability action \<noteq> ''open_circuit'')
               then Denied ''Action target differs from identified root cause''
               else Allowed))"

section \<open>Properties\<close>

lemma map_of_cause_allowed_set:
  "map_of cause_allowed c = Some caps \<Longrightarrow> cap \<in> set caps \<Longrightarrow>
     cap \<in> set (concat (map snd cause_allowed))"
  by (drule map_of_SomeD, simp only: set_concat set_map image_image) (rule UN_I, assumption, simp)

lemma scale_causes:
  "map_of cause_allowed c = Some caps \<Longrightarrow> ''scale_service'' \<in> set caps \<Longrightarrow>
     c = ''organic'' \<or> c = ''load_proportional''"
  by (auto simp: cause_allowed_def split: if_splits)

text \<open>C15: scaling is allowed exactly when the trusted cause is organic or proportional to
  load, the traffic is not concentrated on few clients, the latency tail is not that of a
  pathological request, and the target is the identified root cause (where one is named).\<close>

theorem scale_coherent_iff:
  "check_cause_coherence \<lparr>pa_capability = ''scale_service'', pa_params = p\<rparr> (Some e) = Allowed \<longleftrightarrow>
     ev_cause e \<in> {''organic'', ''load_proportional''} \<and> \<not> concentrated e \<and> \<not> pathological e
     \<and> (ev_root_target e = None \<or> ev_root_target e = Some []
        \<or> (\<exists>t. ev_root_target e = Some t \<and> get_prop p ''target'' = Str t))"
  (is "?lhs \<longleftrightarrow> ?rhs")
proof
  assume ?lhs
  then obtain caps where "map_of cause_allowed (ev_cause e) = Some caps" "''scale_service'' \<in> set caps"
    by (auto simp: check_cause_coherence_def split: option.splits if_splits)
  from scale_causes [OF this] \<open>?lhs\<close> show ?rhs
    by (auto simp: check_cause_coherence_def split: option.splits if_splits)
next
  assume ?rhs
  then obtain caps where "map_of cause_allowed (ev_cause e) = Some caps" "''scale_service'' \<in> set caps"
    by (auto simp: cause_allowed_def)
  with \<open>?rhs\<close> show ?lhs
    by (auto simp: check_cause_coherence_def split: option.splits)
qed

text \<open>Every capability the gate lets through is in the closed list of its table; no
  cause permits a restart, so the last-replica check of the code is never reached.\<close>

theorem coherent_capability_closed:
  assumes "check_cause_coherence a e = Allowed"
  shows "pa_capability a \<in> {''scale_service'', ''enable_cache'', ''warm_cache'', ''rate_limit_client'',
      ''challenge_client'', ''block_asn'', ''enable_waiting_room'', ''set_flag'', ''rollback_deploy'', ''none''}
    \<and> pa_capability a \<noteq> ''restart_service''"
proof -
  obtain c caps where "map_of cause_allowed c = Some caps" "pa_capability a \<in> set caps"
    using assms by (auto simp: check_cause_coherence_def split: option.splits if_splits)
  from map_of_cause_allowed_set [OF this] show ?thesis
    by (auto simp: cause_allowed_def)
qed

definition sample_evidence :: trusted_evidence where
  "sample_evidence = \<lparr>ev_cause = ''organic'', ev_ip_concentration = Some (Fin (1 / 4)),
     ev_tail_ratio = Some (Fin 2), ev_rps = Some (Fin 500), ev_rps_baseline = Some (Fin 200),
     ev_replicas = None, ev_root_target = Some ''selfheal-svc-api''\<rparr>"

theorem coherent_capability_closed_witness:
  "''scale_service'' \<noteq> ''restart_service'' \<and>
   check_cause_coherence \<lparr>pa_capability = ''scale_service'',
      pa_params = Obj [(''target'', Str ''selfheal-svc-api'')]\<rparr> (Some sample_evidence) = Allowed"
proof -
  have ok: "check_cause_coherence \<lparr>pa_capability = ''scale_service'',
      pa_params = Obj [(''target'', Str ''selfheal-svc-api'')]\<rparr> (Some sample_evidence) = Allowed"
    by (simp add: scale_coherent_iff) (simp add: sample_evidence_def concentrated_def pathological_def
        dbl_0_70_def prop_of_def)
  with coherent_capability_closed [OF ok] show ?thesis by simp
qed

end
