(* ===== verification/RateLimit.thy ===== *)
theory RateLimit
  imports Prelude "HOL-Library.Multiset"
begin

text \<open>
  The contract of a sliding-window rate limiter, as the in-process budget
  (\<open>security/safety-budget.ts\<close>) and the durable one (\<open>storage/action-store.ts\<close>) both
  promise it, and what follows for a whole history of calls: no window of the
  configured length ever holds more than the limit.  The laws speak of one step; the
  theorems below are about every sequence of steps whose clock does not run backwards.
\<close>

section \<open>The interface\<close>

text \<open>
  \<open>step e s\<close> is the state after the event \<open>e\<close>, which reads the clock first as
  \<open>clock e\<close> and stamps what it admits with \<open>stamp e\<close>; \<open>grant e s = Some k\<close> when it
  admits an action for key \<open>k\<close>; \<open>seen s k\<close> are the stamps the state still remembers.
\<close>

locale window_limiter =
  fixes step :: "'e \<Rightarrow> 's \<Rightarrow> 's"
    and clock :: "'e \<Rightarrow> int"
    and stamp :: "'e \<Rightarrow> int"
    and grant :: "'e \<Rightarrow> 's \<Rightarrow> 'k option"
    and seen :: "'s \<Rightarrow> 'k \<Rightarrow> int multiset"
    and wf :: "'s \<Rightarrow> bool"
    and window :: int
    and limit :: nat
  assumes window_pos: "0 < window"
    and wf_step: "wf s \<Longrightarrow> clock e \<le> stamp e \<Longrightarrow> (\<And>k u. u \<in># seen s k \<Longrightarrow> u \<le> clock e) \<Longrightarrow> wf (step e s)"
    and grant_below: "wf s \<Longrightarrow> grant e s = Some k \<Longrightarrow>
          size (filter_mset (\<lambda>u. clock e - window < u) (seen s k)) < limit"
    and seen_step: "wf s \<Longrightarrow> clock e \<le> stamp e \<Longrightarrow> filter_mset (\<lambda>u. clock e - window < u) (seen (step e s) k) =
          filter_mset (\<lambda>u. clock e - window < u) (seen s k) + (if grant e s = Some k then {#stamp e#} else {#})"
    and seen_only: "wf s \<Longrightarrow> u \<in># seen (step e s) k \<Longrightarrow> u \<in># seen s k \<or> u = stamp e"
begin

text \<open>The stamps admitted for \<open>k\<close> along a run, and the clock discipline of a run.\<close>

fun admitted :: "'s \<Rightarrow> 'e list \<Rightarrow> 'k \<Rightarrow> int list" where
  "admitted s [] k = []"
| "admitted s (e # es) k = (if grant e s = Some k then [stamp e] else []) @ admitted (step e s) es k"

fun monotone_from :: "int \<Rightarrow> 'e list \<Rightarrow> bool" where
  "monotone_from t [] = True"
| "monotone_from t (e # es) = (t \<le> clock e \<and> clock e \<le> stamp e \<and> monotone_from (stamp e) es)"

definition in_window :: "int \<Rightarrow> int list \<Rightarrow> nat" where
  "in_window x us = length (filter (\<lambda>u. x - window < u \<and> u \<le> x) us)"

lemma filter_mset_later:
  assumes "filter_mset (\<lambda>u. b < u) A = filter_mset (\<lambda>u. b < u) B" "b \<le> (c :: int)"
  shows "filter_mset (\<lambda>u. c < u) A = filter_mset (\<lambda>u. c < u) B"
proof -
  have "filter_mset (\<lambda>u. c < u) M = filter_mset (\<lambda>u. c < u) (filter_mset (\<lambda>u. b < u) M)" for M
    using \<open>b \<le> c\<close> by (induction M) auto
  with assms(1) show ?thesis by metis
qed

lemma window_bound_gen:
  assumes "wf s" "monotone_from t es"
    and past: "\<And>k u. u \<in># seen s k \<Longrightarrow> u \<le> t"
    and hist: "\<forall>u\<in>set H. u \<le> t"
    and same: "\<And>c. t \<le> c \<Longrightarrow>
       filter_mset (\<lambda>u. c - window < u) (mset H) = filter_mset (\<lambda>u. c - window < u) (seen s k)"
    and base: "\<And>x. in_window x H \<le> limit"
  shows "in_window x (H @ admitted s es k) \<le> limit"
  using assms
proof (induction es arbitrary: s t H)
  case Nil
  then show ?case by simp
next
  case (Cons e es)
  let ?g = "if grant e s = Some k then [stamp e] else []"
  let ?s = "step e s"
  have t: "t \<le> clock e" and st: "clock e \<le> stamp e" and mono: "monotone_from (stamp e) es"
    using Cons.prems(2) by auto
  have pastc: "u \<le> clock e" if "u \<in># seen s k'" for u k'
    using Cons.prems(3) [OF that] t by simp
  have wf': "wf ?s" by (rule wf_step [OF Cons.prems(1) st pastc])
  have past': "u \<le> stamp e" if "u \<in># seen ?s k'" for u k'
    using seen_only [OF Cons.prems(1) that] pastc [of u k'] st by auto
  have hist': "\<forall>u\<in>set (H @ ?g). u \<le> stamp e"
    using Cons.prems(4) t st by auto
  have now: "filter_mset (\<lambda>u. clock e - window < u) (mset (H @ ?g)) =
      filter_mset (\<lambda>u. clock e - window < u) (seen ?s k)"
    using seen_step [OF Cons.prems(1) st, of k] Cons.prems(5) [OF t] window_pos st by auto
  have same': "filter_mset (\<lambda>u. c - window < u) (mset (H @ ?g)) =
      filter_mset (\<lambda>u. c - window < u) (seen ?s k)" if "stamp e \<le> c" for c
    using that st by (intro filter_mset_later [OF now]) auto
  have base': "in_window y (H @ ?g) \<le> limit" for y
  proof (cases "grant e s = Some k \<and> y - window < stamp e \<and> stamp e \<le> y")
    case False
    then show ?thesis using Cons.prems(6) [of y] by (auto simp: in_window_def)
  next
    case True
    have "length (filter (\<lambda>u. y - window < u \<and> u \<le> y) H) \<le> length (filter (\<lambda>u. clock e - window < u) H)"
      using True st by (induction H) auto
    also have "\<dots> = size (filter_mset (\<lambda>u. clock e - window < u) (mset H))"
      by (simp flip: mset_filter)
    also have "\<dots> = size (filter_mset (\<lambda>u. clock e - window < u) (seen s k))"
      using Cons.prems(5) [OF t] by simp
    also have "\<dots> < limit" using grant_below [OF Cons.prems(1)] True by blast
    finally show ?thesis using True by (simp add: in_window_def)
  qed
  show ?case
    using Cons.IH [of ?s "stamp e" "H @ ?g", OF wf' mono past' hist' same' base'] by simp
qed

text \<open>From a state that remembers nothing, every window of every later run is within the limit.\<close>

lemma window_bound:
  assumes "wf s" "\<And>k. seen s k = {#}" "monotone_from t es"
  shows "in_window x (admitted s es k) \<le> limit"
  using window_bound_gen [of s t es "[]" k x] assms by (auto simp: in_window_def)

end

text \<open>A limiter that also keeps two admissions of one key apart.\<close>

locale cooled_limiter = window_limiter +
  fixes cooldown :: int
  assumes cooldown_window: "cooldown \<le> window"
    and grant_cool: "wf s \<Longrightarrow> (\<And>k u. u \<in># seen s k \<Longrightarrow> u \<le> clock e) \<Longrightarrow> grant e s = Some k \<Longrightarrow>
          u \<in># seen s k \<Longrightarrow> clock e - window < u \<Longrightarrow> cooldown \<le> clock e - u"
begin

lemma spacing_gen:
  assumes "wf s" "monotone_from t es"
    and past: "\<And>k u. u \<in># seen s k \<Longrightarrow> u \<le> t"
    and same: "\<And>c. t \<le> c \<Longrightarrow>
       filter_mset (\<lambda>u. c - window < u) (mset H) = filter_mset (\<lambda>u. c - window < u) (seen s k)"
    and base: "sorted_wrt (\<lambda>u v. cooldown \<le> v - u) H"
  shows "sorted_wrt (\<lambda>u v. cooldown \<le> v - u) (H @ admitted s es k)"
  using assms
proof (induction es arbitrary: s t H)
  case Nil
  then show ?case by simp
next
  case (Cons e es)
  let ?g = "if grant e s = Some k then [stamp e] else []"
  let ?s = "step e s"
  have t: "t \<le> clock e" and st: "clock e \<le> stamp e" and mono: "monotone_from (stamp e) es"
    using Cons.prems(2) by auto
  have pastc: "u \<le> clock e" if "u \<in># seen s k'" for u k'
    using Cons.prems(3) [OF that] t by simp
  have wf': "wf ?s" by (rule wf_step [OF Cons.prems(1) st pastc])
  have past': "u \<le> stamp e" if "u \<in># seen ?s k'" for u k'
    using seen_only [OF Cons.prems(1) that] pastc [of u k'] st by auto
  have now: "filter_mset (\<lambda>u. clock e - window < u) (mset (H @ ?g)) =
      filter_mset (\<lambda>u. clock e - window < u) (seen ?s k)"
    using seen_step [OF Cons.prems(1) st, of k] Cons.prems(4) [OF t] window_pos st by auto
  have same': "filter_mset (\<lambda>u. c - window < u) (mset (H @ ?g)) =
      filter_mset (\<lambda>u. c - window < u) (seen ?s k)" if "stamp e \<le> c" for c
    using that st by (intro filter_mset_later [OF now]) auto
  have apart: "cooldown \<le> stamp e - u" if g: "grant e s = Some k" and u: "u \<in> set H" for u
  proof (cases "clock e - window < u")
    case True
    with u have "u \<in># filter_mset (\<lambda>u. clock e - window < u) (mset H)" by simp
    with Cons.prems(4) [OF t] have seen: "u \<in># seen s k" by simp
    from pastc have "cooldown \<le> clock e - u"
      by (rule grant_cool [OF Cons.prems(1) _ g seen True])
    with st show ?thesis by simp
  next
    case False
    with cooldown_window st show ?thesis by simp
  qed
  have base': "sorted_wrt (\<lambda>u v. cooldown \<le> v - u) (H @ ?g)"
    using Cons.prems(5) apart by (simp add: sorted_wrt_append)
  show ?case
    using Cons.IH [of ?s "stamp e" "H @ ?g", OF wf' mono past' same' base'] by simp
qed

lemma spacing:
  assumes "wf s" "\<And>k. seen s k = {#}" "monotone_from t es"
  shows "sorted_wrt (\<lambda>u v. cooldown \<le> v - u) (admitted s es k)"
  using spacing_gen [of s t es "[]" k] assms by simp

end

end
