(* ===== verification/SafetyBudget.thy ===== *)
theory SafetyBudget
  imports RateLimit
begin

text \<open>
  The in-process action budget, \<open>router/src/security/safety-budget.ts\<close>: at most
  \<open>perTargetLimit\<close> actions per target and \<open>globalLimit\<close> altogether in a sliding window,
  a cooldown between actions on one target, and one action in flight per target.
  \<open>execute\<close> is asynchronous: \<open>sb_begin\<close> is its synchronous part up to the first
  \<open>await\<close>, \<open>sb_end\<close> its \<open>finally\<close> block, and other calls may run in between.
\<close>

section \<open>State and operations\<close>

record budget_config =
  perTargetLimit :: nat
  globalLimit :: nat
  windowMs :: int
  cooldownMs :: int

definition DEFAULT_BUDGET :: budget_config where
  "DEFAULT_BUDGET = \<lparr>perTargetLimit = 3, globalLimit = 8, windowMs = 15 * 60 * 1000, cooldownMs = 90 * 1000\<rparr>"

datatype budget_decision = Permit | Refuse string

text \<open>\<open>history\<close> is a \<open>Map\<close>, in insertion order; \<open>active\<close> is a \<open>Set\<close>.\<close>

record safety_budget =
  history :: "(string \<times> int list) list"
  active :: "string list"

definition new_budget :: safety_budget where
  "new_budget = \<lparr>history = [], active = []\<rparr>"

definition history_of :: "safety_budget \<Rightarrow> string \<Rightarrow> int list" where
  "history_of s target = (case map_of (history s) target of None \<Rightarrow> [] | Some ts \<Rightarrow> ts)"

text \<open>The loop of \<open>check\<close>: expired stamps are dropped, a key with none left is deleted.\<close>

fun prune :: "int \<Rightarrow> (string \<times> int list) list \<Rightarrow> (string \<times> int list) list" where
  "prune cutoff [] = []"
| "prune cutoff ((key, timestamps) # h) =
     (let recent = filter (\<lambda>time. time > cutoff) timestamps
      in if recent = [] then prune cutoff h else (key, recent) # prune cutoff h)"

definition sb_check :: "budget_config \<Rightarrow> int \<Rightarrow> string \<Rightarrow> safety_budget \<Rightarrow> budget_decision \<times> safety_budget" where
  "sb_check c now target s =
     (if target \<in> set (active s) then (Refuse ''target_mutex_locked'', s)
      else
        let h = prune (now - windowMs c) (history s);
            globalCount = sum_list (map (length \<circ> snd) h);
            s' = s\<lparr>history := h\<rparr>;
            targetHistory = history_of s' target
        in if length targetHistory \<ge> perTargetLimit c then (Refuse ''target_budget_exceeded'', s')
           else if globalCount \<ge> globalLimit c then (Refuse ''global_budget_exceeded'', s')
           else if targetHistory \<noteq> [] \<and> now - last targetHistory < cooldownMs c
           then (Refuse ''target_cooldown_active'', s')
           else (Permit, s'))"

text \<open>The reservation \<open>execute\<close> makes before it starts the operation.\<close>

definition record_action :: "string \<Rightarrow> int \<Rightarrow> safety_budget \<Rightarrow> safety_budget" where
  "record_action target t s = s\<lparr>active := List.insert target (active s),
     history := AList.update target (history_of s target @ [t]) (history s)\<rparr>"

definition sb_begin :: "budget_config \<Rightarrow> int \<Rightarrow> int \<Rightarrow> string \<Rightarrow> safety_budget \<Rightarrow> unit result \<times> safety_budget" where
  "sb_begin c now1 now2 target s =
     (case sb_check c now1 target s of
        (Refuse r, s') \<Rightarrow> (Inl r, s')
      | (Permit, s') \<Rightarrow> (Inr (), record_action target now2 s'))"

definition sb_end :: "string \<Rightarrow> safety_budget \<Rightarrow> safety_budget" where
  "sb_end target s = s\<lparr>active := removeAll target (active s)\<rparr>"

text \<open>\<open>execute\<close> with an operation that may itself use the budget.\<close>

definition sb_execute ::
  "budget_config \<Rightarrow> int \<Rightarrow> int \<Rightarrow> string \<Rightarrow> (safety_budget \<Rightarrow> 'r result \<times> safety_budget) \<Rightarrow>
     safety_budget \<Rightarrow> 'r result \<times> safety_budget" where
  "sb_execute c now1 now2 target operation s =
     (case sb_begin c now1 now2 target s of
        (Inl r, s') \<Rightarrow> (Inl r, s')
      | (Inr _, s') \<Rightarrow> (case operation s' of (res, s'') \<Rightarrow> (res, sb_end target s'')))"

text \<open>The calls on one budget, each with the times its clock reads give.\<close>

datatype budget_call =
    Check string int
  | Begin string int int
  | End string int

fun call_clock :: "budget_call \<Rightarrow> int" where
  "call_clock (Check tg t) = t"
| "call_clock (Begin tg t1 t2) = t1"
| "call_clock (End tg t) = t"

fun call_stamp :: "budget_call \<Rightarrow> int" where
  "call_stamp (Check tg t) = t"
| "call_stamp (Begin tg t1 t2) = t2"
| "call_stamp (End tg t) = t"

fun sb_step :: "budget_config \<Rightarrow> budget_call \<Rightarrow> safety_budget \<Rightarrow> safety_budget" where
  "sb_step c (Check tg t) s = snd (sb_check c t tg s)"
| "sb_step c (Begin tg t1 t2) s = snd (sb_begin c t1 t2 tg s)"
| "sb_step c (End tg t) s = sb_end tg s"

fun sb_grant :: "budget_config \<Rightarrow> budget_call \<Rightarrow> safety_budget \<Rightarrow> string option" where
  "sb_grant c (Begin tg t1 t2) s = (case fst (sb_begin c t1 t2 tg s) of Inl _ \<Rightarrow> None | Inr _ \<Rightarrow> Some tg)"
| "sb_grant c _ s = None"

text \<open>The actions a sequence of calls admits, with their stamps, oldest first.\<close>

fun sb_admissions :: "budget_config \<Rightarrow> safety_budget \<Rightarrow> budget_call list \<Rightarrow> (string \<times> int) list" where
  "sb_admissions c s [] = []"
| "sb_admissions c s (e # es) =
     (case sb_grant c e s of None \<Rightarrow> [] | Some tg \<Rightarrow> [(tg, call_stamp e)]) @ sb_admissions c (sb_step c e s) es"

fun clock_monotone :: "int \<Rightarrow> budget_call list \<Rightarrow> bool" where
  "clock_monotone t [] = True"
| "clock_monotone t (e # es) = (t \<le> call_clock e \<and> call_clock e \<le> call_stamp e \<and> clock_monotone (call_stamp e) es)"

section \<open>What one call does\<close>

definition sb_wf :: "safety_budget \<Rightarrow> bool" where
  "sb_wf s = (distinct (map fst (history s)) \<and> (\<forall>p\<in>set (history s). sorted (snd p)))"

definition all_stamps :: "safety_budget \<Rightarrow> int list" where
  "all_stamps s = concat (map snd (history s))"

lemma prune_Cons:
  "prune b ((k, ts) # h) =
     (if filter (\<lambda>u. u > b) ts = [] then prune b h else (k, filter (\<lambda>u. u > b) ts) # prune b h)"
  by (simp add: Let_def)

declare prune.simps(2) [simp del]

lemma prune_filter: "prune b h = filter (\<lambda>p. snd p \<noteq> []) (map (\<lambda>(k, ts). (k, filter (\<lambda>u. u > b) ts)) h)"
  by (induction h) (auto simp: prune_Cons)

lemma prune_keys: "k \<in> fst ` set (prune b h) \<Longrightarrow> k \<in> fst ` set h"
  by (force simp: prune_filter)

lemma prune_wf: "distinct (map fst h) \<Longrightarrow> distinct (map fst (prune b h))"
  unfolding prune_filter by (rule distinct_map_filter) (simp add: comp_def case_prod_unfold)

lemma prune_sorted: "\<forall>p\<in>set h. sorted (snd p) \<Longrightarrow> \<forall>p\<in>set (prune b h). sorted (snd p)"
  by (auto simp: prune_filter sorted_wrt_filter)

lemma prune_map_of:
  "distinct (map fst h) \<Longrightarrow>
     (case map_of (prune b h) k of None \<Rightarrow> [] | Some ts \<Rightarrow> ts) =
       filter (\<lambda>u. u > b) (case map_of h k of None \<Rightarrow> [] | Some ts \<Rightarrow> ts)"
proof (induction h)
  case (Cons p h)
  obtain key ts where p: "p = (key, ts)" by (cases p)
  have "map_of (prune b h) key = None" "map_of h key = None"
    using Cons.prems prune_keys [of key b h] by (auto simp: p map_of_eq_None_iff)
  with Cons show ?case by (auto simp: p prune_Cons)
qed simp

lemma prune_concat: "concat (map snd (prune b h)) = filter (\<lambda>u. u > b) (concat (map snd h))"
  by (induction h) (auto simp: prune_Cons)

lemma history_of_prune:
  "sb_wf s \<Longrightarrow> history_of (s\<lparr>history := prune b (history s)\<rparr>) k = filter (\<lambda>u. u > b) (history_of s k)"
  by (simp add: history_of_def sb_wf_def prune_map_of)

lemma global_count: "sum_list (map (length \<circ> snd) h) = length (concat (map snd h))"
  by (induction h) auto

lemma mset_concat_update:
  "distinct (map fst h) \<Longrightarrow>
     mset (concat (map snd (AList.update k ((case map_of h k of None \<Rightarrow> [] | Some ts \<Rightarrow> ts) @ [t]) h))) =
     add_mset t (mset (concat (map snd h)))"
  by (induction h) auto

lemma sb_check_active: "target \<in> set (active s) \<Longrightarrow> sb_check c now target s = (Refuse ''target_mutex_locked'', s)"
  by (simp add: sb_check_def)

lemma sb_check_state:
  "target \<notin> set (active s) \<Longrightarrow>
     snd (sb_check c now target s) = s\<lparr>history := prune (now - windowMs c) (history s)\<rparr>"
  by (simp add: sb_check_def Let_def)

lemma sb_wf_prune: "sb_wf s \<Longrightarrow> sb_wf (s\<lparr>history := prune b (history s)\<rparr>)"
  using prune_wf [of "history s" b] prune_sorted [of "history s" b] by (simp add: sb_wf_def)

lemma sb_check_permit_iff:
  assumes "sb_wf s"
  shows "fst (sb_check c now target s) = Permit \<longleftrightarrow>
     target \<notin> set (active s)
     \<and> length (filter (\<lambda>u. u > now - windowMs c) (history_of s target)) < perTargetLimit c
     \<and> length (filter (\<lambda>u. u > now - windowMs c) (all_stamps s)) < globalLimit c
     \<and> (let ts = filter (\<lambda>u. u > now - windowMs c) (history_of s target)
        in ts = [] \<or> cooldownMs c \<le> now - last ts)"
  by (auto simp: sb_check_def Let_def history_of_prune [OF assms] global_count prune_concat all_stamps_def)

lemma sb_begin_cases:
  "sb_begin c t1 t2 target s =
     (case fst (sb_check c t1 target s) of
        Refuse r \<Rightarrow> (Inl r, snd (sb_check c t1 target s))
      | Permit \<Rightarrow> (let s' = snd (sb_check c t1 target s)
                  in (Inr (), record_action target t2 s')))"
  by (simp add: sb_begin_def split: prod.split budget_decision.split)

lemma sb_check_wf: "sb_wf s \<Longrightarrow> sb_wf (snd (sb_check c t tg s))"
  by (cases "tg \<in> set (active s)") (simp_all add: sb_check_active sb_check_state sb_wf_prune)

lemma history_of_check:
  "sb_wf s \<Longrightarrow> filter (\<lambda>u. u > t - windowMs c) (history_of (snd (sb_check c t tg s)) k) =
     filter (\<lambda>u. u > t - windowMs c) (history_of s k)"
  by (cases "tg \<in> set (active s)") (simp_all add: sb_check_active sb_check_state history_of_prune)

lemma all_stamps_check:
  "filter (\<lambda>u. u > t - windowMs c) (all_stamps (snd (sb_check c t tg s))) =
     filter (\<lambda>u. u > t - windowMs c) (all_stamps s)"
  by (cases "tg \<in> set (active s)")
    (simp_all add: sb_check_active sb_check_state all_stamps_def prune_concat)

lemma history_of_check_sub: "sb_wf s \<Longrightarrow> set (history_of (snd (sb_check c t tg s)) k) \<subseteq> set (history_of s k)"
  by (cases "tg \<in> set (active s)") (auto simp: sb_check_active sb_check_state history_of_prune)

lemma all_stamps_check_sub: "set (all_stamps (snd (sb_check c t tg s))) \<subseteq> set (all_stamps s)"
  by (cases "tg \<in> set (active s)") (auto simp: sb_check_active sb_check_state all_stamps_def prune_filter)

lemma history_of_record:
  "history_of (record_action target t s) k = (if k = target then history_of s k @ [t] else history_of s k)"
  by (simp add: record_action_def history_of_def update_conv)

lemma all_stamps_record:
  "sb_wf s \<Longrightarrow> mset (all_stamps (record_action target t s)) = add_mset t (mset (all_stamps s))"
  using mset_concat_update [of "history s" target t]
  by (simp add: record_action_def all_stamps_def sb_wf_def history_of_def)

lemma sorted_history: "sb_wf s \<Longrightarrow> sorted (history_of s k)"
  by (auto simp: sb_wf_def history_of_def dest!: map_of_SomeD split: option.splits)

lemma history_of_all: "u \<in> set (history_of s k) \<Longrightarrow> u \<in> set (all_stamps s)"
  by (cases "map_of (history s) k") (force simp: history_of_def all_stamps_def dest: map_of_SomeD)+

lemma set_update_sub: "set (AList.update k v xs) \<subseteq> insert (k, v) (set xs)"
  by (induction xs) auto

lemma wf_record:
  assumes "sb_wf s" "\<forall>u\<in>set (history_of s target). u \<le> t"
  shows "sb_wf (record_action target t s)"
proof -
  have "sorted (history_of s target @ [t])"
    using assms sorted_history [OF assms(1)] by (simp add: sorted_append)
  moreover have "set (AList.update target v (history s)) \<subseteq> insert (target, v) (set (history s))" for v
    using set_update_sub [of target v "history s"] by blast
  ultimately show ?thesis
    using assms(1) by (fastforce simp: sb_wf_def record_action_def distinct_update)
qed

lemma sb_end_simps [simp]:
  "sb_wf (sb_end tg s) = sb_wf s" "history_of (sb_end tg s) = history_of s"
  "all_stamps (sb_end tg s) = all_stamps s"
  by (simp_all add: sb_end_def sb_wf_def history_of_def fun_eq_iff all_stamps_def)

lemma set_all_stamps_record:
  "sb_wf s \<Longrightarrow> set (all_stamps (record_action target t s)) = insert t (set (all_stamps s))"
  using arg_cong [OF all_stamps_record, of s set_mset target t] by simp

lemma sb_step_wf:
  assumes "sb_wf s" "call_clock e \<le> call_stamp e" "\<And>u. u \<in> set (all_stamps s) \<Longrightarrow> u \<le> call_clock e"
  shows "sb_wf (sb_step c e s)"
proof (cases e)
  case (Begin tg t1 t2)
  let ?s = "snd (sb_check c t1 tg s)"
  have "\<forall>u\<in>set (history_of ?s tg). u \<le> t2"
    using history_of_all [of _ ?s tg] all_stamps_check_sub [of c t1 tg s] assms(2,3) Begin by fastforce
  with sb_check_wf [OF assms(1), of c t1 tg] wf_record [of ?s tg t2] show ?thesis
    by (simp add: Begin sb_begin_cases Let_def split: budget_decision.split)
qed (use assms(1) in \<open>simp_all add: sb_check_wf\<close>)

lemma sb_grant_Begin:
  "sb_grant c e s = Some k \<longleftrightarrow>
     (\<exists>t1 t2. e = Begin k t1 t2 \<and> fst (sb_check c t1 k s) = Permit)"
  by (cases e) (auto simp: sb_begin_cases Let_def split: budget_decision.splits)

lemma history_of_step:
  assumes "sb_wf s" "0 < windowMs c" "call_clock e \<le> call_stamp e"
  shows "filter (\<lambda>u. u > call_clock e - windowMs c) (history_of (sb_step c e s) k) =
     filter (\<lambda>u. u > call_clock e - windowMs c) (history_of s k)
       @ (if sb_grant c e s = Some k then [call_stamp e] else [])"
proof (cases e)
  case (Begin tg t1 t2)
  with assms show ?thesis
    by (auto simp: sb_begin_cases Let_def history_of_check history_of_record split: budget_decision.split)
qed (use assms(1) in \<open>simp_all add: history_of_check\<close>)

lemma all_stamps_step:
  assumes "sb_wf s" "0 < windowMs c" "call_clock e \<le> call_stamp e"
  shows "filter_mset (\<lambda>u. u > call_clock e - windowMs c) (mset (all_stamps (sb_step c e s))) =
     filter_mset (\<lambda>u. u > call_clock e - windowMs c) (mset (all_stamps s))
       + (if sb_grant c e s \<noteq> None then {#call_stamp e#} else {#})"
proof (cases e)
  case (Begin tg t1 t2)
  have "filter_mset (\<lambda>u. u > t1 - windowMs c) (mset (all_stamps (snd (sb_check c t1 tg s)))) =
     filter_mset (\<lambda>u. u > t1 - windowMs c) (mset (all_stamps s))"
    using all_stamps_check [of t1 c tg s] by (simp flip: mset_filter)
  with assms Begin show ?thesis
    by (auto simp: sb_begin_cases Let_def all_stamps_record sb_check_wf split: budget_decision.split)
qed (simp_all add: all_stamps_check flip: mset_filter)

lemma all_stamps_only:
  assumes "sb_wf s" "u \<in> set (all_stamps (sb_step c e s))"
  shows "u \<in> set (all_stamps s) \<or> u = call_stamp e"
proof (cases e)
  case (Begin tg t1 t2)
  with assms all_stamps_check_sub [of c t1 tg s] set_all_stamps_record [OF sb_check_wf [OF assms(1)]]
  show ?thesis
    by (auto simp: sb_begin_cases Let_def split: budget_decision.splits)
qed (use assms(2) all_stamps_check_sub in \<open>fastforce\<close>)+

lemma history_of_only:
  assumes "sb_wf s" "u \<in> set (history_of (sb_step c e s) k)"
  shows "u \<in> set (history_of s k) \<or> u = call_stamp e"
proof (cases e)
  case (Begin tg t1 t2)
  with assms history_of_check_sub [OF assms(1), of c t1 tg k] show ?thesis
    by (auto simp: sb_begin_cases Let_def history_of_record split: budget_decision.splits if_splits)
qed (use assms history_of_check_sub in \<open>fastforce\<close>)+

section \<open>The window guarantees\<close>

text \<open>
  A configuration is usable when its window is positive and not shorter than the
  cooldown (a longer cooldown is forgotten when the window prunes the stamp).
\<close>

definition usable_config :: "budget_config \<Rightarrow> bool" where
  "usable_config c = (0 < windowMs c \<and> cooldownMs c \<le> windowMs c)"

locale budget_setting =
  fixes c :: budget_config
  assumes usable: "usable_config c"
begin

lemma window_positive: "0 < windowMs c"
  using usable by (simp add: usable_config_def)

end

lemma all_stamps_history:
  assumes "sb_wf s" "u \<in> set (all_stamps s)"
  obtains k where "u \<in> set (history_of s k)"
proof -
  from assms(2) obtain k ts where kts: "(k, ts) \<in> set (history s)" "u \<in> set ts"
    by (auto simp: all_stamps_def)
  with assms(1) have "map_of (history s) k = Some ts"
    by (simp add: sb_wf_def)
  with kts(2) show thesis
    by (intro that [of k]) (simp add: history_of_def)
qed

lemma sorted_le_last: "sorted ts \<Longrightarrow> u \<in> set ts \<Longrightarrow> u \<le> last (ts :: int list)"
  by (induction ts) auto

lemma last_recent_max:
  "sorted ts \<Longrightarrow> u \<in> set ts \<Longrightarrow> b < u \<Longrightarrow> u \<le> last (filter (\<lambda>u. u > b) (ts :: int list))"
  by (rule sorted_le_last) (auto simp: sorted_wrt_filter)

lemma grant_cool:
  assumes "sb_wf s" "sb_grant c e s = Some k" "u \<in> set (history_of s k)" "call_clock e - windowMs c < u"
  shows "cooldownMs c \<le> call_clock e - u"
proof -
  from assms(2) obtain t1 t2 where e: "e = Begin k t1 t2" and ok: "fst (sb_check c t1 k s) = Permit"
    by (auto simp: sb_grant_Begin)
  have "u \<le> last (filter (\<lambda>u. u > t1 - windowMs c) (history_of s k))"
    using last_recent_max [OF sorted_history [OF assms(1)] assms(3)] assms(4) by (simp add: e)
  moreover have "filter (\<lambda>u. u > t1 - windowMs c) (history_of s k) \<noteq> []"
    using assms(3,4) by (auto simp: e filter_empty_conv)
  ultimately show ?thesis
    using ok by (auto simp: e sb_check_permit_iff [OF assms(1)] Let_def)
qed

sublocale budget_setting \<subseteq> per_target: cooled_limiter
  "sb_step c" call_clock call_stamp "sb_grant c" "\<lambda>s k. mset (history_of s k)" sb_wf
  "windowMs c" "perTargetLimit c" "cooldownMs c"
proof (unfold_locales, goal_cases)
  case 1
  show ?case by (rule window_positive)
next
  case (2 s e)
  show ?case
  proof (rule sb_step_wf [OF 2(1,2)])
    fix u assume "u \<in> set (all_stamps s)"
    from all_stamps_history [OF 2(1) this] obtain k where "u \<in> set (history_of s k)" .
    with 2(3) [of u k] show "u \<le> call_clock e" by simp
  qed
next
  case (3 s e k)
  then show ?case
    by (auto simp: sb_grant_Begin sb_check_permit_iff simp flip: mset_filter)
next
  case (4 s e k)
  with history_of_step [OF 4(1) window_positive 4(2), of k] show ?case
    by (simp flip: mset_filter)
next
  case (5 s u e k)
  with history_of_only [OF 5(1), of u c e k] show ?case by simp
next
  case 6
  show ?case using usable by (simp add: usable_config_def)
next
  case (7 s e k u)
  with grant_cool [OF 7(1), of c e k u] show ?case by simp
qed

sublocale budget_setting \<subseteq> overall: window_limiter
  "sb_step c" call_clock call_stamp "\<lambda>e s. map_option (\<lambda>_. ()) (sb_grant c e s)"
  "\<lambda>s _. mset (all_stamps s)" sb_wf "windowMs c" "globalLimit c"
proof (unfold_locales, goal_cases)
  case 1
  show ?case by (rule window_positive)
next
  case (2 s e)
  then show ?case by (intro sb_step_wf) auto
next
  case (3 s e k)
  then show ?case
    by (auto simp: sb_grant_Begin sb_check_permit_iff simp flip: mset_filter)
next
  case (4 s e k)
  with all_stamps_step [OF 4(1) window_positive 4(2)] show ?case by auto
next
  case (5 s u e k)
  with all_stamps_only [OF 5(1), of u c e] show ?case by simp
qed

interpretation default_budget: budget_setting DEFAULT_BUDGET
  by unfold_locales (simp add: usable_config_def DEFAULT_BUDGET_def)

context budget_setting begin

lemma admissions_per_target:
  "map snd (filter (\<lambda>p. fst p = k) (sb_admissions c s es)) = per_target.admitted s es k"
  by (induction es arbitrary: s) (auto split: option.split)

lemma admissions_overall: "map snd (sb_admissions c s es) = overall.admitted s es ()"
  by (induction es arbitrary: s) (auto split: option.split)

lemma monotone_per_target: "clock_monotone t es \<longleftrightarrow> per_target.monotone_from t es"
  by (induction es arbitrary: t) auto

lemma monotone_overall: "clock_monotone t es \<longleftrightarrow> overall.monotone_from t es"
  by (induction es arbitrary: t) auto

lemma window_per_target:
  "clock_monotone t es \<Longrightarrow>
     length (filter (\<lambda>p. fst p = k \<and> x - windowMs c < snd p \<and> snd p \<le> x) (sb_admissions c new_budget es))
       \<le> perTargetLimit c"
  using per_target.window_bound [of new_budget t es x k]
  by (simp add: monotone_per_target per_target.in_window_def history_of_def new_budget_def sb_wf_def
      filter_map comp_def conj_commute conj_left_commute flip: admissions_per_target)

lemma window_overall:
  "clock_monotone t es \<Longrightarrow>
     length (filter (\<lambda>p. x - windowMs c < snd p \<and> snd p \<le> x) (sb_admissions c new_budget es))
       \<le> globalLimit c"
  using overall.window_bound [of new_budget t es x "()"]
  by (simp add: monotone_overall overall.in_window_def all_stamps_def new_budget_def sb_wf_def
      filter_map comp_def flip: admissions_overall)

lemma spacing_per_target:
  "clock_monotone t es \<Longrightarrow>
     sorted_wrt (\<lambda>u v. cooldownMs c \<le> v - u)
       (map snd (filter (\<lambda>p. fst p = k) (sb_admissions c new_budget es)))"
  using per_target.spacing [of new_budget t es k]
  by (simp add: monotone_per_target admissions_per_target history_of_def new_budget_def sb_wf_def)

end

section \<open>Properties\<close>

text \<open>along every sequence of calls whose clock does not run backwards, no window of
  \<open>windowMs\<close> holds more than \<open>perTargetLimit\<close> admitted actions of one target, nor more than
  \<open>globalLimit\<close> altogether, although the code forgets the expired stamps at every check.\<close>

theorem budget_windows:
  assumes "usable_config c" "clock_monotone t calls"
  shows "length (filter (\<lambda>p. fst p = target \<and> x - windowMs c < snd p \<and> snd p \<le> x)
            (sb_admissions c new_budget calls)) \<le> perTargetLimit c
       \<and> length (filter (\<lambda>p. x - windowMs c < snd p \<and> snd p \<le> x)
            (sb_admissions c new_budget calls)) \<le> globalLimit c"
  using assms budget_setting.window_per_target budget_setting.window_overall budget_setting.intro
  by blast

definition sample_calls :: "budget_call list" where
  "sample_calls = [Begin ''api'' 0 0, End ''api'' 10, Begin ''api'' 50000 50000,
     Begin ''api'' 90000 90001, Begin ''db'' 90002 90002, Check ''api'' 90003]"

theorem budget_windows_witness:
  "sb_admissions DEFAULT_BUDGET new_budget sample_calls = [(''api'', 0), (''api'', 90001), (''db'', 90002)]
   \<and> length (filter (\<lambda>p. fst p = ''api'' \<and> 90001 - windowMs DEFAULT_BUDGET < snd p \<and> snd p \<le> 90001)
            (sb_admissions DEFAULT_BUDGET new_budget sample_calls)) \<le> 3"
proof
  show "sb_admissions DEFAULT_BUDGET new_budget sample_calls = [(''api'', 0), (''api'', 90001), (''db'', 90002)]"
    by code_simp
  have "usable_config DEFAULT_BUDGET" "clock_monotone 0 sample_calls" by code_simp+
  from budget_windows [OF this, of "''api''" 90001]
  show "length (filter (\<lambda>p. fst p = ''api'' \<and> 90001 - windowMs DEFAULT_BUDGET < snd p \<and> snd p \<le> 90001)
            (sb_admissions DEFAULT_BUDGET new_budget sample_calls)) \<le> 3"
    by (simp add: DEFAULT_BUDGET_def)
qed

text \<open>Two admitted actions on one target are at least the cooldown apart.\<close>

theorem budget_cooldown:
  assumes "usable_config c" "clock_monotone t calls"
  shows "sorted_wrt (\<lambda>u v. cooldownMs c \<le> v - u)
       (map snd (filter (\<lambda>p. fst p = target) (sb_admissions c new_budget calls)))"
  using assms budget_setting.spacing_per_target budget_setting.intro by blast

theorem budget_cooldown_witness:
  "sorted_wrt (\<lambda>u v. 90000 \<le> v - u)
     (map snd (filter (\<lambda>p. fst p = ''api'') (sb_admissions DEFAULT_BUDGET new_budget sample_calls)))
   \<and> sb_admissions DEFAULT_BUDGET new_budget sample_calls \<noteq> []"
proof
  have "usable_config DEFAULT_BUDGET" "clock_monotone 0 sample_calls" by code_simp+
  from budget_cooldown [OF this, of "''api''"]
  show "sorted_wrt (\<lambda>u v. 90000 \<le> v - u)
     (map snd (filter (\<lambda>p. fst p = ''api'') (sb_admissions DEFAULT_BUDGET new_budget sample_calls)))"
    by (simp add: DEFAULT_BUDGET_def)
  show "sb_admissions DEFAULT_BUDGET new_budget sample_calls \<noteq> []" by code_simp
qed

lemma sb_step_active:
  "target \<in> set (active s) \<Longrightarrow> (\<forall>t. e \<noteq> End target t) \<Longrightarrow> target \<in> set (active (sb_step c e s))"
proof (cases e)
  case (Begin tg t1 t2)
  then show "target \<in> set (active s) \<Longrightarrow> target \<in> set (active (sb_step c e s))"
    by (auto simp: sb_begin_def sb_check_def record_action_def Let_def split: prod.splits budget_decision.splits if_splits)
qed (auto simp: sb_check_def sb_end_def Let_def)

text \<open>While an admitted operation on a target runs, that is until its \<open>finally\<close> block,
  every further \<open>execute\<close> on the target is refused with the mutex reason, runs nothing and
  changes nothing, whatever other calls were made on the budget in between.\<close>

theorem budget_mutex:
  assumes "sb_begin c t1 t2 target s = (Inr (), s1)"
    and "\<forall>e\<in>set calls. \<forall>t. e \<noteq> End target t"
  shows "sb_execute c t3 t4 target operation (fold (sb_step c) calls s1) =
           (Inl ''target_mutex_locked'', fold (sb_step c) calls s1)"
proof -
  have "target \<in> set (active s1)"
    using assms(1) by (auto simp: sb_begin_def record_action_def split: prod.splits budget_decision.splits)
  then have "target \<in> set (active (fold (sb_step c) calls s1))"
    using assms(2) by (induction calls arbitrary: s1) (simp_all add: sb_step_active)
  then show ?thesis by (simp add: sb_execute_def sb_begin_def sb_check_active)
qed

theorem budget_mutex_witness:
  "sb_execute DEFAULT_BUDGET 200000 200000 ''api'' (\<lambda>s. (Inr (), s))
      (fold (sb_step DEFAULT_BUDGET) [Begin ''db'' 5 6, End ''db'' 7, Check ''api'' 8]
        (snd (sb_begin DEFAULT_BUDGET 0 1 ''api'' new_budget)))
   = (Inl ''target_mutex_locked'',
      fold (sb_step DEFAULT_BUDGET) [Begin ''db'' 5 6, End ''db'' 7, Check ''api'' 8]
        (snd (sb_begin DEFAULT_BUDGET 0 1 ''api'' new_budget)))"
proof (rule budget_mutex [of _ 0 1 _ new_budget])
  show "sb_begin DEFAULT_BUDGET 0 1 ''api'' new_budget =
      (Inr (), snd (sb_begin DEFAULT_BUDGET 0 1 ''api'' new_budget))"
    by code_simp
qed simp

end
