(* ===== verification/AuditLedger.thy ===== *)
theory AuditLedger
  imports JsonText
begin

text \<open>
  The append-only audit ledger, \<open>router/src/audit-ledger.ts\<close>: one JSON record per line,
  each carrying the hash of its own core and the hash of its predecessor.  The hash
  function, \<open>Date.parse\<close>, \<open>toISOString\<close> and the text of a \<open>SyntaxError\<close> belong to the
  platform and are parameters.  A ledger file is \<open>None\<close> while it does not exist.  Appends to one path are
  serialised by the promise queue and the lock file, so one append is one step here;
  what its file operations may do is an argument, and the lock loop is modelled apart.
\<close>

section \<open>The platform\<close>

record platform =
  sha256hex :: "string \<Rightarrow> string"
  date_parses :: "string \<Rightarrow> bool"
  toISOString :: "int \<Rightarrow> string"
  syntax_error :: "string \<Rightarrow> string"

definition is_hash :: "string \<Rightarrow> bool" where
  "is_hash h = matches_class is_hex_lower 64 64 h"

text \<open>A SHA-256 digest in hexadecimal is 64 lower-case digits, and \<open>Date.parse\<close> reads
  what \<open>toISOString\<close> prints.\<close>

definition platform_ok :: "platform \<Rightarrow> bool" where
  "platform_ok pf = ((\<forall>s. is_hash (sha256hex pf s)) \<and> (\<forall>t. date_parses pf (toISOString pf t)))"

definition GENESIS_HASH :: string where
  "GENESIS_HASH = replicate 64 CHR ''0''"

section \<open>Events\<close>

definition EVENT_TYPES :: "string list" where
  "EVENT_TYPES = [''gate_reject'', ''executed'', ''verified'', ''rolled_back'',
     ''patch_validated'', ''patch_rejected'', ''pr_opened'', ''merged'', ''tier_used'',
     ''reconciliation_intent'', ''reconciled'']"

definition ALLOWED_FIELDS :: "string list" where
  "ALLOWED_FIELDS = [''eventType'', ''actionId'', ''capability'', ''gate'', ''reasonCode'', ''outcome'', ''tier'']"

text \<open>\<open>/^[a-z][a-z0-9_]{0,n}$/\<close>\<close>

definition snake :: "nat \<Rightarrow> string \<Rightarrow> bool" where
  "snake n s =
     (case s of
        [] \<Rightarrow> False
      | c # r \<Rightarrow> is_lower c \<and> matches_class (\<lambda>d. is_lower d \<or> is_digit d \<or> d = CHR ''_'') 0 n r)"

definition re_gate :: "string \<Rightarrow> bool" where
  "re_gate s = (starts_with ''GATE_'' s \<and>
     (case drop 5 s of
        [c] \<Rightarrow> char_between CHR ''1'' CHR ''7'' c
      | [c, b] \<Rightarrow> char_between CHR ''1'' CHR ''7'' c \<and> b = CHR ''B''
      | _ \<Rightarrow> False))"

definition re_tier :: "string \<Rightarrow> bool" where
  "re_tier s = (starts_with ''TIER_'' s \<and>
     (case drop 5 s of [c] \<Rightarrow> char_between CHR ''1'' CHR ''3'' c | _ \<Rightarrow> False))"

definition patterns :: "(string \<times> (string \<Rightarrow> bool)) list" where
  "patterns =
     [(''actionId'', matches_class (\<lambda>c. is_alnum c \<or> c = CHR ''.'' \<or> c = CHR ''_'' \<or> c = CHR '':'' \<or> c = CHR ''-'') 1 128),
      (''capability'', matches_class is_ident_char 1 80),
      (''gate'', re_gate),
      (''reasonCode'', snake 79),
      (''outcome'', snake 39),
      (''tier'', re_tier)]"

text \<open>A validated event: the object \<open>validateEvent\<close> builds, in insertion order.\<close>

type_synonym audit_event = "(string \<times> string) list"

fun collect_fields :: "(string \<times> (string \<Rightarrow> bool)) list \<Rightarrow> (string \<Rightarrow> jsval) \<Rightarrow> audit_event result" where
  "collect_fields [] raw = Inr []"
| "collect_fields ((field, pattern) # ps) raw =
     (case raw field of
        Undefined \<Rightarrow> collect_fields ps raw
      | Str s \<Rightarrow>
          if pattern s
          then (case collect_fields ps raw of Inl e \<Rightarrow> Inl e | Inr r \<Rightarrow> Inr ((field, s) # r))
          else Inl (''Invalid audit field: '' @ field)
      | _ \<Rightarrow> Inl (''Invalid audit field: '' @ field))"

definition validateEvent :: "jsval \<Rightarrow> audit_event result" where
  "validateEvent input =
     (case input of
        Obj raw \<Rightarrow>
          (case find (\<lambda>key. key \<notin> set ALLOWED_FIELDS) (map fst raw) of
             Some key \<Rightarrow> Inl (''Unsupported audit field: '' @ key)
           | None \<Rightarrow>
               (case prop_of raw ''eventType'' of
                  Str t \<Rightarrow>
                    if t \<in> set EVENT_TYPES
                    then (case collect_fields patterns (prop_of raw) of
                            Inl e \<Rightarrow> Inl e
                          | Inr rest \<Rightarrow> Inr ((''eventType'', t) # rest))
                    else Inl ''Unsupported audit event type''
                | _ \<Rightarrow> Inl ''Unsupported audit event type''))
      | _ \<Rightarrow> Inl ''Audit event must be an object'')"

section \<open>Records and verification\<close>

record ledger_entry =
  le_seq :: nat
  le_timestamp :: string
  le_event :: audit_event
  le_prevHash :: string
  le_hash :: string

definition event_out :: "audit_event \<Rightarrow> jout" where
  "event_out ev = OObj (map (\<lambda>(k, v). (k, OStr v)) ev)"

text \<open>The object literal \<open>{ seq, timestamp, event, prevHash }\<close>, and with its \<open>hash\<close>.\<close>

definition core_out :: "nat \<Rightarrow> string \<Rightarrow> audit_event \<Rightarrow> string \<Rightarrow> jout" where
  "core_out seq timestamp event prevHash =
     OObj [(''seq'', ONat seq), (''timestamp'', OStr timestamp), (''event'', event_out event),
           (''prevHash'', OStr prevHash)]"

definition entry_out :: "ledger_entry \<Rightarrow> jout" where
  "entry_out e =
     OObj [(''seq'', ONat (le_seq e)), (''timestamp'', OStr (le_timestamp e)), (''event'', event_out (le_event e)),
           (''prevHash'', OStr (le_prevHash e)), (''hash'', OStr (le_hash e))]"

definition hashEntry :: "platform \<Rightarrow> nat \<Rightarrow> string \<Rightarrow> audit_event \<Rightarrow> string \<Rightarrow> string" where
  "hashEntry pf seq timestamp event prevHash =
     sha256hex pf (json_print (core_out seq timestamp event prevHash))"

text \<open>\<open>readLedger\<close>: a missing file reads as the empty text.\<close>

definition readLedger :: "string option \<Rightarrow> string" where
  "readLedger f = (case f of None \<Rightarrow> [] | Some contents \<Rightarrow> contents)"

text \<open>The body of the loop of \<open>verifyAuditLedger\<close> on the line at \<open>index\<close>; an error it throws
  is caught there.\<close>

definition check_record :: "platform \<Rightarrow> nat \<Rightarrow> string \<Rightarrow> string \<Rightarrow> ledger_entry result" where
  "check_record pf index previousHash line =
     (case json_parse line of
        None \<Rightarrow> Inl (syntax_error pf line)
      | Some parsed \<Rightarrow>
          if \<not> is_plain_object parsed then Inl ''Record is not an object''
          else
            (case (get_prop parsed ''seq'', get_prop parsed ''timestamp'', get_prop parsed ''prevHash'', get_prop parsed ''hash'') of
               (Num n, Str timestamp, Str prevHash, Str h) \<Rightarrow>
                 if \<not> is_safe_integer n \<or> n \<noteq> Fin (of_nat (index + 1)) \<or> \<not> date_parses pf timestamp
                    \<or> \<not> is_hash prevHash \<or> \<not> is_hash h
                 then Inl ''Invalid ledger record structure''
                 else
                   (case validateEvent (get_prop parsed ''event'') of
                      Inl e \<Rightarrow> Inl e
                    | Inr event \<Rightarrow>
                        if prevHash \<noteq> previousHash then Inl ''Previous hash mismatch''
                        else if hashEntry pf (index + 1) timestamp event prevHash \<noteq> h then Inl ''Record hash mismatch''
                        else Inr \<lparr>le_seq = index + 1, le_timestamp = timestamp, le_event = event,
                                 le_prevHash = prevHash, le_hash = h\<rparr>)
             | _ \<Rightarrow> Inl ''Invalid ledger record structure''))"

record ledger_verification =
  lv_ok :: bool
  lv_entries :: nat
  lv_headHash :: string
  lv_error :: "string option"

text \<open>\<open>verifiedEntries\<close> and \<open>index\<close> move together, so one counter stands for both.\<close>

fun verify_from :: "platform \<Rightarrow> nat \<Rightarrow> string \<Rightarrow> string list \<Rightarrow> ledger_verification" where
  "verify_from pf index previousHash [] =
     \<lparr>lv_ok = True, lv_entries = index, lv_headHash = previousHash, lv_error = None\<rparr>"
| "verify_from pf index previousHash (line # ls) =
     (case check_record pf index previousHash line of
        Inl m \<Rightarrow> \<lparr>lv_ok = False, lv_entries = index, lv_headHash = previousHash,
                  lv_error = Some (''Invalid record '' @ show_nat (index + 1) @ '': '' @ m)\<rparr>
      | Inr e \<Rightarrow> verify_from pf (index + 1) (le_hash e) ls)"

abbreviation newline :: char where "newline \<equiv> CHR 0x0A"

definition verify_contents :: "platform \<Rightarrow> string \<Rightarrow> ledger_verification" where
  "verify_contents pf contents =
     (if contents = []
      then \<lparr>lv_ok = True, lv_entries = 0, lv_headHash = GENESIS_HASH, lv_error = None\<rparr>
      else if \<not> ends_with [newline] contents
      then \<lparr>lv_ok = False, lv_entries = 0, lv_headHash = GENESIS_HASH,
            lv_error = Some ''Ledger ends with an incomplete record''\<rparr>
      else verify_from pf 0 GENESIS_HASH (split_on newline (butlast contents)))"

definition verifyAuditLedger :: "platform \<Rightarrow> string option \<Rightarrow> ledger_verification" where
  "verifyAuditLedger pf f = verify_contents pf (readLedger f)"

section \<open>Appending\<close>

text \<open>
  What the file operations of one append do: all succeed, or one fails with a message.
  \<open>WriteFails n e\<close>: the loop of \<open>write\<close> calls stops after \<open>n\<close> bytes of the record (the
  record is ASCII); \<open>SyncFails\<close>: an error after the last byte is written (\<open>sync\<close>, the directory's
  \<open>sync\<close>, \<open>close\<close>); \<open>UnlockFails\<close>: closing or removing the lock file fails.
\<close>

datatype append_io =
    IoOk
  | LockFails string
  | ReadFails string
  | OpenFails string
  | WriteFails nat string
  | SyncFails string
  | UnlockFails string

text \<open>\<open>JSON.stringify\<close> of a parsed value, where it is one the ledger can hold.\<close>

fun to_out :: "jsval \<Rightarrow> jout option" where
  "to_out (Obj ps) =
     (if list_all (\<lambda>(k, v). case v of Str s \<Rightarrow> True | _ \<Rightarrow> False) ps
      then Some (OObj (map (\<lambda>(k, v). (k, case v of Str s \<Rightarrow> OStr s | _ \<Rightarrow> ONull)) ps)) else None)"
| "to_out _ = None"

datatype found_reconciled = NotFound | Existing jsval | ConflictingRecord

text \<open>The search for an existing \<open>reconciled\<close> record of the action; every line was verified,
  so it parses.\<close>

fun find_reconciled :: "string \<Rightarrow> audit_event \<Rightarrow> string list \<Rightarrow> found_reconciled" where
  "find_reconciled actionId event [] = NotFound"
| "find_reconciled actionId event (line # ls) =
     (if line = [] then find_reconciled actionId event ls
      else case json_parse line of
             None \<Rightarrow> ConflictingRecord
           | Some existing \<Rightarrow>
               (let ev = get_prop existing ''event''
                in if get_prop ev ''eventType'' = Str ''reconciled'' \<and> get_prop ev ''actionId'' = Str actionId
                   then (if map_option json_print (to_out ev) \<noteq> Some (json_print (event_out event))
                         then ConflictingRecord else Existing existing)
                   else find_reconciled actionId event ls))"

definition new_entry :: "platform \<Rightarrow> int \<Rightarrow> audit_event \<Rightarrow> ledger_verification \<Rightarrow> ledger_entry" where
  "new_entry pf now event v =
     (let seq = lv_entries v + 1; timestamp = toISOString pf now; prevHash = lv_headHash v
      in \<lparr>le_seq = seq, le_timestamp = timestamp, le_event = event, le_prevHash = prevHash,
          le_hash = hashEntry pf seq timestamp event prevHash\<rparr>)"

definition record_text :: "ledger_entry \<Rightarrow> string" where
  "record_text e = json_print (entry_out e) @ [newline]"

definition write_record :: "append_io \<Rightarrow> ledger_entry \<Rightarrow> string option \<Rightarrow> jsval result \<times> string option" where
  "write_record io e f =
     (let record = record_text e; contents = readLedger f
      in case io of
           OpenFails m \<Rightarrow> (Inl m, f)
         | WriteFails n m \<Rightarrow> (Inl m, Some (contents @ take n record))
         | SyncFails m \<Rightarrow> (Inl m, Some (contents @ record))
         | UnlockFails m \<Rightarrow> (Inl m, Some (contents @ record))
         | _ \<Rightarrow> (Inr (embed (entry_out e)), Some (contents @ record)))"

definition locked_append ::
  "platform \<Rightarrow> int \<Rightarrow> append_io \<Rightarrow> audit_event \<Rightarrow> string option \<Rightarrow> jsval result \<times> string option" where
  "locked_append pf now io event f =
     (let v = verifyAuditLedger pf f
      in if \<not> lv_ok v
         then (Inl (''Refusing to append to an invalid audit ledger: ''
                 @ (case lv_error v of None \<Rightarrow> [] | Some m \<Rightarrow> m)), f)
         else if map_of event ''eventType'' = Some ''reconciled''
         then (case map_of event ''actionId'' of
                 None \<Rightarrow> (Inl ''reconciled_action_id_required'', f)
               | Some actionId \<Rightarrow>
                   (case find_reconciled actionId event (split_on newline (readLedger f)) of
                      ConflictingRecord \<Rightarrow> (Inl ''reconciled_audit_conflict'', f)
                    | Existing existing \<Rightarrow>
                        (case io of UnlockFails m \<Rightarrow> (Inl m, f) | _ \<Rightarrow> (Inr existing, f))
                    | NotFound \<Rightarrow> write_record io (new_entry pf now event v) f))
         else write_record io (new_entry pf now event v) f)"

definition appendAuditEvent ::
  "platform \<Rightarrow> int \<Rightarrow> append_io \<Rightarrow> jsval \<Rightarrow> string option \<Rightarrow> jsval result \<times> string option" where
  "appendAuditEvent pf now io input f =
     (case validateEvent input of
        Inl e \<Rightarrow> (Inl e, f)
      | Inr event \<Rightarrow>
          (case io of
             LockFails m \<Rightarrow> (Inl m, f)
           | ReadFails m \<Rightarrow> (Inl m, f)
           | _ \<Rightarrow> locked_append pf now io event f))"

section \<open>The lock file\<close>

text \<open>
  \<open>withAuditFileLock\<close> tries to create the lock file; each attempt has an outcome and, when the
  file exists, the clock is read after it.  \<open>None\<close>: the attempts listed are used up.
\<close>

datatype lock_attempt = Created | Exists int | OpenError string

fun await_lock :: "int \<Rightarrow> lock_attempt list \<Rightarrow> unit result option" where
  "await_lock started [] = None"
| "await_lock started (Created # as) = Some (Inr ())"
| "await_lock started (OpenError m # as) = Some (Inl m)"
| "await_lock started (Exists now # as) =
     (if now - started > 10000 then Some (Inl ''audit_lock_timeout'') else await_lock started as)"

section \<open>Events and records\<close>

lemma collect_fields_Cons:
  "collect_fields ((field, pattern) # ps) raw = Inr ev \<longleftrightarrow>
     (raw field = Undefined \<and> collect_fields ps raw = Inr ev)
     \<or> (\<exists>s ev'. raw field = Str s \<and> pattern s \<and> collect_fields ps raw = Inr ev' \<and> ev = (field, s) # ev')"
  by (auto split: jsval.splits if_splits sum.splits)

declare collect_fields.simps(2) [simp del]

lemma collect_fields_props:
  "collect_fields ps raw = Inr ev \<Longrightarrow>
     set (map fst ev) \<subseteq> set (map fst ps) \<and> (distinct (map fst ps) \<longrightarrow> distinct (map fst ev))"
proof (induction ps arbitrary: ev)
  case (Cons p ps)
  obtain f q where p: "p = (f, q)" by (cases p)
  from Cons.prems [unfolded p collect_fields_Cons] show ?case
  proof (elim disjE exE conjE)
    assume "collect_fields ps raw = Inr ev"
    from Cons.IH [OF this] show ?thesis by (simp add: p) blast
  next
    fix s ev' assume "collect_fields ps raw = Inr ev'" "ev = (f, s) # ev'"
    with Cons.IH [OF this(1)] show ?thesis by (simp add: p) blast
  qed
qed simp

lemmas collect_fields_keys = collect_fields_props [THEN conjunct1]
lemmas collect_fields_distinct = collect_fields_props [THEN conjunct2, rule_format]

lemma collect_fields_values:
  "collect_fields ps raw = Inr ev \<Longrightarrow> (f, s) \<in> set ev \<Longrightarrow> raw f = Str s \<and> (\<exists>p. (f, p) \<in> set ps \<and> p s)"
proof (induction ps arbitrary: ev)
  case (Cons p ps)
  obtain g q where p: "p = (g, q)" by (cases p)
  from Cons.prems(1) [unfolded p collect_fields_Cons] show ?case
  proof (elim disjE exE conjE)
    assume "collect_fields ps raw = Inr ev"
    from Cons.IH [OF this Cons.prems(2)] show ?thesis by auto
  next
    fix r ev' assume r: "raw g = Str r" "q r" "collect_fields ps raw = Inr ev'" "ev = (g, r) # ev'"
    show ?thesis
    proof (cases "(f, s) = (g, r)")
      case True
      with r p show ?thesis by auto
    next
      case False
      with Cons.prems(2) r(4) have "(f, s) \<in> set ev'" by auto
      from Cons.IH [OF r(3) this] show ?thesis by auto
    qed
  qed
qed (simp add: collect_fields.simps)

text \<open>Collecting again from the collected fields gives them back.\<close>

lemma collect_fields_again:
  "collect_fields ps raw = Inr ev \<Longrightarrow> distinct (map fst ps) \<Longrightarrow>
     (\<And>f. f \<in> set (map fst ps) \<Longrightarrow> raw' f = (case map_of ev f of None \<Rightarrow> Undefined | Some s \<Rightarrow> Str s)) \<Longrightarrow>
     collect_fields ps raw' = Inr ev"
proof (induction ps arbitrary: ev)
  case (Cons p ps)
  obtain f q where p: "p = (f, q)" by (cases p)
  have dist: "distinct (map fst ps)" and fresh: "f \<notin> set (map fst ps)"
    using Cons.prems(2) by (auto simp: p)
  have here: "raw' f = (case map_of ev f of None \<Rightarrow> Undefined | Some s \<Rightarrow> Str s)"
    by (rule Cons.prems(3)) (simp add: p)
  from Cons.prems(1) [unfolded p collect_fields_Cons] show ?case
  proof (elim disjE exE conjE)
    assume ev: "collect_fields ps raw = Inr ev"
    have "map_of ev f = None"
      using collect_fields_keys [OF ev] fresh by (auto simp: map_of_eq_None_iff)
    moreover have "collect_fields ps raw' = Inr ev"
      by (rule Cons.IH [OF ev dist Cons.prems(3)]) (simp add: p)
    ultimately show ?thesis by (simp add: p collect_fields_Cons here)
  next
    fix s ev' assume q: "q s" and ev': "collect_fields ps raw = Inr ev'" and ev: "ev = (f, s) # ev'"
    have "collect_fields ps raw' = Inr ev'"
    proof (rule Cons.IH [OF ev' dist])
      fix g assume g: "g \<in> set (map fst ps)"
      with fresh have "g \<noteq> f" by auto
      with Cons.prems(3) [of g] g show "raw' g = (case map_of ev' g of None \<Rightarrow> Undefined | Some s \<Rightarrow> Str s)"
        by (simp add: ev p)
    qed
    with q here show ?thesis by (simp add: p collect_fields_Cons ev)
  qed
qed simp

lemma pattern_fields: "set (map fst patterns) \<subseteq> set ALLOWED_FIELDS" "distinct (map fst patterns)"
    "''eventType'' \<notin> set (map fst patterns)" "''eventType'' \<in> set ALLOWED_FIELDS"
  by (simp_all add: patterns_def ALLOWED_FIELDS_def)

definition event_value :: "audit_event \<Rightarrow> jsval" where
  "event_value ev = Obj (map (\<lambda>(k, v). (k, Str v)) ev)"

lemma validateEvent_InrD:
  assumes "validateEvent input = Inr ev"
  obtains raw t rest where "input = Obj raw" "prop_of raw ''eventType'' = Str t" "t \<in> set EVENT_TYPES"
    "collect_fields patterns (prop_of raw) = Inr rest" "ev = (''eventType'', t) # rest"
  using assms unfolding validateEvent_def
  by (cases input) (auto split: option.splits jsval.splits if_splits sum.splits)

lemma prop_of_event:
  "prop_of (map (\<lambda>(k, v). (k, Str v)) ev) f = (case map_of ev f of None \<Rightarrow> Undefined | Some s \<Rightarrow> Str s)"
  by (simp add: prop_of_def map_of_map comp_def split: option.split)

lemma validate_Obj:
  "find (\<lambda>key. key \<notin> set ALLOWED_FIELDS) (map fst raw) = None \<Longrightarrow> prop_of raw ''eventType'' = Str t \<Longrightarrow>
     t \<in> set EVENT_TYPES \<Longrightarrow> collect_fields patterns (prop_of raw) = Inr rest \<Longrightarrow>
     validateEvent (Obj raw) = Inr ((''eventType'', t) # rest)"
  by (simp add: validateEvent_def)

lemma validate_again:
  assumes "validateEvent input = Inr ev"
  shows "validateEvent (event_value ev) = Inr ev"
proof -
  from assms obtain raw t rest where t: "t \<in> set EVENT_TYPES"
    and rest: "collect_fields patterns (prop_of raw) = Inr rest" and ev: "ev = (''eventType'', t) # rest"
    by (rule validateEvent_InrD)
  have "set (map fst ev) \<subseteq> set ALLOWED_FIELDS"
    using collect_fields_keys [OF rest] pattern_fields(1,4) by (auto simp: ev)
  then have keys: "find (\<lambda>key. key \<notin> set ALLOWED_FIELDS) (map fst ev) = None"
    by (auto simp: find_None_iff)
  have "collect_fields patterns (prop_of (map (\<lambda>(k, v). (k, Str v)) ev)) = Inr rest"
  proof (rule collect_fields_again [OF rest pattern_fields(2)])
    fix f assume "f \<in> set (map fst patterns)"
    with pattern_fields(3) have "f \<noteq> ''eventType''" by metis
    then show "prop_of (map (\<lambda>(k, v). (k, Str v)) ev) f = (case map_of rest f of None \<Rightarrow> Undefined | Some s \<Rightarrow> Str s)"
      by (simp only: prop_of_event) (simp add: ev)
  qed
  moreover have "find (\<lambda>key. key \<notin> set ALLOWED_FIELDS) (map fst (map (\<lambda>(k, v). (k, Str v)) ev)) = None"
    using keys by (simp add: comp_def case_prod_unfold)
  moreover have "prop_of (map (\<lambda>(k, v). (k, Str v)) ev) ''eventType'' = Str t"
    by (simp only: prop_of_event) (simp add: ev)
  ultimately have "validateEvent (event_value ev) = Inr ((''eventType'', t) # rest)"
    unfolding event_value_def using t by (intro validate_Obj)
  then show ?thesis by (simp add: ev)
qed

lemma event_distinct:
  assumes "validateEvent input = Inr ev"
  shows "distinct (map fst ev)"
proof -
  from assms obtain raw t rest where rest: "collect_fields patterns (prop_of raw) = Inr rest"
    and ev: "ev = (''eventType'', t) # rest"
    by (rule validateEvent_InrD)
  from collect_fields_keys [OF rest] pattern_fields(3) have "''eventType'' \<notin> set (map fst rest)" by blast
  with collect_fields_distinct [OF rest pattern_fields(2)] show ?thesis by (simp add: ev)
qed

lemma embed_event: "embed (event_out ev) = event_value ev"
proof -
  have "embed_members (map (\<lambda>(k, v). (k, OStr v)) ev) = map (\<lambda>(k, v). (k, Str v)) ev"
    by (induction ev) auto
  then show ?thesis by (simp add: event_out_def event_value_def)
qed

lemma event_out_ok: "jout_ok (event_out ev) \<longleftrightarrow> distinct (map fst ev)"
proof -
  have "members_ok (map (\<lambda>(k, v). (k, OStr v)) ev)" by (induction ev) auto
  then show ?thesis by (simp add: event_out_def comp_def case_prod_unfold)
qed

lemma core_out_ok: "distinct (map fst ev) \<Longrightarrow> seq < 2 ^ 53 \<Longrightarrow> jout_ok (core_out seq ts ev prev)"
  by (simp add: core_out_def event_out_ok)

lemma entry_out_ok: "distinct (map fst (le_event e)) \<Longrightarrow> le_seq e < 2 ^ 53 \<Longrightarrow> jout_ok (entry_out e)"
  by (simp add: entry_out_def event_out_ok)

lemma event_value_inject: "event_value ev = event_value ev' \<longleftrightarrow> ev = ev'"
proof -
  have "inj (\<lambda>(k, v). (k, Str v))" by (auto intro!: injI)
  then show ?thesis by (auto simp: event_value_def dest: map_injective)
qed

lemma core_text_inject:
  assumes "json_print (core_out n ts ev prev) = json_print (core_out n' ts' ev' prev')"
    and "distinct (map fst ev)" "n < 2 ^ 53" "distinct (map fst ev')" "n' < 2 ^ 53"
  shows "n = n' \<and> ts = ts' \<and> ev = ev' \<and> prev = prev'"
proof -
  have "embed (core_out n ts ev prev) = embed (core_out n' ts' ev' prev')"
    using json_parse_print [OF core_out_ok [OF assms(2,3), of ts prev]]
      json_parse_print [OF core_out_ok [OF assms(4,5), of ts' prev']] assms(1) by simp
  then show ?thesis
    by (simp add: core_out_def embed_event event_value_inject nat_num_def)
qed

section \<open>The text of records\<close>

lemma split_on_append: "split_on c (s @ c # t) = split_on c s @ split_on c t"
  by (induction s) (auto split: list.splits)

lemma hex_char_not_newline: "d < 16 \<Longrightarrow> hex_char d \<noteq> newline"
proof
  assume "d < 16" "hex_char d = newline"
  then have "hex_val newline = Some d" using hex_val_hex_char by metis
  then show False by (simp add: hex_val_def is_digit_def char_between_def)
qed

lemma quote_char_no_newline: "newline \<notin> set (quote_char c)"
proof (cases "(of_char c :: nat) < 32")
  case True
  have n: "newline \<noteq> hex_char (of_char c div 16)" "newline \<noteq> hex_char (of_char c mod 16)"
    by (rule hex_char_not_newline [THEN not_sym], use True in simp)+
  show ?thesis unfolding quote_char_def using n by (simp split: if_splits)
next
  case False
  then have "c \<noteq> newline" by auto
  with False show ?thesis by (auto simp: quote_char_def)
qed

lemma quote_no_newline: "newline \<notin> set (quote s)"
  using quote_char_no_newline by (auto simp: quote_def)

lemma json_print_no_newline: "newline \<notin> set (json_print v)" "newline \<notin> set (print_elems vs)"
    "newline \<notin> set (print_members ps)"
proof (induction v and vs and ps rule: json_print_print_elems_print_members.induct)
  case (4 n)
  have "\<not> is_digit newline" by (simp add: is_digit_def char_between_def)
  with show_nat_digits [of n] show ?case by (auto simp: list_all_iff)
qed (auto simp: quote_no_newline)

lemma json_print_entry_nonempty [simp]: "json_print (entry_out e) \<noteq> []"
  by (simp add: entry_out_def)

section \<open>Verification\<close>

lemma verify_from_append:
  "verify_from pf i h (ls @ ls') =
     (let v = verify_from pf i h ls in if lv_ok v then verify_from pf (lv_entries v) (lv_headHash v) ls' else v)"
  by (induction ls arbitrary: i h) (auto simp: Let_def split: sum.split)

lemma check_recordD:
  assumes "check_record pf i h line = Inr e"
  shows "le_seq e = i + 1" "le_prevHash e = h" "is_hash (le_hash e)"
    "le_hash e = hashEntry pf (i + 1) (le_timestamp e) (le_event e) h"
    "date_parses pf (le_timestamp e)"
    "validateEvent (event_value (le_event e)) = Inr (le_event e)" "i + 1 < 2 ^ 53"
proof -
  from assms obtain parsed n ts ev where e: "e = \<lparr>le_seq = i + 1, le_timestamp = ts, le_event = ev, le_prevHash = h, le_hash = hashEntry pf (i + 1) ts ev h\<rparr>"
    and n: "is_safe_integer n" "n = Fin (of_nat (i + 1))" and ts: "date_parses pf ts"
    and hash: "is_hash (hashEntry pf (i + 1) ts ev h)" and ev: "validateEvent (get_prop parsed ''event'') = Inr ev"
    unfolding check_record_def
    by (auto simp del: is_safe_integer.simps split: option.splits jsval.splits if_splits sum.splits)
  from n have "int (i + 1) < 2 ^ 53"
    by (auto simp: floor_of_nat)
  then have "i + 1 < 2 ^ 53"
    by (metis of_nat_less_numeral_power_cancel_iff)
  with e ts hash validate_again [OF ev]
  show "le_seq e = i + 1" "le_prevHash e = h" "is_hash (le_hash e)"
    "le_hash e = hashEntry pf (i + 1) (le_timestamp e) (le_event e) h"
    "date_parses pf (le_timestamp e)"
    "validateEvent (event_value (le_event e)) = Inr (le_event e)" "i + 1 < 2 ^ 53"
    by simp_all
qed

lemma genesis_is_hash: "is_hash GENESIS_HASH"
  by (simp add: is_hash_def GENESIS_HASH_def matches_class_def is_hex_lower_def is_digit_def
      char_between_def list_all_iff)

lemma verify_from_head:
  "is_hash h \<Longrightarrow> is_hash (lv_headHash (verify_from pf i h ls))"
  by (induction ls arbitrary: i h) (auto split: sum.split dest: check_recordD(3))

lemma verify_contents_head: "is_hash (lv_headHash (verify_contents pf c))"
  by (simp add: verify_contents_def genesis_is_hash verify_from_head)

lemma verify_contents_line:
  assumes "lv_ok (verify_contents pf c)" "newline \<notin> set line"
  shows "verify_contents pf (c @ line @ [newline]) =
     verify_from pf (lv_entries (verify_contents pf c)) (lv_headHash (verify_contents pf c)) [line]"
proof (cases "c = []")
  case True
  with assms(2) show ?thesis
    by (simp add: verify_contents_def ends_with_suffix suffix_def split_on_plain butlast_append)
next
  case False
  with assms(1) obtain c' where c: "c = c' @ [newline]"
    by (auto simp: verify_contents_def ends_with_suffix suffix_def split: if_splits)
  have "split_on newline (butlast (c @ line @ [newline])) = split_on newline c' @ [line]"
    using assms(2) by (simp add: c butlast_append split_on_append split_on_plain)
  with assms(1) show ?thesis
    by (simp add: verify_contents_def c ends_with_suffix suffix_def verify_from_append Let_def split: if_splits)
qed

text \<open>A text that ends in the middle of a record never verifies.\<close>

lemma verify_torn:
  assumes "newline \<notin> set part" "part \<noteq> []"
  shows "\<not> lv_ok (verify_contents pf (c @ part))"
proof -
  obtain p x where p: "part = p @ [x]" using assms(2) by (cases part rule: rev_cases) auto
  with assms(1) have "\<not> ends_with [newline] (c @ part)"
    by (auto simp: ends_with_suffix suffix_def)
  with assms(2) show ?thesis by (simp add: verify_contents_def)
qed

section \<open>What an append does\<close>

lemma check_new_entry:
  fixes now :: int
  assumes pf: "platform_ok pf" and i: "lv_entries v + 1 < 2 ^ 53" and head: "is_hash (lv_headHash v)"
    and ev: "validateEvent input = Inr ev"
  defines "e \<equiv> new_entry pf now ev v"
  shows "check_record pf (lv_entries v) (lv_headHash v) (json_print (entry_out e)) = Inr e"
proof -
  have ok: "jout_ok (entry_out e)"
    using event_distinct [OF ev] i by (simp add: entry_out_ok e_def new_entry_def Let_def)
  have "\<bar>int (lv_entries v + 1)\<bar> < 2 ^ 53"
    using i of_nat_less_numeral_power_cancel_iff [where 'a = int, of "lv_entries v + 1" "Num.Bit0 num.One" 53] by simp
  from is_safe_integer_int [OF this] have safe: "is_safe_integer (Fin (1 + of_nat (lv_entries v)))"
    by (simp del: is_safe_integer.simps)
  have hash: "is_hash (hashEntry pf n ts ev' prev)" for n ts ev' prev
    using pf by (simp add: platform_ok_def hashEntry_def)
  show ?thesis
    unfolding check_record_def json_parse_print [OF ok] option.case
    using validate_again [OF ev] pf head hash safe
    by (simp add: entry_out_def e_def new_entry_def Let_def prop_of_def nat_num_def embed_event
        platform_ok_def del: is_safe_integer.simps)
qed

text \<open>A whole record extends a verified ledger to a verified ledger with one more entry.\<close>

lemma verify_extend:
  fixes now :: int
  assumes pf: "platform_ok pf" and ok: "lv_ok (verify_contents pf c)"
    and i: "lv_entries (verify_contents pf c) + 1 < 2 ^ 53" and ev: "validateEvent input = Inr ev"
  defines "v \<equiv> verify_contents pf c"
  shows "verify_contents pf (c @ record_text (new_entry pf now ev v)) =
     \<lparr>lv_ok = True, lv_entries = lv_entries v + 1, lv_headHash = le_hash (new_entry pf now ev v), lv_error = None\<rparr>"
  using verify_contents_line [OF ok json_print_no_newline(1)] 
    check_new_entry [OF pf i verify_contents_head ev]
  by (simp add: record_text_def v_def)

lemma record_text_split: "n < length (record_text e) \<Longrightarrow> newline \<notin> set (take n (record_text e))"
  using json_print_no_newline(1) [of "entry_out e"] by (auto simp: record_text_def dest: in_set_takeD)

text \<open>Every way an append can end: nothing written, one whole record, or a torn one.\<close>

lemma write_record_cases:
  "snd (write_record io e f) = f
   \<or> readLedger (snd (write_record io e f)) = readLedger f @ record_text e
   \<or> (\<exists>n < length (record_text e). snd (write_record io e f) = Some (readLedger f @ take n (record_text e)))"
proof (cases io)
  case (WriteFails n m)
  show ?thesis
  proof (cases "n < length (record_text e)")
    case True
    with WriteFails show ?thesis by (auto simp: write_record_def)
  next
    case False
    with WriteFails show ?thesis by (simp add: write_record_def readLedger_def)
  qed
qed (simp_all add: write_record_def readLedger_def)

lemma write_record_Inr: "fst (write_record io e f) = Inr r \<Longrightarrow>
   r = embed (entry_out e) \<and> snd (write_record io e f) = Some (readLedger f @ record_text e)"
  by (cases io) (simp_all add: write_record_def)

text \<open>\<open>appendAuditEvent\<close> either leaves the file alone or is one \<open>write_record\<close> of the next
  entry on a verified ledger.\<close>

lemma append_cases:
  obtains (unchanged) "snd (appendAuditEvent pf now io input f) = f"
    | (written) ev where "validateEvent input = Inr ev" "lv_ok (verifyAuditLedger pf f)"
        "appendAuditEvent pf now io input f = write_record io (new_entry pf now ev (verifyAuditLedger pf f)) f"
proof (cases "snd (appendAuditEvent pf now io input f) = f")
  case False
  then obtain ev where ev: "validateEvent input = Inr ev"
    and app: "appendAuditEvent pf now io input f = locked_append pf now io ev f"
    by (auto simp: appendAuditEvent_def split: sum.splits append_io.splits)
  with False have "lv_ok (verifyAuditLedger pf f)"
    "locked_append pf now io ev f = write_record io (new_entry pf now ev (verifyAuditLedger pf f)) f"
    by (auto simp: locked_append_def Let_def
        split: if_splits option.splits found_reconciled.splits append_io.splits)
  with ev app show thesis by (intro written) auto
qed (rule unchanged)

lemma members_ok_strings: "members_ok (map (\<lambda>(k, v). (k, OStr v)) ev)"
  by (induction ev) auto

lemma embed_members_strings: "embed_members (map (\<lambda>(k, v). (k, OStr v)) ev) = map (\<lambda>(k, v). (k, Str v)) ev"
  by (induction ev) auto

lemma event_print_inject:
  assumes "json_print (event_out ev) = json_print (event_out ev')"
  shows "ev = ev'"
proof (cases "ev = [] \<or> ev' = []")
  case True
  have "print_members (map (\<lambda>(k, v). (k, OStr v)) xs) = [] \<longleftrightarrow> xs = []" for xs
    using print_members_hd [of "map (\<lambda>(k, v). (k, OStr v)) xs"] by (cases "xs = []") auto
  moreover from assms have "print_members (map (\<lambda>(k, v). (k, OStr v)) ev) = print_members (map (\<lambda>(k, v). (k, OStr v)) ev')"
    by (simp add: event_out_def)
  ultimately show ?thesis using True by metis
next
  case False
  let ?m = "\<lambda>ev. map (\<lambda>(k, v). (k, OStr v)) ev"
  have eq: "print_members (?m ev) = print_members (?m ev')"
    using assms by (simp add: event_out_def)
  let ?n = "2 * length (print_members (?m ev))"
  have "Some (embed_members (?m ev), []) = Some (embed_members (?m ev'), [])"
    using pval_print(3) [OF members_ok_strings, of ev ?n "[]"] pval_print(3) [OF members_ok_strings, of ev' ?n "[]"] False
    by (simp add: eq)
  then have "event_value ev = event_value ev'"
    by (simp add: embed_members_strings event_value_def)
  then show ?thesis by (simp add: event_value_inject)
qed

lemma to_out_event:
  assumes "map_option json_print (to_out v) = Some (json_print (event_out ev))"
  shows "v = event_value ev"
proof -
  from assms obtain ps where v: "v = Obj ps" and all: "list_all (\<lambda>(k, v). case v of Str s \<Rightarrow> True | _ \<Rightarrow> False) ps"
    by (cases v) (auto split: if_splits)
  let ?xs = "map (\<lambda>(k, v). (k, case v of Str s \<Rightarrow> s | _ \<Rightarrow> [])) ps"
  have ps: "ps = map (\<lambda>(k, v). (k, Str v)) ?xs"
    using all by (induction ps) (auto split: jsval.splits)
  have "map (\<lambda>(k, v). (k, case v of Str s \<Rightarrow> OStr s | _ \<Rightarrow> ONull)) ps = map (\<lambda>(k, v). (k, OStr v)) ?xs"
    using all by (induction ps) (auto split: jsval.splits)
  with assms all v have "json_print (event_out ?xs) = json_print (event_out ev)"
    by (simp add: event_out_def)
  from event_print_inject [OF this] ps v show ?thesis by (simp add: event_value_def)
qed

lemma find_reconciled_Existing:
  assumes "find_reconciled a ev ls = Existing r"
  shows "\<exists>line\<in>set ls. json_parse line = Some r" "get_prop r ''event'' = event_value ev"
  using assms
  by (induction ls) (auto simp: Let_def intro!: to_out_event split: if_splits option.splits)

definition ledger_lines :: "string option \<Rightarrow> string list" where
  "ledger_lines f = split_on newline (readLedger f)"

lemma record_in_lines:
  "json_print (entry_out e) \<in> set (split_on newline (c @ record_text e))" if "c = [] \<or> ends_with [newline] c"
proof -
  have n: "newline \<notin> set (json_print (entry_out e))" by (rule json_print_no_newline)
  show ?thesis
  proof (cases "c = []")
    case True
    with n show ?thesis by (simp add: record_text_def split_on_append_sep)
  next
    case False
    with that obtain c' where "c = c' @ [newline]" by (auto simp: ends_with_suffix suffix_def)
    with n show ?thesis by (simp add: record_text_def split_on_append split_on_plain)
  qed
qed

lemma verified_shape: "lv_ok (verify_contents pf c) \<Longrightarrow> c = [] \<or> ends_with [newline] c"
  by (auto simp: verify_contents_def split: if_splits)

lemma append_Inr:
  assumes pf: "platform_ok pf" and i: "lv_entries (verifyAuditLedger pf f) + 1 < 2 ^ 53"
    and app: "appendAuditEvent pf now io input f = (Inr r, f')"
  obtains ev where "validateEvent input = Inr ev" "lv_ok (verifyAuditLedger pf f)"
    "get_prop r ''event'' = event_value ev" "\<exists>line\<in>set (ledger_lines f'). json_parse line = Some r"
    "f' = f \<and> map_of ev ''eventType'' = Some ''reconciled''
     \<or> f' = Some (readLedger f @ record_text (new_entry pf now ev (verifyAuditLedger pf f)))"
proof -
  let ?v = "verifyAuditLedger pf f"
  from app obtain ev where ev: "validateEvent input = Inr ev" and lock: "locked_append pf now io ev f = (Inr r, f')"
    by (auto simp: appendAuditEvent_def split: sum.splits append_io.splits)
  from lock have ok: "lv_ok ?v" by (auto simp: locked_append_def Let_def split: if_splits)
  let ?e = "new_entry pf now ev ?v"
  have "(\<exists>a. find_reconciled a ev (ledger_lines f) = Existing r) \<and> f' = f \<and> map_of ev ''eventType'' = Some ''reconciled''
      \<or> write_record io ?e f = (Inr r, f')"
    using lock ok by (auto simp: locked_append_def Let_def ledger_lines_def
        split: if_splits option.splits found_reconciled.splits append_io.splits)
  then show thesis
  proof (elim disjE exE conjE)
    fix a assume "find_reconciled a ev (ledger_lines f) = Existing r" "f' = f" "map_of ev ''eventType'' = Some ''reconciled''"
    with find_reconciled_Existing [OF this(1)] ok ev show thesis by (intro that [of ev]) auto
  next
    assume w: "write_record io ?e f = (Inr r, f')"
    then have r: "r = embed (entry_out ?e)" and f': "f' = Some (readLedger f @ record_text ?e)"
      using write_record_Inr [of io ?e f r] by auto
    have "jout_ok (entry_out ?e)"
      using event_distinct [OF ev] i by (simp add: entry_out_ok new_entry_def Let_def)
    then have "json_parse (json_print (entry_out ?e)) = Some r"
      by (simp add: json_parse_print r)
    moreover have "json_print (entry_out ?e) \<in> set (ledger_lines f')"
      using record_in_lines verified_shape ok by (auto simp: ledger_lines_def f' readLedger_def verifyAuditLedger_def)
    moreover have "get_prop r ''event'' = event_value ev"
      by (simp add: r entry_out_def prop_of_def embed_event new_entry_def Let_def)
    ultimately show thesis using f' ok ev by (intro that [of ev]) auto
  qed
qed

text \<open>The verified records of a text that verifies.\<close>

fun entries_from :: "platform \<Rightarrow> nat \<Rightarrow> string \<Rightarrow> string list \<Rightarrow> ledger_entry list" where
  "entries_from pf index h [] = []"
| "entries_from pf index h (line # ls) =
     (case check_record pf index h line of
        Inl m \<Rightarrow> []
      | Inr e \<Rightarrow> e # entries_from pf (index + 1) (le_hash e) ls)"

definition ledger_entries :: "platform \<Rightarrow> string option \<Rightarrow> ledger_entry list" where
  "ledger_entries pf f = (if readLedger f = [] then []
     else entries_from pf 0 GENESIS_HASH (split_on newline (butlast (readLedger f))))"

lemma entries_from_snoc:
  "lv_ok (verify_from pf i h (ls @ [l])) \<Longrightarrow>
     \<exists>e. check_record pf (lv_entries (verify_from pf i h ls)) (lv_headHash (verify_from pf i h ls)) l = Inr e
       \<and> entries_from pf i h (ls @ [l]) = entries_from pf i h ls @ [e]
       \<and> lv_ok (verify_from pf i h ls)
       \<and> verify_from pf i h (ls @ [l]) =
           \<lparr>lv_ok = True, lv_entries = lv_entries (verify_from pf i h ls) + 1, lv_headHash = le_hash e, lv_error = None\<rparr>"
  by (induction ls arbitrary: i h) (auto split: sum.splits)

lemma verify_from_entries: "lv_ok (verify_from pf i h ls) \<Longrightarrow> lv_entries (verify_from pf i h ls) = i + length ls"
  by (induction ls arbitrary: i h) (auto split: sum.splits)

definition core_text :: "ledger_entry \<Rightarrow> string" where
  "core_text e = json_print (core_out (le_seq e) (le_timestamp e) (le_event e) (le_prevHash e))"

text \<open>Two records, one of each list, whose different core texts have the same hash.\<close>

definition hash_collision :: "platform \<Rightarrow> ledger_entry list \<Rightarrow> ledger_entry list \<Rightarrow> bool" where
  "hash_collision pf es es' =
     list_ex (\<lambda>e. list_ex (\<lambda>e'. core_text e \<noteq> core_text e'
        \<and> sha256hex pf (core_text e) = sha256hex pf (core_text e')) es') es"

lemma hash_collision_append:
  "hash_collision pf es es' \<Longrightarrow> hash_collision pf (es @ fs) (es' @ fs')"
  by (auto simp: hash_collision_def list_ex_iff)

text \<open>The head hash and the length pin down every record, unless two of them collide.\<close>

lemma chain_unique:
  assumes "lv_ok (verify_from pf 0 h ls)" "lv_ok (verify_from pf 0 h ls')"
    and "length ls = length ls'" "lv_headHash (verify_from pf 0 h ls) = lv_headHash (verify_from pf 0 h ls')"
  shows "entries_from pf 0 h ls = entries_from pf 0 h ls'
    \<or> hash_collision pf (entries_from pf 0 h ls) (entries_from pf 0 h ls')"
  using assms
proof (induction ls arbitrary: ls' rule: rev_induct)
  case (snoc l ls)
  then obtain l' ms where ls': "ls' = ms @ [l']" by (cases ls' rule: rev_cases) auto
  let ?v = "verify_from pf 0 h ls" and ?w = "verify_from pf 0 h ms"
  from entries_from_snoc [OF snoc.prems(1)] obtain e where
    e: "check_record pf (lv_entries ?v) (lv_headHash ?v) l = Inr e"
      "entries_from pf 0 h (ls @ [l]) = entries_from pf 0 h ls @ [e]" "lv_ok ?v"
      "lv_headHash (verify_from pf 0 h (ls @ [l])) = le_hash e" by auto
  from entries_from_snoc [OF snoc.prems(2) [unfolded ls']] obtain e' where
    e': "check_record pf (lv_entries ?w) (lv_headHash ?w) l' = Inr e'"
      "entries_from pf 0 h (ms @ [l']) = entries_from pf 0 h ms @ [e']" "lv_ok ?w"
      "lv_headHash (verify_from pf 0 h (ms @ [l'])) = le_hash e'" by auto
  have same: "le_hash e = le_hash e'" using snoc.prems(4) e(4) e'(4) by (simp add: ls')
  let ?n = "lv_entries ?v + 1"
  have n: "lv_entries ?w + 1 = ?n"
    using verify_from_entries [OF e(3)] verify_from_entries [OF e'(3)] snoc.prems(3) by (simp add: ls')
  note d = check_recordD [OF e(1)] and d' = check_recordD [OF e'(1), unfolded n]
  let ?x = "json_print (core_out ?n (le_timestamp e) (le_event e) (lv_headHash ?v))"
  let ?y = "json_print (core_out ?n (le_timestamp e') (le_event e') (lv_headHash ?w))"
  show ?case
  proof (cases "?x = ?y")
    case False
    moreover have "core_text e = ?x" "core_text e' = ?y"
      using d(1,2) d'(1,2) by (simp_all add: core_text_def)
    moreover have "sha256hex pf ?x = sha256hex pf ?y"
      using d(4) d'(4) same by (simp add: hashEntry_def)
    ultimately show ?thesis using e(2) e'(2) by (auto simp: hash_collision_def list_ex_iff ls')
  next
    case True
    have parts: "le_timestamp e = le_timestamp e'" "le_event e = le_event e'" "lv_headHash ?v = lv_headHash ?w"
      using core_text_inject [OF True event_distinct [OF d(6)] d(7) event_distinct [OF d'(6)] d(7)] by auto
    have "e = e'"
      using parts same d(1,2) d'(1,2) by (intro ledger_entry.equality) auto
    with snoc.IH [OF e(3) e'(3)] parts(3) snoc.prems(3) e(2) e'(2) show ?thesis
      by (auto simp: ls' intro: hash_collision_append)
  qed
qed simp

section \<open>A platform for the witnesses\<close>

text \<open>A checksum in place of SHA-256, decimal milliseconds in place of ISO dates.\<close>

definition toy_platform :: platform where
  "toy_platform =
     \<lparr>sha256hex = (\<lambda>s. replicate 64 (digit_char (sum_list (map of_char s) mod 10))),
      date_parses = (\<lambda>s. list_all is_digit s), toISOString = (\<lambda>t. show_nat (nat t)),
      syntax_error = (\<lambda>s. ''Unexpected token'')\<rparr>"

lemma toy_platform_ok: "platform_ok toy_platform"
proof -
  have "is_digit (digit_char (n mod 10))" for n by (rule is_digit_digit_char) simp
  with show_nat_digits show ?thesis
    by (auto simp: platform_ok_def toy_platform_def is_hash_def matches_class_def is_hex_lower_def
        list_all_iff)
qed

definition tier_event :: "string \<Rightarrow> jsval" where
  "tier_event a = Obj [(''eventType'', Str ''tier_used''), (''actionId'', Str a), (''capability'', Str ''scale_service''),
     (''tier'', Str ''TIER_1''), (''outcome'', Str ''reserved'')]"

definition reconciled_event :: "string \<Rightarrow> jsval" where
  "reconciled_event a = Obj [(''eventType'', Str ''reconciled''), (''actionId'', Str a),
     (''capability'', Str ''scale_service''), (''outcome'', Str ''operator_verified'')]"

lemma verify_missing: "verifyAuditLedger pf None = \<lparr>lv_ok = True, lv_entries = 0, lv_headHash = GENESIS_HASH, lv_error = None\<rparr>"
  by (simp add: verifyAuditLedger_def readLedger_def verify_contents_def)

lemma validate_tier_event: "validateEvent (tier_event ''a1'') = Inr [(''eventType'', ''tier_used''), (''actionId'', ''a1''),
    (''capability'', ''scale_service''), (''outcome'', ''reserved''), (''tier'', ''TIER_1'')]"
  by code_simp

lemma validate_reconciled_event: "validateEvent (reconciled_event ''a1'') = Inr [(''eventType'', ''reconciled''), (''actionId'', ''a1''),
    (''capability'', ''scale_service''), (''outcome'', ''operator_verified'')]"
  by code_simp

definition tier_ledger :: "string option" where
  "tier_ledger = snd (appendAuditEvent toy_platform 0 IoOk (tier_event ''a1'') None)"

section \<open>Properties\<close>

text \<open>C7: an acknowledged append leaves a ledger that verifies and holds a record of exactly the
  validated event that was passed; it is one new record at the end, or, for a \<open>reconciled\<close>
  event that is already there, the file is untouched.\<close>

theorem append_acknowledged:
  assumes "platform_ok pf" "lv_entries (verifyAuditLedger pf f) + 1 < 2 ^ 53"
    and "appendAuditEvent pf now io input f = (Inr r, f')"
  shows "lv_ok (verifyAuditLedger pf f')
    \<and> validateEvent input = validateEvent (get_prop r ''event'')
    \<and> (\<exists>line\<in>set (ledger_lines f'). json_parse line = Some r)
    \<and> (f' = f \<and> get_prop (get_prop r ''event'') ''eventType'' = Str ''reconciled''
       \<or> lv_entries (verifyAuditLedger pf f') = lv_entries (verifyAuditLedger pf f) + 1
         \<and> prefix (readLedger f) (readLedger f'))"
proof -
  from append_Inr [OF assms] obtain ev where ev: "validateEvent input = Inr ev"
    and ok: "lv_ok (verifyAuditLedger pf f)" and r: "get_prop r ''event'' = event_value ev"
    and l: "\<exists>line\<in>set (ledger_lines f'). json_parse line = Some r"
    and f': "f' = f \<and> map_of ev ''eventType'' = Some ''reconciled''
       \<or> f' = Some (readLedger f @ record_text (new_entry pf now ev (verifyAuditLedger pf f)))" .
  have type: "get_prop (get_prop r ''event'') ''eventType'' = Str ''reconciled''"
    if "map_of ev ''eventType'' = Some ''reconciled''"
    using that by (simp add: r event_value_def prop_of_event)
  from f' show ?thesis
  proof
    assume "f' = f \<and> map_of ev ''eventType'' = Some ''reconciled''"
    with ok ev r l type validate_again [OF ev] show ?thesis by simp
  next
    assume new: "f' = Some (readLedger f @ record_text (new_entry pf now ev (verifyAuditLedger pf f)))"
    with verify_extend [OF assms(1) ok [unfolded verifyAuditLedger_def] assms(2) [unfolded verifyAuditLedger_def] ev, of now]
    have "verifyAuditLedger pf f' = \<lparr>lv_ok = True, lv_entries = lv_entries (verifyAuditLedger pf f) + 1,
        lv_headHash = le_hash (new_entry pf now ev (verifyAuditLedger pf f)), lv_error = None\<rparr>"
      by (simp add: verifyAuditLedger_def readLedger_def)
    moreover have "prefix (readLedger f) (readLedger f')" by (simp add: new readLedger_def)
    ultimately show ?thesis using ev r l validate_again [OF ev] by simp
  qed
qed

lemma tier_append:
  "appendAuditEvent toy_platform 0 IoOk (tier_event ''a1'') None = (Inr (embed (entry_out (new_entry toy_platform 0
     [(''eventType'', ''tier_used''), (''actionId'', ''a1''), (''capability'', ''scale_service''),
      (''outcome'', ''reserved''), (''tier'', ''TIER_1'')] (verifyAuditLedger toy_platform None)))), tier_ledger)"
  by (simp add: tier_ledger_def appendAuditEvent_def validate_tier_event locked_append_def verify_missing
      Let_def write_record_def)

theorem append_acknowledged_witness:
  "lv_ok (verifyAuditLedger toy_platform tier_ledger)
   \<and> (\<exists>r. appendAuditEvent toy_platform 0 IoOk (tier_event ''a1'') None = (Inr r, tier_ledger))"
proof -
  have "lv_ok (verifyAuditLedger toy_platform tier_ledger)"
    using append_acknowledged [OF toy_platform_ok _ tier_append] by (simp add: verify_missing)
  with tier_append show ?thesis by auto
qed

text \<open>C8: an append that fails fails closed: the text is unchanged, or the whole record is there
  and the ledger verifies with one more entry, or the last record is torn, and then the
  ledger does not verify and every later append is refused and writes nothing.\<close>

theorem append_fails_closed:
  assumes "platform_ok pf" "lv_ok (verifyAuditLedger pf f)" "lv_entries (verifyAuditLedger pf f) + 1 < 2 ^ 53"
    and "appendAuditEvent pf now io input f = (Inl m, f')"
  shows "readLedger f' = readLedger f
    \<or> lv_ok (verifyAuditLedger pf f') \<and> lv_entries (verifyAuditLedger pf f') = lv_entries (verifyAuditLedger pf f) + 1
    \<or> (\<not> lv_ok (verifyAuditLedger pf f')
       \<and> (\<forall>now' io' input'. isl (fst (appendAuditEvent pf now' io' input' f'))
                             \<and> snd (appendAuditEvent pf now' io' input' f') = f'))"
proof -
  have refused: "isl (fst (appendAuditEvent pf now' io' input' g)) \<and> snd (appendAuditEvent pf now' io' input' g) = g"
    if "\<not> lv_ok (verifyAuditLedger pf g)" for now' io' input' g
    using that by (auto simp: appendAuditEvent_def locked_append_def Let_def split: sum.split append_io.split)
  show ?thesis
  proof (cases rule: append_cases [of pf now io input f])
    case unchanged
    with assms(4) show ?thesis by simp
  next
    case (written ev)
    let ?e = "new_entry pf now ev (verifyAuditLedger pf f)"
    have f': "f' = snd (write_record io ?e f)" using assms(4) written(3) by simp
    from write_record_cases [of io ?e f] show ?thesis
    proof (elim disjE exE conjE)
      assume "snd (write_record io ?e f) = f"
      then show ?thesis by (simp add: f')
    next
      assume "readLedger (snd (write_record io ?e f)) = readLedger f @ record_text ?e"
      with verify_extend [OF assms(1) assms(2) [unfolded verifyAuditLedger_def] assms(3) [unfolded verifyAuditLedger_def] written(1), of now]
      show ?thesis by (simp add: verifyAuditLedger_def f')
    next
      fix n assume n: "n < length (record_text ?e)" and torn: "snd (write_record io ?e f) = Some (readLedger f @ take n (record_text ?e))"
      show ?thesis
      proof (cases "n = 0")
        case True
        with torn show ?thesis by (simp add: f' readLedger_def)
      next
        case False
        with n have "take n (record_text ?e) \<noteq> []" by auto
        then have "\<not> lv_ok (verifyAuditLedger pf f')"
          using verify_torn [OF record_text_split [OF n], of pf "readLedger f"] torn
          by (simp add: verifyAuditLedger_def f' readLedger_def)
        with refused show ?thesis by blast
      qed
    qed
  qed
qed

theorem append_fails_closed_witness:
  "isl (fst (appendAuditEvent toy_platform 0 (WriteFails 7 ''ENOSPC'') (tier_event ''a1'') None))
   \<and> \<not> lv_ok (verifyAuditLedger toy_platform
        (snd (appendAuditEvent toy_platform 0 (WriteFails 7 ''ENOSPC'') (tier_event ''a1'') None)))
   \<and> isl (fst (appendAuditEvent toy_platform 5 IoOk (tier_event ''a1'')
        (snd (appendAuditEvent toy_platform 0 (WriteFails 7 ''ENOSPC'') (tier_event ''a1'') None))))"
proof -
  let ?a = "appendAuditEvent toy_platform 0 (WriteFails 7 ''ENOSPC'') (tier_event ''a1'') None"
  have torn: "?a = (Inl ''ENOSPC'', Some (CHR ''{'' # quote ''seq'' @ '':''))"
    by (simp add: appendAuditEvent_def validate_tier_event locked_append_def verify_missing
        Let_def write_record_def record_text_def entry_out_def quote_def quote_char_def readLedger_def)
  then have bad: "\<not> lv_ok (verifyAuditLedger toy_platform (snd ?a))"
    by (simp add: verifyAuditLedger_def readLedger_def verify_contents_def ends_with_def starts_with_def quote_def)
  have "readLedger (snd ?a) \<noteq> readLedger None" by (simp add: torn readLedger_def)
  with append_fails_closed [OF toy_platform_ok _ _ torn] bad torn show ?thesis
    by (simp add: verify_missing)
qed

lemma verified_lines:
  assumes "lv_ok (verifyAuditLedger pf f)" "readLedger f \<noteq> []"
  defines "ls \<equiv> split_on newline (butlast (readLedger f))"
  shows "verifyAuditLedger pf f = verify_from pf 0 GENESIS_HASH ls"
    "lv_entries (verifyAuditLedger pf f) = length ls" "ledger_entries pf f = entries_from pf 0 GENESIS_HASH ls"
    "ls \<noteq> []"
proof -
  show v: "verifyAuditLedger pf f = verify_from pf 0 GENESIS_HASH ls"
    using assms(1,2) by (auto simp: verifyAuditLedger_def verify_contents_def ls_def split: if_splits)
  show "lv_entries (verifyAuditLedger pf f) = length ls"
    using assms(1) verify_from_entries [of pf 0 GENESIS_HASH ls] by (simp add: v)
  show "ledger_entries pf f = entries_from pf 0 GENESIS_HASH ls" "ls \<noteq> []"
    using assms(2) by (simp_all add: ledger_entries_def ls_def)
qed

text \<open>C9: two ledger files that verify with the same number of entries and the same head hash
  hold the same records (sequence numbers, timestamps, events, hashes), or two of their
  records are a collision of the hash function.\<close>

theorem ledger_tamper_evident:
  assumes "lv_ok (verifyAuditLedger pf f)" "lv_ok (verifyAuditLedger pf g)"
    and "lv_entries (verifyAuditLedger pf f) = lv_entries (verifyAuditLedger pf g)"
    and "lv_headHash (verifyAuditLedger pf f) = lv_headHash (verifyAuditLedger pf g)"
  shows "ledger_entries pf f = ledger_entries pf g
    \<or> hash_collision pf (ledger_entries pf f) (ledger_entries pf g)"
proof (cases "readLedger f = [] \<or> readLedger g = []")
  case True
  have empty: "lv_entries (verifyAuditLedger pf x) = 0 \<longleftrightarrow> readLedger x = []" if "lv_ok (verifyAuditLedger pf x)" for x
    using verified_lines(2,4) [OF that] by (cases "readLedger x = []") (simp_all add: verifyAuditLedger_def verify_contents_def)
  from True empty [OF assms(1)] empty [OF assms(2)] assms(3) have "readLedger f = []" "readLedger g = []" by auto
  then show ?thesis by (simp add: ledger_entries_def)
next
  case False
  then have ne: "readLedger f \<noteq> []" "readLedger g \<noteq> []" by auto
  note v = verified_lines [OF assms(1) ne(1)] and w = verified_lines [OF assms(2) ne(2)]
  show ?thesis
    using chain_unique [of pf GENESIS_HASH "split_on newline (butlast (readLedger f))" "split_on newline (butlast (readLedger g))"]
      assms v w by simp
qed

lemma tier_ledger_ok: "lv_ok (verifyAuditLedger toy_platform tier_ledger)"
  using verify_extend [OF toy_platform_ok _ _ validate_tier_event, of "[]" 0] tier_append verify_missing [of toy_platform]
  by (simp add: verifyAuditLedger_def readLedger_def write_record_Inr tier_ledger_def appendAuditEvent_def
      validate_tier_event locked_append_def Let_def write_record_def)

theorem ledger_tamper_evident_witness:
  "lv_ok (verifyAuditLedger toy_platform tier_ledger)
   \<and> (ledger_entries toy_platform tier_ledger = ledger_entries toy_platform tier_ledger
      \<or> hash_collision toy_platform (ledger_entries toy_platform tier_ledger) (ledger_entries toy_platform tier_ledger))"
  using ledger_tamper_evident [OF tier_ledger_ok tier_ledger_ok refl refl] tier_ledger_ok by blast

lemma find_reconciled_append:
  "find_reconciled a ev ls = NotFound \<Longrightarrow> find_reconciled a ev (ls @ ls') = find_reconciled a ev ls'"
  by (induction ls) (auto simp: Let_def split: if_splits option.splits)

lemma to_out_event_value: "to_out (event_value ev) = Some (event_out ev)"
  by (auto simp: event_value_def event_out_def list_all_iff)

lemma find_reconciled_prefix: "find_reconciled a ev (ls @ ls') = NotFound \<Longrightarrow> find_reconciled a ev ls = NotFound"
  by (induction ls) (auto simp: Let_def split: if_splits option.splits)

lemma find_after_write:
  assumes nf: "find_reconciled a ev (split_on newline c) = NotFound" and c: "c = [] \<or> ends_with [newline] c"
    and e: "le_event e = ev" "le_seq e < 2 ^ 53" and ev: "distinct (map fst ev)"
      "map_of ev ''eventType'' = Some ''reconciled''" "map_of ev ''actionId'' = Some a"
  shows "find_reconciled a ev (split_on newline (c @ record_text e)) = Existing (embed (entry_out e))"
proof -
  let ?line = "json_print (entry_out e)"
  have "newline \<notin> set ?line" by (rule json_print_no_newline)
  then have "\<exists>ls. split_on newline (c @ record_text e) = ls @ [?line, []] \<and> find_reconciled a ev ls = NotFound"
  proof (cases "c = []")
    case False
    with c obtain c' where c': "c = c' @ [newline]" by (auto simp: ends_with_suffix suffix_def)
    have "split_on newline (c @ record_text e) = split_on newline c' @ [?line, []]"
      using json_print_no_newline(1) [of "entry_out e"] by (simp add: c' record_text_def split_on_append split_on_plain)
    with nf find_reconciled_prefix show ?thesis by (auto simp: c' split_on_append)
  qed (simp add: record_text_def split_on_append_sep)
  moreover have "json_parse ?line = Some (embed (entry_out e))"
    using e ev by (intro json_parse_print) (simp add: entry_out_ok)
  moreover have "get_prop (embed (entry_out e)) ''event'' = event_value ev"
    by (simp add: entry_out_def prop_of_def embed_event e)
  moreover have "get_prop (event_value ev) k = (case map_of ev k of None \<Rightarrow> Undefined | Some s \<Rightarrow> Str s)" for k
    by (simp add: event_value_def prop_of_event)
  ultimately show ?thesis
    using ev by (auto simp: find_reconciled_append Let_def to_out_event_value)
qed

text \<open>a \<open>reconciled\<close> event is recorded once: appending the same event again, at any later time,
  acknowledges the record that is there and writes nothing.\<close>

theorem reconciled_recorded_once:
  assumes "platform_ok pf" "lv_entries (verifyAuditLedger pf f) + 1 < 2 ^ 53"
    and "get_prop input ''eventType'' = Str ''reconciled''"
    and "appendAuditEvent pf now io input f = (Inr r, f')"
  shows "appendAuditEvent pf now' IoOk input f' = (Inr r, f')"
proof -
  let ?v = "verifyAuditLedger pf f"
  from assms(4) obtain ev where ev: "validateEvent input = Inr ev" and lock: "locked_append pf now io ev f = (Inr r, f')"
    by (auto simp: appendAuditEvent_def split: sum.splits append_io.splits)
  let ?e = "new_entry pf now ev ?v"
  have type: "map_of ev ''eventType'' = Some ''reconciled''"
    using validateEvent_InrD [OF ev] assms(3) by (metis get_prop.simps(1) jsval.inject(3) map_of_Cons_code(2))
  from lock have ok: "lv_ok ?v" by (auto simp: locked_append_def Let_def split: if_splits)
  from lock type ok obtain a where a: "map_of ev ''actionId'' = Some a"
    and found: "find_reconciled a ev (split_on newline (readLedger f)) = Existing r \<and> f' = f
      \<or> find_reconciled a ev (split_on newline (readLedger f)) = NotFound \<and> write_record io ?e f = (Inr r, f')"
    by (auto simp: locked_append_def Let_def split: option.splits found_reconciled.splits append_io.splits)
  from found show ?thesis
  proof (elim disjE conjE)
    assume "find_reconciled a ev (split_on newline (readLedger f)) = Existing r" "f' = f"
    with ev type a ok show ?thesis by (simp add: appendAuditEvent_def locked_append_def Let_def)
  next
    assume nf: "find_reconciled a ev (split_on newline (readLedger f)) = NotFound"
      and w: "write_record io ?e f = (Inr r, f')"
    then have r: "r = embed (entry_out ?e)" and f': "f' = Some (readLedger f @ record_text ?e)"
      using write_record_Inr [of io ?e f r] by auto
    have "lv_ok (verifyAuditLedger pf f')"
      using verify_extend [OF assms(1) ok [unfolded verifyAuditLedger_def] assms(2) [unfolded verifyAuditLedger_def] ev, of now]
      by (simp add: verifyAuditLedger_def f' readLedger_def)
    moreover have "find_reconciled a ev (split_on newline (readLedger f')) = Existing r"
      using find_after_write [OF nf _ _ _ event_distinct [OF ev] type a, of ?e] verified_shape ok assms(2)
      by (simp add: f' r readLedger_def new_entry_def Let_def verifyAuditLedger_def)
    ultimately show ?thesis
      using ev type a by (simp add: appendAuditEvent_def locked_append_def Let_def)
  qed
qed

lemma reconciled_append:
  "\<exists>r. appendAuditEvent toy_platform 0 IoOk (reconciled_event ''a1'') None =
     (Inr r, snd (appendAuditEvent toy_platform 0 IoOk (reconciled_event ''a1'') None))"
  by (simp add: appendAuditEvent_def validate_reconciled_event locked_append_def verify_missing
      Let_def write_record_def readLedger_def)

theorem reconciled_recorded_once_witness:
  "\<exists>r f'. appendAuditEvent toy_platform 0 IoOk (reconciled_event ''a1'') None = (Inr r, f')
     \<and> appendAuditEvent toy_platform 99 IoOk (reconciled_event ''a1'') f' = (Inr r, f')"
proof -
  obtain r where r: "appendAuditEvent toy_platform 0 IoOk (reconciled_event ''a1'') None =
     (Inr r, snd (appendAuditEvent toy_platform 0 IoOk (reconciled_event ''a1'') None))"
    using reconciled_append by blast
  have "get_prop (reconciled_event ''a1'') ''eventType'' = Str ''reconciled''"
    by (simp add: reconciled_event_def prop_of_def)
  from reconciled_recorded_once [OF toy_platform_ok _ this r, of 99] r show ?thesis
    by (metis (no_types) verify_missing ledger_verification.select_convs(2) add_0 one_less_numeral_iff
        one_less_power semiring_norm(76) zero_less_numeral)
qed

fun advancing :: "int \<Rightarrow> lock_attempt list \<Rightarrow> bool" where
  "advancing t [] = True"
| "advancing t (Exists now # as) = (t + 25 \<le> now \<and> advancing now as)"
| "advancing t (a # as) = advancing t as"

text \<open>Waiting for the lock file ends: attempts 25 milliseconds apart (the timer of the loop)
  cannot go on for more than 402, whatever the file system answers.\<close>

theorem await_lock_ends:
  assumes "advancing (started - 25) attempts" "402 \<le> length attempts"
  shows "\<exists>outcome. await_lock started attempts = Some outcome"
proof -
  have gen: "\<exists>outcome. await_lock started as = Some outcome"
    if "advancing t as" "t - started \<le> 10000" "10000 - (t - started) < 25 * int (length as)" for t as
    using that
  proof (induction as arbitrary: t)
    case (Cons x as)
    show ?case
    proof (cases x)
      case (Exists now)
      with Cons.prems Cons.IH [of now] show ?thesis by auto
    qed simp_all
  qed simp
  show ?thesis using gen [OF assms(1)] assms(2) by simp
qed

fun stale_lock :: "nat \<Rightarrow> int \<Rightarrow> lock_attempt list" where
  "stale_lock 0 t = []"
| "stale_lock (Suc n) t = Exists t # stale_lock n (t + 25)"

theorem await_lock_ends_witness:
  "\<exists>outcome. await_lock 0 (stale_lock 402 0) = Some outcome"
proof (rule await_lock_ends)
  have "advancing (t - 25) (stale_lock n t)" for n t
    by (induction n arbitrary: t) (simp_all, metis add_diff_cancel_right')
  from this [of 0] show "advancing (0 - 25) (stale_lock 402 0)" .
  have "length (stale_lock n t) = n" for n t by (induction n arbitrary: t) auto
  then show "402 \<le> length (stale_lock 402 0)" by simp
qed

section \<open>What a ledger records of an action\<close>

text \<open>Some line of the file is a record whose validated event has this type and action id.\<close>

definition recorded :: "string \<Rightarrow> string \<Rightarrow> string option \<Rightarrow> bool" where
  "recorded ty a f = (\<exists>line\<in>set (ledger_lines f). \<exists>ev.
     map_of ev ''eventType'' = Some ty \<and> map_of ev ''actionId'' = Some a
     \<and> ((\<exists>e. line = json_print (entry_out e) \<and> le_event e = ev)
        \<or> (\<exists>r. json_parse line = Some r \<and> get_prop r ''event'' = event_value ev)))"

lemma json_parse_empty: "json_parse [] = None"
  by (simp add: json_parse_def skip_ws_def)

lemma lines_grow:
  assumes "c = [] \<or> ends_with [newline] c" "l \<in> set (split_on newline c)" "l \<noteq> []"
  shows "l \<in> set (split_on newline (c @ d))"
proof (cases "c = []")
  case False
  with assms(1) obtain c' where "c = c' @ [newline]" by (auto simp: ends_with_suffix suffix_def)
  with assms(2,3) show ?thesis by (auto simp: split_on_append)
qed (use assms in simp)

lemma recorded_grows:
  assumes "recorded ty a f" "readLedger f = [] \<or> ends_with [newline] (readLedger f)"
    and "readLedger f' = readLedger f @ d"
  shows "recorded ty a f'"
proof -
  from assms(1) obtain line ev where l: "line \<in> set (ledger_lines f)"
    and ev: "map_of ev ''eventType'' = Some ty" "map_of ev ''actionId'' = Some a"
    and disj: "(\<exists>e. line = json_print (entry_out e) \<and> le_event e = ev)
       \<or> (\<exists>r. json_parse line = Some r \<and> get_prop r ''event'' = event_value ev)"
    unfolding recorded_def by blast
  have "line \<noteq> []" using disj json_parse_empty json_print_entry_nonempty by (metis option.distinct(1))
  with lines_grow [OF assms(2), of line d] l have "line \<in> set (ledger_lines f')"
    by (simp add: ledger_lines_def assms(3))
  with ev disj show ?thesis unfolding recorded_def by blast
qed

text \<open>No append ever loses a record.\<close>

lemma append_keeps_recorded:
  assumes "recorded ty a f"
  shows "recorded ty a (snd (appendAuditEvent pf now io input f))"
proof (cases rule: append_cases [of pf now io input f])
  case unchanged
  with assms show ?thesis by simp
next
  case (written ev)
  let ?e = "new_entry pf now ev (verifyAuditLedger pf f)"
  have shape: "readLedger f = [] \<or> ends_with [newline] (readLedger f)"
    using verified_shape written(2) by (simp add: verifyAuditLedger_def)
  from write_record_cases [of io ?e f] obtain d where "readLedger (snd (write_record io ?e f)) = readLedger f @ d"
  proof (elim disjE exE conjE, goal_cases)
    case 1
    then show ?case using that [of "[]"] by simp
  next
    case 2
    then show ?case using that by blast
  next
    case (3 n)
    then show ?case using that [of "take n (record_text ?e)"] by (simp add: readLedger_def)
  qed
  with recorded_grows [OF assms shape] written(3) show ?thesis by simp
qed

lemma validate_action_id:
  assumes "validateEvent input = Inr ev" "get_prop input ''actionId'' = Str a"
  shows "map_of ev ''actionId'' = Some a" "get_prop input ''eventType'' = Str t \<Longrightarrow> map_of ev ''eventType'' = Some t"
proof -
  from assms(1) obtain raw t' rest where raw: "input = Obj raw" "prop_of raw ''eventType'' = Str t'"
    and rest: "collect_fields patterns (prop_of raw) = Inr rest" and ev: "ev = (''eventType'', t') # rest"
    by (rule validateEvent_InrD)
  have "prop_of raw ''actionId'' = Str a" using assms(2) raw(1) by simp
  with rest have "map_of rest ''actionId'' = Some a"
    unfolding patterns_def collect_fields_Cons by auto
  then show "map_of ev ''actionId'' = Some a" by (simp add: ev)
  show "get_prop input ''eventType'' = Str t \<Longrightarrow> map_of ev ''eventType'' = Some t"
    using raw by (simp add: ev)
qed

text \<open>An acknowledged append has recorded its event.\<close>

lemma append_records:
  assumes app: "appendAuditEvent pf now io input f = (Inr r, f')"
    and "get_prop input ''eventType'' = Str ty" "get_prop input ''actionId'' = Str a"
  shows "recorded ty a f'"
proof -
  let ?v = "verifyAuditLedger pf f"
  from app obtain ev where ev: "validateEvent input = Inr ev" and lock: "locked_append pf now io ev f = (Inr r, f')"
    by (auto simp: appendAuditEvent_def split: sum.splits append_io.splits)
  note ids = validate_action_id [OF ev assms(3)]
  from lock have ok: "lv_ok ?v" by (auto simp: locked_append_def Let_def split: if_splits)
  let ?e = "new_entry pf now ev ?v"
  have "(\<exists>b. find_reconciled b ev (ledger_lines f) = Existing r) \<and> f' = f \<or> write_record io ?e f = (Inr r, f')"
    using lock ok by (auto simp: locked_append_def Let_def ledger_lines_def
        split: if_splits option.splits found_reconciled.splits append_io.splits)
  then show ?thesis
  proof (elim disjE exE conjE)
    fix b assume "find_reconciled b ev (ledger_lines f) = Existing r" "f' = f"
    with find_reconciled_Existing [OF this(1)] ids assms(2) show ?thesis
      unfolding recorded_def by blast
  next
    assume w: "write_record io ?e f = (Inr r, f')"
    then have f': "f' = Some (readLedger f @ record_text ?e)"
      using write_record_Inr [of io ?e f r] by auto
    have "json_print (entry_out ?e) \<in> set (ledger_lines f')"
      using record_in_lines verified_shape ok by (auto simp: ledger_lines_def f' readLedger_def verifyAuditLedger_def)
    moreover have "le_event ?e = ev" by (simp add: new_entry_def Let_def)
    ultimately show ?thesis using ids assms(2) unfolding recorded_def by blast
  qed
qed

end
