(* ===== verification/AuditedRouter.thy ===== *)
theory AuditedRouter
  imports GateRouter AuditLedger
begin

text \<open>
  \<open>router/src/audited-router.ts\<close>: the plan check of \<open>router.ts\<close> with its rejection recorded in
  the audit ledger.  The random UUID is an argument.
\<close>

datatype audit_status = Recorded | Failed

record audited_result =
  ar_gate :: string
  ar_detail :: string
  ar_audit :: audit_status

definition safe_reason_code :: "string \<Rightarrow> string" where
  "safe_reason_code gate =
     (if gate = ''GATE_1'' then ''schema_rejected''
      else if gate = ''GATE_2'' then ''capability_rejected''
      else if gate = ''GATE_3'' then ''bounds_rejected''
      else if gate = ''GATE_4'' then ''target_rejected''
      else if gate = ''GATE_5'' then ''trusted_evidence_missing''
      else if gate = ''GATE_6'' then ''approval_required''
      else if gate = ''GATE_7'' then ''patch_bounds_rejected''
      else ''action_rejected'')"

text \<open>The capability worth recording: a short identifier, never arbitrary payload text.\<close>

definition audited_capability :: "jsval \<Rightarrow> string option" where
  "audited_capability payload =
     (case get_prop payload ''capability'' of
        Str c \<Rightarrow> if matches_class is_ident_char 1 80 c then Some c else None
      | _ \<Rightarrow> None)"

definition reject_event :: "string \<Rightarrow> jsval \<Rightarrow> string \<Rightarrow> jsval" where
  "reject_event uuid payload gate = Obj
     ([(''eventType'', Str ''gate_reject''), (''actionId'', Str uuid)]
      @ (case audited_capability payload of None \<Rightarrow> [] | Some c \<Rightarrow> [(''capability'', Str c)])
      @ [(''gate'', Str gate), (''reasonCode'', Str (safe_reason_code gate)), (''outcome'', Str ''rejected'')])"

definition process_action_plan_audited ::
  "zod \<Rightarrow> platform \<Rightarrow> int \<Rightarrow> append_io \<Rightarrow> string \<Rightarrow> jsval \<Rightarrow> string option \<Rightarrow> audited_result \<times> string option" where
  "process_action_plan_audited z pf now io uuid payload f =
     (let res = process_action_plan z payload in
      if gr_status res \<noteq> ''REJECTED''
      then (\<lparr>ar_gate = ''GATE_5'', ar_detail = ''Audited wrapper does not authorize execution'', ar_audit = Failed\<rparr>, f)
      else (case appendAuditEvent pf now io (reject_event uuid payload (gr_gate res)) f of
              (Inl _, f') \<Rightarrow> (\<lparr>ar_gate = gr_gate res, ar_detail = gr_detail res, ar_audit = Failed\<rparr>, f')
            | (Inr _, f') \<Rightarrow> (\<lparr>ar_gate = gr_gate res, ar_detail = gr_detail res, ar_audit = Recorded\<rparr>, f')))"

section \<open>Every rejection is an event the ledger accepts\<close>

definition uuid_like :: "string \<Rightarrow> bool" where
  "uuid_like u = matches_class (\<lambda>c. is_hex_lower c \<or> c = CHR ''-'') 36 36 u"

lemma process_status: "gr_status (process_action_plan z p) = ''REJECTED''"
  by (auto simp: process_action_plan_def Let_def split: sum.splits option.splits)

lemma process_gates:
  "gr_gate (process_action_plan z p) \<in> {''GATE_1'', ''GATE_2'', ''GATE_3'', ''GATE_4'', ''GATE_5'', ''GATE_6''}"
  unfolding process_action_plan_def Let_def
  by (auto split: sum.splits option.splits)

lemma gate_patterns:
  assumes "g \<in> {''GATE_1'', ''GATE_2'', ''GATE_3'', ''GATE_4'', ''GATE_5'', ''GATE_6''}"
  shows "re_gate g \<and> snake 79 (safe_reason_code g)"
proof -
  have "re_gate ''GATE_1'' \<and> snake 79 (safe_reason_code ''GATE_1'')"
    "re_gate ''GATE_2'' \<and> snake 79 (safe_reason_code ''GATE_2'')"
    "re_gate ''GATE_3'' \<and> snake 79 (safe_reason_code ''GATE_3'')"
    "re_gate ''GATE_4'' \<and> snake 79 (safe_reason_code ''GATE_4'')"
    "re_gate ''GATE_5'' \<and> snake 79 (safe_reason_code ''GATE_5'')"
    "re_gate ''GATE_6'' \<and> snake 79 (safe_reason_code ''GATE_6'')"
    by code_simp+
  with assms show ?thesis by blast
qed

lemma outcome_rejected: "snake 39 ''rejected''" "''gate_reject'' \<in> set EVENT_TYPES"
  by code_simp+

lemma uuid_action_id:
  assumes "uuid_like u"
  shows "matches_class (\<lambda>c. is_alnum c \<or> c = CHR ''.'' \<or> c = CHR ''_'' \<or> c = CHR '':'' \<or> c = CHR ''-'') 1 128 u"
proof -
  have "is_alnum c" if "is_hex_lower c" for c
    using that by (auto simp: char_class_defs)
  with assms show ?thesis
    by (fastforce simp: uuid_like_def matches_class_def list_all_iff)
qed

text \<open>The event as \<open>validateEvent\<close> leaves it.\<close>

definition reject_fields :: "string \<Rightarrow> jsval \<Rightarrow> string \<Rightarrow> audit_event" where
  "reject_fields uuid payload gate =
     [(''eventType'', ''gate_reject''), (''actionId'', uuid)]
      @ (case audited_capability payload of None \<Rightarrow> [] | Some c \<Rightarrow> [(''capability'', c)])
      @ [(''gate'', gate), (''reasonCode'', safe_reason_code gate), (''outcome'', ''rejected'')]"

lemma reject_event_valid:
  assumes "uuid_like u" "re_gate g" "snake 79 (safe_reason_code g)"
  shows "validateEvent (reject_event u payload g) = Inr (reject_fields u payload g)"
proof (cases "audited_capability payload")
  case None
  show ?thesis
    unfolding reject_event_def None option.case append_Cons append_Nil
    using assms uuid_action_id outcome_rejected
    by (subst validate_Obj [where t = "''gate_reject''" and rest = "[(''actionId'', u), (''gate'', g), (''reasonCode'', safe_reason_code g), (''outcome'', ''rejected'')]"])
      (simp_all add: ALLOWED_FIELDS_def prop_of_def patterns_def collect_fields_Cons reject_fields_def None)
next
  case (Some c)
  then have "matches_class is_ident_char 1 80 c"
    by (auto simp: audited_capability_def split: jsval.splits if_splits)
  then show ?thesis
    unfolding reject_event_def Some option.case append_Cons append_Nil
    using assms uuid_action_id outcome_rejected
    by (subst validate_Obj [where t = "''gate_reject''" and rest = "[(''actionId'', u), (''capability'', c), (''gate'', g), (''reasonCode'', safe_reason_code g), (''outcome'', ''rejected'')]"])
      (simp_all add: ALLOWED_FIELDS_def prop_of_def patterns_def collect_fields_Cons reject_fields_def Some)
qed

text \<open>with a healthy ledger and working file operations every plan, however malformed, is
  rejected and its rejection is recorded: the ledger still verifies, has one more entry, and
  the entry's event holds the gate that \<open>processActionPlan\<close> reports, its reason code, and of
  the payload at most a capability name of 80 identifier characters.\<close>

theorem rejection_recorded:
  fixes z :: zod and now :: int and payload :: jsval
  assumes "platform_ok pf" "uuid_like uuid" "lv_ok (verifyAuditLedger pf f)"
    and "lv_entries (verifyAuditLedger pf f) + 1 < 2 ^ 53"
  defines "res \<equiv> process_action_plan_audited z pf now IoOk uuid payload f"
  shows "ar_audit (fst res) = Recorded \<and> ar_gate (fst res) = gr_gate (process_action_plan z payload)
    \<and> lv_ok (verifyAuditLedger pf (snd res))
    \<and> lv_entries (verifyAuditLedger pf (snd res)) = lv_entries (verifyAuditLedger pf f) + 1
    \<and> (\<exists>line\<in>set (ledger_lines (snd res)). \<exists>r. json_parse line = Some r
         \<and> get_prop r ''event'' = event_value (reject_fields uuid payload (gr_gate (process_action_plan z payload))))"
proof -
  let ?g = "gr_gate (process_action_plan z payload)"
  let ?ev = "reject_fields uuid payload ?g"
  have valid: "validateEvent (reject_event uuid payload ?g) = Inr ?ev"
    using reject_event_valid [OF assms(2)] gate_patterns [OF process_gates] by blast
  let ?e = "new_entry pf now ?ev (verifyAuditLedger pf f)"
  have app: "appendAuditEvent pf now IoOk (reject_event uuid payload ?g) f =
      (Inr (embed (entry_out ?e)), Some (readLedger f @ record_text ?e))"
    using valid assms(3)
    by (simp add: appendAuditEvent_def locked_append_def Let_def write_record_def reject_fields_def)
  have res: "res = (\<lparr>ar_gate = ?g, ar_detail = gr_detail (process_action_plan z payload), ar_audit = Recorded\<rparr>,
      Some (readLedger f @ record_text ?e))"
    by (simp add: res_def process_action_plan_audited_def process_status app Let_def)
  have "verify_contents pf (readLedger f @ record_text ?e) = \<lparr>lv_ok = True,
      lv_entries = lv_entries (verifyAuditLedger pf f) + 1, lv_headHash = le_hash ?e, lv_error = None\<rparr>"
    using verify_extend [OF assms(1) _ _ valid, of "readLedger f" now] assms(3,4)
    by (simp add: verifyAuditLedger_def)
  moreover obtain ev where "validateEvent (reject_event uuid payload ?g) = Inr ev"
    "get_prop (embed (entry_out ?e)) ''event'' = event_value ev"
    "\<exists>line\<in>set (ledger_lines (Some (readLedger f @ record_text ?e))). json_parse line = Some (embed (entry_out ?e))"
    using append_Inr [OF assms(1,4) app] by blast
  ultimately show ?thesis using valid by (auto simp: res verifyAuditLedger_def readLedger_def)
qed

theorem rejection_recorded_witness:
  "ar_audit (fst (process_action_plan_audited zod_ref toy_platform 0 IoOk
      ''00000000-0000-4000-8000-000000000000'' (Str ''rm -rf'') None)) = Recorded"
proof -
  have "uuid_like ''00000000-0000-4000-8000-000000000000''" by code_simp
  from rejection_recorded [OF toy_platform_ok this, of None zod_ref 0 "Str ''rm -rf''"]
  show ?thesis by (simp add: verify_missing)
qed

end
