(* ===== verification/SqlTable.thy ===== *)
theory SqlTable
  imports Prelude
begin

text \<open>
  SQLite tables as the sources use them: rows in insertion order, a primary key, and
  the guarded \<open>UPDATE ... WHERE key = ? AND condition\<close> whose \<open>changes\<close> count the caller
  checks.  The interface is a locale; the list tables below implement it, and each
  table of the program is an interpretation in the theory of its component.
\<close>

section \<open>The interface of a keyed table\<close>

locale keyed_table =
  fixes key :: "'r \<Rightarrow> 'k"
    and select :: "'k \<Rightarrow> 't \<Rightarrow> 'r option"
    and insert_row :: "'r \<Rightarrow> 't \<Rightarrow> 't \<times> nat"
    and update_row :: "'k \<Rightarrow> ('r \<Rightarrow> bool) \<Rightarrow> ('r \<Rightarrow> 'r) \<Rightarrow> 't \<Rightarrow> 't \<times> nat"
    and wf_table :: "'t \<Rightarrow> bool"
  assumes select_key: "select k t = Some r \<Longrightarrow> key r = k"
    and select_insert: "select k (fst (insert_row r t)) =
          (if k = key r \<and> select k t = None then Some r else select k t)"
    and insert_changes: "snd (insert_row r t) = (if select (key r) t = None then 1 else 0)"
    and wf_insert: "wf_table t \<Longrightarrow> wf_table (fst (insert_row r t))"
    and select_update: "wf_table t \<Longrightarrow> (\<And>r. key (f r) = key r) \<Longrightarrow>
          select j (fst (update_row k P f t)) =
            (if j = k then map_option (\<lambda>r. if P r then f r else r) (select k t) else select j t)"
    and update_changes: "wf_table t \<Longrightarrow>
          snd (update_row k P f t) = (case select k t of Some r \<Rightarrow> if P r then 1 else 0 | None \<Rightarrow> 0)"
    and wf_update: "wf_table t \<Longrightarrow> (\<And>r. key (f r) = key r) \<Longrightarrow> wf_table (fst (update_row k P f t))"
begin

text \<open>A guarded update that changes one row found a row that met the guard.\<close>

lemma update_one:
  "wf_table t \<Longrightarrow> snd (update_row k P f t) = 1 \<longleftrightarrow> (\<exists>r. select k t = Some r \<and> P r)"
  by (simp add: update_changes split: option.split)

text \<open>An update that falsifies its own guard (a status transition) happens at most once: the
  second of two competing callers changes nothing.\<close>

lemma update_only_once:
  assumes "wf_table t" "\<And>r. key (f r) = key r" "\<And>r. P r \<Longrightarrow> \<not> P (f r)"
    and "snd (update_row k P f t) = 1"
  shows "snd (update_row k P f (fst (update_row k P f t))) = 0"
proof -
  obtain r where r: "select k t = Some r" "P r" using assms(4) update_one [OF assms(1)] by blast
  have "select k (fst (update_row k P f t)) = Some (f r)"
    using select_update [OF assms(1,2), of k k P] r by simp
  then show ?thesis
    using update_changes [OF wf_update [OF assms(1,2)], of k P f k P] assms(3) [OF r(2)] by simp
qed

lemma insert_fresh_iff: "snd (insert_row r t) = 1 \<longleftrightarrow> select (key r) t = None"
  by (simp add: insert_changes)

lemma insert_keeps: "select k t = Some r \<Longrightarrow> select k (fst (insert_row r' t)) = Some r"
  by (simp add: select_insert)

end

section \<open>Tables as lists of rows\<close>

definition sql_select :: "('r \<Rightarrow> 'k) \<Rightarrow> 'k \<Rightarrow> 'r list \<Rightarrow> 'r option" where
  "sql_select key k rows = find (\<lambda>r. key r = k) rows"

text \<open>\<open>INSERT ... ON CONFLICT(key) DO NOTHING\<close>, with the number of changed rows.\<close>

definition sql_insert :: "('r \<Rightarrow> 'k) \<Rightarrow> 'r \<Rightarrow> 'r list \<Rightarrow> 'r list \<times> nat" where
  "sql_insert key r rows = (if sql_select key (key r) rows = None then (rows @ [r], 1) else (rows, 0))"

text \<open>\<open>UPDATE ... SET f WHERE key = k AND P\<close>, with the number of changed rows.\<close>

definition sql_update :: "('r \<Rightarrow> 'k) \<Rightarrow> 'k \<Rightarrow> ('r \<Rightarrow> bool) \<Rightarrow> ('r \<Rightarrow> 'r) \<Rightarrow> 'r list \<Rightarrow> 'r list \<times> nat" where
  "sql_update key k P f rows =
     (map (\<lambda>r. if key r = k \<and> P r then f r else r) rows, length (filter (\<lambda>r. key r = k \<and> P r) rows))"

definition keys_distinct :: "('r \<Rightarrow> 'k) \<Rightarrow> 'r list \<Rightarrow> bool" where
  "keys_distinct key rows = distinct (map key rows)"

lemma sql_select_key: "sql_select key k rows = Some r \<Longrightarrow> key r = k"
  by (auto simp: sql_select_def dest: find_key_SomeD)

lemma sql_select_in: "sql_select key k rows = Some r \<Longrightarrow> r \<in> set rows"
  by (auto simp: sql_select_def dest: find_key_SomeD)

lemma sql_select_iff:
  "keys_distinct key rows \<Longrightarrow> sql_select key k rows = Some r \<longleftrightarrow> r \<in> set rows \<and> key r = k"
  by (auto simp: sql_select_def keys_distinct_def find_key_unique dest: find_key_SomeD)

lemma sql_select_none: "sql_select key k rows = None \<longleftrightarrow> (\<forall>r\<in>set rows. key r \<noteq> k)"
  by (auto simp: sql_select_def find_None_iff)

lemma sql_select_Cons: "sql_select key k (r # rows) = (if key r = k then Some r else sql_select key k rows)"
  by (simp add: sql_select_def)

lemma sql_select_Nil [simp]: "sql_select key k [] = None"
  by (simp add: sql_select_def)

lemma sql_select_append:
  "sql_select key k (xs @ ys) = (case sql_select key k xs of None \<Rightarrow> sql_select key k ys | Some r \<Rightarrow> Some r)"
  by (induction xs) (auto simp: sql_select_Cons)

lemma sql_select_map:
  "(\<And>r. key (g r) = key r) \<Longrightarrow> sql_select key k (map g rows) = map_option g (sql_select key k rows)"
  by (induction rows) (auto simp: sql_select_Cons)

lemma keys_distinct_map: "(\<And>r. key (g r) = key r) \<Longrightarrow> keys_distinct key (map g rows) = keys_distinct key rows"
  by (simp add: keys_distinct_def comp_def)

lemma list_table: "keyed_table key (sql_select key) (sql_insert key) (sql_update key) (keys_distinct key)"
proof (unfold_locales, goal_cases)
  case (1 k t r)
  then show ?case by (rule sql_select_key)
next
  case (2 k r t)
  show ?case by (auto simp: sql_insert_def sql_select_append sql_select_Cons split: option.split)
next
  case (3 r t)
  show ?case by (simp add: sql_insert_def)
next
  case (4 t r)
  then show ?case by (auto simp: sql_insert_def keys_distinct_def sql_select_none image_iff)
next
  case (5 t f j k P)
  have "sql_select key j (map (\<lambda>r. if key r = k \<and> P r then f r else r) t) =
      map_option (\<lambda>r. if key r = k \<and> P r then f r else r) (sql_select key j t)"
    by (rule sql_select_map) (simp add: 5)
  then show ?case
    by (cases "sql_select key j t") (auto simp: sql_update_def dest: sql_select_key)
next
  case (6 t k P f)
  then have "length (filter (\<lambda>r. key r = k \<and> P r) t) \<le> 1"
    by (intro filter_length_le_one) (simp add: keys_distinct_def)
  moreover have "filter (\<lambda>r. key r = k \<and> P r) t \<noteq> [] \<longleftrightarrow> (\<exists>r. sql_select key k t = Some r \<and> P r)"
    using sql_select_iff [OF 6, of k] by (auto simp: filter_empty_conv)
  ultimately show ?case
    by (cases "filter (\<lambda>r. key r = k \<and> P r) t") (auto simp: sql_update_def split: option.split)
next
  case (7 t f k P)
  then show ?case by (simp add: sql_update_def keys_distinct_map)
qed

section \<open>Upserts and deletes\<close>

text \<open>A table whose client also runs \<open>INSERT ... ON CONFLICT (key) DO UPDATE SET\<close> and \<open>DELETE\<close>.\<close>

locale upsert_table = keyed_table key select insert_row update_row wf_table
  for key :: "'r \<Rightarrow> 'k"
    and select :: "'k \<Rightarrow> 't \<Rightarrow> 'r option"
    and insert_row :: "'r \<Rightarrow> 't \<Rightarrow> 't \<times> nat"
    and update_row :: "'k \<Rightarrow> ('r \<Rightarrow> bool) \<Rightarrow> ('r \<Rightarrow> 'r) \<Rightarrow> 't \<Rightarrow> 't \<times> nat"
    and wf_table :: "'t \<Rightarrow> bool" +
  fixes upsert_row :: "'r \<Rightarrow> ('r \<Rightarrow> 'r) \<Rightarrow> 't \<Rightarrow> 't"
    and delete_row :: "'k \<Rightarrow> 't \<Rightarrow> 't"
  assumes select_upsert: "wf_table t \<Longrightarrow> (\<And>r. key (f r) = key r) \<Longrightarrow>
          select k (upsert_row r f t) =
            (if k = key r then Some (case select k t of None \<Rightarrow> r | Some old \<Rightarrow> f old) else select k t)"
    and wf_upsert: "wf_table t \<Longrightarrow> (\<And>r. key (f r) = key r) \<Longrightarrow> wf_table (upsert_row r f t)"
    and select_delete: "select j (delete_row k t) = (if j = k then None else select j t)"
    and wf_delete: "wf_table t \<Longrightarrow> wf_table (delete_row k t)"
begin

lemma upsert_twice:
  assumes "wf_table t" "\<And>r. key (f r) = key r" "\<And>r. key (g r) = key r" "key r' = key r"
  shows "select (key r) (upsert_row r' g (upsert_row r f t)) =
    Some (g (case select (key r) t of None \<Rightarrow> r | Some old \<Rightarrow> f old))"
  using assms by (simp add: select_upsert wf_upsert)

lemma delete_upsert:
  "wf_table t \<Longrightarrow> (\<And>r. key (f r) = key r) \<Longrightarrow>
   select (key r) (delete_row (key r) (upsert_row r f t)) = None"
  by (simp add: select_delete)

end

definition sql_upsert :: "('r \<Rightarrow> 'k) \<Rightarrow> 'r \<Rightarrow> ('r \<Rightarrow> 'r) \<Rightarrow> 'r list \<Rightarrow> 'r list" where
  "sql_upsert key r f rows =
     (if sql_select key (key r) rows = None then rows @ [r]
      else map (\<lambda>x. if key x = key r then f x else x) rows)"

definition sql_delete :: "('r \<Rightarrow> 'k) \<Rightarrow> 'k \<Rightarrow> 'r list \<Rightarrow> 'r list" where
  "sql_delete key k rows = filter (\<lambda>r. key r \<noteq> k) rows"

lemma sql_select_delete: "sql_select key j (sql_delete key k rows) = (if j = k then None else sql_select key j rows)"
  by (induction rows) (auto simp: sql_delete_def sql_select_Cons)

lemma list_upsert_table:
  "upsert_table key (sql_select key) (sql_insert key) (sql_update key) (keys_distinct key)
     (sql_upsert key) (sql_delete key)"
proof (rule upsert_table.intro [OF list_table], unfold_locales, goal_cases)
  case (1 t f k r)
  have "sql_select key k (map (\<lambda>x. if key x = key r then f x else x) t) =
      map_option (\<lambda>x. if key x = key r then f x else x) (sql_select key k t)"
    by (rule sql_select_map) (simp add: 1)
  then show ?case
    by (cases "sql_select key k t")
      (auto simp: sql_upsert_def sql_select_append sql_select_Cons dest: sql_select_key split: option.split)
next
  case (2 t f r)
  then show ?case
    using keys_distinct_map [of key "\<lambda>x. if key x = key r then f x else x" t]
    by (auto simp: sql_upsert_def keys_distinct_def sql_select_none image_iff)
next
  case (3 j k t)
  show ?case by (rule sql_select_delete)
next
  case (4 t k)
  then show ?case by (simp add: sql_delete_def keys_distinct_def distinct_map_filter)
qed

end
