(* ===== verification/ActionStore.thy ===== *)
theory ActionStore
  imports SqlTable RateLimit "HOL-Library.Char_ord" "HOL-Library.List_Lexorder"
begin

text \<open>
  The durable action store, \<open>router/src/storage/action-store.ts\<close>: three SQLite tables,
  one \<open>claim_status\<close> machine per action, the sliding-window budget, the per-target lock
  (the active reservation, unique per target) and the reconciliation outbox.  Each
  method is one atomic step (a statement, or a \<open>BEGIN IMMEDIATE\<close> transaction rolled back
  by every error); \<open>now\<close> is what \<open>Date.now()\<close> returns.  A statement that fails for
  reasons of the database is the caller's concern (see \<open>TrustedRouter\<close>).
\<close>

section \<open>Tables\<close>

datatype claim_status = CLAIMED | EXECUTING | EXECUTED | FAILED | NEEDS_RECONCILIATION | RECONCILED

record claim_row =
  c_action_id :: string
  c_capability :: string
  c_target :: string
  c_status :: claim_status
  c_created_at :: int
  c_updated_at :: int

record reservation_row =
  r_action_id :: string
  r_target :: string
  r_reserved_at :: int
  r_active :: bool

record outbox_row =
  o_action_id :: string
  o_delivered :: bool
  o_created_at :: int

record action_db =
  action_claims :: "claim_row list"
  budget_reservations :: "reservation_row list"
  reconciliation_outbox :: "outbox_row list"

definition empty_db :: action_db where
  "empty_db = \<lparr>action_claims = [], budget_reservations = [], reconciliation_outbox = []\<rparr>"

definition find_claim :: "string \<Rightarrow> action_db \<Rightarrow> claim_row option" where
  "find_claim a db = sql_select c_action_id a (action_claims db)"

definition find_reservation :: "string \<Rightarrow> action_db \<Rightarrow> reservation_row option" where
  "find_reservation a db = sql_select r_action_id a (budget_reservations db)"

definition find_outbox :: "string \<Rightarrow> action_db \<Rightarrow> outbox_row option" where
  "find_outbox a db = sql_select o_action_id a (reconciliation_outbox db)"

section \<open>Claims\<close>

definition valid_action_id :: "string \<Rightarrow> bool" where
  "valid_action_id a = matches_class is_ident_char 1 128 a"

datatype claim_result = Claimed | Duplicate

definition claim :: "int \<Rightarrow> string \<Rightarrow> string \<Rightarrow> string \<Rightarrow> action_db \<Rightarrow> (claim_result \<times> action_db) result" where
  "claim now actionId capability target db =
     (if \<not> valid_action_id actionId then Inl ''Invalid action ID''
      else
        (let (rows, changes) = sql_insert c_action_id
               \<lparr>c_action_id = actionId, c_capability = capability, c_target = target, c_status = CLAIMED,
                c_created_at = now, c_updated_at = now\<rparr> (action_claims db)
         in Inr (if changes = 1 then Claimed else Duplicate, db\<lparr>action_claims := rows\<rparr>)))"

text \<open>The guarded status update every transition is made of.\<close>

definition update_status ::
  "int \<Rightarrow> string \<Rightarrow> claim_status \<Rightarrow> claim_status \<Rightarrow> action_db \<Rightarrow> action_db \<times> nat" where
  "update_status now actionId from_st to_st db =
     (let (rows, changes) = sql_update c_action_id actionId (\<lambda>r. c_status r = from_st)
            (\<lambda>r. r\<lparr>c_status := to_st, c_updated_at := now\<rparr>) (action_claims db)
      in (db\<lparr>action_claims := rows\<rparr>, changes))"

definition transition ::
  "string \<Rightarrow> claim_status \<Rightarrow> claim_status \<Rightarrow> int \<Rightarrow> string \<Rightarrow> action_db \<Rightarrow> action_db result" where
  "transition message from_st to_st now actionId db =
     (let (db', changes) = update_status now actionId from_st to_st db
      in if changes \<noteq> 1 then Inl message else Inr db')"

definition complete :: "int \<Rightarrow> string \<Rightarrow> action_db \<Rightarrow> action_db result" where
  "complete = transition ''Action is not in EXECUTING state'' EXECUTING EXECUTED"

definition fail :: "int \<Rightarrow> string \<Rightarrow> action_db \<Rightarrow> action_db result" where
  "fail = transition ''Action is not in CLAIMED state'' CLAIMED FAILED"

definition beginExecution :: "int \<Rightarrow> string \<Rightarrow> action_db \<Rightarrow> action_db result" where
  "beginExecution = transition ''Action cannot enter EXECUTING'' CLAIMED EXECUTING"

definition needsReconciliation :: "int \<Rightarrow> string \<Rightarrow> action_db \<Rightarrow> action_db result" where
  "needsReconciliation = transition ''Action cannot enter NEEDS_RECONCILIATION'' EXECUTING NEEDS_RECONCILIATION"

definition getStatus :: "string \<Rightarrow> action_db \<Rightarrow> claim_status option" where
  "getStatus actionId db = map_option c_status (find_claim actionId db)"

section \<open>The budget\<close>

text \<open>The triggers: a target with an undelivered reconciliation audit takes no active reservation.\<close>

definition pending_audit :: "string \<Rightarrow> action_db \<Rightarrow> bool" where
  "pending_audit target db =
     list_ex (\<lambda>outb. \<not> o_delivered outb
        \<and> list_ex (\<lambda>a. c_action_id a = o_action_id outb \<and> c_target a = target) (action_claims db))
       (reconciliation_outbox db)"

text \<open>The \<open>INSERT\<close> with its trigger, primary key and partial unique index.\<close>

definition insert_reservation :: "reservation_row \<Rightarrow> action_db \<Rightarrow> action_db result" where
  "insert_reservation r db =
     (if r_active r \<and> pending_audit (r_target r) db then Inl ''pending_reconciliation_audit''
      else if list_ex (\<lambda>s. r_action_id s = r_action_id r) (budget_reservations db)
      then Inl ''UNIQUE constraint failed: budget_reservations.action_id''
      else if r_active r \<and> list_ex (\<lambda>s. r_target s = r_target r \<and> r_active s) (budget_reservations db)
      then Inl ''UNIQUE constraint failed: budget_reservations.target''
      else Inr (db\<lparr>budget_reservations := budget_reservations db @ [r]\<rparr>))"

definition reserveBudget :: "int \<Rightarrow> string \<Rightarrow> string \<Rightarrow> action_db \<Rightarrow> action_db result" where
  "reserveBudget now actionId target db =
     (let cutoff = now - 15 * 60000;
          rows = budget_reservations db;
          mine = filter (\<lambda>r. r_target r = target) rows
      in if list_ex r_active mine then Inl ''target_mutex_locked''
         else if length (filter (\<lambda>r. r_reserved_at r > cutoff) mine) \<ge> 3 then Inl ''target_budget_exceeded''
         else if length (filter (\<lambda>r. r_reserved_at r > cutoff) rows) \<ge> 8 then Inl ''global_budget_exceeded''
         else if mine \<noteq> [] \<and> now - Max (set (map r_reserved_at mine)) < 90000 then Inl ''target_cooldown_active''
         else insert_reservation
                \<lparr>r_action_id = actionId, r_target = target, r_reserved_at = now, r_active = True\<rparr> db)"

definition release_where :: "string \<Rightarrow> (reservation_row \<Rightarrow> bool) \<Rightarrow> action_db \<Rightarrow> action_db \<times> nat" where
  "release_where actionId P db =
     (let (rows, changes) = sql_update r_action_id actionId P (\<lambda>r. r\<lparr>r_active := False\<rparr>) (budget_reservations db)
      in (db\<lparr>budget_reservations := rows\<rparr>, changes))"

definition releaseBudget :: "string \<Rightarrow> action_db \<Rightarrow> action_db result" where
  "releaseBudget actionId db =
     (let (db', changes) = release_where actionId r_active db
      in if changes \<noteq> 1 then Inl ''Budget reservation not active'' else Inr db')"

section \<open>Reconciliation\<close>

text \<open>The lock check both reconciliation transactions begin with.\<close>

definition lock_held :: "string \<Rightarrow> string \<Rightarrow> action_db \<Rightarrow> bool" where
  "lock_held actionId target db =
     (case find_reservation actionId db of
        None \<Rightarrow> False
      | Some r \<Rightarrow> r_target r = target \<and> r_active r)"

definition resolveReconciliation :: "int \<Rightarrow> int \<Rightarrow> string \<Rightarrow> action_db \<Rightarrow> action_db result" where
  "resolveReconciliation now1 now2 actionId db =
     (case find_claim actionId db of
        None \<Rightarrow> Inl ''action_not_reconcilable''
      | Some action \<Rightarrow>
          if c_status action \<noteq> NEEDS_RECONCILIATION then Inl ''action_not_reconcilable''
          else if \<not> lock_held actionId (c_target action) db then Inl ''reconciliation_lock_missing''
          else
            (let (db', changes) = update_status now1 actionId NEEDS_RECONCILIATION RECONCILED db
             in if changes \<noteq> 1 then Inl ''reconciliation_state_conflict''
                else
                  (let (rows, inserted) = sql_insert o_action_id
                         \<lparr>o_action_id = actionId, o_delivered = False, o_created_at = now2\<rparr>
                         (reconciliation_outbox db')
                   in if inserted \<noteq> 1 then Inl ''UNIQUE constraint failed: reconciliation_outbox.action_id''
                      else Inr (db'\<lparr>reconciliation_outbox := rows\<rparr>))))"

definition getPendingReconciliationAudits :: "action_db \<Rightarrow> string list" where
  "getPendingReconciliationAudits db =
     map o_action_id (sort_key o_created_at (sort_key o_action_id
       (filter (\<lambda>r. \<not> o_delivered r) (reconciliation_outbox db))))"

definition markReconciliationAuditDelivered :: "string \<Rightarrow> action_db \<Rightarrow> action_db result" where
  "markReconciliationAuditDelivered actionId db =
     (case find_claim actionId db of
        None \<Rightarrow> Inl ''outbox_action_state_conflict''
      | Some action \<Rightarrow>
          if c_status action \<noteq> RECONCILED then Inl ''outbox_action_state_conflict''
          else if \<not> lock_held actionId (c_target action) db then Inl ''outbox_lock_missing''
          else
            (let (rows, changes) = sql_update o_action_id actionId (\<lambda>r. \<not> o_delivered r)
                   (\<lambda>r. r\<lparr>o_delivered := True\<rparr>) (reconciliation_outbox db)
             in if changes \<noteq> 1 then Inl ''outbox_delivery_conflict''
                else
                  (let (db', released) = release_where actionId (\<lambda>r. r_target r = c_target action \<and> r_active r)
                         (db\<lparr>reconciliation_outbox := rows\<rparr>)
                   in if released \<noteq> 1 then Inl ''outbox_release_failed'' else Inr db')))"

definition recovery_pending :: "action_db \<Rightarrow> claim_row \<Rightarrow> bool" where
  "recovery_pending db a =
     (c_status a \<in> {CLAIMED, EXECUTING, NEEDS_RECONCILIATION}
      \<or> c_status a = RECONCILED
        \<and> list_ex (\<lambda>outb. o_action_id outb = c_action_id a \<and> \<not> o_delivered outb) (reconciliation_outbox db))"

definition getPendingRecoveryTargets :: "action_db \<Rightarrow> string list" where
  "getPendingRecoveryTargets db =
     sort (remdups (map c_target (filter (recovery_pending db) (action_claims db))))"

text \<open>\<open>ORDER BY created_at\<close>; rows of equal time stay in table order.\<close>

definition getIncompleteActions :: "action_db \<Rightarrow> claim_row list" where
  "getIncompleteActions db = sort_key c_created_at (filter (\<lambda>a. c_status a = CLAIMED) (action_claims db))"

definition getUnresolvedActions :: "action_db \<Rightarrow> claim_row list" where
  "getUnresolvedActions db =
     sort_key c_created_at (filter (\<lambda>a. c_status a \<in> {CLAIMED, EXECUTING, NEEDS_RECONCILIATION}) (action_claims db))"

section \<open>Migration of an old database\<close>

text \<open>
  \<open>action_claims\<close> as \<open>sqlite_master\<close> has it: absent, or with a \<open>CHECK\<close> that mentions
  \<open>RECONCILED\<close> or predates it.  An old table is rebuilt in one transaction; \<open>copy_error\<close> is
  an error inside it, which rolls back.
\<close>

datatype claims_check = WithReconciled | WithoutReconciled

definition migrateLegacyActionClaims ::
  "string option \<Rightarrow> (claims_check \<times> claim_row list) option \<Rightarrow> (claims_check \<times> claim_row list) result" where
  "migrateLegacyActionClaims copy_error tbl =
     (case tbl of
        None \<Rightarrow> Inl ''action_claims table missing''
      | Some (WithReconciled, rows) \<Rightarrow> Inr (WithReconciled, rows)
      | Some (WithoutReconciled, rows) \<Rightarrow>
          (case copy_error of Some m \<Rightarrow> Inl m | None \<Rightarrow> Inr (WithReconciled, rows)))"

section \<open>Well-formed databases\<close>

text \<open>
  What the constraints of the schema keep: the primary keys, one active reservation per
  target, and (by \<open>resolveReconciliation\<close>, the only writer) an outbox row only for a
  reconciled action.
\<close>

definition db_ok :: "action_db \<Rightarrow> bool" where
  "db_ok db = (keys_distinct c_action_id (action_claims db)
     \<and> keys_distinct r_action_id (budget_reservations db)
     \<and> keys_distinct o_action_id (reconciliation_outbox db)
     \<and> distinct (map r_target (filter r_active (budget_reservations db)))
     \<and> (\<forall>q\<in>set (reconciliation_outbox db). getStatus (o_action_id q) db = Some RECONCILED))"

interpretation claims: keyed_table c_action_id "sql_select c_action_id" "sql_insert c_action_id"
    "sql_update c_action_id" "keys_distinct c_action_id"
  by (rule list_table)

interpretation reservations: keyed_table r_action_id "sql_select r_action_id" "sql_insert r_action_id"
    "sql_update r_action_id" "keys_distinct r_action_id"
  by (rule list_table)

interpretation outbox: keyed_table o_action_id "sql_select o_action_id" "sql_insert o_action_id"
    "sql_update o_action_id" "keys_distinct o_action_id"
  by (rule list_table)

text \<open>What every operation does to the three lookups.\<close>

definition target_of :: "string \<Rightarrow> action_db \<Rightarrow> string option" where
  "target_of a db = map_option c_target (find_claim a db)"

definition holds_lock :: "string \<Rightarrow> string \<Rightarrow> action_db \<Rightarrow> bool" where
  "holds_lock a target db = (\<exists>r\<in>set (budget_reservations db). r_action_id r = a \<and> r_target r = target \<and> r_active r)"

lemma lock_held_iff: "db_ok db \<Longrightarrow> lock_held a target db \<longleftrightarrow> holds_lock a target db"
proof -
  assume "db_ok db"
  then have row: "r \<in> set (budget_reservations db) \<and> r_action_id r = a \<longleftrightarrow> find_reservation a db = Some r" for r
    by (simp add: db_ok_def find_reservation_def sql_select_iff)
  have "holds_lock a target db \<longleftrightarrow> (\<exists>r. find_reservation a db = Some r \<and> r_target r = target \<and> r_active r)"
    using row by (auto simp: holds_lock_def)
  then show ?thesis by (auto simp: lock_held_def split: option.split)
qed

lemma update_statusD:
  assumes "db_ok db"
  shows "find_claim b (fst (update_status now a s s' db)) =
      (if b = a \<and> getStatus a db = Some s
       then map_option (\<lambda>r. r\<lparr>c_status := s', c_updated_at := now\<rparr>) (find_claim a db) else find_claim b db)"
    "snd (update_status now a s s' db) = (if getStatus a db = Some s then 1 else 0)"
    "keys_distinct c_action_id (action_claims (fst (update_status now a s s' db)))"
    "budget_reservations (fst (update_status now a s s' db)) = budget_reservations db"
    "reconciliation_outbox (fst (update_status now a s s' db)) = reconciliation_outbox db"
proof -
  have wf: "keys_distinct c_action_id (action_claims db)" using assms by (simp add: db_ok_def)
  show "find_claim b (fst (update_status now a s s' db)) =
      (if b = a \<and> getStatus a db = Some s
       then map_option (\<lambda>r. r\<lparr>c_status := s', c_updated_at := now\<rparr>) (find_claim a db) else find_claim b db)"
    using claims.select_update [OF wf, of "\<lambda>r. r\<lparr>c_status := s', c_updated_at := now\<rparr>" b a "\<lambda>r. c_status r = s"]
    by (cases "find_claim a db") (auto simp: update_status_def find_claim_def getStatus_def split: prod.splits)
  show "snd (update_status now a s s' db) = (if getStatus a db = Some s then 1 else 0)"
    using claims.update_changes [OF wf, of a "\<lambda>r. c_status r = s" "\<lambda>r. r\<lparr>c_status := s', c_updated_at := now\<rparr>"]
    by (cases "find_claim a db") (auto simp: update_status_def find_claim_def getStatus_def split: prod.splits)
  show "keys_distinct c_action_id (action_claims (fst (update_status now a s s' db)))"
    using claims.wf_update [OF wf, of "\<lambda>r. r\<lparr>c_status := s', c_updated_at := now\<rparr>" a "\<lambda>r. c_status r = s"]
    by (auto simp: update_status_def split: prod.splits)
qed (auto simp: update_status_def split: prod.splits)

lemma getStatus_update:
  assumes "db_ok db"
  shows "getStatus b (fst (update_status now a s s' db)) =
     (if b = a \<and> getStatus a db = Some s then Some s' else getStatus b db)"
  using update_statusD(1) [OF assms, of b now a s s'] by (auto simp: getStatus_def)

lemma target_of_update:
  assumes "db_ok db"
  shows "target_of b (fst (update_status now a s s' db)) = target_of b db"
  using update_statusD(1) [OF assms, of b now a s s'] by (auto simp: target_of_def option.map_comp comp_def)

lemma transition_Inr:
  assumes "db_ok db"
  shows "transition m s s' now a db = Inr db' \<longleftrightarrow>
     getStatus a db = Some s \<and> db' = fst (update_status now a s s' db)"
  using update_statusD(2) [OF assms, of now a s s'] by (auto simp: transition_def split: prod.splits if_splits)

lemma transition_Inl:
  assumes "db_ok db"
  shows "isl (transition m s s' now a db) \<longleftrightarrow> getStatus a db \<noteq> Some s"
  using update_statusD(2) [OF assms, of now a s s'] by (auto simp: transition_def split: prod.splits if_splits)

section \<open>What each operation does\<close>

lemma store_frame [simp]:
  "getStatus a (db\<lparr>budget_reservations := rs\<rparr>) = getStatus a db"
  "getStatus a (db\<lparr>reconciliation_outbox := os\<rparr>) = getStatus a db"
  "target_of a (db\<lparr>budget_reservations := rs\<rparr>) = target_of a db"
  "target_of a (db\<lparr>reconciliation_outbox := os\<rparr>) = target_of a db"
  "holds_lock a t (db\<lparr>action_claims := cs\<rparr>) = holds_lock a t db"
  "holds_lock a t (db\<lparr>reconciliation_outbox := os\<rparr>) = holds_lock a t db"
  by (simp_all add: getStatus_def target_of_def find_claim_def holds_lock_def)

lemma holds_lock_update [simp]: "db_ok db \<Longrightarrow> holds_lock b t (fst (update_status now a s s' db)) = holds_lock b t db"
  by (simp add: holds_lock_def update_statusD)

lemma db_ok_update:
  assumes "db_ok db" "s \<noteq> RECONCILED"
  shows "db_ok (fst (update_status now a s s' db))"
  using assms(1) assms(2) update_statusD(3,4,5) [OF assms(1), of now a s s'] getStatus_update [OF assms(1), of _ now a s s']
  by (auto simp: db_ok_def)

lemma claim_Inr:
  assumes "db_ok db" "claim now a cap t db = Inr (cr, db')"
  shows "getStatus b db' = (if b = a \<and> cr = Claimed then Some CLAIMED else getStatus b db)"
    "target_of b db' = (if b = a \<and> cr = Claimed then Some t else target_of b db)"
    "holds_lock b t' db' = holds_lock b t' db"
    "cr = Claimed \<longleftrightarrow> getStatus a db = None" "db_ok db'" "valid_action_id a"
    "budget_reservations db' = budget_reservations db" "reconciliation_outbox db' = reconciliation_outbox db"
proof -
  let ?r = "\<lparr>c_action_id = a, c_capability = cap, c_target = t, c_status = CLAIMED, c_created_at = now, c_updated_at = now\<rparr>"
  have db': "db' = db\<lparr>action_claims := fst (sql_insert c_action_id ?r (action_claims db))\<rparr>"
    and cr: "cr = Claimed \<longleftrightarrow> find_claim a db = None" and "valid_action_id a"
    using assms(2) claims.insert_changes [of ?r "action_claims db"]
    by (auto simp: claim_def find_claim_def split: if_splits prod.splits)
  then show "valid_action_id a" by simp
  show "cr = Claimed \<longleftrightarrow> getStatus a db = None" using cr by (simp add: getStatus_def)
  have row: "find_claim b db' = (if b = a \<and> cr = Claimed then Some ?r else find_claim b db)" for b
    using claims.select_insert [of b ?r "action_claims db"] cr by (auto simp: find_claim_def db')
  show st: "getStatus b db' = (if b = a \<and> cr = Claimed then Some CLAIMED else getStatus b db)" for b
    by (simp add: getStatus_def row)
  show "target_of b db' = (if b = a \<and> cr = Claimed then Some t else target_of b db)"
    by (simp add: target_of_def row)
  show "holds_lock b t' db' = holds_lock b t' db" by (simp add: db')
  show "db_ok db'"
    using assms(1) claims.wf_insert [of "action_claims db" ?r] st cr by (auto simp: db_ok_def db' getStatus_def)
qed (use assms(2) in \<open>auto simp: claim_def split: if_splits prod.splits\<close>)

lemma insert_reservation_Inr:
  "insert_reservation r db = Inr db' \<longleftrightarrow>
     \<not> (r_active r \<and> pending_audit (r_target r) db)
     \<and> (\<forall>s\<in>set (budget_reservations db). r_action_id s \<noteq> r_action_id r)
     \<and> (r_active r \<longrightarrow> (\<forall>s\<in>set (budget_reservations db). r_target s = r_target r \<longrightarrow> \<not> r_active s))
     \<and> db' = db\<lparr>budget_reservations := budget_reservations db @ [r]\<rparr>"
  by (auto simp: insert_reservation_def list_ex_iff)

lemma reserveBudget_Inr:
  assumes "reserveBudget now a t db = Inr db'"
  shows "db' = db\<lparr>budget_reservations := budget_reservations db @
           [\<lparr>r_action_id = a, r_target = t, r_reserved_at = now, r_active = True\<rparr>]\<rparr>"
    "\<not> pending_audit t db" "\<not> holds_lock b t db"
    "length (filter (\<lambda>r. r_target r = t \<and> r_reserved_at r > now - 900000) (budget_reservations db)) < 3"
    "length (filter (\<lambda>r. r_reserved_at r > now - 900000) (budget_reservations db)) < 8"
    "r \<in> set (budget_reservations db) \<Longrightarrow> r_target r = t \<Longrightarrow> 90000 \<le> now - r_reserved_at r"
    "\<forall>s\<in>set (budget_reservations db). r_action_id s \<noteq> a"
proof -
  let ?mine = "filter (\<lambda>r. r_target r = t) (budget_reservations db)"
  have checks: "\<not> list_ex r_active ?mine" "length (filter (\<lambda>r. r_reserved_at r > now - 900000) ?mine) < 3"
    "length (filter (\<lambda>r. r_reserved_at r > now - 900000) (budget_reservations db)) < 8"
    "?mine = [] \<or> 90000 \<le> now - Max (set (map r_reserved_at ?mine))"
    and ins: "insert_reservation \<lparr>r_action_id = a, r_target = t, r_reserved_at = now, r_active = True\<rparr> db = Inr db'"
    using assms unfolding reserveBudget_def Let_def by (simp_all add: not_less split: if_splits)
  from checks(1) show "\<not> holds_lock b t db" by (auto simp: holds_lock_def list_ex_iff)
  from checks(2) show "length (filter (\<lambda>r. r_target r = t \<and> r_reserved_at r > now - 900000) (budget_reservations db)) < 3"
    by (simp add: conj_commute)
  from checks(3) show "length (filter (\<lambda>r. r_reserved_at r > now - 900000) (budget_reservations db)) < 8" .
  from ins show "db' = db\<lparr>budget_reservations := budget_reservations db @
           [\<lparr>r_action_id = a, r_target = t, r_reserved_at = now, r_active = True\<rparr>]\<rparr>"
    "\<not> pending_audit t db" "\<forall>s\<in>set (budget_reservations db). r_action_id s \<noteq> a"
    by (simp_all add: insert_reservation_Inr)
  assume r: "r \<in> set (budget_reservations db)" "r_target r = t"
  then have "r_reserved_at r \<le> Max (set (map r_reserved_at ?mine))" by (intro Max_ge) auto
  moreover have "?mine \<noteq> []" using r by (auto simp: filter_empty_conv)
  with checks(4) have "90000 \<le> now - Max (set (map r_reserved_at ?mine))" by blast
  ultimately show "90000 \<le> now - r_reserved_at r" by linarith
qed

lemma db_ok_reserve:
  assumes "db_ok db" "reserveBudget now a t db = Inr db'"
  shows "db_ok db'" "getStatus b db' = getStatus b db" "target_of b db' = target_of b db"
    "holds_lock b t' db' \<longleftrightarrow> holds_lock b t' db \<or> (b = a \<and> t' = t)"
    "reconciliation_outbox db' = reconciliation_outbox db" "action_claims db' = action_claims db"
proof -
  note r = reserveBudget_Inr [OF assms(2)]
  have "t \<notin> r_target ` set (filter r_active (budget_reservations db))"
    using r(3) by (auto simp: holds_lock_def)
  then show "db_ok db'" using assms(1) r(1,7) by (auto simp: db_ok_def keys_distinct_def)
  show "getStatus b db' = getStatus b db" "target_of b db' = target_of b db"
    "reconciliation_outbox db' = reconciliation_outbox db" "action_claims db' = action_claims db"
    by (simp_all add: r(1))
  show "holds_lock b t' db' \<longleftrightarrow> holds_lock b t' db \<or> (b = a \<and> t' = t)"
    by (auto simp: r(1) holds_lock_def)
qed

lemma release_whereD:
  assumes "db_ok db" "\<And>r. P r \<Longrightarrow> r_active r"
  shows "db_ok (fst (release_where a P db))"
    "getStatus b (fst (release_where a P db)) = getStatus b db"
    "target_of b (fst (release_where a P db)) = target_of b db"
    "action_claims (fst (release_where a P db)) = action_claims db"
    "reconciliation_outbox (fst (release_where a P db)) = reconciliation_outbox db"
    "holds_lock b t (fst (release_where a P db)) \<longleftrightarrow>
       holds_lock b t db \<and> \<not> (b = a \<and> (\<exists>r. find_reservation a db = Some r \<and> P r))"
    "snd (release_where a P db) = (case find_reservation a db of None \<Rightarrow> 0 | Some r \<Rightarrow> if P r then 1 else 0)"
    "map r_target (budget_reservations (fst (release_where a P db))) = map r_target (budget_reservations db)"
    "map r_reserved_at (budget_reservations (fst (release_where a P db))) = map r_reserved_at (budget_reservations db)"
proof -
  have wf: "keys_distinct r_action_id (budget_reservations db)" using assms(1) by (simp add: db_ok_def)
  have db': "fst (release_where a P db) = db\<lparr>budget_reservations :=
      map (\<lambda>r. if r_action_id r = a \<and> P r then r\<lparr>r_active := False\<rparr> else r) (budget_reservations db)\<rparr>"
    by (simp add: release_where_def sql_update_def)
  show "getStatus b (fst (release_where a P db)) = getStatus b db"
    "target_of b (fst (release_where a P db)) = target_of b db"
    "action_claims (fst (release_where a P db)) = action_claims db"
    "reconciliation_outbox (fst (release_where a P db)) = reconciliation_outbox db"
    "map r_target (budget_reservations (fst (release_where a P db))) = map r_target (budget_reservations db)"
    "map r_reserved_at (budget_reservations (fst (release_where a P db))) = map r_reserved_at (budget_reservations db)"
    by (simp_all add: db')
  have act: "filter r_active (map (\<lambda>r. if r_action_id r = a \<and> P r then r\<lparr>r_active := False\<rparr> else r) rs) =
      filter (\<lambda>r. r_active r \<and> \<not> (r_action_id r = a \<and> P r)) rs" for rs
    by (induction rs) auto
  have dist: "distinct (map r_target (filter (\<lambda>r. r_active r \<and> Q r) rs))" if "distinct (map r_target (filter r_active rs))" for rs Q
    using distinct_map_filter [OF that, of Q] by (simp add: conj_commute)
  show "db_ok (fst (release_where a P db))"
    using assms(1) dist [of "budget_reservations db" "\<lambda>r. \<not> (r_action_id r = a \<and> P r)"] keys_distinct_map [of r_action_id "\<lambda>r. if r_action_id r = a \<and> P r then r\<lparr>r_active := False\<rparr> else r"]
    by (simp add: db' db_ok_def act)
  show "snd (release_where a P db) = (case find_reservation a db of None \<Rightarrow> 0 | Some r \<Rightarrow> if P r then 1 else 0)"
    using reservations.update_changes [OF wf, of a P "\<lambda>r. r\<lparr>r_active := False\<rparr>"]
    by (simp add: release_where_def find_reservation_def split_def)
  have row: "find_reservation a db = Some r \<longleftrightarrow> r \<in> set (budget_reservations db) \<and> r_action_id r = a" for r
    using wf by (simp add: find_reservation_def sql_select_iff)
  have same: "r = r'" if "r \<in> set (budget_reservations db)" "r' \<in> set (budget_reservations db)"
    "r_action_id r = a" "r_action_id r' = a" for r r'
    using row [of r] row [of r'] that by simp
  show "holds_lock b t (fst (release_where a P db)) \<longleftrightarrow>
       holds_lock b t db \<and> \<not> (b = a \<and> (\<exists>r. find_reservation a db = Some r \<and> P r))"
    unfolding row by (force simp: db' holds_lock_def split: if_splits dest: same)
qed

lemma releaseBudget_Inr:
  assumes "db_ok db" "releaseBudget a db = Inr db'"
  shows "db_ok db'" "getStatus b db' = getStatus b db" "target_of b db' = target_of b db"
    "holds_lock b t db' \<longleftrightarrow> holds_lock b t db \<and> b \<noteq> a" "\<exists>t. holds_lock a t db"
    "reconciliation_outbox db' = reconciliation_outbox db" "action_claims db' = action_claims db"
proof -
  have db': "db' = fst (release_where a r_active db)" "snd (release_where a r_active db) = 1"
    using assms(2) by (auto simp: releaseBudget_def split: prod.splits if_splits)
  have "snd (release_where a r_active db) = (case find_reservation a db of None \<Rightarrow> 0 | Some r \<Rightarrow> if r_active r then 1 else 0)"
    by (rule release_whereD(7) [OF assms(1)])
  then have one: "(case find_reservation a db of None \<Rightarrow> 0 | Some r \<Rightarrow> if r_active r then 1 else 0) = (1 :: nat)"
    unfolding db'(2) by (rule sym)
  obtain row where row: "find_reservation a db = Some row" "r_active row"
  proof (cases "find_reservation a db")
    case None
    with one show thesis by simp
  next
    case (Some row)
    with one show thesis by (intro that) (simp_all split: if_splits)
  qed
  show "db_ok db'" unfolding db'(1) by (rule release_whereD(1) [OF assms(1)]) simp
  show "getStatus b db' = getStatus b db" unfolding db'(1) by (rule release_whereD(2) [OF assms(1)]) simp
  show "target_of b db' = target_of b db" unfolding db'(1) by (rule release_whereD(3) [OF assms(1)]) simp
  show "reconciliation_outbox db' = reconciliation_outbox db"
    unfolding db'(1) by (rule release_whereD(5) [OF assms(1)]) simp
  show "action_claims db' = action_claims db" unfolding db'(1) by (rule release_whereD(4) [OF assms(1)]) simp
  show "holds_lock b t db' \<longleftrightarrow> holds_lock b t db \<and> b \<noteq> a"
    unfolding db'(1) using row by (subst release_whereD(6) [OF assms(1)]) auto
  show "\<exists>t. holds_lock a t db"
    using row sql_select_in [of r_action_id a _ row] sql_select_key [of r_action_id a _ row]
    by (auto simp: holds_lock_def find_reservation_def)
qed

lemma releaseBudget_ok:
  assumes "db_ok db" "holds_lock a t db"
  obtains db' where "releaseBudget a db = Inr db'"
proof -
  from assms obtain row where "find_reservation a db = Some row" "r_active row"
    by (auto simp: holds_lock_def find_reservation_def db_ok_def sql_select_iff)
  with release_whereD(7) [OF assms(1), of r_active a] have "snd (release_where a r_active db) = 1" by simp
  then show thesis by (intro that) (simp add: releaseBudget_def split_def)
qed

lemma resolve_Inr:
  assumes "db_ok db"
  shows "resolveReconciliation n1 n2 a db = Inr db' \<longleftrightarrow>
     getStatus a db = Some NEEDS_RECONCILIATION
     \<and> (\<exists>t. target_of a db = Some t \<and> holds_lock a t db)
     \<and> db' = (fst (update_status n1 a NEEDS_RECONCILIATION RECONCILED db))
          \<lparr>reconciliation_outbox := reconciliation_outbox db @ [\<lparr>o_action_id = a, o_delivered = False, o_created_at = n2\<rparr>]\<rparr>"
proof (cases "getStatus a db = Some NEEDS_RECONCILIATION")
  case True
  then obtain c where c: "find_claim a db = Some c" "c_status c = NEEDS_RECONCILIATION"
    by (auto simp: getStatus_def)
  have fresh: "sql_select o_action_id a (reconciliation_outbox db) = None"
    using assms True by (auto simp: db_ok_def sql_select_none)
  have u: "snd (update_status n1 a NEEDS_RECONCILIATION RECONCILED db) = 1"
    "reconciliation_outbox (fst (update_status n1 a NEEDS_RECONCILIATION RECONCILED db)) = reconciliation_outbox db"
    using update_statusD [OF assms] True by auto
  show ?thesis
    using u by (auto simp: resolveReconciliation_def c target_of_def lock_held_iff [OF assms] sql_insert_def fresh True Let_def split_def)
next
  case False
  then show ?thesis by (auto simp: resolveReconciliation_def getStatus_def split: option.split)
qed

lemma resolve_effect:
  assumes "db_ok db" "resolveReconciliation n1 n2 a db = Inr db'"
  shows "db_ok db'" "getStatus b db' = (if b = a then Some RECONCILED else getStatus b db)"
    "target_of b db' = target_of b db" "holds_lock b t db' = holds_lock b t db"
    "reconciliation_outbox db' = reconciliation_outbox db @ [\<lparr>o_action_id = a, o_delivered = False, o_created_at = n2\<rparr>]"
    "budget_reservations db' = budget_reservations db"
proof -
  let ?u = "fst (update_status n1 a NEEDS_RECONCILIATION RECONCILED db)"
  have pre: "getStatus a db = Some NEEDS_RECONCILIATION"
    and db': "db' = ?u\<lparr>reconciliation_outbox := reconciliation_outbox db @ [\<lparr>o_action_id = a, o_delivered = False, o_created_at = n2\<rparr>]\<rparr>"
    using assms(2) by (auto simp: resolve_Inr [OF assms(1)])
  show st: "getStatus b db' = (if b = a then Some RECONCILED else getStatus b db)" for b
    using getStatus_update [OF assms(1), of b n1 a NEEDS_RECONCILIATION RECONCILED] pre by (simp add: db')
  show "target_of b db' = target_of b db" "holds_lock b t db' = holds_lock b t db"
    "budget_reservations db' = budget_reservations db"
    using target_of_update [OF assms(1)] update_statusD(4) [OF assms(1)] assms(1) by (simp_all add: db')
  show "reconciliation_outbox db' = reconciliation_outbox db @ [\<lparr>o_action_id = a, o_delivered = False, o_created_at = n2\<rparr>]"
    by (simp add: db')
  have "a \<notin> o_action_id ` set (reconciliation_outbox db)"
    using assms(1) pre by (auto simp: db_ok_def)
  then show "db_ok db'"
    using assms(1) update_statusD(3,4) [OF assms(1), of n1 a NEEDS_RECONCILIATION RECONCILED] st
    by (auto simp: db_ok_def db' keys_distinct_def)
qed

lemma deliver_Inr:
  assumes "db_ok db" "markReconciliationAuditDelivered a db = Inr db'"
  obtains t q where "target_of a db = Some t" "holds_lock a t db" "getStatus a db = Some RECONCILED"
    "find_outbox a db = Some q" "\<not> o_delivered q" "db_ok db'"
    "\<And>b. getStatus b db' = getStatus b db" "\<And>b. target_of b db' = target_of b db"
    "\<And>b s. holds_lock b s db' \<longleftrightarrow> holds_lock b s db \<and> b \<noteq> a"
    "reconciliation_outbox db' = map (\<lambda>r. if o_action_id r = a \<and> \<not> o_delivered r then r\<lparr>o_delivered := True\<rparr> else r) (reconciliation_outbox db)"
    "action_claims db' = action_claims db"
proof -
  from assms(2) obtain c where c: "find_claim a db = Some c" "c_status c = RECONCILED"
    and lock: "lock_held a (c_target c) db"
    by (auto simp: markReconciliationAuditDelivered_def split: option.splits if_splits)
  let ?P = "\<lambda>r. r_target r = c_target c \<and> r_active r"
  let ?q = "\<lambda>r. r\<lparr>o_delivered := True\<rparr>"
  define db1 where "db1 = db\<lparr>reconciliation_outbox := fst (sql_update o_action_id a (\<lambda>r. \<not> o_delivered r) ?q (reconciliation_outbox db))\<rparr>"
  have one: "snd (sql_update o_action_id a (\<lambda>r. \<not> o_delivered r) ?q (reconciliation_outbox db)) = 1"
    and db': "db' = fst (release_where a ?P db1)"
    using assms(2) c lock by (auto simp: markReconciliationAuditDelivered_def db1_def Let_def split_def split: if_splits)
  have wf: "keys_distinct o_action_id (reconciliation_outbox db)" using assms(1) by (simp add: db_ok_def)
  from one outbox.update_one [OF wf] obtain q where q: "find_outbox a db = Some q" "\<not> o_delivered q"
    by (auto simp: find_outbox_def)
  have ob: "reconciliation_outbox db1 = map (\<lambda>r. if o_action_id r = a \<and> \<not> o_delivered r then ?q r else r) (reconciliation_outbox db)"
    by (simp add: db1_def sql_update_def)
  have ok1: "db_ok db1"
    using assms(1) outbox.wf_update [OF wf, of ?q a "\<lambda>r. \<not> o_delivered r"] 
    by (auto simp: db_ok_def db1_def sql_update_def split: if_splits)
  have lk: "holds_lock a (c_target c) db" using lock by (simp add: lock_held_iff [OF assms(1)])
  have res: "find_reservation a db1 = find_reservation a db" by (simp add: find_reservation_def db1_def)
  from lock obtain row where row: "find_reservation a db1 = Some row" "?P row"
    by (auto simp: res lock_held_def split: option.splits)
  show thesis
  proof (rule that [of "c_target c" q])
    show "target_of a db = Some (c_target c)" "getStatus a db = Some RECONCILED"
      using c by (simp_all add: target_of_def getStatus_def)
    show "holds_lock a (c_target c) db" by (rule lk)
    show "find_outbox a db = Some q" "\<not> o_delivered q" by (rule q)+
    show "db_ok db'" unfolding db' by (rule release_whereD(1) [OF ok1]) simp
    show "getStatus b db' = getStatus b db" for b
      unfolding db' by (subst release_whereD(2) [OF ok1]) (simp_all add: db1_def)
    show "target_of b db' = target_of b db" for b
      unfolding db' by (subst release_whereD(3) [OF ok1]) (simp_all add: db1_def)
    show "holds_lock b s db' \<longleftrightarrow> holds_lock b s db \<and> b \<noteq> a" for b s
      unfolding db' using row by (subst release_whereD(6) [OF ok1]) (auto simp: db1_def)
    show "reconciliation_outbox db' = map (\<lambda>r. if o_action_id r = a \<and> \<not> o_delivered r then r\<lparr>o_delivered := True\<rparr> else r) (reconciliation_outbox db)"
      unfolding db' using ob by (subst release_whereD(5) [OF ok1]) simp_all
    show "action_claims db' = action_claims db"
      unfolding db' by (subst release_whereD(4) [OF ok1]) (simp_all add: db1_def)
  qed
qed

section \<open>Histories of calls\<close>

text \<open>Every method that writes, with the times its clock reads give; an error writes nothing.\<close>

datatype store_call =
    ClaimCall int string string string
  | ReserveCall int string string
  | BeginCall int string
  | CompleteCall int string
  | FailCall int string
  | NeedsCall int string
  | ReleaseCall int string
  | ResolveCall int int string
  | DeliverCall int string

definition on_success :: "action_db \<Rightarrow> action_db result \<Rightarrow> action_db" where
  "on_success db res = (case res of Inl _ \<Rightarrow> db | Inr db' \<Rightarrow> db')"

fun store_step :: "store_call \<Rightarrow> action_db \<Rightarrow> action_db" where
  "store_step (ClaimCall now a cap t) db = (case claim now a cap t db of Inl _ \<Rightarrow> db | Inr (_, db') \<Rightarrow> db')"
| "store_step (ReserveCall now a t) db = on_success db (reserveBudget now a t db)"
| "store_step (BeginCall now a) db = on_success db (beginExecution now a db)"
| "store_step (CompleteCall now a) db = on_success db (complete now a db)"
| "store_step (FailCall now a) db = on_success db (fail now a db)"
| "store_step (NeedsCall now a) db = on_success db (needsReconciliation now a db)"
| "store_step (ReleaseCall now a) db = on_success db (releaseBudget a db)"
| "store_step (ResolveCall now1 now2 a) db = on_success db (resolveReconciliation now1 now2 a db)"
| "store_step (DeliverCall now a) db = on_success db (markReconciliationAuditDelivered a db)"

fun call_time :: "store_call \<Rightarrow> int" where
  "call_time (ClaimCall now a cap t) = now"
| "call_time (ReserveCall now a t) = now"
| "call_time (BeginCall now a) = now"
| "call_time (CompleteCall now a) = now"
| "call_time (FailCall now a) = now"
| "call_time (NeedsCall now a) = now"
| "call_time (ReleaseCall now a) = now"
| "call_time (ResolveCall now1 now2 a) = now1"
| "call_time (DeliverCall now a) = now"

lemmas transition_defs = beginExecution_def complete_def fail_def needsReconciliation_def

lemma transition_cases:
  assumes "db_ok db" "s \<noteq> RECONCILED"
  obtains "on_success db (transition m s s' now a db) = db"
    | "getStatus a db = Some s" "on_success db (transition m s s' now a db) = fst (update_status now a s s' db)"
proof (cases "transition m s s' now a db")
  case (Inl e)
  then show thesis by (intro that(1)) (simp add: on_success_def)
next
  case (Inr db')
  with transition_Inr [OF assms(1), of m s s' now a db'] show thesis
    by (intro that(2)) (auto simp: on_success_def)
qed

lemma on_success_cases: "on_success db res = db \<or> (\<exists>db'. res = Inr db' \<and> on_success db res = db')"
  by (cases res) (simp_all add: on_success_def)

lemma transition_step_ok:
  assumes "db_ok db" "s \<noteq> RECONCILED"
  shows "db_ok (on_success db (transition m s s' now a db))"
  by (rule transition_cases [OF assms, of m s' now a]) (use assms in \<open>simp_all add: db_ok_update\<close>)

lemma store_step_ok:
  assumes "db_ok db"
  shows "db_ok (store_step call db)"
proof (cases call)
  case (ClaimCall now a cap t)
  with assms claim_Inr(5) [OF assms] show ?thesis by (auto split: sum.split)
next
  case (ReserveCall now a t)
  with assms db_ok_reserve(1) [OF assms] show ?thesis by (simp add: on_success_def split: sum.split)
next
  case (ReleaseCall now a)
  with assms releaseBudget_Inr(1) [OF assms] show ?thesis by (simp add: on_success_def split: sum.split)
next
  case (ResolveCall now1 now2 a)
  with assms resolve_effect(1) [OF assms] show ?thesis by (simp add: on_success_def split: sum.split)
next
  case (DeliverCall now a)
  with assms show ?thesis by (auto simp: on_success_def split: sum.split elim: deliver_Inr [OF assms])
qed (simp_all add: transition_defs transition_step_ok [OF assms])

lemma store_run_ok: "db_ok db \<Longrightarrow> db_ok (fold store_step calls db)"
  by (induction calls arbitrary: db) (simp_all add: store_step_ok)

lemma db_ok_empty: "db_ok empty_db"
  by (simp add: db_ok_def empty_db_def keys_distinct_def)

text \<open>The edges of the status machine.\<close>

inductive status_edge :: "claim_status option \<Rightarrow> claim_status option \<Rightarrow> bool" where
  claimed: "status_edge None (Some CLAIMED)"
| begun: "status_edge (Some CLAIMED) (Some EXECUTING)"
| failed: "status_edge (Some CLAIMED) (Some FAILED)"
| executed: "status_edge (Some EXECUTING) (Some EXECUTED)"
| uncertain: "status_edge (Some EXECUTING) (Some NEEDS_RECONCILIATION)"
| reconciled: "status_edge (Some NEEDS_RECONCILIATION) (Some RECONCILED)"

code_pred status_edge .

inductive_simps status_edge_simps [simp]:
  "status_edge None s" "status_edge (Some CLAIMED) s" "status_edge (Some EXECUTING) s"
  "status_edge (Some NEEDS_RECONCILIATION) s" "status_edge (Some EXECUTED) s"
  "status_edge (Some FAILED) s" "status_edge (Some RECONCILED) s"

lemma transition_edge:
  assumes "db_ok db" "s \<noteq> RECONCILED" "status_edge (Some s) (Some s')"
  shows "getStatus b (on_success db (transition m s s' now a db)) = getStatus b db
     \<or> status_edge (getStatus b db) (getStatus b (on_success db (transition m s s' now a db)))"
  by (rule transition_cases [OF assms(1,2), of m s' now a])
    (use assms getStatus_update [OF assms(1), of b now a s s'] in auto)

lemma store_step_edge:
  assumes "db_ok db"
  shows "getStatus b (store_step call db) = getStatus b db \<or> status_edge (getStatus b db) (getStatus b (store_step call db))"
proof (cases call)
  case (ClaimCall now a cap t)
  show ?thesis
  proof (cases "claim now a cap t db")
    case (Inr p)
    then obtain cr db' where p: "claim now a cap t db = Inr (cr, db')" by (cases p) auto
    with claim_Inr(1,4) [OF assms p] show ?thesis by (auto simp: ClaimCall)
  qed (simp add: ClaimCall)
next
  case (ReserveCall now a t)
  with db_ok_reserve(2) [OF assms] show ?thesis by (simp add: on_success_def split: sum.split)
next
  case (ReleaseCall now a)
  with releaseBudget_Inr(2) [OF assms] show ?thesis by (simp add: on_success_def split: sum.split)
next
  case (ResolveCall now1 now2 a)
  show ?thesis
  proof (cases "resolveReconciliation now1 now2 a db")
    case (Inr db')
    with resolve_effect(2) [OF assms Inr, of b] resolve_Inr [OF assms, of now1 now2 a db'] show ?thesis
      by (auto simp: ResolveCall on_success_def)
  qed (simp add: ResolveCall on_success_def)
next
  case (DeliverCall now a)
  show ?thesis
  proof (cases "markReconciliationAuditDelivered a db")
    case (Inr db')
    have "getStatus b db' = getStatus b db" by (rule deliver_Inr [OF assms Inr])
    then show ?thesis by (simp add: DeliverCall on_success_def Inr)
  qed (simp add: DeliverCall on_success_def)
qed (simp_all add: transition_defs transition_edge [OF assms])

section \<open>The durable rate limit\<close>

definition stamps :: "action_db \<Rightarrow> (string \<times> int) list" where
  "stamps db = map (\<lambda>r. (r_target r, r_reserved_at r)) (budget_reservations db)"

fun reservation_granted :: "store_call \<Rightarrow> action_db \<Rightarrow> string option" where
  "reservation_granted (ReserveCall now a t) db = (case reserveBudget now a t db of Inl _ \<Rightarrow> None | Inr _ \<Rightarrow> Some t)"
| "reservation_granted _ db = None"

lemma stamps_zip: "stamps db = zip (map r_target (budget_reservations db)) (map r_reserved_at (budget_reservations db))"
  by (simp add: stamps_def zip_map_map zip_same_conv_map)

lemma stamps_release: "releaseBudget a db = Inr db' \<Longrightarrow> stamps db' = stamps db"
  by (auto simp: releaseBudget_def release_where_def sql_update_def stamps_def split: if_splits)

lemma stamps_deliver: "markReconciliationAuditDelivered a db = Inr db' \<Longrightarrow> stamps db' = stamps db"
  by (auto simp: markReconciliationAuditDelivered_def release_where_def sql_update_def stamps_def Let_def
      split: option.splits if_splits)

lemma stamps_resolve: "resolveReconciliation n1 n2 a db = Inr db' \<Longrightarrow> stamps db' = stamps db"
  by (auto simp: resolveReconciliation_def update_status_def sql_update_def stamps_def Let_def split_def
      split: option.splits if_splits)

lemma stamps_transition: "transition m s s' now a db = Inr db' \<Longrightarrow> stamps db' = stamps db"
  by (auto simp: transition_def update_status_def sql_update_def stamps_def split: if_splits)

lemma stamps_claim: "claim now a cap t db = Inr (cr, db') \<Longrightarrow> stamps db' = stamps db"
  by (auto simp: claim_def stamps_def split_def Let_def split: if_splits)

lemma stamps_step:
  "stamps (store_step call db) =
     stamps db @ (case reservation_granted call db of None \<Rightarrow> [] | Some t \<Rightarrow> [(t, call_time call)])"
proof (cases call)
  case (ReserveCall now a t)
  show ?thesis
  proof (cases "reserveBudget now a t db")
    case (Inr db')
    with reserveBudget_Inr(1) [OF Inr] show ?thesis by (simp add: ReserveCall on_success_def stamps_def)
  qed (simp add: ReserveCall on_success_def)
next
  case (ClaimCall now a cap t)
  then show ?thesis using stamps_claim by (auto split: sum.split)
qed (auto simp: transition_defs on_success_def stamps_release stamps_resolve stamps_deliver stamps_transition split: sum.split)

lemma granted_Some:
  assumes "reservation_granted call db = Some t"
  obtains a db' where "reserveBudget (call_time call) a t db = Inr db'"
  using assms by (cases call) (auto split: sum.splits)

text \<open>The stamps of one target, and of all.\<close>

definition target_stamps :: "action_db \<Rightarrow> string \<Rightarrow> int multiset" where
  "target_stamps db t = mset (map snd (filter (\<lambda>p. fst p = t) (stamps db)))"

lemma size_filter_map: "size (filter_mset P (mset (map f xs))) = length (filter (\<lambda>x. P (f x)) xs)"
  by (induction xs) auto

lemma target_stamps_rows:
  "target_stamps db t = mset (map r_reserved_at (filter (\<lambda>r. r_target r = t) (budget_reservations db)))"
  by (simp add: target_stamps_def stamps_def filter_map comp_def)

lemma all_stamps_rows: "mset (map snd (stamps db)) = mset (map r_reserved_at (budget_reservations db))"
  by (simp add: stamps_def comp_def)

interpretation store_target: cooled_limiter store_step call_time call_time reservation_granted target_stamps
    "\<lambda>_. True" "900000" "3" "90000"
proof (unfold_locales, goal_cases)
  case (3 db call t)
  then obtain a db' where "reserveBudget (call_time call) a t db = Inr db'" by (auto elim: granted_Some)
  from reserveBudget_Inr(4) [OF this] show ?case
    unfolding target_stamps_rows size_filter_map by (simp add: conj_commute)
next
  case (4 db call t)
  then show ?case by (auto simp: target_stamps_def stamps_step split: option.split)
next
  case (5 db u call t)
  then show ?case by (auto simp: target_stamps_def stamps_step split: option.splits if_splits)
next
  case (7 db call t u)
  then obtain a db' where "reserveBudget (call_time call) a t db = Inr db'" by (auto elim: granted_Some)
  from reserveBudget_Inr(6) [OF this] 7(4) show ?case by (auto simp: target_stamps_def stamps_def)
qed simp_all

interpretation store_overall: window_limiter store_step call_time call_time
    "\<lambda>call db. map_option (\<lambda>_. ()) (reservation_granted call db)" "\<lambda>db _. mset (map snd (stamps db))"
    "\<lambda>_. True" "900000" "8"
proof (unfold_locales, goal_cases)
  case (3 db call t)
  then obtain t' a db' where "reserveBudget (call_time call) a t' db = Inr db'" by (auto elim: granted_Some)
  from reserveBudget_Inr(5) [OF this] show ?case
    unfolding all_stamps_rows size_filter_map .
next
  case (4 db call t)
  then show ?case by (auto simp: stamps_step split: option.split)
next
  case (5 db u call t)
  then show ?case by (auto simp: stamps_step split: option.splits if_splits)
qed simp_all

text \<open>The reservations a history of calls makes.\<close>

fun reservations_made :: "action_db \<Rightarrow> store_call list \<Rightarrow> (string \<times> int) list" where
  "reservations_made db [] = []"
| "reservations_made db (call # calls) =
     (case reservation_granted call db of None \<Rightarrow> [] | Some t \<Rightarrow> [(t, call_time call)])
       @ reservations_made (store_step call db) calls"

definition calls_in_order :: "int \<Rightarrow> store_call list \<Rightarrow> bool" where
  "calls_in_order t calls = sorted (t # map call_time calls)"

lemma reservations_per_target:
  "map snd (filter (\<lambda>p. fst p = t) (reservations_made db calls)) = store_target.admitted db calls t"
  by (induction calls arbitrary: db) (auto split: option.split)

lemma reservations_overall: "map snd (reservations_made db calls) = store_overall.admitted db calls ()"
  by (induction calls arbitrary: db) (auto split: option.split)

lemma in_order_target: "calls_in_order t calls \<Longrightarrow> store_target.monotone_from t calls"
  by (induction calls arbitrary: t) (auto simp: calls_in_order_def)

lemma in_order_overall: "calls_in_order t calls \<Longrightarrow> store_overall.monotone_from t calls"
  by (induction calls arbitrary: t) (auto simp: calls_in_order_def)

section \<open>Properties\<close>

text \<open>C10: from an empty database every sequence of calls of the store keeps its constraints: unique
  action ids in the three tables, at most one active reservation per target, an outbox row
  only for an action whose status is \<open>RECONCILED\<close>.\<close>

theorem store_invariant: "db_ok (fold store_step calls empty_db)"
  by (rule store_run_ok [OF db_ok_empty])

text \<open>an action's status moves only along the edges of the status machine, so \<open>EXECUTED\<close>,
  \<open>FAILED\<close> and \<open>RECONCILED\<close> are final and no action id is ever claimed again.\<close>

theorem store_status_edges:
  assumes "db = fold store_step calls empty_db"
  shows "getStatus a (store_step call db) = getStatus a db
    \<or> status_edge (getStatus a db) (getStatus a (store_step call db))"
  using store_step_edge [OF store_run_ok [OF db_ok_empty]] assms by blast

definition sample_history :: "store_call list" where
  "sample_history = [ClaimCall 0 ''a1'' ''scale_service'' ''api'', ReserveCall 0 ''a1'' ''api'', BeginCall 1 ''a1'',
     NeedsCall 5 ''a1'']"

theorem store_status_edges_witness:
  "getStatus ''a1'' (fold store_step sample_history empty_db) = Some NEEDS_RECONCILIATION
   \<and> status_edge (Some NEEDS_RECONCILIATION)
       (getStatus ''a1'' (store_step (ResolveCall 9 9 ''a1'') (fold store_step sample_history empty_db)))"
proof -
  have "getStatus ''a1'' (fold store_step sample_history empty_db) = Some NEEDS_RECONCILIATION"
    "getStatus ''a1'' (store_step (ResolveCall 9 9 ''a1'') (fold store_step sample_history empty_db)) = Some RECONCILED"
    by code_simp+
  then show ?thesis
    using store_status_edges [OF refl, of "''a1''" "ResolveCall 9 9 ''a1''" sample_history] by simp
qed

text \<open>C11: the durable budget: along every sequence of store calls whose clock does not run
  backwards, every window of 15 minutes holds at most 3 reservations of one target and 8
  altogether, and two reservations of one target are at least 90 seconds apart.\<close>

theorem store_budget:
  assumes "calls_in_order t calls"
  shows "length (filter (\<lambda>p. fst p = target \<and> x - 900000 < snd p \<and> snd p \<le> x)
            (reservations_made empty_db calls)) \<le> 3
       \<and> length (filter (\<lambda>p. x - 900000 < snd p \<and> snd p \<le> x) (reservations_made empty_db calls)) \<le> 8
       \<and> sorted_wrt (\<lambda>u v. 90000 \<le> v - u)
           (map snd (filter (\<lambda>p. fst p = target) (reservations_made empty_db calls)))"
proof -
  have empty: "target_stamps empty_db k = {#}" "stamps empty_db = []" for k
    by (simp_all add: target_stamps_def stamps_def empty_db_def)
  have "length (filter (\<lambda>p. fst p = target \<and> x - 900000 < snd p \<and> snd p \<le> x) (reservations_made empty_db calls)) \<le> 3"
    using store_target.window_bound [of empty_db t calls x target] in_order_target [OF assms]
    by (simp add: store_target.in_window_def empty filter_map comp_def conj_commute conj_left_commute
        flip: reservations_per_target)
  moreover have "length (filter (\<lambda>p. x - 900000 < snd p \<and> snd p \<le> x) (reservations_made empty_db calls)) \<le> 8"
    using store_overall.window_bound [of empty_db t calls x "()"] in_order_overall [OF assms]
    by (simp add: store_overall.in_window_def empty filter_map comp_def flip: reservations_overall)
  moreover have "sorted_wrt (\<lambda>u v. 90000 \<le> v - u) (map snd (filter (\<lambda>p. fst p = target) (reservations_made empty_db calls)))"
    unfolding reservations_per_target
    using store_target.spacing [of empty_db t calls target] in_order_target [OF assms] by (simp add: empty)
  ultimately show ?thesis by blast
qed

theorem store_budget_witness:
  "reservations_made empty_db (sample_history @ [ReserveCall 9 ''a2'' ''api'', ReserveCall 9 ''a3'' ''db'']) = [(''api'', 0), (''db'', 9)]
   \<and> length (filter (\<lambda>p. fst p = ''api'' \<and> 9 - 900000 < snd p \<and> snd p \<le> 9)
       (reservations_made empty_db (sample_history @ [ReserveCall 9 ''a2'' ''api'', ReserveCall 9 ''a3'' ''db'']))) \<le> 3"
proof -
  have "calls_in_order 0 (sample_history @ [ReserveCall 9 ''a2'' ''api'', ReserveCall 9 ''a3'' ''db''])"
    "reservations_made empty_db (sample_history @ [ReserveCall 9 ''a2'' ''api'', ReserveCall 9 ''a3'' ''db'']) = [(''api'', 0), (''db'', 9)]"
    by code_simp+
  with store_budget [OF this(1)] show ?thesis by blast
qed

text \<open>reconciliation is atomic and its audit blocks the target.  A successful
  \<open>resolveReconciliation\<close> needs the status \<open>NEEDS_RECONCILIATION\<close> and the action's own active
  reservation; it sets \<open>RECONCILED\<close> and queues the audit in one step, keeps the reservation,
  and from then until the audit is delivered no reservation of the target is granted.\<close>

theorem resolve_then_blocked:
  assumes "db_ok db" "resolveReconciliation now1 now2 a db = Inr db'" "target_of a db = Some target"
  shows "getStatus a db = Some NEEDS_RECONCILIATION \<and> holds_lock a target db
    \<and> getStatus a db' = Some RECONCILED \<and> holds_lock a target db'
    \<and> a \<in> set (getPendingReconciliationAudits db')
    \<and> isl (reserveBudget now b target db')
    \<and> target \<in> set (getPendingRecoveryTargets db')"
proof -
  have pre: "getStatus a db = Some NEEDS_RECONCILIATION" "holds_lock a target db"
    using resolve_Inr [OF assms(1), of now1 now2 a db'] assms(2,3) by auto
  note eff = resolve_effect [OF assms(1,2)]
  have st: "getStatus a db' = Some RECONCILED" "holds_lock a target db'"
    using eff(2) [of a] eff(4) [of a target] pre(2) by simp_all
  then obtain c where c: "find_claim a db' = Some c" "c_status c = RECONCILED"
    by (auto simp: getStatus_def)
  have tgt: "c_target c = target" using eff(3) [of a] assms(3) c by (auto simp: target_of_def)
  have cin: "c \<in> set (action_claims db')" "c_action_id c = a"
    using c(1) sql_select_in sql_select_key by (auto simp: find_claim_def)
  have out: "a \<in> set (getPendingReconciliationAudits db')"
    by (simp add: getPendingReconciliationAudits_def eff(5))
  have "recovery_pending db' c"
    using c cin by (auto simp: recovery_pending_def eff(5) list_ex_iff)
  then have "target \<in> set (getPendingRecoveryTargets db')"
    using cin tgt by (auto simp: getPendingRecoveryTargets_def)
  moreover have "isl (reserveBudget now b target db')"
  proof (cases "reserveBudget now b target db'")
    case (Inr db2)
    from reserveBudget_Inr(3) [OF Inr, of a] st(2) show ?thesis by simp
  qed simp
  ultimately show ?thesis using pre st out by blast
qed

theorem resolve_then_blocked_witness:
  "isl (reserveBudget 2000000 ''a2'' ''api''
     (store_step (ResolveCall 9 9 ''a1'') (fold store_step sample_history empty_db)))"
proof -
  let ?db = "fold store_step sample_history empty_db"
  have "getStatus ''a1'' ?db = Some NEEDS_RECONCILIATION" "holds_lock ''a1'' ''api'' ?db" "target_of ''a1'' ?db = Some ''api''"
    by (code_simp, simp add: holds_lock_def, code_simp+)
  then obtain db' where r: "resolveReconciliation 9 9 ''a1'' ?db = Inr db'"
    using resolve_Inr [OF store_run_ok [OF db_ok_empty], of 9 9 "''a1''"] by blast
  have "store_step (ResolveCall 9 9 ''a1'') ?db = db'" by (simp add: r on_success_def)
  with resolve_then_blocked [OF store_run_ok [OF db_ok_empty] r \<open>target_of ''a1'' ?db = Some ''api''\<close>]
  show ?thesis by blast
qed

lemma gone_from_image:
  "(\<And>r. g (f r) = a \<Longrightarrow> P (f r)) \<Longrightarrow> a \<notin> g ` {r \<in> f ` S. \<not> P r}"
  by blast

lemma delivered_gone:
  fixes S :: "outbox_row set"
  shows "a \<notin> o_action_id ` {r \<in> (\<lambda>r. if o_action_id r = a \<and> \<not> o_delivered r then r\<lparr>o_delivered := True\<rparr> else r) ` S. \<not> o_delivered r}"
proof (rule gone_from_image)
  fix r :: outbox_row
  assume "o_action_id (if o_action_id r = a \<and> \<not> o_delivered r then r\<lparr>o_delivered := True\<rparr> else r) = a"
  then show "o_delivered (if o_action_id r = a \<and> \<not> o_delivered r then r\<lparr>o_delivered := True\<rparr> else r)"
    by (cases "o_action_id r = a \<and> \<not> o_delivered r") auto
qed

text \<open>An audit is delivered at most once, and delivering it is what frees the target: a
  successful \<open>markReconciliationAuditDelivered\<close> releases exactly the action's reservation,
  takes the action out of the pending audits, and a second call fails.\<close>

theorem deliver_once:
  assumes "db_ok db" "markReconciliationAuditDelivered a db = Inr db'"
  shows "a \<in> set (getPendingReconciliationAudits db) \<and> a \<notin> set (getPendingReconciliationAudits db')
    \<and> (\<forall>b t. holds_lock b t db' \<longleftrightarrow> holds_lock b t db \<and> b \<noteq> a)
    \<and> getStatus a db' = Some RECONCILED
    \<and> isl (markReconciliationAuditDelivered a db')"
proof (rule deliver_Inr [OF assms], goal_cases)
  case (1 t q)
  have q: "q \<in> set (reconciliation_outbox db)" "o_action_id q = a"
    using sql_select_in [OF 1(4) [unfolded find_outbox_def]] sql_select_key [OF 1(4) [unfolded find_outbox_def]] .
  have "a \<in> set (getPendingReconciliationAudits db)"
    by (simp add: getPendingReconciliationAudits_def) (rule image_eqI [of _ _ q], use q 1(5) in simp_all)
  moreover have "a \<notin> set (getPendingReconciliationAudits db')"
    unfolding getPendingReconciliationAudits_def set_map set_sort set_filter 1(10) by (rule delivered_gone)
  moreover have "isl (markReconciliationAuditDelivered a db')"
  proof (cases "markReconciliationAuditDelivered a db'")
    case (Inr db2)
    have "\<exists>s. holds_lock a s db'" by (rule deliver_Inr [OF 1(6) Inr]) blast
    with 1(9) show ?thesis by blast
  qed simp
  ultimately show ?case using 1(3,7,9) by auto
qed

theorem deliver_once_witness:
  "\<exists>db'. markReconciliationAuditDelivered ''a1'' (store_step (ResolveCall 9 9 ''a1'') (fold store_step sample_history empty_db)) = Inr db'
     \<and> isl (markReconciliationAuditDelivered ''a1'' db')"
proof -
  let ?db = "store_step (ResolveCall 9 9 ''a1'') (fold store_step sample_history empty_db)"
  have "\<not> isl (markReconciliationAuditDelivered ''a1'' ?db)" by code_simp
  then obtain db' where d: "markReconciliationAuditDelivered ''a1'' ?db = Inr db'" by (auto simp: isl_Inr_conv)
  with deliver_once [OF store_step_ok [OF store_run_ok [OF db_ok_empty]] d] show ?thesis by blast
qed

text \<open>Migrating a database keeps every row in order, whatever its \<open>CHECK\<close> was; a second
  migration changes nothing, and only a missing table or an error of the copy fails.\<close>

theorem migration_keeps_rows:
  "migrateLegacyActionClaims e tbl = Inr (chk, rows) \<longleftrightarrow>
     chk = WithReconciled \<and> (tbl = Some (WithReconciled, rows) \<or> tbl = Some (WithoutReconciled, rows) \<and> e = None)"
  by (auto simp: migrateLegacyActionClaims_def split: option.splits claims_check.splits)

end
