(* ===== verification/TrustedRouter.thy ===== *)
theory TrustedRouter
  imports CapabilityRegistry CauseGate AuditLedger ActionStore
begin

text \<open>
  \<open>router/src/trusted-router.ts\<close>: \<open>TrustedRouter.execute\<close> as a machine with one step per
  database call and per \<open>await\<close>, so that other executions, other processes and crashes can
  come in between.  What the environment contributes to a step is a \<open>choice\<close>: the clock,
  whether the database call fails, what the ledger's file operations do, whether the
  backend's promise resolves.  Zod and the platform are parameters.
\<close>

section \<open>The world and the choices of the environment\<close>

text \<open>\<open>backend_calls\<close> is a ghost record of the calls made to the backend, latest first.\<close>

record world =
  ledger :: "string option"
  db :: action_db
  backend_calls :: "(string \<times> string \<times> jsnum) list"

record choice =
  ch_now :: int
  ch_db_error :: bool
  ch_read_error :: bool
  ch_io :: append_io
  ch_backend_ok :: bool

section \<open>Schemas and the checks before the first await\<close>

definition evidence_schema :: zschema where
  "evidence_schema = ZStrict
     [(''cause'', ZEnum [''organic'', ''load_proportional'']),
      (''rootTarget'', ZEnum service_targets),
      (''ipConcentration'', ZNumber False (Some (0, True)) (Some 1)),
      (''tailRatio'', ZNumber False (Some (0, True)) None),
      (''rps'', ZNumber False (Some (0, True)) None),
      (''rpsBaseline'', ZNumber False (Some (0, False)) None),
      (''observedAt'', ZNumber True (Some (0, True)) None)]"

definition action_schema :: zschema where
  "action_schema = ZStrict [(''capability'', ZLiteral (Str ''scale_service'')), (''params'', scale_params)]"

definition num_of :: "jsval \<Rightarrow> jsnum" where
  "num_of v = (case v of Num n \<Rightarrow> n | _ \<Rightarrow> NaN)"

definition opt_num :: "jsval \<Rightarrow> jsnum option" where
  "opt_num v = (case v of Num n \<Rightarrow> Some n | _ \<Rightarrow> None)"

text \<open>\<open>evidence.data\<close> as the cause gate reads it: it has no \<open>replicas\<close>.\<close>

definition evidence_of :: "jsval \<Rightarrow> trusted_evidence" where
  "evidence_of e =
     \<lparr>ev_cause = str_of (get_prop e ''cause''), ev_ip_concentration = opt_num (get_prop e ''ipConcentration''),
      ev_tail_ratio = opt_num (get_prop e ''tailRatio''), ev_rps = opt_num (get_prop e ''rps''),
      ev_rps_baseline = opt_num (get_prop e ''rpsBaseline''), ev_replicas = None,
      ev_root_target = Some (str_of (get_prop e ''rootTarget''))\<rparr>"

text \<open>\<open>Math.abs(Date.now() - observedAt) > 60_000\<close>\<close>

definition stale :: "int \<Rightarrow> jsnum \<Rightarrow> bool" where
  "stale now observedAt = (case observedAt of Fin r \<Rightarrow> 60000 < \<bar>of_int now - r\<bar> | NaN \<Rightarrow> False | _ \<Rightarrow> True)"

datatype trusted_result = Executed string | Rejected string string

definition entry_checks ::
  "zod \<Rightarrow> bool \<Rightarrow> int \<Rightarrow> jsval \<Rightarrow> jsval \<Rightarrow> trusted_result + (string \<times> jsnum)" where
  "entry_checks z initialized now payload trustedEvidence =
     (if \<not> initialized then Inl (Rejected ''GATE_5'' ''Router startup recovery not completed'')
      else case zparse z evidence_schema trustedEvidence of
        Inl _ \<Rightarrow> Inl (Rejected ''GATE_5B'' ''Missing or invalid trusted evidence'')
      | Inr evidence \<Rightarrow>
          if stale now (num_of (get_prop evidence ''observedAt''))
          then Inl (Rejected ''GATE_5B'' ''Trusted evidence is stale'')
          else
            (case zparse z action_schema payload of
               Inl _ \<Rightarrow> Inl (Rejected ''GATE_1'' ''Invalid or unsupported action'')
             | Inr action \<Rightarrow>
                 (let params = get_prop action ''params'';
                      target = str_of (get_prop params ''target'');
                      replicas = num_of (get_prop params ''replicas'')
                  in if target \<noteq> str_of (get_prop evidence ''rootTarget'')
                     then Inl (Rejected ''GATE_5B'' ''Target does not match root cause'')
                     else
                       (case check_cause_coherence \<lparr>pa_capability = ''scale_service'', pa_params = params\<rparr>
                               (Some (evidence_of evidence)) of
                          Denied reason \<Rightarrow> Inl (Rejected ''GATE_5B'' reason)
                        | Allowed \<Rightarrow> Inr (target, replicas)))))"

section \<open>One execution\<close>

text \<open>Where an execution stands: what it does next.\<close>

datatype exec_pc =
    Entry
  | VerifyLedger
  | CheckPending
  | ClaimAction
  | ReserveTarget
  | AuditReserved
  | EnterExecution
  | CallBackend
  | AuditExecuted
  | CompleteAction
  | ReleaseTarget
  | MarkUncertain
  | FailAction bool
  | ReleaseFailed
  | Done trusted_result

record exec =
  x_initialized :: bool
  x_payload :: jsval
  x_evidence :: jsval
  x_id :: string
  x_target :: string
  x_replicas :: jsnum
  x_pc :: exec_pc

definition new_exec :: "bool \<Rightarrow> jsval \<Rightarrow> jsval \<Rightarrow> string \<Rightarrow> exec" where
  "new_exec initialized payload evidence key =
     \<lparr>x_initialized = initialized, x_payload = payload, x_evidence = evidence, x_id = key,
      x_target = [], x_replicas = NaN, x_pc = Entry\<rparr>"

definition reserved_event :: "string \<Rightarrow> jsval" where
  "reserved_event a = Obj [(''eventType'', Str ''tier_used''), (''actionId'', Str a),
     (''capability'', Str ''scale_service''), (''tier'', Str ''TIER_1''), (''outcome'', Str ''reserved'')]"

definition executed_event :: "string \<Rightarrow> jsval" where
  "executed_event a = Obj [(''eventType'', Str ''executed''), (''actionId'', Str a),
     (''capability'', Str ''scale_service''), (''outcome'', Str ''executed'')]"

definition go :: "exec_pc \<Rightarrow> exec \<Rightarrow> exec" where
  "go p x = x\<lparr>x_pc := p\<rparr>"

text \<open>A database call that may fail: on an error, of either kind, nothing is written.\<close>

definition db_call :: "choice \<Rightarrow> action_db result \<Rightarrow> action_db result" where
  "db_call c res = (if ch_db_error c then Inl ''database error'' else res)"

definition try_db :: "choice \<Rightarrow> action_db result \<Rightarrow> exec_pc \<Rightarrow> exec_pc \<Rightarrow> exec \<Rightarrow> world \<Rightarrow> exec \<times> world" where
  "try_db c res ok bad x w =
     (case db_call c res of
        Inl _ \<Rightarrow> (go bad x, w)
      | Inr d \<Rightarrow> (go ok x, w\<lparr>db := d\<rparr>))"

definition try_append ::
  "platform \<Rightarrow> choice \<Rightarrow> jsval \<Rightarrow> exec_pc \<Rightarrow> exec_pc \<Rightarrow> exec \<Rightarrow> world \<Rightarrow> exec \<times> world" where
  "try_append pf c event ok bad x w =
     (case appendAuditEvent pf (ch_now c) (ch_io c) event (ledger w) of
        (Inl _, f) \<Rightarrow> (go bad x, w\<lparr>ledger := f\<rparr>)
      | (Inr _, f) \<Rightarrow> (go ok x, w\<lparr>ledger := f\<rparr>))"

definition uncertain_result :: trusted_result where
  "uncertain_result = Rejected ''GATE_5'' ''Execution outcome uncertain; manual reconciliation required''"

definition precheck_failed :: trusted_result where
  "precheck_failed = Rejected ''GATE_5'' ''Pre-execution safety check failed''"

definition exec_step :: "zod \<Rightarrow> platform \<Rightarrow> choice \<Rightarrow> exec \<Rightarrow> world \<Rightarrow> exec \<times> world" where
  "exec_step z pf c x w =
     (case x_pc x of
        Entry \<Rightarrow>
          (case entry_checks z (x_initialized x) (ch_now c) (x_payload x) (x_evidence x) of
             Inl r \<Rightarrow> (go (Done r) x, w)
           | Inr (target, replicas) \<Rightarrow> (x\<lparr>x_target := target, x_replicas := replicas, x_pc := VerifyLedger\<rparr>, w))
      | VerifyLedger \<Rightarrow>
          (if ch_read_error c then (go (Done (Rejected ''GATE_5'' ''Audit ledger verification failed'')) x, w)
           else if \<not> lv_ok (verifyAuditLedger pf (ledger w))
           then (go (Done (Rejected ''GATE_5'' ''Audit ledger integrity failure'')) x, w)
           else (go CheckPending x, w))
      | CheckPending \<Rightarrow>
          (if ch_db_error c then (go (Done (Rejected ''GATE_5'' ''Recovery state unavailable'')) x, w)
           else if x_target x \<in> set (getPendingRecoveryTargets (db w))
           then (go (Done (Rejected ''GATE_5'' ''Target has unresolved action; reconciliation required'')) x, w)
           else (go ClaimAction x, w))
      | ClaimAction \<Rightarrow>
          (if ch_db_error c then (go (Done (Rejected ''GATE_5'' ''Could not reserve action in SQLite'')) x, w)
           else case claim (ch_now c) (x_id x) ''scale_service'' (x_target x) (db w) of
                  Inl _ \<Rightarrow> (go (Done (Rejected ''GATE_5'' ''Could not reserve action in SQLite'')) x, w)
                | Inr (Duplicate, d) \<Rightarrow>
                    (go (Done (Rejected ''GATE_5'' ''Duplicate action ID; execution blocked'')) x, w\<lparr>db := d\<rparr>)
                | Inr (Claimed, d) \<Rightarrow> (go ReserveTarget x, w\<lparr>db := d\<rparr>))
      | ReserveTarget \<Rightarrow>
          try_db c (reserveBudget (ch_now c) (x_id x) (x_target x) (db w)) AuditReserved (FailAction False) x w
      | AuditReserved \<Rightarrow> try_append pf c (reserved_event (x_id x)) EnterExecution (FailAction True) x w
      | EnterExecution \<Rightarrow>
          try_db c (beginExecution (ch_now c) (x_id x) (db w)) CallBackend (FailAction True) x w
      | CallBackend \<Rightarrow>
          (go (if ch_backend_ok c then AuditExecuted else MarkUncertain) x,
           w\<lparr>backend_calls := (x_id x, x_target x, x_replicas x) # backend_calls w\<rparr>)
      | AuditExecuted \<Rightarrow> try_append pf c (executed_event (x_id x)) CompleteAction MarkUncertain x w
      | CompleteAction \<Rightarrow>
          try_db c (complete (ch_now c) (x_id x) (db w)) ReleaseTarget MarkUncertain x w
      | ReleaseTarget \<Rightarrow>
          try_db c (releaseBudget (x_id x) (db w)) (Done (Executed (x_id x))) MarkUncertain x w
      | MarkUncertain \<Rightarrow>
          try_db c (needsReconciliation (ch_now c) (x_id x) (db w)) (Done uncertain_result) (Done uncertain_result) x w
      | FailAction reserved \<Rightarrow>
          (let next = (if reserved then ReleaseFailed else Done precheck_failed)
           in try_db c (fail (ch_now c) (x_id x) (db w)) next next x w)
      | ReleaseFailed \<Rightarrow>
          try_db c (releaseBudget (x_id x) (db w)) (Done precheck_failed) (Done precheck_failed) x w
      | Done r \<Rightarrow> (x, w))"

text \<open>\<open>execute\<close> alone: the steps of one execution, one choice each, until it is done.\<close>

fun exec_run :: "zod \<Rightarrow> platform \<Rightarrow> choice list \<Rightarrow> exec \<Rightarrow> world \<Rightarrow> exec \<times> world" where
  "exec_run z pf [] x w = (x, w)"
| "exec_run z pf (c # cs) x w = (case exec_step z pf c x w of (x', w') \<Rightarrow> exec_run z pf cs x' w')"

definition execute ::
  "zod \<Rightarrow> platform \<Rightarrow> choice list \<Rightarrow> bool \<Rightarrow> jsval \<Rightarrow> jsval \<Rightarrow> string \<Rightarrow> world \<Rightarrow> trusted_result option \<times> world" where
  "execute z pf cs initialized payload evidence key w =
     (case exec_run z pf cs (new_exec initialized payload evidence key) w of
        (x, w') \<Rightarrow> (case x_pc x of Done r \<Rightarrow> Some r | _ \<Rightarrow> None, w'))"

section \<open>Every execution ends\<close>

fun pc_rank :: "exec_pc \<Rightarrow> nat" where
  "pc_rank Entry = 12"
| "pc_rank VerifyLedger = 11"
| "pc_rank CheckPending = 10"
| "pc_rank ClaimAction = 9"
| "pc_rank ReserveTarget = 8"
| "pc_rank AuditReserved = 7"
| "pc_rank EnterExecution = 6"
| "pc_rank CallBackend = 5"
| "pc_rank AuditExecuted = 4"
| "pc_rank CompleteAction = 3"
| "pc_rank ReleaseTarget = 2"
| "pc_rank MarkUncertain = 1"
| "pc_rank (FailAction r) = 3"
| "pc_rank ReleaseFailed = 2"
| "pc_rank (Done r) = 0"

lemma go_sel [simp]:
  "x_pc (go p x) = p" "x_id (go p x) = x_id x" "x_target (go p x) = x_target x" "x_replicas (go p x) = x_replicas x"
  by (simp_all add: go_def)

lemma try_db_cases:
  obtains "try_db c res ok bad x w = (go bad x, w)"
    | d where "res = Inr d" "try_db c res ok bad x w = (go ok x, w\<lparr>db := d\<rparr>)"
  by (cases res; cases "ch_db_error c") (auto simp: try_db_def db_call_def)

lemma try_db_pc: "x_pc (fst (try_db c res ok bad x w)) = ok \<or> x_pc (fst (try_db c res ok bad x w)) = bad"
  by (simp add: try_db_def split: sum.split)

lemma try_append_pc: "x_pc (fst (try_append pf c ev ok bad x w)) = ok \<or> x_pc (fst (try_append pf c ev ok bad x w)) = bad"
  by (simp add: try_append_def split: prod.split sum.split)

lemma rank_two: "p = a \<or> p = b \<Longrightarrow> pc_rank a < n \<Longrightarrow> pc_rank b < n \<Longrightarrow> pc_rank p < n"
  by auto

lemma exec_step_decreases:
  assumes "\<forall>r. x_pc x \<noteq> Done r"
  shows "pc_rank (x_pc (fst (exec_step z pf c x w))) < pc_rank (x_pc x)"
proof (cases "x_pc x")
  case ClaimAction
  then show ?thesis
    by (auto simp: exec_step_def split: sum.split prod.split claim_result.split)
next
  case (FailAction r)
  then show ?thesis
    using rank_two [OF try_db_pc] by (simp add: exec_step_def Let_def)
next
  case MarkUncertain
  then show ?thesis by (simp add: exec_step_def try_db_def split: sum.split)
qed (use assms rank_two [OF try_db_pc] rank_two [OF try_append_pc] in
    \<open>auto simp: exec_step_def split: sum.split prod.split\<close>)

lemma exec_step_Done: "x_pc x = Done r \<Longrightarrow> exec_step z pf c x w = (x, w)"
  by (simp add: exec_step_def)

lemma exec_run_Done: "x_pc x = Done r \<Longrightarrow> exec_run z pf cs x w = (x, w)"
  by (induction cs) (simp_all add: exec_step_Done)

lemma exec_run_ends:
  "pc_rank (x_pc x) \<le> length cs \<Longrightarrow> \<exists>r. x_pc (fst (exec_run z pf cs x w)) = Done r"
proof (induction cs arbitrary: x w)
  case Nil
  then show ?case by (cases "x_pc x") auto
next
  case (Cons c cs)
  show ?case
  proof (cases "\<exists>r. x_pc x = Done r")
    case True
    then show ?thesis using exec_run_Done [of x _ z pf "c # cs" w] by auto
  next
    case False
    obtain x' w' where s: "exec_step z pf c x w = (x', w')" by (cases "exec_step z pf c x w")
    with exec_step_decreases [of x z pf c w] False Cons.prems have "pc_rank (x_pc x') \<le> length cs" by simp
    from Cons.IH [OF this] show ?thesis by (simp add: s)
  qed
qed

end
