(* ===== verification/Reconciliation.thy ===== *)
theory Reconciliation
  imports TrustedRouter
begin

text \<open>
  \<open>router/src/recovery/reconciliation.ts\<close>: \<open>ReconciliationService.reconcile\<close> and the
  publication of pending completions, again one step per database call and \<open>await\<close>, over
  the same world and choices; the authority and the inspector answer through the choice
  \<open>ch_backend_ok\<close> (true: approved, verified).  \<open>recoverPendingCompletions\<close>, which router
  start-up runs, is the list of its \<open>publishPendingCompletion\<close> runs.
\<close>

section \<open>One reconciliation\<close>

datatype rec_pc =
    RStart
  | RFind
  | RVerify
  | RInspect
  | RAuditIntent
  | RResolve
  | PCheck
  | PVerify
  | PAudit
  | PDeliver
  | RDone "unit result"

text \<open>\<open>rc_operator\<close> is empty in a start-up recovery, which begins at \<open>PCheck\<close>.\<close>

record recon =
  rc_id :: string
  rc_operator :: string
  rc_pc :: rec_pc

definition new_reconcile :: "string \<Rightarrow> string \<Rightarrow> recon" where
  "new_reconcile actionId operatorId = \<lparr>rc_id = actionId, rc_operator = operatorId, rc_pc = RStart\<rparr>"

definition new_publish :: "string \<Rightarrow> recon" where
  "new_publish actionId = \<lparr>rc_id = actionId, rc_operator = [], rc_pc = PCheck\<rparr>"

definition intent_event :: "string \<Rightarrow> jsval" where
  "intent_event a = Obj [(''eventType'', Str ''reconciliation_intent''), (''actionId'', Str a),
     (''capability'', Str ''scale_service''), (''outcome'', Str ''verification_passed'')]"

definition completion_event :: "string \<Rightarrow> jsval" where
  "completion_event a = Obj [(''eventType'', Str ''reconciled''), (''actionId'', Str a),
     (''capability'', Str ''scale_service''), (''outcome'', Str ''operator_verified'')]"

definition rgo :: "rec_pc \<Rightarrow> recon \<Rightarrow> recon" where
  "rgo p r = r\<lparr>rc_pc := p\<rparr>"

definition rfail :: "string \<Rightarrow> recon \<Rightarrow> recon" where
  "rfail m r = rgo (RDone (Inl m)) r"

definition rec_append ::
  "platform \<Rightarrow> choice \<Rightarrow> jsval \<Rightarrow> rec_pc \<Rightarrow> recon \<Rightarrow> world \<Rightarrow> recon \<times> world" where
  "rec_append pf c event ok r w =
     (case appendAuditEvent pf (ch_now c) (ch_io c) event (ledger w) of
        (Inl m, f) \<Rightarrow> (rfail m r, w\<lparr>ledger := f\<rparr>)
      | (Inr _, f) \<Rightarrow> (rgo ok r, w\<lparr>ledger := f\<rparr>))"

definition rec_db :: "choice \<Rightarrow> action_db result \<Rightarrow> rec_pc \<Rightarrow> recon \<Rightarrow> world \<Rightarrow> recon \<times> world" where
  "rec_db c res ok r w =
     (case db_call c res of
        Inl m \<Rightarrow> (rfail m r, w)
      | Inr d \<Rightarrow> (rgo ok r, w\<lparr>db := d\<rparr>))"

definition rec_step :: "platform \<Rightarrow> choice \<Rightarrow> recon \<Rightarrow> world \<Rightarrow> recon \<times> world" where
  "rec_step pf c r w =
     (case rc_pc r of
        RStart \<Rightarrow>
          (if \<not> matches_class is_ident_char 1 128 (rc_id r) then (rfail ''invalid_action_id'' r, w)
           else if \<not> matches_class is_ident_char 1 128 (rc_operator r) then (rfail ''invalid_operator_id'' r, w)
           else if \<not> ch_backend_ok c then (rfail ''reconciliation_unauthorized'' r, w)
           else (rgo RFind r, w))
      | RFind \<Rightarrow>
          (if ch_db_error c then (rfail ''database error'' r, w)
           else case find (\<lambda>row. c_action_id row = rc_id r) (getUnresolvedActions (db w)) of
                  None \<Rightarrow> (rfail ''action_not_reconcilable'' r, w)
                | Some action \<Rightarrow>
                    if c_status action \<noteq> NEEDS_RECONCILIATION then (rfail ''action_not_reconcilable'' r, w)
                    else (rgo RVerify r, w))
      | RVerify \<Rightarrow>
          (if ch_read_error c then (rfail ''read error'' r, w)
           else if \<not> lv_ok (verifyAuditLedger pf (ledger w)) then (rfail ''audit_integrity_failure'' r, w)
           else (rgo RInspect r, w))
      | RInspect \<Rightarrow>
          (if ch_backend_ok c then (rgo RAuditIntent r, w) else (rfail ''backend_state_not_verified'' r, w))
      | RAuditIntent \<Rightarrow> rec_append pf c (intent_event (rc_id r)) RResolve r w
      | RResolve \<Rightarrow> rec_db c (resolveReconciliation (ch_now c) (ch_now c) (rc_id r) (db w)) PCheck r w
      | PCheck \<Rightarrow>
          (if ch_db_error c then (rfail ''database error'' r, w)
           else if rc_id r \<notin> set (getPendingReconciliationAudits (db w))
           then (rfail ''reconciliation_outbox_missing'' r, w)
           else (rgo PVerify r, w))
      | PVerify \<Rightarrow>
          (if ch_read_error c then (rfail ''read error'' r, w)
           else if \<not> lv_ok (verifyAuditLedger pf (ledger w)) then (rfail ''audit_integrity_failure'' r, w)
           else (rgo PAudit r, w))
      | PAudit \<Rightarrow> rec_append pf c (completion_event (rc_id r)) PDeliver r w
      | PDeliver \<Rightarrow> rec_db c (markReconciliationAuditDelivered (rc_id r) (db w)) (RDone (Inr ())) r w
      | RDone res \<Rightarrow> (r, w))"

fun rec_run :: "platform \<Rightarrow> choice list \<Rightarrow> recon \<Rightarrow> world \<Rightarrow> recon \<times> world" where
  "rec_run pf [] r w = (r, w)"
| "rec_run pf (c # cs) r w = (case rec_step pf c r w of (r', w') \<Rightarrow> rec_run pf cs r' w')"

definition reconcile ::
  "platform \<Rightarrow> choice list \<Rightarrow> string \<Rightarrow> string \<Rightarrow> world \<Rightarrow> unit result option \<times> world" where
  "reconcile pf cs actionId operatorId w =
     (case rec_run pf cs (new_reconcile actionId operatorId) w of
        (r, w') \<Rightarrow> (case rc_pc r of RDone res \<Rightarrow> Some res | _ \<Rightarrow> None, w'))"

section \<open>Start-up recovery\<close>

text \<open>
  The loop of \<open>recoverPendingCompletions\<close> over the pending ids, four choices for each; an
  error ends it.
\<close>

fun publish_all :: "platform \<Rightarrow> (nat \<Rightarrow> choice) \<Rightarrow> string list \<Rightarrow> world \<Rightarrow> unit result \<times> world" where
  "publish_all pf cf [] w = (Inr (), w)"
| "publish_all pf cf (a # as) w =
     (case rec_run pf [cf 0, cf 1, cf 2, cf 3] (new_publish a) w of
        (r, w') \<Rightarrow>
          (case rc_pc r of
             RDone (Inr _) \<Rightarrow> publish_all pf (\<lambda>n. cf (n + 4)) as w'
           | RDone (Inl m) \<Rightarrow> (Inl m, w')
           | _ \<Rightarrow> (Inl ''pending'', w')))"

definition recoverPendingCompletions :: "platform \<Rightarrow> (nat \<Rightarrow> choice) \<Rightarrow> world \<Rightarrow> nat result \<times> world" where
  "recoverPendingCompletions pf cf w =
     (if ch_db_error (cf 0) then (Inl ''database error'', w)
      else
        let pending = getPendingReconciliationAudits (db w)
        in case publish_all pf (\<lambda>n. cf (Suc n)) pending w of
             (Inl m, w') \<Rightarrow> (Inl m, w')
           | (Inr _, w') \<Rightarrow> (Inr (length pending), w'))"

text \<open>\<open>TrustedRouter.initialize\<close>: the ledger must verify, then the pending completions are
  published; \<open>initialized\<close> is set only when both succeed.\<close>

definition initialize :: "platform \<Rightarrow> bool \<Rightarrow> (nat \<Rightarrow> choice) \<Rightarrow> bool \<Rightarrow> world \<Rightarrow> unit result \<times> bool \<times> world" where
  "initialize pf read_error cf initialized w =
     (if initialized then (Inr (), True, w)
      else if read_error then (Inl ''read error'', False, w)
      else if \<not> lv_ok (verifyAuditLedger pf (ledger w)) then (Inl ''audit_integrity_failure'', False, w)
      else case recoverPendingCompletions pf cf w of
             (Inl m, w') \<Rightarrow> (Inl m, False, w')
           | (Inr _, w') \<Rightarrow> (Inr (), True, w'))"

end
