(* ===== verification/ActionSystem.thy ===== *)
theory ActionSystem
  imports Reconciliation
begin

text \<open>
  Executions and reconciliations running together over one ledger, one database and one
  backend (\<open>trusted-router.ts\<close>, \<open>reconciliation.ts\<close>, \<open>action-store.ts\<close>,
  \<open>audit-ledger.ts\<close> composed): any number of them, started at any time with any
  arguments, interleaved step by step, in any number of processes that may crash at any
  point (their executions vanish, the files stay).
\<close>

section \<open>The system\<close>

record system =
  sys_world :: world
  sys_execs :: "exec list"
  sys_recons :: "recon list"

definition initial_system :: system where
  "initial_system =
     \<lparr>sys_world = \<lparr>ledger = None, db = empty_db, backend_calls = []\<rparr>, sys_execs = [], sys_recons = []\<rparr>"

inductive sys_step :: "zod \<Rightarrow> platform \<Rightarrow> system \<Rightarrow> system \<Rightarrow> bool" for z pf where
  start_execute: "sys_step z pf s (s\<lparr>sys_execs := new_exec initialized payload evidence key # sys_execs s\<rparr>)"
| start_reconcile: "sys_step z pf s (s\<lparr>sys_recons := new_reconcile a operator # sys_recons s\<rparr>)"
| start_publish: "sys_step z pf s (s\<lparr>sys_recons := new_publish a # sys_recons s\<rparr>)"
| execute_step: "sys_execs s = xs @ x # ys \<Longrightarrow> exec_step z pf c x (sys_world s) = (x', w') \<Longrightarrow>
    sys_step z pf s (s\<lparr>sys_execs := xs @ x' # ys, sys_world := w'\<rparr>)"
| reconcile_step: "sys_recons s = xs @ r # ys \<Longrightarrow> rec_step pf c r (sys_world s) = (r', w') \<Longrightarrow>
    sys_step z pf s (s\<lparr>sys_recons := xs @ r' # ys, sys_world := w'\<rparr>)"
| crash_execute: "sys_execs s = xs @ x # ys \<Longrightarrow> sys_step z pf s (s\<lparr>sys_execs := xs @ ys\<rparr>)"
| crash_reconcile: "sys_recons s = xs @ r # ys \<Longrightarrow> sys_step z pf s (s\<lparr>sys_recons := xs @ ys\<rparr>)"

inductive reachable :: "zod \<Rightarrow> platform \<Rightarrow> system \<Rightarrow> bool" for z pf where
  initially: "reachable z pf initial_system"
| next_step: "reachable z pf s \<Longrightarrow> sys_step z pf s s' \<Longrightarrow> reachable z pf s'"

section \<open>The invariant\<close>

text \<open>The stages in which an execution is responsible for its action id.\<close>

fun owned :: "exec_pc \<Rightarrow> bool" where
  "owned Entry = False"
| "owned VerifyLedger = False"
| "owned CheckPending = False"
| "owned ClaimAction = False"
| "owned (Done (Rejected g d)) = False"
| "owned _ = True"

definition called :: "string \<Rightarrow> world \<Rightarrow> bool" where
  "called a w = (a \<in> fst ` set (backend_calls w))"

definition status_in :: "string \<Rightarrow> world \<Rightarrow> claim_status set \<Rightarrow> bool" where
  "status_in a w S = (\<exists>s\<in>S. getStatus a (db w) = Some s)"

definition locked :: "string \<Rightarrow> world \<Rightarrow> string \<Rightarrow> bool" where
  "locked a w t = (target_of a (db w) = Some t \<and> holds_lock a t (db w))"

text \<open>What an execution may rely on at each stage.\<close>

definition exec_ok :: "world \<Rightarrow> exec \<Rightarrow> bool" where
  "exec_ok w x = (let a = x_id x; t = x_target x; tier = recorded ''tier_used'' a (ledger w); lock = locked a w t in
     case x_pc x of
        ReserveTarget \<Rightarrow> status_in a w {CLAIMED} \<and> target_of a (db w) = Some t
      | AuditReserved \<Rightarrow> status_in a w {CLAIMED} \<and> lock
      | EnterExecution \<Rightarrow> status_in a w {CLAIMED} \<and> lock \<and> tier
      | CallBackend \<Rightarrow> status_in a w {EXECUTING} \<and> lock \<and> tier \<and> \<not> called a w
      | AuditExecuted \<Rightarrow> status_in a w {EXECUTING} \<and> lock \<and> called a w
      | CompleteAction \<Rightarrow> status_in a w {EXECUTING} \<and> lock \<and> called a w \<and> recorded ''executed'' a (ledger w)
      | ReleaseTarget \<Rightarrow> status_in a w {EXECUTED} \<and> lock \<and> called a w \<and> recorded ''executed'' a (ledger w)
      | MarkUncertain \<Rightarrow> status_in a w {EXECUTING, EXECUTED} \<and> lock
      | FailAction reserved \<Rightarrow> status_in a w {CLAIMED} \<and> (reserved \<longrightarrow> lock)
      | ReleaseFailed \<Rightarrow> status_in a w {CLAIMED, FAILED} \<and> lock
      | Done (Executed b) \<Rightarrow> b = a \<and> status_in a w {EXECUTED} \<and> (\<forall>t. \<not> holds_lock a t (db w)) \<and> called a w
          \<and> recorded ''executed'' a (ledger w)
      | _ \<Rightarrow> True)"

text \<open>What holds of the ledger, the database and the calls together.\<close>

definition calls_ok :: "world \<Rightarrow> bool" where
  "calls_ok w = (distinct (map fst (backend_calls w))
     \<and> (\<forall>(a, t, n)\<in>set (backend_calls w).
          status_in a w {EXECUTING, EXECUTED, NEEDS_RECONCILIATION, RECONCILED}
          \<and> target_of a (db w) = Some t \<and> recorded ''tier_used'' a (ledger w)))"

definition locks_ok :: "action_db \<Rightarrow> bool" where
  "locks_ok d = ((\<forall>a t. holds_lock a t d \<longrightarrow> target_of a d = Some t)
     \<and> (\<forall>a. getStatus a d \<in> {Some EXECUTING, Some NEEDS_RECONCILIATION} \<longrightarrow> (\<exists>t. holds_lock a t d))
     \<and> (\<forall>q\<in>set (reconciliation_outbox d). \<not> o_delivered q \<longrightarrow> (\<exists>t. holds_lock (o_action_id q) t d)))"

definition world_ok :: "world \<Rightarrow> bool" where
  "world_ok w = (db_ok (db w) \<and> locks_ok (db w) \<and> calls_ok w)"

definition system_ok :: "system \<Rightarrow> bool" where
  "system_ok s = (world_ok (sys_world s)
     \<and> (\<forall>x\<in>set (sys_execs s). exec_ok (sys_world s) x)
     \<and> distinct (map x_id (filter (\<lambda>x. owned (x_pc x)) (sys_execs s))))"

text \<open>One action looks the same in two databases.\<close>

definition same_action :: "string \<Rightarrow> action_db \<Rightarrow> action_db \<Rightarrow> bool" where
  "same_action b d d' = (getStatus b d' = getStatus b d \<and> target_of b d' = target_of b d
     \<and> (\<forall>t. holds_lock b t d' = holds_lock b t d))"

lemma same_action_refl [simp]: "same_action b d d"
  by (simp add: same_action_def)

lemma same_action_trans: "same_action b d d' \<Longrightarrow> same_action b d' d'' \<Longrightarrow> same_action b d d''"
  by (simp add: same_action_def)

text \<open>An execution's assumptions survive a step that leaves its action alone and loses no record.\<close>

lemma exec_ok_frame:
  assumes "exec_ok w x" "owned (x_pc x) \<Longrightarrow> same_action (x_id x) (db w) (db w')"
    and "owned (x_pc x) \<Longrightarrow> called (x_id x) w' = called (x_id x) w"
    and "\<And>ty. recorded ty (x_id x) (ledger w) \<Longrightarrow> recorded ty (x_id x) (ledger w')"
  shows "exec_ok w' x"
proof (cases "owned (x_pc x)")
  case True
  with assms(2,3) have same: "status_in (x_id x) w' S = status_in (x_id x) w S"
    "locked (x_id x) w' t = locked (x_id x) w t" "target_of (x_id x) (db w') = target_of (x_id x) (db w)"
    "holds_lock (x_id x) t (db w') = holds_lock (x_id x) t (db w)"
    "called (x_id x) w' = called (x_id x) w" for S t
    by (simp_all add: same_action_def status_in_def locked_def)
  show ?thesis
    using assms(1) assms(4) unfolding exec_ok_def Let_def same
    by (cases "x_pc x") (auto split: trusted_result.splits)
next
  case False
  then show ?thesis
    by (cases "x_pc x") (auto simp: exec_ok_def Let_def split: trusted_result.splits)
qed

section \<open>The database operations and the invariant\<close>

lemma status_target: "getStatus a d = None \<longleftrightarrow> target_of a d = None"
  by (simp add: getStatus_def target_of_def)

lemma locks_ok_target: "locks_ok d \<Longrightarrow> holds_lock a t d \<Longrightarrow> target_of a d = Some t"
  by (simp add: locks_ok_def)

lemma locks_ok_update:
  assumes "db_ok d" "locks_ok d" "getStatus a d = Some s" "s \<noteq> RECONCILED"
    and "s' \<in> {EXECUTING, NEEDS_RECONCILIATION} \<Longrightarrow> \<exists>t. holds_lock a t d"
  shows "locks_ok (fst (update_status now a s s' d))"
  unfolding locks_ok_def holds_lock_update [OF assms(1)] target_of_update [OF assms(1)]
    update_statusD(5) [OF assms(1)] getStatus_update [OF assms(1)]
  using assms(2,5) unfolding locks_ok_def by auto

lemma same_update:
  assumes "db_ok d" "b \<noteq> a"
  shows "same_action b d (fst (update_status now a s s' d))"
  using assms getStatus_update [OF assms(1), of b] target_of_update [OF assms(1), of b] by (simp add: same_action_def)

lemma outbox_reconciled: "db_ok d \<Longrightarrow> q \<in> set (reconciliation_outbox d) \<Longrightarrow> getStatus (o_action_id q) d = Some RECONCILED"
  by (simp add: db_ok_def)

lemma claim_locks:
  assumes "db_ok d" "locks_ok d" "claim now a cap t d = Inr (cr, d')"
  shows "locks_ok d'" "b \<noteq> a \<or> cr = Duplicate \<Longrightarrow> same_action b d d'"
proof -
  note c = claim_Inr [OF assms(1,3)]
  have free: "\<not> holds_lock a t' d" if "cr = Claimed" for t'
    using that c(4) locks_ok_target [OF assms(2)] status_target by fastforce
  have "holds_lock b t' d \<Longrightarrow> target_of b d' = Some t'" for b t'
    using c(2) [of b] free locks_ok_target [OF assms(2)] by auto
  moreover have "getStatus b d' \<in> {Some EXECUTING, Some NEEDS_RECONCILIATION} \<Longrightarrow> \<exists>t'. holds_lock b t' d" for b
    using c(1) [of b] assms(2) unfolding locks_ok_def by (auto split: if_splits)
  ultimately show "locks_ok d'"
    using assms(2) unfolding locks_ok_def c(3,8) by blast
  show "b \<noteq> a \<or> cr = Duplicate \<Longrightarrow> same_action b d d'"
    using c(1) [of b] c(2) [of b] c(3) by (auto simp: same_action_def)
qed

lemma reserve_locks:
  assumes "db_ok d" "locks_ok d" "reserveBudget now a t d = Inr d'" "target_of a d = Some t"
  shows "locks_ok d'" "b \<noteq> a \<Longrightarrow> same_action b d d'" "holds_lock a t d'"
proof -
  note r = db_ok_reserve [OF assms(1,3)]
  show "locks_ok d'" using assms(2,4) unfolding locks_ok_def r(2,3,4,5) by blast
  show "b \<noteq> a \<Longrightarrow> same_action b d d'" using r(2,3,4) by (simp add: same_action_def)
  show "holds_lock a t d'" using r(4) by blast
qed

lemma release_locks:
  assumes "db_ok d" "locks_ok d" "releaseBudget a d = Inr d'"
    and "getStatus a d \<notin> {Some EXECUTING, Some NEEDS_RECONCILIATION, Some RECONCILED}"
  shows "locks_ok d'" "b \<noteq> a \<Longrightarrow> same_action b d d'" "\<not> holds_lock a t d'"
proof -
  note r = releaseBudget_Inr [OF assms(1,3)]
  have "o_action_id q \<noteq> a" if "q \<in> set (reconciliation_outbox d)" for q
    using outbox_reconciled [OF assms(1) that] assms(4) by auto
  with assms(2,4) show "locks_ok d'" unfolding locks_ok_def r(2,3,4,6) by auto
  show "b \<noteq> a \<Longrightarrow> same_action b d d'" using r(2,3,4) by (simp add: same_action_def)
  show "\<not> holds_lock a t d'" using r(4) by blast
qed

lemma resolve_locks:
  assumes "db_ok d" "locks_ok d" "resolveReconciliation n1 n2 a d = Inr d'"
  shows "locks_ok d'" "b \<noteq> a \<Longrightarrow> same_action b d d'" "getStatus a d = Some NEEDS_RECONCILIATION"
    "getStatus a d' = Some RECONCILED" "target_of a d' = target_of a d"
proof -
  note r = resolve_effect [OF assms(1,3)]
  from assms(3) have pre: "getStatus a d = Some NEEDS_RECONCILIATION" "\<exists>t. holds_lock a t d"
    by (auto simp: resolve_Inr [OF assms(1)])
  show "locks_ok d'"
    using assms(2) pre(2) unfolding locks_ok_def r(2,3,4,5) by auto
  show "b \<noteq> a \<Longrightarrow> same_action b d d'" using r(2,3,4) by (simp add: same_action_def)
  show "getStatus a d = Some NEEDS_RECONCILIATION" by (rule pre)
  show "getStatus a d' = Some RECONCILED" "target_of a d' = target_of a d" using r(2,3) by simp_all
qed

lemma deliver_locks:
  assumes "db_ok d" "locks_ok d" "markReconciliationAuditDelivered a d = Inr d'"
  shows "locks_ok d'" "b \<noteq> a \<Longrightarrow> same_action b d d'" "getStatus a d = Some RECONCILED" "getStatus a d' = Some RECONCILED"
    "target_of a d' = target_of a d" "db_ok d'"
proof -
  obtain t q where r: "target_of a d = Some t" "holds_lock a t d" "getStatus a d = Some RECONCILED" "db_ok d'"
    "\<And>b. getStatus b d' = getStatus b d" "\<And>b. target_of b d' = target_of b d"
    "\<And>b s. holds_lock b s d' \<longleftrightarrow> holds_lock b s d \<and> b \<noteq> a"
    "reconciliation_outbox d' = map (\<lambda>r. if o_action_id r = a \<and> \<not> o_delivered r then r\<lparr>o_delivered := True\<rparr> else r) (reconciliation_outbox d)"
    by (rule deliver_Inr [OF assms(1,3)], rule that, assumption+)
  have out: "\<exists>t. holds_lock (o_action_id q) t d'" if "q \<in> set (reconciliation_outbox d')" "\<not> o_delivered q" for q
  proof -
    from that obtain q0 where q0: "q0 \<in> set (reconciliation_outbox d)"
      "q = (if o_action_id q0 = a \<and> \<not> o_delivered q0 then q0\<lparr>o_delivered := True\<rparr> else q0)"
      unfolding r(8) by auto
    with that(2) have "q = q0" "o_action_id q0 \<noteq> a" by (auto split: if_splits)
    with assms(2) q0(1) that(2) show ?thesis unfolding locks_ok_def r(7) by auto
  qed
  show "locks_ok d'"
    using assms(2) out r(3) unfolding locks_ok_def r(5,6,7) by auto
  show "b \<noteq> a \<Longrightarrow> same_action b d d'" using r(5,6,7) by (simp add: same_action_def)
  show "getStatus a d = Some RECONCILED" "getStatus a d' = Some RECONCILED" "target_of a d' = target_of a d" "db_ok d'"
    using r by simp_all
qed

section \<open>The steps of an execution keep the invariant\<close>

definition safe_step :: "exec \<Rightarrow> world \<Rightarrow> exec \<Rightarrow> world \<Rightarrow> bool" where
  "safe_step x w x' w' = (world_ok w' \<and> exec_ok w' x' \<and> x_id x' = x_id x
     \<and> (owned (x_pc x') \<longrightarrow> owned (x_pc x) \<or> getStatus (x_id x) (db w) = None)
     \<and> (\<forall>b. b \<noteq> x_id x \<or> (\<not> owned (x_pc x) \<and> \<not> owned (x_pc x')) \<longrightarrow>
            same_action b (db w) (db w') \<and> called b w' = called b w)
     \<and> (\<forall>ty b. recorded ty b (ledger w) \<longrightarrow> recorded ty b (ledger w')))"

lemma not_called:
  assumes "world_ok w" "getStatus a (db w) \<in> {None, Some CLAIMED, Some FAILED}"
  shows "\<not> called a w"
proof
  assume "called a w"
  then obtain t n where "(a, t, n) \<in> set (backend_calls w)" by (auto simp: called_def)
  with assms show False by (fastforce simp: world_ok_def calls_ok_def status_in_def)
qed

lemma called_target: "world_ok w \<Longrightarrow> (a, t, n) \<in> set (backend_calls w) \<Longrightarrow> target_of a (db w) = Some t"
  by (fastforce simp: world_ok_def calls_ok_def)

lemma world_ok_ledger:
  assumes "world_ok w" "\<And>ty a. recorded ty a (ledger w) \<Longrightarrow> recorded ty a f"
  shows "world_ok (w\<lparr>ledger := f\<rparr>)"
  using assms by (fastforce simp: world_ok_def calls_ok_def status_in_def)

lemma calls_ok_db:
  assumes "calls_ok w" "\<And>b. b \<noteq> a \<Longrightarrow> same_action b (db w) d"
    and "called a w \<Longrightarrow> getStatus a d \<in> {Some EXECUTING, Some EXECUTED, Some NEEDS_RECONCILIATION, Some RECONCILED}
           \<and> target_of a d = target_of a (db w)"
  shows "calls_ok (w\<lparr>db := d\<rparr>)"
proof -
  have "status_in b (w\<lparr>db := d\<rparr>) {EXECUTING, EXECUTED, NEEDS_RECONCILIATION, RECONCILED} \<and> target_of b d = Some t"
    if c: "(b, t, n) \<in> set (backend_calls w)" for b t n
  proof (cases "b = a")
    case True
    with c have "called a w" by (force simp: called_def)
    with assms(1,3) c True show ?thesis by (fastforce simp: calls_ok_def status_in_def)
  next
    case False
    with assms(1) assms(2) [of b] c show ?thesis by (fastforce simp: calls_ok_def status_in_def same_action_def)
  qed
  with assms(1) show ?thesis by (auto simp: calls_ok_def)
qed

lemma world_ok_db:
  assumes "world_ok w" "db_ok d" "locks_ok d" "\<And>b. b \<noteq> a \<Longrightarrow> same_action b (db w) d"
    and "called a w \<Longrightarrow> getStatus a d \<in> {Some EXECUTING, Some EXECUTED, Some NEEDS_RECONCILIATION, Some RECONCILED}
           \<and> target_of a d = target_of a (db w)"
  shows "world_ok (w\<lparr>db := d\<rparr>)"
  using assms calls_ok_db [where w = w and a = a and d = d] by (simp add: world_ok_def)

lemma safe_same_world:
  assumes "world_ok w" "exec_ok w x'" "x_id x' = x_id x" "owned (x_pc x') \<Longrightarrow> owned (x_pc x)"
  shows "safe_step x w x' w"
  using assms by (simp add: safe_step_def)

lemma safe_ledger:
  assumes "world_ok w" "owned (x_pc x)" "\<And>ty b. recorded ty b (ledger w) \<Longrightarrow> recorded ty b f"
    and "exec_ok (w\<lparr>ledger := f\<rparr>) (go p x)"
  shows "safe_step x w (go p x) (w\<lparr>ledger := f\<rparr>)"
  using assms world_ok_ledger [OF assms(1,3)] by (simp add: safe_step_def called_def)

lemma safe_db:
  assumes "world_ok w" "db_ok d" "locks_ok d" "\<And>b. b \<noteq> x_id x \<Longrightarrow> same_action b (db w) d"
    and "called (x_id x) w \<Longrightarrow> getStatus (x_id x) d \<in> {Some EXECUTING, Some EXECUTED, Some NEEDS_RECONCILIATION, Some RECONCILED}
           \<and> target_of (x_id x) d = target_of (x_id x) (db w)"
    and "owned (x_pc x)" "exec_ok (w\<lparr>db := d\<rparr>) (go p x)"
  shows "safe_step x w (go p x) (w\<lparr>db := d\<rparr>)"
  using assms world_ok_db [OF assms(1-5)] by (simp add: safe_step_def called_def)

lemma try_append_safe:
  assumes "world_ok w" "owned (x_pc x)" "get_prop ev ''eventType'' = Str ty" "get_prop ev ''actionId'' = Str (x_id x)"
    and bad: "\<And>f. (\<And>ty' b. recorded ty' b (ledger w) \<Longrightarrow> recorded ty' b f) \<Longrightarrow> exec_ok (w\<lparr>ledger := f\<rparr>) (go bad x)"
    and ok: "\<And>f. (\<And>ty' b. recorded ty' b (ledger w) \<Longrightarrow> recorded ty' b f) \<Longrightarrow> recorded ty (x_id x) f \<Longrightarrow>
              exec_ok (w\<lparr>ledger := f\<rparr>) (go ok x)"
    and step: "try_append pf c ev ok bad x w = (x', w')"
  shows "safe_step x w x' w'"
proof -
  obtain res f where app: "appendAuditEvent pf (ch_now c) (ch_io c) ev (ledger w) = (res, f)"
    by (cases "appendAuditEvent pf (ch_now c) (ch_io c) ev (ledger w)")
  have keep: "recorded ty' b f" if "recorded ty' b (ledger w)" for ty' b
    using append_keeps_recorded [OF that, of pf "ch_now c" "ch_io c" ev] by (simp add: app)
  show ?thesis
  proof (cases res)
    case (Inl m)
    with step app have "x' = go bad x" "w' = w\<lparr>ledger := f\<rparr>" by (simp_all add: try_append_def)
    with safe_ledger [OF assms(1,2) keep bad [OF keep]] show ?thesis by simp
  next
    case (Inr r)
    with app have "recorded ty (x_id x) f" using append_records [of pf "ch_now c" "ch_io c" ev "ledger w" r f] assms(3,4) by simp
    moreover from Inr step app have "x' = go ok x" "w' = w\<lparr>ledger := f\<rparr>" by (simp_all add: try_append_def)
    ultimately show ?thesis using safe_ledger [OF assms(1,2) keep ok [OF keep]] by simp
  qed
qed

lemma try_db_safe:
  assumes "world_ok w" "owned (x_pc x)" "exec_ok w (go bad x)"
    and "\<And>d. res = Inr d \<Longrightarrow> safe_step x w (go ok x) (w\<lparr>db := d\<rparr>)"
    and "try_db c res ok bad x w = (x', w')"
  shows "safe_step x w x' w'"
proof (cases rule: try_db_cases [of c res ok bad x w])
  case 1
  with assms(5) have eq: "x' = go bad x" "w' = w" by simp_all
  show ?thesis unfolding eq by (rule safe_same_world [OF assms(1,3)]) (use assms(2) in simp_all)
next
  case (2 d)
  with assms(4,5) show ?thesis by simp
qed

lemma transition_safe:
  assumes "world_ok w" "owned (x_pc x)" "s \<noteq> RECONCILED"
    and tr: "transition m s s' now (x_id x) (db w) = Inr d"
    and lock: "s' \<in> {EXECUTING, NEEDS_RECONCILIATION} \<Longrightarrow> \<exists>t. holds_lock (x_id x) t (db w)"
    and called: "called (x_id x) w \<Longrightarrow> s' \<in> {EXECUTING, EXECUTED, NEEDS_RECONCILIATION}"
    and ok: "getStatus (x_id x) d = Some s' \<Longrightarrow> target_of (x_id x) d = target_of (x_id x) (db w) \<Longrightarrow>
       (\<And>t. holds_lock (x_id x) t d = holds_lock (x_id x) t (db w)) \<Longrightarrow> exec_ok (w\<lparr>db := d\<rparr>) (go p x)"
  shows "safe_step x w (go p x) (w\<lparr>db := d\<rparr>)"
proof -
  have w: "db_ok (db w)" "locks_ok (db w)" using assms(1) by (simp_all add: world_ok_def)
  have st: "getStatus (x_id x) (db w) = Some s" and d: "d = fst (update_status now (x_id x) s s' (db w))"
    using tr transition_Inr [OF w(1)] by auto
  have new: "getStatus (x_id x) d = Some s'" "target_of (x_id x) d = target_of (x_id x) (db w)"
    "holds_lock (x_id x) t d = holds_lock (x_id x) t (db w)" for t
    using getStatus_update [OF w(1)] target_of_update [OF w(1)] st w(1) by (simp_all add: d)
  show ?thesis
  proof (rule safe_db [OF assms(1)])
    show "db_ok d" unfolding d by (rule db_ok_update [OF w(1) assms(3)])
    show "locks_ok d" unfolding d by (rule locks_ok_update [OF w st assms(3) lock])
    show "same_action b (db w) d" if "b \<noteq> x_id x" for b unfolding d by (rule same_update [OF w(1) that])
    show "getStatus (x_id x) d \<in> {Some EXECUTING, Some EXECUTED, Some NEEDS_RECONCILIATION, Some RECONCILED}
        \<and> target_of (x_id x) d = target_of (x_id x) (db w)" if "called (x_id x) w"
      using called [OF that] new by auto
    show "exec_ok (w\<lparr>db := d\<rparr>) (go p x)" by (rule ok [OF new])
  qed (rule assms(2))
qed

lemma release_safe:
  assumes "world_ok w" "owned (x_pc x)" and rel: "releaseBudget (x_id x) (db w) = Inr d"
    and st: "getStatus (x_id x) (db w) \<in> {Some CLAIMED, Some FAILED, Some EXECUTED}"
    and ok: "getStatus (x_id x) d = getStatus (x_id x) (db w) \<Longrightarrow> (\<And>t. \<not> holds_lock (x_id x) t d) \<Longrightarrow>
       exec_ok (w\<lparr>db := d\<rparr>) (go p x)"
  shows "safe_step x w (go p x) (w\<lparr>db := d\<rparr>)"
proof -
  have w: "db_ok (db w)" "locks_ok (db w)" using assms(1) by (simp_all add: world_ok_def)
  have st': "getStatus (x_id x) (db w) \<notin> {Some EXECUTING, Some NEEDS_RECONCILIATION, Some RECONCILED}" using st by auto
  note r = releaseBudget_Inr [OF w(1) rel] and l = release_locks [OF w rel st']
  show ?thesis
  proof (rule safe_db [OF assms(1)])
    show "db_ok d" "locks_ok d" by (rule r l)+
    show "same_action b (db w) d" if "b \<noteq> x_id x" for b by (rule l(2) [OF that])
    show "getStatus (x_id x) d \<in> {Some EXECUTING, Some EXECUTED, Some NEEDS_RECONCILIATION, Some RECONCILED}
        \<and> target_of (x_id x) d = target_of (x_id x) (db w)" if "called (x_id x) w"
      using not_called [OF assms(1)] that st r(2,3) by auto
    show "exec_ok (w\<lparr>db := d\<rparr>) (go p x)" by (rule ok [OF r(2) l(3)])
  qed (rule assms(2))
qed

lemma reserve_safe:
  assumes "world_ok w" "x_pc x = ReserveTarget" "exec_ok w x"
    and res: "reserveBudget now (x_id x) (x_target x) (db w) = Inr d"
  shows "safe_step x w (go AuditReserved x) (w\<lparr>db := d\<rparr>)"
proof -
  have w: "db_ok (db w)" "locks_ok (db w)" using assms(1) by (simp_all add: world_ok_def)
  have st: "getStatus (x_id x) (db w) = Some CLAIMED" "target_of (x_id x) (db w) = Some (x_target x)"
    using assms(2,3) by (simp_all add: exec_ok_def status_in_def Let_def)
  note r = db_ok_reserve [OF w(1) res] and l = reserve_locks [OF w res st(2)]
  show ?thesis
  proof (rule safe_db [OF assms(1)])
    show "db_ok d" "locks_ok d" by (rule r l)+
    show "same_action b (db w) d" if "b \<noteq> x_id x" for b by (rule l(2) [OF that])
    show "getStatus (x_id x) d \<in> {Some EXECUTING, Some EXECUTED, Some NEEDS_RECONCILIATION, Some RECONCILED}
        \<and> target_of (x_id x) d = target_of (x_id x) (db w)" if "called (x_id x) w"
      using not_called [OF assms(1)] that st by auto
    show "owned (x_pc x)" by (simp add: assms(2))
    show "exec_ok (w\<lparr>db := d\<rparr>) (go AuditReserved x)"
      using l(3) st r(2,3) by (simp add: exec_ok_def status_in_def locked_def Let_def)
  qed
qed

lemma claim_safe:
  assumes "world_ok w" "x_pc x = ClaimAction"
    and cl: "claim now (x_id x) cap (x_target x) (db w) = Inr (cr, d)"
  shows "safe_step x w (go (case cr of Claimed \<Rightarrow> ReserveTarget | Duplicate \<Rightarrow> Done (Rejected g m)) x) (w\<lparr>db := d\<rparr>)"
proof -
  have w: "db_ok (db w)" "locks_ok (db w)" using assms(1) by (simp_all add: world_ok_def)
  note c = claim_Inr [OF w(1) cl] and l = claim_locks [OF w cl]
  have wd: "world_ok (w\<lparr>db := d\<rparr>)"
  proof (rule world_ok_db [OF assms(1) c(5) l(1), where a = "x_id x"])
    show "same_action b (db w) d" if "b \<noteq> x_id x" for b using l(2) that by blast
    assume cld: "called (x_id x) w"
    with not_called [OF assms(1), of "x_id x"] have "getStatus (x_id x) (db w) \<noteq> None" by (metis insertCI)
    with c(1) [of "x_id x"] c(2) [of "x_id x"] c(4) have
      "getStatus (x_id x) d = getStatus (x_id x) (db w)" "target_of (x_id x) d = target_of (x_id x) (db w)" by auto
    moreover have "status_in (x_id x) w {EXECUTING, EXECUTED, NEEDS_RECONCILIATION, RECONCILED}"
      using cld assms(1) by (fastforce simp: called_def world_ok_def calls_ok_def)
    ultimately show "getStatus (x_id x) d \<in> {Some EXECUTING, Some EXECUTED, Some NEEDS_RECONCILIATION, Some RECONCILED}
        \<and> target_of (x_id x) d = target_of (x_id x) (db w)"
      by (auto simp: status_in_def)
  qed
  show ?thesis
  proof (cases cr)
    case Claimed
    with c(1) [of "x_id x"] c(2) [of "x_id x"] have "exec_ok (w\<lparr>db := d\<rparr>) (go ReserveTarget x)"
      by (simp add: exec_ok_def status_in_def Let_def)
    with Claimed wd l(2) c(4) show ?thesis by (auto simp: safe_step_def called_def)
  next
    case Duplicate
    with wd l(2) show ?thesis by (auto simp: safe_step_def called_def exec_ok_def)
  qed
qed

lemmas exec_ok_simps = exec_ok_def Let_def status_in_def locked_def called_def

lemma safe_done:
  "world_ok w \<Longrightarrow> safe_step x w (go (Done (Rejected g m)) x) w"
  by (rule safe_same_world) (simp_all add: exec_ok_simps)

lemma exec_step_safe:
  assumes w: "world_ok w" and x: "exec_ok w x" and step: "exec_step z pf c x w = (x', w')"
  shows "safe_step x w x' w'"
proof (cases "x_pc x")
  case Entry
  show ?thesis
  proof (cases "entry_checks z (x_initialized x) (ch_now c) (x_payload x) (x_evidence x)")
    case (Inl r)
    have "\<exists>g m. r = Rejected g m"
      using Inl by (auto simp: entry_checks_def Let_def split: if_splits sum.splits gate_decision.splits)
    with step Entry Inl safe_done [OF w] show ?thesis by (auto simp: exec_step_def)
  next
    case (Inr p)
    with step Entry have "x' = x\<lparr>x_target := fst p, x_replicas := snd p, x_pc := VerifyLedger\<rparr>" "w' = w"
      by (auto simp: exec_step_def split: prod.splits)
    with w show ?thesis by (simp add: safe_step_def exec_ok_simps)
  qed
next
  case VerifyLedger
  have "safe_step x w (go CheckPending x) w" by (rule safe_same_world [OF w]) (simp_all add: exec_ok_simps)
  with VerifyLedger step safe_done [OF w] show ?thesis by (auto simp: exec_step_def split: if_splits)
next
  case CheckPending
  have "safe_step x w (go ClaimAction x) w" by (rule safe_same_world [OF w]) (simp_all add: exec_ok_simps)
  with CheckPending step safe_done [OF w] show ?thesis by (auto simp: exec_step_def split: if_splits)
next
  case ClaimAction
  show ?thesis
  proof (cases "ch_db_error c \<or> isl (claim (ch_now c) (x_id x) ''scale_service'' (x_target x) (db w))")
    case True
    with ClaimAction step safe_done [OF w] show ?thesis by (auto simp: exec_step_def split: sum.splits)
  next
    case False
    then obtain cr d where cl: "claim (ch_now c) (x_id x) ''scale_service'' (x_target x) (db w) = Inr (cr, d)" "\<not> ch_db_error c"
      by (auto simp: isl_Inr_conv)
    note s = claim_safe [OF w ClaimAction cl(1), of "''GATE_5''" "''Duplicate action ID; execution blocked''"]
    show ?thesis
      using s step ClaimAction cl by (cases cr) (simp_all add: exec_step_def)
  qed
next
  case ReserveTarget
  show ?thesis
    by (rule try_db_safe [OF w, where bad = "FailAction False" and ok = AuditReserved
          and res = "reserveBudget (ch_now c) (x_id x) (x_target x) (db w)" and c = c])
      (use ReserveTarget x step reserve_safe [OF w ReserveTarget x] in \<open>simp_all add: exec_step_def exec_ok_simps\<close>)
next
  case AuditReserved
  show ?thesis
    by (rule try_append_safe [OF w, where ev = "reserved_event (x_id x)" and ty = "''tier_used''" and pf = pf and c = c
          and bad = "FailAction True" and ok = EnterExecution])
      (use AuditReserved x step in \<open>simp_all add: exec_step_def exec_ok_simps reserved_event_def prop_of_def\<close>)
next
  case EnterExecution
  show ?thesis
  proof (rule try_db_safe [OF w, where bad = "FailAction True" and ok = CallBackend
          and res = "beginExecution (ch_now c) (x_id x) (db w)" and c = c])
    fix d assume "beginExecution (ch_now c) (x_id x) (db w) = Inr d"
    then show "safe_step x w (go CallBackend x) (w\<lparr>db := d\<rparr>)"
      unfolding beginExecution_def
    proof (rule transition_safe [OF w, rotated 2])
      have st: "getStatus (x_id x) (db w) = Some CLAIMED" using x EnterExecution by (simp add: exec_ok_simps)
      then have nc: "\<not> called (x_id x) w" using not_called [OF w, of "x_id x"] by simp
      then show "called (x_id x) w \<Longrightarrow> EXECUTING \<in> {EXECUTING, EXECUTED, NEEDS_RECONCILIATION}" by simp
      show "\<exists>t. holds_lock (x_id x) t (db w)" using x EnterExecution by (auto simp: exec_ok_simps)
      show "exec_ok (w\<lparr>db := d\<rparr>) (go CallBackend x)"
        if "getStatus (x_id x) d = Some EXECUTING" "target_of (x_id x) d = target_of (x_id x) (db w)"
          "\<And>t. holds_lock (x_id x) t d = holds_lock (x_id x) t (db w)"
        using that x nc EnterExecution by (simp add: exec_ok_simps)
    qed (simp_all add: EnterExecution)
  qed (use EnterExecution x step in \<open>simp_all add: exec_step_def exec_ok_simps\<close>)
next
  case CallBackend
  let ?p = "if ch_backend_ok c then AuditExecuted else MarkUncertain"
  let ?w = "w\<lparr>backend_calls := (x_id x, x_target x, x_replicas x) # backend_calls w\<rparr>"
  have eq: "x' = go ?p x" "w' = ?w" using step CallBackend by (simp_all add: exec_step_def)
  have "world_ok ?w" using w x CallBackend
    by (auto simp: world_ok_def calls_ok_def exec_ok_simps)
  moreover have "exec_ok ?w (go ?p x)" using x CallBackend by (simp add: exec_ok_simps)
  moreover have "called b ?w = called b w" if "b \<noteq> x_id x" for b using that by (simp add: called_def)
  ultimately show ?thesis by (simp add: eq safe_step_def CallBackend)
next
  case AuditExecuted
  show ?thesis
    by (rule try_append_safe [OF w, where ev = "executed_event (x_id x)" and ty = "''executed''" and pf = pf and c = c
          and bad = MarkUncertain and ok = CompleteAction])
      (use AuditExecuted x step in \<open>simp_all add: exec_step_def exec_ok_simps executed_event_def prop_of_def\<close>)
next
  case CompleteAction
  show ?thesis
  proof (rule try_db_safe [OF w, where bad = MarkUncertain and ok = ReleaseTarget
          and res = "complete (ch_now c) (x_id x) (db w)" and c = c])
    fix d assume "complete (ch_now c) (x_id x) (db w) = Inr d"
    then show "safe_step x w (go ReleaseTarget x) (w\<lparr>db := d\<rparr>)"
      unfolding complete_def
      by (rule transition_safe [OF w, rotated 2])
        (use x CompleteAction in \<open>simp_all add: exec_ok_simps\<close>)
  qed (use CompleteAction x step in \<open>simp_all add: exec_step_def exec_ok_simps\<close>)
next
  case ReleaseTarget
  show ?thesis
  proof (rule try_db_safe [OF w, where bad = MarkUncertain and ok = "Done (Executed (x_id x))"
          and res = "releaseBudget (x_id x) (db w)" and c = c])
    fix d assume "releaseBudget (x_id x) (db w) = Inr d"
    then show "safe_step x w (go (Done (Executed (x_id x))) x) (w\<lparr>db := d\<rparr>)"
      by (rule release_safe [OF w, rotated]) (use x ReleaseTarget in \<open>simp_all add: exec_ok_simps\<close>)
  qed (use ReleaseTarget x step in \<open>simp_all add: exec_step_def exec_ok_simps\<close>)
next
  case MarkUncertain
  show ?thesis
  proof (rule try_db_safe [OF w, where bad = "Done uncertain_result" and ok = "Done uncertain_result"
          and res = "needsReconciliation (ch_now c) (x_id x) (db w)" and c = c])
    fix d assume "needsReconciliation (ch_now c) (x_id x) (db w) = Inr d"
    then show "safe_step x w (go (Done uncertain_result) x) (w\<lparr>db := d\<rparr>)"
      unfolding needsReconciliation_def
      by (rule transition_safe [OF w, rotated 2])
        (use x MarkUncertain in \<open>auto simp: exec_ok_simps uncertain_result_def\<close>)
  qed (use MarkUncertain x step in \<open>simp_all add: exec_step_def exec_ok_simps uncertain_result_def\<close>)
next
  case (FailAction reserved)
  let ?p = "if reserved then ReleaseFailed else Done precheck_failed"
  show ?thesis
  proof (rule try_db_safe [OF w, where bad = ?p and ok = ?p
          and res = "fail (ch_now c) (x_id x) (db w)" and c = c])
    fix d assume "fail (ch_now c) (x_id x) (db w) = Inr d"
    then show "safe_step x w (go ?p x) (w\<lparr>db := d\<rparr>)"
      unfolding fail_def
    proof (rule transition_safe [OF w, rotated 2])
      have "getStatus (x_id x) (db w) = Some CLAIMED" using x FailAction by (simp add: exec_ok_simps)
      then show "called (x_id x) w \<Longrightarrow> FAILED \<in> {EXECUTING, EXECUTED, NEEDS_RECONCILIATION}"
        using not_called [OF w, of "x_id x"] by simp
    qed (use x FailAction in \<open>simp_all add: exec_ok_simps precheck_failed_def\<close>)
  qed (use FailAction x step in \<open>simp_all add: exec_step_def exec_ok_simps precheck_failed_def Let_def\<close>)
next
  case ReleaseFailed
  show ?thesis
  proof (rule try_db_safe [OF w, where bad = "Done precheck_failed" and ok = "Done precheck_failed"
          and res = "releaseBudget (x_id x) (db w)" and c = c])
    fix d assume "releaseBudget (x_id x) (db w) = Inr d"
    then show "safe_step x w (go (Done precheck_failed) x) (w\<lparr>db := d\<rparr>)"
      by (rule release_safe [OF w, rotated]) (use x ReleaseFailed in \<open>auto simp: exec_ok_simps precheck_failed_def\<close>)
  qed (use ReleaseFailed x step in \<open>simp_all add: exec_step_def exec_ok_simps precheck_failed_def\<close>)
next
  case (Done r)
  with step w x show ?thesis by (simp add: exec_step_def safe_step_def)
qed

section \<open>The steps of a reconciliation keep it too\<close>

definition quiet_step :: "world \<Rightarrow> world \<Rightarrow> bool" where
  "quiet_step w w' = (world_ok w'
     \<and> (\<forall>b. getStatus b (db w) \<notin> {Some NEEDS_RECONCILIATION, Some RECONCILED} \<longrightarrow> same_action b (db w) (db w'))
     \<and> backend_calls w' = backend_calls w
     \<and> (\<forall>ty b. recorded ty b (ledger w) \<longrightarrow> recorded ty b (ledger w')))"

lemma quiet_refl: "world_ok w \<Longrightarrow> quiet_step w w"
  by (simp add: quiet_step_def)

lemma rec_append_quiet:
  assumes "world_ok w" "rec_append pf c ev ok r w = (r', w')"
  shows "quiet_step w w'"
proof -
  obtain res f where app: "appendAuditEvent pf (ch_now c) (ch_io c) ev (ledger w) = (res, f)"
    by (cases "appendAuditEvent pf (ch_now c) (ch_io c) ev (ledger w)")
  have keep: "recorded ty b f" if "recorded ty b (ledger w)" for ty b
    using append_keeps_recorded [OF that, of pf "ch_now c" "ch_io c" ev] by (simp add: app)
  have "w' = w\<lparr>ledger := f\<rparr>" using assms(2) app by (cases res) (simp_all add: rec_append_def)
  with world_ok_ledger [OF assms(1) keep] keep show ?thesis by (simp add: quiet_step_def)
qed

lemma resolve_quiet:
  assumes "world_ok w" "resolveReconciliation n1 n2 a (db w) = Inr d"
  shows "quiet_step w (w\<lparr>db := d\<rparr>)"
proof -
  have w: "db_ok (db w)" "locks_ok (db w)" using assms(1) by (simp_all add: world_ok_def)
  note r = resolve_locks [OF w assms(2)]
  have "world_ok (w\<lparr>db := d\<rparr>)"
    by (rule world_ok_db [OF assms(1) resolve_effect(1) [OF w(1) assms(2)] r(1) r(2)]) (use r(4,5) in auto)
  moreover have "same_action b (db w) d" if "getStatus b (db w) \<notin> {Some NEEDS_RECONCILIATION, Some RECONCILED}" for b
    using that r(2,3) by (cases "b = a") auto
  ultimately show ?thesis by (simp add: quiet_step_def)
qed

lemma deliver_quiet:
  assumes "world_ok w" "markReconciliationAuditDelivered a (db w) = Inr d"
  shows "quiet_step w (w\<lparr>db := d\<rparr>)"
proof -
  have w: "db_ok (db w)" "locks_ok (db w)" using assms(1) by (simp_all add: world_ok_def)
  note r = deliver_locks [OF w assms(2)]
  have "world_ok (w\<lparr>db := d\<rparr>)"
    by (rule world_ok_db [OF assms(1) r(6) r(1) r(2)]) (use r(4,5) in auto)
  moreover have "same_action b (db w) d" if "getStatus b (db w) \<notin> {Some NEEDS_RECONCILIATION, Some RECONCILED}" for b
    using that r(2,3) by (cases "b = a") auto
  ultimately show ?thesis by (simp add: quiet_step_def)
qed

lemma rec_db_quiet:
  assumes "world_ok w" "rec_db c res ok r w = (r', w')" "\<And>d. res = Inr d \<Longrightarrow> quiet_step w (w\<lparr>db := d\<rparr>)"
  shows "quiet_step w w'"
  using assms quiet_refl [OF assms(1)]
  by (cases res; cases "ch_db_error c") (auto simp: rec_db_def db_call_def)

lemma rec_step_quiet:
  assumes "world_ok w" "rec_step pf c r w = (r', w')"
  shows "quiet_step w w'"
proof (cases "rc_pc r")
  case RAuditIntent
  with assms show ?thesis by (auto simp: rec_step_def intro: rec_append_quiet)
next
  case PAudit
  with assms show ?thesis by (auto simp: rec_step_def intro: rec_append_quiet)
next
  case RResolve
  with assms show ?thesis by (auto simp: rec_step_def intro: rec_db_quiet resolve_quiet)
next
  case PDeliver
  with assms show ?thesis by (auto simp: rec_step_def intro: rec_db_quiet deliver_quiet)
qed (use assms quiet_refl in \<open>auto simp: rec_step_def split: if_splits option.splits\<close>)

lemma owned_status:
  assumes "exec_ok w x" "owned (x_pc x)"
  shows "getStatus (x_id x) (db w) \<in> {Some CLAIMED, Some EXECUTING, Some EXECUTED, Some FAILED}"
  using assms by (cases "x_pc x") (auto simp: exec_ok_simps split: trusted_result.splits)

section \<open>Every reachable system is well-formed\<close>

lemma system_ok_initial: "system_ok initial_system"
  by (simp add: system_ok_def initial_system_def world_ok_def db_ok_empty locks_ok_def calls_ok_def)
    (simp add: empty_db_def holds_lock_def getStatus_def find_claim_def)

lemma exec_ok_others:
  assumes ok: "system_ok s" and xs: "sys_execs s = xs @ x # ys"
    and safe: "safe_step x (sys_world s) x' w'" and y: "y \<in> set xs \<union> set ys"
  shows "exec_ok w' y" and "owned (x_pc y) \<Longrightarrow> owned (x_pc x') \<Longrightarrow> x_id y \<noteq> x_id x'"
proof -
  let ?w = "sys_world s"
  have oky: "exec_ok ?w y" using ok xs y by (auto simp: system_ok_def)
  have dist: "distinct (map x_id (filter (\<lambda>x. owned (x_pc x)) (xs @ x # ys)))"
    using ok xs by (simp add: system_ok_def)
  have ne: "x_id y \<noteq> x_id x" if "owned (x_pc y)" "owned (x_pc x)"
    using dist y that by (auto simp: image_iff)
  have ne': "x_id y \<noteq> x_id x" if oy: "owned (x_pc y)" and ox: "owned (x_pc x) \<or> owned (x_pc x')"
  proof (cases "owned (x_pc x)")
    case False
    with safe ox have "getStatus (x_id x) (db ?w) = None" by (auto simp: safe_step_def)
    with owned_status [OF oky oy] show ?thesis by auto
  qed (use ne oy in blast)
  show "exec_ok w' y"
  proof (rule exec_ok_frame [OF oky])
    assume oy: "owned (x_pc y)"
    have "same_action (x_id y) (db ?w) (db w') \<and> called (x_id y) w' = called (x_id y) ?w"
    proof (cases "owned (x_pc x) \<or> owned (x_pc x')")
      case True
      with ne' [OF oy] safe show ?thesis by (simp add: safe_step_def)
    next
      case False
      with safe show ?thesis by (simp add: safe_step_def)
    qed
    then show "same_action (x_id y) (db ?w) (db w')" "called (x_id y) w' = called (x_id y) ?w" by simp_all
  qed (use safe in \<open>simp add: safe_step_def\<close>)
  show "owned (x_pc y) \<Longrightarrow> owned (x_pc x') \<Longrightarrow> x_id y \<noteq> x_id x'"
    using ne' safe by (simp add: safe_step_def)
qed

lemma system_ok_exec:
  assumes ok: "system_ok s" and xs: "sys_execs s = xs @ x # ys"
    and step: "exec_step z pf c x (sys_world s) = (x', w')"
  shows "system_ok (s\<lparr>sys_execs := xs @ x' # ys, sys_world := w'\<rparr>)"
proof -
  have "world_ok (sys_world s)" "exec_ok (sys_world s) x" using ok xs by (auto simp: system_ok_def)
  note safe = exec_step_safe [OF this step]
  note o = exec_ok_others [OF ok xs safe]
  have "distinct (map x_id (filter (\<lambda>x. owned (x_pc x)) (xs @ x # ys)))"
    using ok xs by (simp add: system_ok_def)
  then have "distinct (map x_id (filter (\<lambda>x. owned (x_pc x)) (xs @ x' # ys)))"
    using o(2) by (auto split: if_splits) (metis UnI1 UnI2)+
  with safe o(1) show ?thesis by (auto simp: system_ok_def safe_step_def)
qed

lemma system_ok_recon:
  assumes ok: "system_ok s" and step: "rec_step pf c r (sys_world s) = (r', w')"
  shows "system_ok (s\<lparr>sys_recons := rs, sys_world := w'\<rparr>)"
proof -
  have q: "quiet_step (sys_world s) w'" using ok step by (intro rec_step_quiet) (simp_all add: system_ok_def)
  have "exec_ok w' y" if "y \<in> set (sys_execs s)" for y
  proof (rule exec_ok_frame)
    show oky: "exec_ok (sys_world s) y" using ok that by (simp add: system_ok_def)
    show "same_action (x_id y) (db (sys_world s)) (db w')" if "owned (x_pc y)"
      using owned_status [OF oky that] q by (auto simp: quiet_step_def)
    show "called (x_id y) w' = called (x_id y) (sys_world s)" if "owned (x_pc y)"
      using q by (simp add: quiet_step_def called_def)
    show "recorded ty (x_id y) (ledger w')" if "recorded ty (x_id y) (ledger (sys_world s))" for ty
      using q that by (simp add: quiet_step_def)
  qed
  with ok q show ?thesis by (auto simp: system_ok_def quiet_step_def)
qed

lemma sys_step_ok: "sys_step z pf s s' \<Longrightarrow> system_ok s \<Longrightarrow> system_ok s'"
proof (induction rule: sys_step.induct)
  case (execute_step s xs x ys c x' w')
  then show ?case by (intro system_ok_exec)
next
  case (reconcile_step s xs r ys c r' w')
  then show ?case by (intro system_ok_recon)
next
  case (start_execute s initialized payload evidence key)
  then show ?case by (simp add: system_ok_def new_exec_def exec_ok_simps)
next
  case (crash_execute s xs x ys)
  then show ?case by (auto simp: system_ok_def split: if_splits)
qed (simp_all add: system_ok_def)

lemma reachable_ok: "reachable z pf s \<Longrightarrow> system_ok s"
  by (induction rule: reachable.induct) (auto simp: system_ok_initial intro: sys_step_ok)

section \<open>The arguments of backend calls\<close>

definition allowed_call :: "string \<Rightarrow> jsnum \<Rightarrow> bool" where
  "allowed_call t n = (t \<in> set service_targets \<and> (\<exists>k::int. n = Fin (of_int k) \<and> 1 \<le> k \<and> k \<le> 5))"

fun past_entry :: "exec_pc \<Rightarrow> bool" where
  "past_entry Entry = False"
| "past_entry (Done r) = False"
| "past_entry _ = True"

definition args_ok :: "system \<Rightarrow> bool" where
  "args_ok s = ((\<forall>x\<in>set (sys_execs s). past_entry (x_pc x) \<longrightarrow> allowed_call (x_target x) (x_replicas x))
     \<and> (\<forall>(a, t, n)\<in>set (backend_calls (sys_world s)). allowed_call t n))"

lemma znorm_scale_params:
  assumes "zaccepts scale_params v"
  shows "get_prop (znorm scale_params v) ''target'' = get_prop v ''target''"
    "get_prop (znorm scale_params v) ''replicas'' = get_prop v ''replicas''"
proof -
  from assms obtain ps t n where v: "v = Obj ps" and t: "prop_of ps ''target'' = Str t"
    and n: "prop_of ps ''replicas'' = Num (Fin (of_int n))"
    by (auto simp: scale_params_accepts)
  have k: "''target'' \<in> fst ` set ps" "''replicas'' \<in> fst ` set ps"
    using t n by (auto simp: prop_of_def split: option.splits dest!: map_of_SomeD intro: rev_image_eqI)
  show "get_prop (znorm scale_params v) ''target'' = get_prop v ''target''"
    "get_prop (znorm scale_params v) ''replicas'' = get_prop v ''replicas''"
    using k t n by (simp_all add: scale_params_def v prop_of_def split: option.splits)
qed

lemma znorm_action:
  assumes "zaccepts action_schema v"
  shows "zaccepts scale_params (get_prop v ''params'')"
    "get_prop (znorm action_schema v) ''params'' = znorm scale_params (get_prop v ''params'')"
proof -
  from assms obtain ps where v: "v = Obj ps" and c: "prop_of ps ''capability'' = Str ''scale_service''"
    and p: "zaccepts scale_params (prop_of ps ''params'')"
    by (auto simp: action_schema_def zaccepts_simps)
  show "zaccepts scale_params (get_prop v ''params'')" using p by (simp add: v)
  have "prop_of ps ''params'' \<noteq> Undefined" using p by (auto simp: scale_params_accepts)
  then have "''params'' \<in> fst ` set ps" "''capability'' \<in> fst ` set ps"
    using c by (auto simp: prop_of_def split: option.splits dest!: map_of_SomeD intro: rev_image_eqI)
  then show "get_prop (znorm action_schema v) ''params'' = znorm scale_params (get_prop v ''params'')"
    by (simp add: action_schema_def v prop_of_def)
qed

lemma entry_requested:
  assumes "zod_documented z" "entry_checks z i now p e = Inr (t, n)"
  shows "get_prop (get_prop p ''params'') ''target'' = Str t \<and> get_prop (get_prop p ''params'') ''replicas'' = Num n"
proof -
  from assms(2) obtain action where a: "zparse z action_schema p = Inr action"
    and tn: "t = str_of (get_prop (get_prop action ''params'') ''target'')"
      "n = num_of (get_prop (get_prop action ''params'') ''replicas'')"
    by (auto simp: entry_checks_def Let_def split: if_splits sum.splits gate_decision.splits)
  from a zparse_accepts [OF assms(1)] have acc: "zaccepts action_schema p" "action = znorm action_schema p" by auto
  note z = znorm_action [OF acc(1)]
  from z(1) obtain ps t' k where "get_prop p ''params'' = Obj ps" "prop_of ps ''target'' = Str t'"
    "prop_of ps ''replicas'' = Num k"
    by (auto simp: scale_params_accepts)
  then show ?thesis
    using znorm_scale_params [OF z(1)] by (simp add: tn acc(2) z(2) str_of_def num_of_def)
qed

lemma entry_args:
  assumes "zod_documented z" "entry_checks z i now p e = Inr (t, n)"
  shows "allowed_call t n"
proof -
  from assms(2) obtain action where a: "zparse z action_schema p = Inr action"
    and tn: "t = str_of (get_prop (get_prop action ''params'') ''target'')"
      "n = num_of (get_prop (get_prop action ''params'') ''replicas'')"
    by (auto simp: entry_checks_def Let_def split: if_splits sum.splits gate_decision.splits)
  from a zparse_accepts [OF assms(1)] have acc: "zaccepts action_schema p" "action = znorm action_schema p" by auto
  note z = znorm_action [OF acc(1)]
  from z(1) obtain ps t' k where "get_prop p ''params'' = Obj ps" "prop_of ps ''target'' = Str t'" "t' \<in> set service_targets"
    "prop_of ps ''replicas'' = Num (Fin (of_int k))" "1 \<le> k" "k \<le> 5"
    by (auto simp: scale_params_accepts)
  then show ?thesis
    using znorm_scale_params [OF z(1)] by (auto simp: tn acc(2) z(2) allowed_call_def str_of_def num_of_def)
qed

lemma exec_step_args:
  assumes "zod_documented z" "exec_step z pf c x w = (x', w')"
    and "past_entry (x_pc x) \<Longrightarrow> allowed_call (x_target x) (x_replicas x)"
    and "\<forall>(a, t, n)\<in>set (backend_calls w). allowed_call t n"
  shows "past_entry (x_pc x') \<Longrightarrow> allowed_call (x_target x') (x_replicas x')"
    and "\<forall>(a, t, n)\<in>set (backend_calls w'). allowed_call t n"
proof -
  have db: "backend_calls w2 = backend_calls w \<and> x_target x2 = x_target x \<and> x_replicas x2 = x_replicas x"
    if "try_db c res ok bad x w = (x2, w2)" for res ok bad x2 w2
    using that by (auto simp: try_db_def split: sum.splits)
  have app: "backend_calls w2 = backend_calls w \<and> x_target x2 = x_target x \<and> x_replicas x2 = x_replicas x"
    if "try_append pf c ev ok bad x w = (x2, w2)" for ev ok bad x2 w2
    using that by (auto simp: try_append_def split: sum.splits prod.splits)
  have "(past_entry (x_pc x') \<longrightarrow> allowed_call (x_target x') (x_replicas x'))
      \<and> (\<forall>(a, t, n)\<in>set (backend_calls w'). allowed_call t n)"
  proof (cases "x_pc x")
    case Entry
    with assms(2,4) entry_args [OF assms(1)] show ?thesis
      by (auto simp: exec_step_def split: sum.splits prod.splits)
  next
    case ClaimAction
    with assms(2-4) show ?thesis
      by (auto simp: exec_step_def split: sum.splits prod.splits if_splits claim_result.splits)
  next
    case CallBackend
    with assms(2-4) show ?thesis by (auto simp: exec_step_def)
  next
    case (FailAction b)
    with assms(2-4) db show ?thesis by (fastforce simp: exec_step_def Let_def)
  qed (use assms(2-4) in \<open>auto simp: exec_step_def dest!: db app split: if_splits\<close>)
  then show "past_entry (x_pc x') \<Longrightarrow> allowed_call (x_target x') (x_replicas x')"
    and "\<forall>(a, t, n)\<in>set (backend_calls w'). allowed_call t n" by blast+
qed

lemma args_ok_step:
  assumes "zod_documented z" "sys_step z pf s s'" "system_ok s" "args_ok s"
  shows "args_ok s'"
  using assms(2,3,4)
proof (induction rule: sys_step.induct)
  case (start_execute s initialized payload evidence key)
  then show ?case by (simp add: args_ok_def new_exec_def)
next
  case (execute_step s xs x ys c x' w')
  then have "past_entry (x_pc x) \<Longrightarrow> allowed_call (x_target x) (x_replicas x)"
    "\<forall>(a, t, n)\<in>set (backend_calls (sys_world s)). allowed_call t n" by (auto simp: args_ok_def)
  from exec_step_args [OF assms(1) execute_step(2) this] execute_step(1,4) show ?case
    by (auto simp: args_ok_def)
next
  case (reconcile_step s xs r ys c r' w')
  then have "backend_calls w' = backend_calls (sys_world s)"
    using rec_step_quiet [of "sys_world s" pf c r] by (simp add: system_ok_def quiet_step_def)
  with reconcile_step(4) show ?case by (simp add: args_ok_def)
qed (auto simp: args_ok_def)

lemma reachable_args: "zod_documented z \<Longrightarrow> reachable z pf s \<Longrightarrow> args_ok s"
proof (rotate_tac 1, induction rule: reachable.induct)
  case initially
  show ?case by (simp add: args_ok_def initial_system_def)
next
  case (next_step s s')
  then show ?case using args_ok_step reachable_ok by blast
qed

section \<open>A healthy execution\<close>

definition good_choice :: "int \<Rightarrow> choice" where
  "good_choice now = \<lparr>ch_now = now, ch_db_error = False, ch_read_error = False, ch_io = IoOk, ch_backend_ok = True\<rparr>"

lemma good_choice_sel [simp]:
  "ch_now (good_choice now) = now" "ch_db_error (good_choice now) = False" "ch_read_error (good_choice now) = False"
  "ch_io (good_choice now) = IoOk" "ch_backend_ok (good_choice now) = True"
  by (simp_all add: good_choice_def)

lemma good_db_call [simp]: "db_call (good_choice now) res = res"
  by (simp add: db_call_def)

definition reserved_fields :: "string \<Rightarrow> audit_event" where
  "reserved_fields a = [(''eventType'', ''tier_used''), (''actionId'', a), (''capability'', ''scale_service''),
     (''outcome'', ''reserved''), (''tier'', ''TIER_1'')]"

definition executed_fields :: "string \<Rightarrow> audit_event" where
  "executed_fields a = [(''eventType'', ''executed''), (''actionId'', a), (''capability'', ''scale_service''),
     (''outcome'', ''executed'')]"

lemma ident_action_id:
  assumes "valid_action_id a"
  shows "matches_class (\<lambda>c. is_alnum c \<or> c = CHR ''.'' \<or> c = CHR ''_'' \<or> c = CHR '':'' \<or> c = CHR ''-'') 1 128 a"
  using assms by (fastforce simp: valid_action_id_def matches_class_def list_all_iff is_ident_char_def)

lemma fixed_fields:
  "matches_class is_ident_char 1 80 ''scale_service''" "re_tier ''TIER_1''" "snake 39 ''reserved''" "snake 39 ''executed''"
  "snake 39 ''verification_passed''" "snake 39 ''operator_verified''"
  "''tier_used'' \<in> set EVENT_TYPES" "''executed'' \<in> set EVENT_TYPES"
  "''reconciliation_intent'' \<in> set EVENT_TYPES" "''reconciled'' \<in> set EVENT_TYPES"
  by code_simp+

lemma reserved_event_valid:
  assumes "valid_action_id a"
  shows "validateEvent (reserved_event a) = Inr (reserved_fields a)"
  unfolding reserved_event_def
  using ident_action_id [OF assms] fixed_fields
  by (subst validate_Obj [where t = "''tier_used''" and rest = "[(''actionId'', a), (''capability'', ''scale_service''), (''outcome'', ''reserved''), (''tier'', ''TIER_1'')]"])
    (simp_all add: ALLOWED_FIELDS_def prop_of_def patterns_def collect_fields_Cons reserved_fields_def)

lemma executed_event_valid:
  assumes "valid_action_id a"
  shows "validateEvent (executed_event a) = Inr (executed_fields a)"
  unfolding executed_event_def
  using ident_action_id [OF assms] fixed_fields
  by (subst validate_Obj [where t = "''executed''" and rest = "[(''actionId'', a), (''capability'', ''scale_service''), (''outcome'', ''executed'')]"])
    (simp_all add: ALLOWED_FIELDS_def prop_of_def patterns_def collect_fields_Cons executed_fields_def)

text \<open>A working append of a valid event other than \<open>reconciled\<close>.\<close>

lemma good_append:
  assumes "platform_ok pf" "lv_ok (verifyAuditLedger pf f)" "lv_entries (verifyAuditLedger pf f) + 1 < 2 ^ 53"
    and "validateEvent input = Inr ev" "map_of ev ''eventType'' \<noteq> Some ''reconciled''"
  obtains r f' e where "appendAuditEvent pf now IoOk input f = (Inr r, f')"
    "lv_ok (verifyAuditLedger pf f')" "lv_entries (verifyAuditLedger pf f') = lv_entries (verifyAuditLedger pf f) + 1"
    "readLedger f' = readLedger f @ record_text e" "le_event e = ev"
proof -
  let ?e = "new_entry pf now ev (verifyAuditLedger pf f)"
  have app: "appendAuditEvent pf now IoOk input f = (Inr (embed (entry_out ?e)), Some (readLedger f @ record_text ?e))"
    using assms(2,4,5) by (simp add: appendAuditEvent_def locked_append_def Let_def write_record_def)
  have "verifyAuditLedger pf (Some (readLedger f @ record_text ?e)) = \<lparr>lv_ok = True,
      lv_entries = lv_entries (verifyAuditLedger pf f) + 1, lv_headHash = le_hash ?e, lv_error = None\<rparr>"
    using verify_extend [OF assms(1) _ _ assms(4), of "readLedger f" now] assms(2,3)
    by (simp add: verifyAuditLedger_def readLedger_def)
  with app show thesis
    by (intro that [of "embed (entry_out ?e)" "Some (readLedger f @ record_text ?e)" ?e])
      (simp_all add: readLedger_def new_entry_def Let_def)
qed

text \<open>The state after the first ten steps of an execution in which nothing goes wrong.\<close>

lemma healthy_run:
  fixes w :: world
  assumes pf: "platform_ok pf" and w: "world_ok w"
    and entry: "entry_checks z True now p e = Inr (t, n)"
    and led: "lv_ok (verifyAuditLedger pf (ledger w))" "lv_entries (verifyAuditLedger pf (ledger w)) + 2 < 2 ^ 53"
    and pend: "t \<notin> set (getPendingRecoveryTargets (db w))"
    and key: "valid_action_id a" "getStatus a (db w) = None"
    and budget: "\<And>d cr. claim now a ''scale_service'' t (db w) = Inr (cr, d) \<Longrightarrow> \<exists>d'. reserveBudget now a t d = Inr d'"
  defines "x \<equiv> new_exec True p e a"
  obtains x' w' e1 e2 where "exec_run z pf (replicate 10 (good_choice now)) x w = (x', w')"
    "x_pc x' = ReleaseTarget" "x_id x' = a" "x_target x' = t"
    "backend_calls w' = (a, t, n) # backend_calls w"
    "lv_ok (verifyAuditLedger pf (ledger w'))"
    "lv_entries (verifyAuditLedger pf (ledger w')) = lv_entries (verifyAuditLedger pf (ledger w)) + 2"
    "getStatus a (db w') = Some EXECUTED" "holds_lock a t (db w')" "db_ok (db w')"
    "db w' = fold store_step [ClaimCall now a ''scale_service'' t, ReserveCall now a t, BeginCall now a, CompleteCall now a] (db w)"
    "readLedger (ledger w') = readLedger (ledger w) @ record_text e1 @ record_text e2"
    "le_event e1 = reserved_fields a" "le_event e2 = executed_fields a"
proof -
  let ?c = "good_choice now"
  have d0: "db_ok (db w)" using w by (simp add: world_ok_def)
  obtain cr d1 where cl: "claim now a ''scale_service'' t (db w) = Inr (cr, d1)"
    using key(1) by (auto simp: claim_def Let_def split_def)
  note c = claim_Inr [OF d0 cl]
  have cr: "cr = Claimed" using c(4) key(2) by simp
  obtain d2 where res: "reserveBudget now a t d1 = Inr d2" using budget [OF cl] by blast
  note r = db_ok_reserve [OF c(5) res]
  obtain r1 f1 e1 where a1: "appendAuditEvent pf now IoOk (reserved_event a) (ledger w) = (Inr r1, f1)"
    "lv_ok (verifyAuditLedger pf f1)" "lv_entries (verifyAuditLedger pf f1) = lv_entries (verifyAuditLedger pf (ledger w)) + 1"
    "readLedger f1 = readLedger (ledger w) @ record_text e1" "le_event e1 = reserved_fields a"
    by (rule good_append [OF pf led(1) _ reserved_event_valid [OF key(1)]]) (use led(2) in \<open>auto simp: reserved_fields_def\<close>)
  obtain r2 f2 e2 where a2: "appendAuditEvent pf now IoOk (executed_event a) f1 = (Inr r2, f2)"
    "lv_ok (verifyAuditLedger pf f2)" "lv_entries (verifyAuditLedger pf f2) = lv_entries (verifyAuditLedger pf f1) + 1"
    "readLedger f2 = readLedger f1 @ record_text e2" "le_event e2 = executed_fields a"
    by (rule good_append [OF pf a1(2) _ executed_event_valid [OF key(1)]]) (use led(2) a1(3) in \<open>auto simp: executed_fields_def\<close>)
  have s2: "getStatus a d2 = Some CLAIMED" "holds_lock a t d2" using r(2) r(4) c(1) cr by auto
  define d3 where "d3 = fst (update_status now a CLAIMED EXECUTING d2)"
  have b: "beginExecution now a d2 = Inr d3"
    using transition_Inr [OF r(1)] s2(1) by (simp add: beginExecution_def d3_def)
  have d3: "db_ok d3" "getStatus a d3 = Some EXECUTING" "holds_lock a t d3"
    using db_ok_update [OF r(1)] getStatus_update [OF r(1)] s2 r(1) by (simp_all add: d3_def)
  define d4 where "d4 = fst (update_status now a EXECUTING EXECUTED d3)"
  have k: "complete now a d3 = Inr d4"
    using transition_Inr [OF d3(1)] d3(2) by (simp add: complete_def d4_def)
  have d4: "db_ok d4" "getStatus a d4 = Some EXECUTED" "holds_lock a t d4"
    using db_ok_update [OF d3(1)] getStatus_update [OF d3(1)] d3 by (simp_all add: d4_def)
  define w' where "w' = w\<lparr>ledger := f2, db := d4, backend_calls := (a, t, n) # backend_calls w\<rparr>"
  have run: "exec_run z pf (replicate 10 ?c) x w = (x\<lparr>x_target := t, x_replicas := n, x_pc := ReleaseTarget\<rparr>, w')"
    by (simp add: numeral_eq_Suc x_def new_exec_def exec_step_def go_def entry led pend cl cr res b k a1 a2
        try_db_def try_append_def w'_def)
  from run show thesis
    by (rule that) (use a2 a1 d4 in \<open>simp_all add: x_def new_exec_def w'_def cl res b k on_success_def\<close>)
qed

lemma exec_run_append:
  "exec_run z pf (cs @ ds) x w = (case exec_run z pf cs x w of (x', w') \<Rightarrow> exec_run z pf ds x' w')"
  by (induction cs arbitrary: x w) (auto split: prod.split)

lemma reserve_after_claim:
  assumes "db_ok d" "getStatus a d = None" "claim now' a cap t d = Inr (cr, d1)" "reserveBudget now a t d = Inr d0"
  shows "\<exists>d'. reserveBudget now a t d1 = Inr d'"
proof -
  obtain row where d1: "d1 = d\<lparr>action_claims := action_claims d @ [row]\<rparr>" and row: "c_action_id row = a"
    using assms(2,3) by (auto simp: claim_def sql_insert_def getStatus_def find_claim_def Let_def split: if_splits)
  have ne: "o_action_id q \<noteq> a" if "q \<in> set (reconciliation_outbox d)" for q
    using assms(1,2) that by (auto simp: db_ok_def)
  have "(\<exists>c\<in>insert row (set (action_claims d)). c_action_id c = o_action_id q \<and> c_target c = t) \<longleftrightarrow>
      (\<exists>c\<in>set (action_claims d). c_action_id c = o_action_id q \<and> c_target c = t)" if "q \<in> set (reconciliation_outbox d)" for q
    using ne [OF that] row by simp
  then have pend: "pending_audit t d1 = pending_audit t d"
    by (simp add: pending_audit_def d1 list_ex_iff)
  show ?thesis
    using assms(4) unfolding reserveBudget_def insert_reservation_def pend
    by (auto simp: d1 Let_def pend [unfolded d1] split: if_splits)
qed

section \<open>A concrete healthy request\<close>

definition sample_payload :: jsval where
  "sample_payload = Obj [(''capability'', Str ''scale_service''),
     (''params'', Obj [(''target'', Str ''selfheal-svc-api''), (''replicas'', Num (Fin 3))])]"

definition sample_trusted :: jsval where
  "sample_trusted = Obj [(''cause'', Str ''organic''), (''rootTarget'', Str ''selfheal-svc-api''),
     (''ipConcentration'', Num (Fin (1 / 4))), (''tailRatio'', Num (Fin 2)), (''rps'', Num (Fin 500)),
     (''rpsBaseline'', Num (Fin 200)), (''observedAt'', Num (Fin 1000))]"

lemma sample_entry: "entry_checks zod_ref True 1500 sample_payload sample_trusted = Inr (''selfheal-svc-api'', Fin 3)"
proof -
  have e: "zissues evidence_schema sample_trusted = []"
    by (simp add: evidence_schema_def sample_trusted_def service_targets_def prop_of_def at_path_def)
  have p: "zissues action_schema sample_payload = []"
    by (simp add: action_schema_def sample_payload_def scale_params_def service_targets_def prop_of_def at_path_def)
  show ?thesis
    using e p
    by (simp add: entry_checks_def zod_ref_def Let_def)
      (simp add: evidence_schema_def action_schema_def scale_params_def sample_payload_def sample_trusted_def prop_of_def
        num_of_def str_of_def stale_def check_cause_coherence_def evidence_of_def opt_num_def cause_allowed_def
        concentrated_def pathological_def dbl_0_70_def)
qed

section \<open>Properties\<close>

lemma healthy_execute:
  assumes pf: "platform_ok pf" and w: "world_ok w"
    and entry: "entry_checks z True now p e = Inr (t, n)"
    and led: "lv_ok (verifyAuditLedger pf (ledger w))" "lv_entries (verifyAuditLedger pf (ledger w)) + 2 < 2 ^ 53"
    and pend: "t \<notin> set (getPendingRecoveryTargets (db w))"
    and key: "valid_action_id a" "getStatus a (db w) = None"
    and budget: "reserveBudget now a t (db w) = Inr d0"
  shows "\<exists>w' e1 e2. execute z pf (replicate 12 (good_choice now)) True p e a w = (Some (Executed a), w')
    \<and> backend_calls w' = (a, t, n) # backend_calls w
    \<and> getStatus a (db w') = Some EXECUTED \<and> (\<forall>s. \<not> holds_lock a s (db w'))
    \<and> lv_ok (verifyAuditLedger pf (ledger w'))
    \<and> lv_entries (verifyAuditLedger pf (ledger w')) = lv_entries (verifyAuditLedger pf (ledger w)) + 2
    \<and> readLedger (ledger w') = readLedger (ledger w) @ record_text e1 @ record_text e2
    \<and> le_event e1 = reserved_fields a \<and> le_event e2 = executed_fields a"
proof -
  have d: "db_ok (db w)" using w by (simp add: world_ok_def)
  obtain x' w' e1 e2 where
    run: "exec_run z pf (replicate 10 (good_choice now)) (new_exec True p e a) w = (x', w')"
    and x': "x_pc x' = ReleaseTarget" "x_id x' = a" "x_target x' = t"
    and w': "backend_calls w' = (a, t, n) # backend_calls w" "lv_ok (verifyAuditLedger pf (ledger w'))"
      "lv_entries (verifyAuditLedger pf (ledger w')) = lv_entries (verifyAuditLedger pf (ledger w)) + 2"
      "getStatus a (db w') = Some EXECUTED" "holds_lock a t (db w')" "db_ok (db w')"
      "readLedger (ledger w') = readLedger (ledger w) @ record_text e1 @ record_text e2"
      "le_event e1 = reserved_fields a" "le_event e2 = executed_fields a"
    by (rule healthy_run [OF pf w entry led pend key], rule reserve_after_claim [OF d key(2) _ budget], assumption,
        rule that, assumption+)
  obtain d2 where rel: "releaseBudget a (db w') = Inr d2" by (rule releaseBudget_ok [OF w'(6,5)])
  have "exec_run z pf (replicate 12 (good_choice now)) (new_exec True p e a) w =
      (go (Done (Executed a)) x', w'\<lparr>db := d2\<rparr>)"
    using run rel x' exec_run_append [of z pf "replicate 10 (good_choice now)" "replicate 2 (good_choice now)"]
    by (simp add: exec_step_def try_db_def numeral_eq_Suc replicate_add [symmetric] del: replicate_Suc)
      (simp add: exec_step_def try_db_def)
  then show ?thesis
    using w' releaseBudget_Inr(2,4) [OF w'(6) rel]
    by (intro exI [of _ "w'\<lparr>db := d2\<rparr>"] exI [of _ e1] exI [of _ e2]) (simp add: execute_def)
qed

text \<open>C3: on a healthy system an admissible request is executed: with a verified ledger, a fresh action
  id, no unresolved action on the target and budget left, \<open>execute\<close> calls the backend once
  with the target and the replicas of the payload's parameters, appends exactly two records to
  the ledger, the reservation's audit and then the execution's, leaves the action
  \<open>EXECUTED\<close> with its reservation released, and returns \<open>EXECUTED\<close>.\<close>

theorem execute_succeeds:
  assumes "zod_documented z" "platform_ok pf" "world_ok w" "entry_checks z True now payload evidence = Inr (t, n)"
    and "lv_ok (verifyAuditLedger pf (ledger w))" "lv_entries (verifyAuditLedger pf (ledger w)) + 2 < 2 ^ 53"
    and "t \<notin> set (getPendingRecoveryTargets (db w))"
    and "valid_action_id a" "getStatus a (db w) = None" "reserveBudget now a t (db w) = Inr d0"
  shows "get_prop (get_prop payload ''params'') ''target'' = Str t
    \<and> get_prop (get_prop payload ''params'') ''replicas'' = Num n
    \<and> (\<exists>w' e1 e2. execute z pf (replicate 12 (good_choice now)) True payload evidence a w = (Some (Executed a), w')
    \<and> backend_calls w' = (a, t, n) # backend_calls w
    \<and> getStatus a (db w') = Some EXECUTED \<and> (\<forall>s. \<not> holds_lock a s (db w'))
    \<and> lv_ok (verifyAuditLedger pf (ledger w'))
    \<and> lv_entries (verifyAuditLedger pf (ledger w')) = lv_entries (verifyAuditLedger pf (ledger w)) + 2
    \<and> readLedger (ledger w') = readLedger (ledger w) @ record_text e1 @ record_text e2
    \<and> le_event e1 = reserved_fields a \<and> le_event e2 = executed_fields a)"
  using entry_requested [OF assms(1,4)] healthy_execute [OF assms(2-)] by simp

lemma initial_world: "world_ok (sys_world initial_system)" "ledger (sys_world initial_system) = None"
  "db (sys_world initial_system) = empty_db" "backend_calls (sys_world initial_system) = []"
  using system_ok_initial by (simp_all add: system_ok_def) (simp_all add: initial_system_def)

lemma sample_preconditions:
  "''selfheal-svc-api'' \<notin> set (getPendingRecoveryTargets empty_db)" "valid_action_id ''a1''"
  "getStatus ''a1'' empty_db = None" "\<exists>d. reserveBudget 1500 ''a1'' ''selfheal-svc-api'' empty_db = Inr d"
  by (code_simp, code_simp, code_simp)
    (simp add: reserveBudget_def insert_reservation_def pending_audit_def empty_db_def)

theorem execute_succeeds_witness:
  "fst (execute zod_ref toy_platform (replicate 12 (good_choice 1500)) True sample_payload sample_trusted ''a1''
      (sys_world initial_system)) = Some (Executed ''a1'')"
proof -
  obtain d where "reserveBudget 1500 ''a1'' ''selfheal-svc-api'' (db (sys_world initial_system)) = Inr d"
    using sample_preconditions(4) initial_world by auto
  from execute_succeeds [OF zod_documented_ref toy_platform_ok initial_world(1) sample_entry _ _ _ _ _ this] sample_preconditions
  show ?thesis by (fastforce simp: initial_world verify_missing)
qed

section \<open>What an answer tells\<close>

text \<open>How far an execution admitted with target \<open>t\<close> and \<open>n\<close> replicas has come since the calls \<open>cs0\<close>.\<close>

fun progress_ok :: "(string \<times> string \<times> jsnum) list \<Rightarrow> string \<Rightarrow> string \<Rightarrow> jsnum \<Rightarrow> exec_pc \<Rightarrow> world \<Rightarrow> bool" where
  "progress_ok cs0 a t n Entry w = False"
| "progress_ok cs0 a t n AuditExecuted w = (backend_calls w = (a, t, n) # cs0)"
| "progress_ok cs0 a t n CompleteAction w = (backend_calls w = (a, t, n) # cs0)"
| "progress_ok cs0 a t n ReleaseTarget w = (backend_calls w = (a, t, n) # cs0)"
| "progress_ok cs0 a t n MarkUncertain w = (backend_calls w = (a, t, n) # cs0)"
| "progress_ok cs0 a t n (Done (Executed b)) w = (backend_calls w = (a, t, n) # cs0)"
| "progress_ok cs0 a t n (Done (Rejected g m)) w =
     (if Rejected g m = uncertain_result
      then backend_calls w = (a, t, n) # cs0 \<and> holds_lock a t (db w)
         \<and> getStatus a (db w) \<in> {Some EXECUTING, Some EXECUTED, Some NEEDS_RECONCILIATION}
      else backend_calls w = cs0)"
| "progress_ok cs0 a t n p w = (backend_calls w = cs0)"

definition admitted_ok :: "(string \<times> string \<times> jsnum) list \<Rightarrow> string \<Rightarrow> string \<Rightarrow> jsnum \<Rightarrow> exec \<Rightarrow> world \<Rightarrow> bool" where
  "admitted_ok cs0 a t n x w = (world_ok w \<and> exec_ok w x \<and> x_id x = a \<and> x_target x = t \<and> x_replicas x = n
     \<and> progress_ok cs0 a t n (x_pc x) w)"

lemma try_append_world:
  assumes "try_append pf c ev ok bad x w = (x', w')"
  shows "backend_calls w' = backend_calls w \<and> (x' = go ok x \<or> x' = go bad x)"
  using assms by (auto simp: try_append_def split: sum.splits prod.splits)

lemma try_db_world:
  assumes "try_db c res ok bad x w = (x', w')"
  shows "backend_calls w' = backend_calls w \<and> (x' = go ok x \<or> x' = go bad x)"
  using assms by (auto simp: try_db_def split: sum.splits)

lemma uncertain_answer:
  assumes "world_ok w" "exec_ok w x" "x_pc x = MarkUncertain" "exec_step z pf c x w = (x', w')"
  shows "holds_lock (x_id x) (x_target x) (db w')
    \<and> getStatus (x_id x) (db w') \<in> {Some EXECUTING, Some EXECUTED, Some NEEDS_RECONCILIATION}"
proof -
  have d: "db_ok (db w)" using assms(1) by (simp add: world_ok_def)
  have x: "getStatus (x_id x) (db w) \<in> {Some EXECUTING, Some EXECUTED}" "holds_lock (x_id x) (x_target x) (db w)"
    using assms(2,3) by (auto simp: exec_ok_simps)
  have st: "try_db c (needsReconciliation (ch_now c) (x_id x) (db w)) (Done uncertain_result) (Done uncertain_result) x w = (x', w')"
    using assms(3,4) by (simp add: exec_step_def)
  show ?thesis
  proof (cases rule: try_db_cases [of c "needsReconciliation (ch_now c) (x_id x) (db w)" "Done uncertain_result" "Done uncertain_result" x w])
    case 1
    with st x show ?thesis by auto
  next
    case (2 d')
    then have d': "getStatus (x_id x) (db w) = Some EXECUTING"
      "d' = fst (update_status (ch_now c) (x_id x) EXECUTING NEEDS_RECONCILIATION (db w))"
      using transition_Inr [OF d] by (auto simp: needsReconciliation_def)
    with 2 st x(2) getStatus_update [OF d, of "x_id x"] d show ?thesis by auto
  qed
qed

lemma admitted_step:
  assumes ok: "admitted_ok cs0 a t n x w" and step: "exec_step z pf c x w = (x', w')"
  shows "admitted_ok cs0 a t n x' w'"
proof -
  have w: "world_ok w" "exec_ok w x" using ok by (simp_all add: admitted_ok_def)
  have safe: "world_ok w'" "exec_ok w' x'" "x_id x' = x_id x"
    using exec_step_safe [OF w step] by (simp_all add: safe_step_def)
  have "x_target x' = t \<and> x_replicas x' = n \<and> progress_ok cs0 a t n (x_pc x') w'"
  proof (cases "x_pc x")
    case Entry
    with ok show ?thesis by (simp add: admitted_ok_def)
  next
    case VerifyLedger
    with ok step show ?thesis by (auto simp: admitted_ok_def exec_step_def uncertain_result_def split: if_splits)
  next
    case CheckPending
    with ok step show ?thesis by (auto simp: admitted_ok_def exec_step_def uncertain_result_def split: if_splits)
  next
    case ClaimAction
    with ok step show ?thesis
      by (auto simp: admitted_ok_def exec_step_def uncertain_result_def split: if_splits sum.splits prod.splits claim_result.splits)
  next
    case CallBackend
    with ok step show ?thesis by (auto simp: admitted_ok_def exec_step_def)
  next
    case MarkUncertain
    from uncertain_answer [OF w MarkUncertain step] MarkUncertain ok step show ?thesis
      by (auto simp: admitted_ok_def exec_step_def uncertain_result_def dest!: try_db_world)
  next
    case (Done r)
    with ok step show ?thesis by (simp add: admitted_ok_def exec_step_def)
  qed (use ok step in \<open>auto simp: admitted_ok_def exec_step_def Let_def uncertain_result_def precheck_failed_def
        dest!: try_db_world try_append_world split: if_splits\<close>)
  with safe ok show ?thesis by (simp add: admitted_ok_def)
qed

lemma admitted_run:
  "admitted_ok cs0 a t n x w \<Longrightarrow> exec_run z pf cs x w = (x', w') \<Longrightarrow> admitted_ok cs0 a t n x' w'"
proof (induction cs arbitrary: x w)
  case (Cons c cs)
  obtain x1 w1 where "exec_step z pf c x w = (x1, w1)" by (cases "exec_step z pf c x w")
  with Cons admitted_step [OF Cons.prems(1) this] show ?case by simp
qed simp

text \<open>C4: from any state whose tables meet the reachable-state invariant \<open>world_ok\<close>, an execution
  run alone answers within twelve of its steps, and its answer is right, whatever
  clock, database, ledger file and backend do on the way: a request refused by the entry checks gets that
  refusal and changes nothing; after \<open>EXECUTED\<close> the backend was called exactly once, with the
  checked target and replicas, both audits are in the ledger, the action is \<open>EXECUTED\<close> and its
  reservation is gone; after the answer that the outcome is uncertain the backend was called exactly
  once and the target is still reserved for the action; after any other answer the backend was not called.
  The steps are those of the model: an \<open>await\<close> that never settles is a run cut short.\<close>

theorem execute_answers:
  assumes "world_ok w" "12 \<le> length cs" "execute z pf cs initialized payload evidence a w = (answer, w')"
  shows "case entry_checks z initialized (ch_now (hd cs)) payload evidence of
      Inl refusal \<Rightarrow> answer = Some refusal \<and> w' = w
    | Inr (t, n) \<Rightarrow>
        (case answer of
           None \<Rightarrow> False
         | Some (Executed b) \<Rightarrow> b = a \<and> backend_calls w' = (a, t, n) # backend_calls w
             \<and> recorded ''tier_used'' a (ledger w') \<and> recorded ''executed'' a (ledger w')
             \<and> getStatus a (db w') = Some EXECUTED \<and> (\<forall>s. \<not> holds_lock a s (db w'))
         | Some (Rejected g m) \<Rightarrow>
             if Rejected g m = uncertain_result
             then backend_calls w' = (a, t, n) # backend_calls w \<and> holds_lock a t (db w')
               \<and> getStatus a (db w') \<in> {Some EXECUTING, Some EXECUTED, Some NEEDS_RECONCILIATION}
             else backend_calls w' = backend_calls w)"
proof -
  obtain c cs' where cs: "cs = c # cs'" using assms(2) by (cases cs) auto
  obtain x' where run: "exec_run z pf cs (new_exec initialized payload evidence a) w = (x', w')"
    and ans: "answer = (case x_pc x' of Done r \<Rightarrow> Some r | _ \<Rightarrow> None)"
    using assms(3) by (auto simp: execute_def split: prod.splits)
  obtain r where r: "x_pc x' = Done r"
    using exec_run_ends [of "new_exec initialized payload evidence a" cs z pf w] assms(2) run by (auto simp: new_exec_def)
  show ?thesis
  proof (cases "entry_checks z initialized (ch_now c) payload evidence")
    case (Inl refusal)
    then have "exec_step z pf c (new_exec initialized payload evidence a) w =
        (go (Done refusal) (new_exec initialized payload evidence a), w)"
      by (simp add: exec_step_def new_exec_def)
    with run exec_run_Done [of "go (Done refusal) (new_exec initialized payload evidence a)" refusal z pf cs' w]
    have "x' = go (Done refusal) (new_exec initialized payload evidence a)" "w' = w" by (simp_all add: cs)
    with Inl show ?thesis by (simp add: cs ans)
  next
    case (Inr p)
    obtain t n where p: "p = (t, n)" by (cases p)
    let ?x = "(new_exec initialized payload evidence a)\<lparr>x_target := t, x_replicas := n, x_pc := VerifyLedger\<rparr>"
    have "exec_step z pf c (new_exec initialized payload evidence a) w = (?x, w)"
      using Inr by (simp add: exec_step_def new_exec_def p)
    with run have "exec_run z pf cs' ?x w = (x', w')" by (simp add: cs)
    moreover have "admitted_ok (backend_calls w) a t n ?x w"
      using assms(1) by (simp add: admitted_ok_def exec_ok_simps new_exec_def)
    ultimately have fin: "admitted_ok (backend_calls w) a t n x' w'" by (rule admitted_run [rotated])
    show ?thesis
    proof (cases r)
      case (Executed b)
      with fin r have "a \<in> fst ` set (backend_calls w')" by (simp add: admitted_ok_def)
      then have "recorded ''tier_used'' a (ledger w')"
        using fin by (auto simp: admitted_ok_def world_ok_def calls_ok_def)
      with fin r Executed show ?thesis by (auto simp: cs Inr p ans admitted_ok_def exec_ok_simps)
    next
      case (Rejected g m)
      with fin r show ?thesis by (auto simp: cs Inr p ans admitted_ok_def split: if_splits)
    qed
  qed
qed

theorem execute_answers_witness:
  "case execute zod_ref toy_platform (replicate 12 (good_choice 1500)) True sample_payload sample_trusted ''a1''
      (sys_world initial_system) of
     (Some (Executed b), w') \<Rightarrow> b = ''a1'' \<and> backend_calls w' = [(''a1'', ''selfheal-svc-api'', Fin 3)]
   | (Some (Rejected g m), w') \<Rightarrow> Rejected g m = uncertain_result \<or> backend_calls w' = []
   | (None, w') \<Rightarrow> False"
proof -
  obtain ans w' where e: "execute zod_ref toy_platform (replicate 12 (good_choice 1500)) True sample_payload sample_trusted
      ''a1'' (sys_world initial_system) = (ans, w')"
    by (cases "execute zod_ref toy_platform (replicate 12 (good_choice 1500)) True sample_payload sample_trusted ''a1''
      (sys_world initial_system)")
  from execute_answers [OF initial_world(1) _ e] show ?thesis
    by (auto simp: e sample_entry initial_world split: option.splits trusted_result.splits if_splits)
qed

lemma reachable_run:
  "reachable z pf s \<Longrightarrow> sys_execs s = x # ys \<Longrightarrow> exec_run z pf cs x (sys_world s) = (x', w') \<Longrightarrow>
     reachable z pf (s\<lparr>sys_execs := x' # ys, sys_world := w'\<rparr>)"
proof (induction cs arbitrary: s x)
  case Nil
  then show ?case by (cases s) simp
next
  case (Cons c cs)
  obtain x1 w1 where st: "exec_step z pf c x (sys_world s) = (x1, w1)" by (cases "exec_step z pf c x (sys_world s)")
  let ?s = "s\<lparr>sys_execs := x1 # ys, sys_world := w1\<rparr>"
  have "reachable z pf ?s"
    using next_step [OF Cons.prems(1) execute_step [of s "[]" x ys z pf c x1 w1]] Cons.prems(2) st by simp
  from Cons.IH [OF this, of x1] Cons.prems(3) st show ?case by simp
qed

text \<open>A reachable system with one execution that has called the backend.\<close>

definition sample_calls :: "store_call list" where
  "sample_calls = [ClaimCall 1500 ''a1'' ''scale_service'' ''selfheal-svc-api'',
     ReserveCall 1500 ''a1'' ''selfheal-svc-api'', BeginCall 1500 ''a1'', CompleteCall 1500 ''a1'']"

lemma sample_reachable:
  obtains s x where "reachable zod_ref toy_platform s" "sys_execs s = [x]" "x_pc x = ReleaseTarget" "x_id x = ''a1''"
    "x_target x = ''selfheal-svc-api''" "backend_calls (sys_world s) = [(''a1'', ''selfheal-svc-api'', Fin 3)]"
    "getStatus ''a1'' (db (sys_world s)) = Some EXECUTED" "holds_lock ''a1'' ''selfheal-svc-api'' (db (sys_world s))"
    "db (sys_world s) = fold store_step sample_calls empty_db"
    "lv_ok (verifyAuditLedger toy_platform (ledger (sys_world s)))"
    "lv_entries (verifyAuditLedger toy_platform (ledger (sys_world s))) = 2"
proof -
  let ?s0 = "initial_system\<lparr>sys_execs := [new_exec True sample_payload sample_trusted ''a1'']\<rparr>"
  have r0: "reachable zod_ref toy_platform ?s0"
    using next_step [OF initially start_execute [of zod_ref toy_platform initial_system True sample_payload sample_trusted "''a1''"]]
    by (simp add: initial_system_def)
  have w0: "sys_world ?s0 = sys_world initial_system" by simp
  have d: "db_ok (db (sys_world initial_system))" using initial_world(1) by (simp add: world_ok_def)
  obtain d0 where b: "reserveBudget 1500 ''a1'' ''selfheal-svc-api'' (db (sys_world initial_system)) = Inr d0"
    using sample_preconditions(4) initial_world by auto
  have pre: "lv_ok (verifyAuditLedger toy_platform (ledger (sys_world initial_system)))"
    "lv_entries (verifyAuditLedger toy_platform (ledger (sys_world initial_system))) + 2 < 2 ^ 53"
    "''selfheal-svc-api'' \<notin> set (getPendingRecoveryTargets (db (sys_world initial_system)))"
    "getStatus ''a1'' (db (sys_world initial_system)) = None"
    using sample_preconditions by (simp_all add: initial_world verify_missing)
  obtain x' w' e1 e2 where
    run: "exec_run zod_ref toy_platform (replicate 10 (good_choice 1500)) (new_exec True sample_payload sample_trusted ''a1'')
        (sys_world initial_system) = (x', w')"
    and x': "x_pc x' = ReleaseTarget" "x_id x' = ''a1''" "x_target x' = ''selfheal-svc-api''"
    and w': "backend_calls w' = (''a1'', ''selfheal-svc-api'', Fin 3) # backend_calls (sys_world initial_system)"
      "lv_ok (verifyAuditLedger toy_platform (ledger w'))"
      "lv_entries (verifyAuditLedger toy_platform (ledger w')) = lv_entries (verifyAuditLedger toy_platform (ledger (sys_world initial_system))) + 2"
      "getStatus ''a1'' (db w') = Some EXECUTED" "holds_lock ''a1'' ''selfheal-svc-api'' (db w')" "db_ok (db w')"
      "db w' = fold store_step sample_calls (db (sys_world initial_system))"
    by (rule healthy_run [OF toy_platform_ok initial_world(1) sample_entry pre(1,2,3) sample_preconditions(2) pre(4)],
        rule reserve_after_claim [OF d pre(4) _ b], assumption, rule that, assumption+,
        simp only: sample_calls_def)
  define s where "s = ?s0\<lparr>sys_execs := [x'], sys_world := w'\<rparr>"
  have "reachable zod_ref toy_platform s"
    unfolding s_def by (rule reachable_run [OF r0]) (use run in simp_all)
  moreover have "sys_execs s = [x']" "sys_world s = w'" by (simp_all add: s_def)
  ultimately show thesis using x' w' initial_world(2,3,4) by (intro that [of s x']) (simp_all add: verify_missing)
qed

text \<open>C1: whatever runs together and whatever crashes, the backend is called at most once for an
  action id, never again for an id it was called for, and only after the reservation was
  recorded in the audit ledger, where the record stays.\<close>

theorem backend_called_once:
  assumes "reachable z pf s"
  shows "distinct (map fst (backend_calls (sys_world s)))
    \<and> list_all (\<lambda>(a, t, n). recorded ''tier_used'' a (ledger (sys_world s))
         \<and> target_of a (db (sys_world s)) = Some t) (backend_calls (sys_world s))"
  using reachable_ok [OF assms] by (auto simp: system_ok_def world_ok_def calls_ok_def list_all_iff)

theorem backend_called_once_witness:
  "\<exists>s. reachable zod_ref toy_platform s \<and> backend_calls (sys_world s) = [(''a1'', ''selfheal-svc-api'', Fin 3)]
     \<and> recorded ''tier_used'' ''a1'' (ledger (sys_world s))"
proof -
  obtain s x where s: "reachable zod_ref toy_platform s" "backend_calls (sys_world s) = [(''a1'', ''selfheal-svc-api'', Fin 3)]"
    using sample_reachable by metis
  with backend_called_once [OF s(1)] show ?thesis by auto
qed

text \<open>The stages in which an execution holds its target's reservation.\<close>

fun in_flight :: "exec_pc \<Rightarrow> bool" where
  "in_flight AuditReserved = True"
| "in_flight EnterExecution = True"
| "in_flight CallBackend = True"
| "in_flight AuditExecuted = True"
| "in_flight CompleteAction = True"
| "in_flight ReleaseTarget = True"
| "in_flight MarkUncertain = True"
| "in_flight (FailAction reserved) = reserved"
| "in_flight ReleaseFailed = True"
| "in_flight _ = False"

lemma in_flight_locked:
  assumes "exec_ok w x" "in_flight (x_pc x)"
  shows "owned (x_pc x) \<and> holds_lock (x_id x) (x_target x) (db w)"
  using assms by (cases "x_pc x") (auto simp: exec_ok_simps)

lemma lock_unique:
  assumes "db_ok d" "holds_lock a t d" "holds_lock b t d"
  shows "a = b"
proof -
  obtain r q where r: "r \<in> set (filter r_active (budget_reservations d))" "r_action_id r = a" "r_target r = t"
    and q: "q \<in> set (filter r_active (budget_reservations d))" "r_action_id q = b" "r_target q = t"
    using assms(2,3) by (auto simp: holds_lock_def)
  have "inj_on r_target (set (filter r_active (budget_reservations d)))"
    using assms(1) by (simp add: db_ok_def distinct_map)
  from inj_onD [OF this _ r(1) q(1)] r q show ?thesis by auto
qed

text \<open>executions that hold a reservation, from the audit before the backend call to the release,
  are on pairwise different targets: no two of them ever work on one target at a time.\<close>

theorem targets_exclusive:
  assumes "reachable z pf s"
  shows "distinct (map x_target (filter (\<lambda>x. in_flight (x_pc x)) (sys_execs s)))"
proof -
  have ok: "system_ok s" by (rule reachable_ok [OF assms])
  then have d: "db_ok (db (sys_world s))" and each: "\<forall>x\<in>set (sys_execs s). exec_ok (sys_world s) x"
    and ids: "distinct (map x_id (filter (\<lambda>x. owned (x_pc x)) (sys_execs s)))"
    by (simp_all add: system_ok_def world_ok_def)
  have sub: "filter (\<lambda>x. in_flight (x_pc x)) (sys_execs s) =
      filter (\<lambda>x. in_flight (x_pc x)) (filter (\<lambda>x. owned (x_pc x)) (sys_execs s))"
    using each in_flight_locked by (auto intro: filter_cong)
  have dids: "distinct (map x_id (filter (\<lambda>x. in_flight (x_pc x)) (sys_execs s)))"
    unfolding sub by (rule distinct_map_filter [OF ids])
  moreover have "inj_on x_target (set (filter (\<lambda>x. in_flight (x_pc x)) (sys_execs s)))"
  proof (rule inj_onI)
    fix x y assume xy: "x \<in> set (filter (\<lambda>x. in_flight (x_pc x)) (sys_execs s))"
      "y \<in> set (filter (\<lambda>x. in_flight (x_pc x)) (sys_execs s))" "x_target x = x_target y"
    then have "exec_ok (sys_world s) x" "in_flight (x_pc x)" "exec_ok (sys_world s) y" "in_flight (x_pc y)"
      using each by simp_all
    then have "holds_lock (x_id x) (x_target x) (db (sys_world s))" "holds_lock (x_id y) (x_target y) (db (sys_world s))"
      using in_flight_locked by blast+
    then have "x_id x = x_id y" unfolding xy(3) by (rule lock_unique [OF d])
    with dids xy show "x = y" by (auto simp: distinct_map dest: inj_onD)
  qed
  ultimately show ?thesis by (simp add: distinct_map)
qed

theorem targets_exclusive_witness:
  "\<exists>s x. reachable zod_ref toy_platform s \<and> x \<in> set (sys_execs s) \<and> in_flight (x_pc x)
     \<and> distinct (map x_target (filter (\<lambda>x. in_flight (x_pc x)) (sys_execs s)))"
proof -
  obtain s x where s: "reachable zod_ref toy_platform s" "sys_execs s = [x]" "x_pc x = ReleaseTarget"
    using sample_reachable by metis
  with targets_exclusive [OF s(1)] show ?thesis by (intro exI [of _ s] exI [of _ x]) simp
qed

text \<open>C2: while an execution holds its reservation, from before it calls the backend, every other
  call there ever was on its target is settled: that action was executed, or it was reconciled
  by an operator and the audit of this was delivered.\<close>

theorem other_calls_settled:
  assumes "reachable z pf s" "x \<in> set (sys_execs s)" "in_flight (x_pc x)"
    and "(b, x_target x, m) \<in> set (backend_calls (sys_world s))" "b \<noteq> x_id x"
  shows "getStatus b (db (sys_world s)) = Some EXECUTED
    \<or> getStatus b (db (sys_world s)) = Some RECONCILED
       \<and> b \<notin> set (getPendingReconciliationAudits (db (sys_world s)))"
proof -
  let ?w = "sys_world s" and ?t = "x_target x"
  have ok: "system_ok s" by (rule reachable_ok [OF assms(1)])
  then have d: "db_ok (db ?w)" "locks_ok (db ?w)" and xok: "exec_ok ?w x" and c: "calls_ok ?w"
    using assms(2) by (simp_all add: system_ok_def world_ok_def)
  have mine: "holds_lock (x_id x) ?t (db ?w)"
    using in_flight_locked [OF xok assms(3)] by blast
  have tb: "target_of b (db ?w) = Some ?t" and st: "status_in b ?w {EXECUTING, EXECUTED, NEEDS_RECONCILIATION, RECONCILED}"
    using c assms(4) by (auto simp: calls_ok_def)
  have free: "\<not> holds_lock b t (db ?w)" for t
    using lock_unique [OF d(1) mine, of b] locks_ok_target [OF d(2), of b t] tb assms(5) by auto
  then have "getStatus b (db ?w) \<notin> {Some EXECUTING, Some NEEDS_RECONCILIATION}"
    using d(2) unfolding locks_ok_def by blast
  moreover have "b \<notin> set (getPendingReconciliationAudits (db ?w))"
    using d(2) free by (auto simp: getPendingReconciliationAudits_def locks_ok_def)
  ultimately show ?thesis using st by (auto simp: status_in_def)
qed

definition second_trusted :: jsval where
  "second_trusted = Obj [(''cause'', Str ''organic''), (''rootTarget'', Str ''selfheal-svc-api''),
     (''ipConcentration'', Num (Fin (1 / 4))), (''tailRatio'', Num (Fin 2)), (''rps'', Num (Fin 500)),
     (''rpsBaseline'', Num (Fin 200)), (''observedAt'', Num (Fin 200000))]"

lemma second_entry: "entry_checks zod_ref True 200500 sample_payload second_trusted = Inr (''selfheal-svc-api'', Fin 3)"
proof -
  have e: "zissues evidence_schema second_trusted = []"
    by (simp add: evidence_schema_def second_trusted_def service_targets_def prop_of_def at_path_def)
  have p: "zissues action_schema sample_payload = []"
    by (simp add: action_schema_def sample_payload_def scale_params_def service_targets_def prop_of_def at_path_def)
  show ?thesis
    using e p
    by (simp add: entry_checks_def zod_ref_def Let_def)
      (simp add: evidence_schema_def action_schema_def scale_params_def sample_payload_def second_trusted_def prop_of_def
        num_of_def str_of_def stale_def check_cause_coherence_def evidence_of_def opt_num_def cause_allowed_def
        concentrated_def pathological_def dbl_0_70_def)
qed

text \<open>C5: with the documented behaviour of zod, every call to the backend is on one of the four
  services, with a whole number of replicas from 1 to 5.\<close>

theorem calls_within_bounds:
  assumes "zod_documented z" "reachable z pf s"
  shows "list_all (\<lambda>(a, t, n). allowed_call t n) (backend_calls (sys_world s))"
  using reachable_args [OF assms] by (auto simp: args_ok_def list_all_iff)

theorem calls_within_bounds_witness:
  "\<exists>s. reachable zod_ref toy_platform s \<and> backend_calls (sys_world s) = [(''a1'', ''selfheal-svc-api'', Fin 3)]
     \<and> allowed_call ''selfheal-svc-api'' (Fin 3)"
proof -
  obtain s x where s: "reachable zod_ref toy_platform s" "backend_calls (sys_world s) = [(''a1'', ''selfheal-svc-api'', Fin 3)]"
    using sample_reachable by metis
  with calls_within_bounds [OF zod_documented_ref s(1)] show ?thesis by auto
qed

text \<open>the result \<open>EXECUTED\<close> is honest, and stays true: the action's status is \<open>EXECUTED\<close>, its
  reservation is released, the backend was called for it, and both the reservation and the
  execution are recorded in the ledger.\<close>

theorem executed_is_honest:
  assumes "reachable z pf s" "x \<in> set (sys_execs s)" "x_pc x = Done (Executed b)"
  shows "b = x_id x \<and> getStatus b (db (sys_world s)) = Some EXECUTED
    \<and> (\<forall>t. \<not> holds_lock b t (db (sys_world s)))
    \<and> b \<in> fst ` set (backend_calls (sys_world s))
    \<and> recorded ''tier_used'' b (ledger (sys_world s)) \<and> recorded ''executed'' b (ledger (sys_world s))"
proof -
  have "exec_ok (sys_world s) x" and c: "calls_ok (sys_world s)"
    using reachable_ok [OF assms(1)] assms(2) by (simp_all add: system_ok_def world_ok_def)
  then have *: "b = x_id x" "getStatus b (db (sys_world s)) = Some EXECUTED" "\<forall>t. \<not> holds_lock b t (db (sys_world s))"
    "b \<in> fst ` set (backend_calls (sys_world s))" "recorded ''executed'' b (ledger (sys_world s))"
    using assms(3) by (auto simp: exec_ok_simps)
  moreover have "recorded ''tier_used'' b (ledger (sys_world s))"
    using c *(4) by (auto simp: calls_ok_def)
  ultimately show ?thesis by blast
qed

lemma sample_done:
  obtains s x where "reachable zod_ref toy_platform s" "sys_execs s = [x]" "x_pc x = Done (Executed ''a1'')" "x_id x = ''a1''"
    "backend_calls (sys_world s) = [(''a1'', ''selfheal-svc-api'', Fin 3)]"
    "db (sys_world s) = fold store_step (sample_calls @ [ReleaseCall 1500 ''a1'']) empty_db"
    "lv_ok (verifyAuditLedger toy_platform (ledger (sys_world s)))"
    "lv_entries (verifyAuditLedger toy_platform (ledger (sys_world s))) = 2"
proof -
  obtain s x where s: "reachable zod_ref toy_platform s" "sys_execs s = [x]" "x_pc x = ReleaseTarget" "x_id x = ''a1''"
      "backend_calls (sys_world s) = [(''a1'', ''selfheal-svc-api'', Fin 3)]"
      "db (sys_world s) = fold store_step sample_calls empty_db"
      "lv_ok (verifyAuditLedger toy_platform (ledger (sys_world s)))"
      "lv_entries (verifyAuditLedger toy_platform (ledger (sys_world s))) = 2"
    and l: "holds_lock ''a1'' ''selfheal-svc-api'' (db (sys_world s))"
    by (rule sample_reachable)
  have d: "db_ok (db (sys_world s))" using reachable_ok [OF s(1)] by (simp add: system_ok_def world_ok_def)
  obtain d2 where rel: "releaseBudget ''a1'' (db (sys_world s)) = Inr d2" by (rule releaseBudget_ok [OF d l])
  have "exec_run zod_ref toy_platform [good_choice 0] x (sys_world s) =
      (go (Done (Executed ''a1'')) x, (sys_world s)\<lparr>db := d2\<rparr>)"
    using s(3,4) rel by (simp add: exec_step_def try_db_def)
  from reachable_run [OF s(1,2) this] show thesis
    by (rule that [where x = "go (Done (Executed ''a1'')) x"]) (use s rel in \<open>simp_all add: on_success_def\<close>)
qed

theorem executed_is_honest_witness:
  "\<exists>s. reachable zod_ref toy_platform s \<and> recorded ''executed'' ''a1'' (ledger (sys_world s))
     \<and> getStatus ''a1'' (db (sys_world s)) = Some EXECUTED"
proof -
  obtain s x where s: "reachable zod_ref toy_platform s" "sys_execs s = [x]" "x_pc x = Done (Executed ''a1'')"
    by (rule sample_done)
  with executed_is_honest [OF s(1) _ s(3)] show ?thesis by auto
qed

text \<open>An action whose execution is gone (its process died, or it returned after a database error)
  while the action is \<open>EXECUTING\<close>, or \<open>EXECUTED\<close> but not yet released.\<close>

definition abandoned :: "string \<Rightarrow> string \<Rightarrow> system \<Rightarrow> bool" where
  "abandoned a t s = (status_in a (sys_world s) {EXECUTING, EXECUTED} \<and> locked a (sys_world s) t
     \<and> list_all (\<lambda>x. \<not> (owned (x_pc x) \<and> x_id x = a)) (sys_execs s))"

lemma abandoned_same:
  assumes "abandoned a t s" "same_action a (db (sys_world s)) (db w')"
    and "list_all (\<lambda>x. \<not> (owned (x_pc x) \<and> x_id x = a)) xs"
  shows "abandoned a t (s\<lparr>sys_execs := xs, sys_world := w'\<rparr>)"
  using assms by (simp add: abandoned_def status_in_def locked_def same_action_def)

lemma abandoned_step:
  assumes "sys_step z pf s s'" "system_ok s" "abandoned a t s"
  shows "abandoned a t s'"
  using assms
proof (induction rule: sys_step.induct)
  case (start_execute s initialized payload evidence key)
  then show ?case by (simp add: abandoned_def new_exec_def)
next
  case (execute_step s xs x ys c x' w')
  let ?w = "sys_world s"
  have "world_ok ?w" "exec_ok ?w x" using execute_step(1,3) by (auto simp: system_ok_def)
  note safe = exec_step_safe [OF this execute_step(2)]
  have na: "\<not> (owned (x_pc x) \<and> x_id x = a)" and rest: "list_all (\<lambda>x. \<not> (owned (x_pc x) \<and> x_id x = a)) (xs @ ys)"
    and st: "getStatus a (db ?w) \<noteq> None"
    using execute_step(1,4) by (auto simp: abandoned_def status_in_def)
  have na': "\<not> (owned (x_pc x') \<and> x_id x' = a)"
    using safe na st by (auto simp: safe_step_def)
  have "same_action a (db ?w) (db w')"
    using safe na na' by (cases "x_id x = a") (auto simp: safe_step_def)
  with execute_step(4) rest na' show ?case by (intro abandoned_same) simp_all
next
  case (reconcile_step s xs r ys c r' w')
  then have "quiet_step (sys_world s) w'" by (intro rec_step_quiet) (simp_all add: system_ok_def)
  with reconcile_step(4) have "same_action a (db (sys_world s)) (db w')"
    by (auto simp: quiet_step_def abandoned_def status_in_def)
  with reconcile_step(4) show ?case by (simp add: abandoned_def status_in_def locked_def same_action_def)
next
  case (crash_execute s xs x ys)
  then show ?case by (simp add: abandoned_def)
qed (simp_all add: abandoned_def)

lemma abandoned_run:
  assumes "(sys_step z pf)\<^sup>*\<^sup>* s s'" "reachable z pf s" "abandoned a t s"
  shows "abandoned a t s' \<and> reachable z pf s'"
  using assms
proof (induction rule: rtranclp_induct)
  case (step s1 s2)
  then show ?case using abandoned_step [OF _ reachable_ok] next_step by blast
qed simp

lemma find_unresolved:
  assumes "db_ok d" "find (\<lambda>row. c_action_id row = a) (getUnresolvedActions d) = Some row"
  shows "getStatus a d = Some (c_status row)"
proof -
  from assms(2) have "row \<in> set (action_claims d)" "c_action_id row = a"
    by (auto simp: getUnresolvedActions_def dest!: find_key_SomeD)
  with assms(1) show ?thesis by (auto simp: getStatus_def find_claim_def db_ok_def sql_select_iff)
qed

text \<open>C6: an action abandoned in \<open>EXECUTING\<close>, or in \<open>EXECUTED\<close> before its reservation is released,
  locks its target for ever: whatever runs afterwards, no reservation of the target is granted,
  and the reconciliation the caller is told to ask for refuses the action, because only an
  execution's own handler ever sets \<open>NEEDS_RECONCILIATION\<close>.\<close>

theorem abandoned_for_ever:
  assumes "reachable z pf s" "abandoned a t s" "(sys_step z pf)\<^sup>*\<^sup>* s s'"
  shows "abandoned a t s'
    \<and> isl (reserveBudget now b t (db (sys_world s')))
    \<and> (rc_id r = a \<and> rc_pc r = RFind \<and> \<not> ch_db_error c \<longrightarrow>
         rec_step pf c r (sys_world s') = (rfail ''action_not_reconcilable'' r, sys_world s'))"
proof -
  from abandoned_run [OF assms(3,1,2)] have ab: "abandoned a t s'" and re: "reachable z pf s'" by auto
  have d: "db_ok (db (sys_world s'))" using reachable_ok [OF re] by (simp add: system_ok_def world_ok_def)
  have l: "holds_lock a t (db (sys_world s'))" and st: "getStatus a (db (sys_world s')) \<noteq> Some NEEDS_RECONCILIATION"
    using ab by (auto simp: abandoned_def locked_def status_in_def)
  have "isl (reserveBudget now b t (db (sys_world s')))"
  proof (cases "reserveBudget now b t (db (sys_world s'))")
    case (Inr d')
    from reserveBudget_Inr(3) [OF Inr, of a] l show ?thesis by simp
  qed simp
  moreover have "rec_step pf c r (sys_world s') = (rfail ''action_not_reconcilable'' r, sys_world s')"
    if "rc_id r = a" "rc_pc r = RFind" "\<not> ch_db_error c"
    using that st find_unresolved [OF d, of a] by (auto simp: rec_step_def split: option.split)
  ultimately show ?thesis using ab by blast
qed

theorem abandoned_for_ever_witness:
  "\<exists>s. reachable zod_ref toy_platform s \<and> abandoned ''a1'' ''selfheal-svc-api'' s
     \<and> isl (reserveBudget 999999999 ''a2'' ''selfheal-svc-api'' (db (sys_world s)))"
proof -
  obtain s x where s: "reachable zod_ref toy_platform s" "sys_execs s = [x]"
    "getStatus ''a1'' (db (sys_world s)) = Some EXECUTED" "holds_lock ''a1'' ''selfheal-svc-api'' (db (sys_world s))"
    by (rule sample_reachable)
  let ?s = "s\<lparr>sys_execs := []\<rparr>"
  have r: "reachable zod_ref toy_platform ?s"
    using next_step [OF s(1) crash_execute [of s "[]" x "[]"]] s(2) by simp
  have "locks_ok (db (sys_world s))" using reachable_ok [OF s(1)] by (simp add: system_ok_def world_ok_def)
  with s have ab: "abandoned ''a1'' ''selfheal-svc-api'' ?s"
    by (simp add: abandoned_def status_in_def locked_def locks_ok_target)
  from abandoned_for_ever [OF r ab rtranclp.rtrancl_refl, of 999999999 "''a2''"] r show ?thesis by blast
qed

lemma second_preconditions:
  fixes d defines "d \<equiv> fold store_step (sample_calls @ [ReleaseCall 1500 ''a1'']) empty_db"
  shows "''selfheal-svc-api'' \<notin> set (getPendingRecoveryTargets d)" "valid_action_id ''a2''"
    "getStatus ''a2'' d = None" "\<exists>d0. reserveBudget 200500 ''a2'' ''selfheal-svc-api'' d = Inr d0"
proof -
  have "list_all (\<lambda>t. t \<noteq> ''selfheal-svc-api'') (getPendingRecoveryTargets (fold store_step (sample_calls @ [ReleaseCall 1500 ''a1'']) empty_db))"
    by code_simp
  then show "''selfheal-svc-api'' \<notin> set (getPendingRecoveryTargets d)" unfolding d_def list_all_iff by blast
  show "valid_action_id ''a2''" by code_simp
  show "getStatus ''a2'' d = None" unfolding d_def by code_simp
  have "\<not> isl (reserveBudget 200500 ''a2'' ''selfheal-svc-api'' (fold store_step (sample_calls @ [ReleaseCall 1500 ''a1'']) empty_db))"
    by code_simp
  then show "\<exists>d0. reserveBudget 200500 ''a2'' ''selfheal-svc-api'' d = Inr d0"
    unfolding d_def by (intro exI) (rule sum.collapse(2) [symmetric])
qed

text \<open>A second request on the target of the first, after the first has been executed.\<close>

lemma second_reachable:
  obtains s x where "reachable zod_ref toy_platform s" "x \<in> set (sys_execs s)" "x_pc x = ReleaseTarget" "x_id x = ''a2''"
    "x_target x = ''selfheal-svc-api''"
    "(''a1'', ''selfheal-svc-api'', Fin 3) \<in> set (backend_calls (sys_world s))"
proof -
  obtain s y where s: "reachable zod_ref toy_platform s" "sys_execs s = [y]"
    and calls: "backend_calls (sys_world s) = [(''a1'', ''selfheal-svc-api'', Fin 3)]"
    and d: "db (sys_world s) = fold store_step (sample_calls @ [ReleaseCall 1500 ''a1'']) empty_db"
    and led: "lv_ok (verifyAuditLedger toy_platform (ledger (sys_world s)))"
      "lv_entries (verifyAuditLedger toy_platform (ledger (sys_world s))) = 2"
    by (rule sample_done)
  let ?x = "new_exec True sample_payload second_trusted ''a2''"
  let ?s = "s\<lparr>sys_execs := ?x # sys_execs s\<rparr>"
  have r: "reachable zod_ref toy_platform ?s"
    by (rule next_step [OF s(1) start_execute])
  have w: "world_ok (sys_world s)" using reachable_ok [OF s(1)] by (simp add: system_ok_def)
  then have dok: "db_ok (db (sys_world s))" by (simp add: world_ok_def)
  obtain d0 where b: "reserveBudget 200500 ''a2'' ''selfheal-svc-api'' (db (sys_world s)) = Inr d0"
    using second_preconditions(4) d by auto
  have pre: "lv_entries (verifyAuditLedger toy_platform (ledger (sys_world s))) + 2 < 2 ^ 53"
    "''selfheal-svc-api'' \<notin> set (getPendingRecoveryTargets (db (sys_world s)))"
    "getStatus ''a2'' (db (sys_world s)) = None"
    using second_preconditions led d by simp_all
  obtain x' w' e1 e2 where
    run: "exec_run zod_ref toy_platform (replicate 10 (good_choice 200500)) ?x (sys_world s) = (x', w')"
    and x': "x_pc x' = ReleaseTarget" "x_id x' = ''a2''" "x_target x' = ''selfheal-svc-api''"
    and w': "backend_calls w' = (''a2'', ''selfheal-svc-api'', Fin 3) # backend_calls (sys_world s)"
    by (rule healthy_run [OF toy_platform_ok w second_entry led(1) pre(1,2) second_preconditions(2) pre(3)],
        rule reserve_after_claim [OF dok pre(3) _ b], assumption, rule that, assumption+)
  have "reachable zod_ref toy_platform (?s\<lparr>sys_execs := x' # sys_execs s, sys_world := w'\<rparr>)"
    by (rule reachable_run [OF r]) (use run in simp_all)
  then show thesis by (rule that) (use x' w' calls in simp_all)
qed

theorem other_calls_settled_witness:
  "\<exists>s x. reachable zod_ref toy_platform s \<and> x \<in> set (sys_execs s) \<and> in_flight (x_pc x) \<and> x_id x = ''a2''
     \<and> (getStatus ''a1'' (db (sys_world s)) = Some EXECUTED
        \<or> getStatus ''a1'' (db (sys_world s)) = Some RECONCILED
          \<and> ''a1'' \<notin> set (getPendingReconciliationAudits (db (sys_world s))))"
proof -
  obtain s x where s: "reachable zod_ref toy_platform s" "x \<in> set (sys_execs s)" "x_pc x = ReleaseTarget" "x_id x = ''a2''"
    "x_target x = ''selfheal-svc-api''" "(''a1'', ''selfheal-svc-api'', Fin 3) \<in> set (backend_calls (sys_world s))"
    by (rule second_reachable)
  have "getStatus ''a1'' (db (sys_world s)) = Some EXECUTED
        \<or> getStatus ''a1'' (db (sys_world s)) = Some RECONCILED
          \<and> ''a1'' \<notin> set (getPendingReconciliationAudits (db (sys_world s)))"
    by (rule other_calls_settled [OF s(1,2)]) (use s in simp_all)
  with s show ?thesis by (intro exI [of _ s] exI [of _ x]) simp
qed

end
