(* ===== verification/IsoTime.thy ===== *)
theory IsoTime
  imports JsonText
begin

text \<open>
  The strings \<open>Date.prototype.toISOString\<close> produces: \<open>YYYY-MM-DDTHH:mm:ss.sssZ\<close> for the years 0 to
  9999 and a sign with six digits of year otherwise, for a valid date of the proleptic
  Gregorian calendar within the range of a time value.  Parsing such a string and printing
  it again gives it back, and no other string has this property, which is how the sources
  recognise a canonical timestamp.
\<close>

definition leap_year :: "int \<Rightarrow> bool" where
  "leap_year y = (y mod 4 = 0 \<and> (y mod 100 \<noteq> 0 \<or> y mod 400 = 0))"

definition days_in_month :: "int \<Rightarrow> nat \<Rightarrow> nat" where
  "days_in_month y m =
     (if m = 2 then (if leap_year y then 29 else 28)
      else if m = 4 \<or> m = 6 \<or> m = 9 \<or> m = 11 then 30 else 31)"

definition all_digits :: "string \<Rightarrow> bool" where
  "all_digits s = list_all is_digit s"

text \<open>The year of a timestamp and the rest of it.\<close>

definition iso_year :: "string \<Rightarrow> (int \<times> string) option" where
  "iso_year s =
     (if s \<noteq> [] \<and> (hd s = CHR ''+'' \<or> hd s = CHR ''-'')
      then (let ds = take 6 (tl s); y = int (digits_val ds); v = (if hd s = CHR ''-'' then - y else y)
            in if length ds = 6 \<and> all_digits ds \<and> \<not> (0 \<le> v \<and> v \<le> 9999) then Some (v, drop 7 s) else None)
      else (let ds = take 4 s
            in if length ds = 4 \<and> all_digits ds then Some (int (digits_val ds), drop 4 s) else None))"

text \<open>\<open>-MM-DDTHH:mm:ss.sssZ\<close>, by position.\<close>

definition iso_rest_shape :: "string \<Rightarrow> bool" where
  "iso_rest_shape r =
     (length r = 20 \<and> r ! 0 = CHR ''-'' \<and> r ! 3 = CHR ''-'' \<and> r ! 6 = CHR ''T'' \<and> r ! 9 = CHR '':''
      \<and> r ! 12 = CHR '':'' \<and> r ! 15 = CHR ''.'' \<and> r ! 19 = CHR ''Z''
      \<and> all_digits (map ((!) r) [1, 2, 4, 5, 7, 8, 10, 11, 13, 14, 16, 17, 18]))"

definition field_at :: "string \<Rightarrow> nat \<Rightarrow> nat \<Rightarrow> nat" where
  "field_at r i n = digits_val (take n (drop i r))"

text \<open>The first and the last time value: \<open>-271821-04-20\<close> at midnight and \<open>+275760-09-13\<close> at
  midnight, compared as (year, month, day, hour, minute, second, millisecond).\<close>

fun lex_le :: "int list \<Rightarrow> int list \<Rightarrow> bool" where
  "lex_le [] _ = True"
| "lex_le _ [] = False"
| "lex_le (x # xs) (y # ys) = (x < y \<or> x = y \<and> lex_le xs ys)"

definition is_iso_timestamp :: "string \<Rightarrow> bool" where
  "is_iso_timestamp s =
     (case iso_year s of
        None \<Rightarrow> False
      | Some (y, r) \<Rightarrow>
          iso_rest_shape r
          \<and> (let mo = field_at r 1 2; d = field_at r 4 2; h = field_at r 7 2; mi = field_at r 10 2;
                 sec = field_at r 13 2; ms = field_at r 16 3; t = [y, int mo, int d, int h, int mi, int sec, int ms]
             in 1 \<le> mo \<and> mo \<le> 12 \<and> 1 \<le> d \<and> d \<le> days_in_month y mo \<and> h \<le> 23 \<and> mi \<le> 59 \<and> sec \<le> 59
                \<and> lex_le [-271821, 4, 20, 0, 0, 0, 0] t \<and> lex_le t [275760, 9, 13, 0, 0, 0, 0]))"

end
