(* ===== verification/IsoClock.thy ===== *)
theory IsoClock
  imports IsoTime
begin

text \<open>
  Time values (milliseconds since the epoch, as \<open>Date.now()\<close>) and the canonical strings of
  \<open>IsoTime\<close>: \<open>toISOString\<close> and \<open>Date.parse\<close>.  \<open>Date.parse\<close> of a string that is not
  canonical depends on the engine and is an argument of the definitions that need it.
\<close>

section \<open>Days and years\<close>

definition year_len :: "int \<Rightarrow> nat" where
  "year_len y = (if leap_year y then 366 else 365)"

primrec days_to_year :: "nat \<Rightarrow> nat" where
  "days_to_year 0 = 0"
| "days_to_year (Suc n) = days_to_year n + year_len (1970 + int n)"

primrec days_to_month :: "int \<Rightarrow> nat \<Rightarrow> nat" where
  "days_to_month y 0 = 0"
| "days_to_month y (Suc n) = days_to_month y n + days_in_month y (Suc n)"

text \<open>The year, counted from 1970, and the day in it; the month and the day in it.\<close>

function split_year :: "nat \<Rightarrow> nat \<Rightarrow> nat \<times> nat" where
  "split_year n d = (let k = year_len (1970 + int n) in if d < k then (n, d) else split_year (Suc n) (d - k))"
  by pat_completeness auto
termination
  by (relation "measure snd") (auto simp: year_len_def)

declare split_year.simps [simp del]

fun split_month :: "nat \<Rightarrow> int \<Rightarrow> nat \<Rightarrow> nat \<Rightarrow> nat \<times> nat" where
  "split_month 0 y m d = (m, d)"
| "split_month (Suc fuel) y m d =
     (if d < days_in_month y m then (m, d) else split_month fuel y (Suc m) (d - days_in_month y m))"

text \<open>The Gregorian calendar repeats after 400 years, which are 146097 days.\<close>

definition days_of_date :: "int \<Rightarrow> nat \<Rightarrow> nat \<Rightarrow> int" where
  "days_of_date y mo d =
     146097 * ((y - 1970) div 400) + int (days_to_year (nat ((y - 1970) mod 400))) + int (days_to_month y (mo - 1))
     + int d - 1"

definition date_of_days :: "int \<Rightarrow> int \<times> nat \<times> nat" where
  "date_of_days z =
     (let c = z div 146097; (n, d) = split_year 0 (nat (z mod 146097)); y = 1970 + 400 * c + int n;
          (mo, k) = split_month 11 y 1 d
      in (y, mo, k + 1))"

section \<open>Printing and parsing\<close>

definition pad2 :: "nat \<Rightarrow> string" where
  "pad2 n = [digit_char (n div 10), digit_char (n mod 10)]"

definition pad3 :: "nat \<Rightarrow> string" where
  "pad3 n = digit_char (n div 100) # pad2 (n mod 100)"

definition pad4 :: "nat \<Rightarrow> string" where
  "pad4 n = digit_char (n div 1000) # pad3 (n mod 1000)"

definition pad6 :: "nat \<Rightarrow> string" where
  "pad6 n = digit_char (n div 100000) # digit_char (n div 10000 mod 10) # pad4 (n mod 10000)"

definition year_text :: "int \<Rightarrow> string" where
  "year_text y =
     (if 0 \<le> y \<and> y \<le> 9999 then pad4 (nat y)
      else if y < 0 then CHR ''-'' # pad6 (nat (- y)) else CHR ''+'' # pad6 (nat y))"

definition to_iso :: "int \<Rightarrow> string" where
  "to_iso t =
     (let (y, mo, d) = date_of_days (t div 86400000); r = nat (t mod 86400000)
      in year_text y @ ''-'' @ pad2 mo @ ''-'' @ pad2 d @ ''T'' @ pad2 (r div 3600000) @ '':''
         @ pad2 (r div 60000 mod 60) @ '':'' @ pad2 (r div 1000 mod 60) @ ''.'' @ pad3 (r mod 1000) @ ''Z'')"

definition iso_ms :: "string \<Rightarrow> int option" where
  "iso_ms s =
     (if is_iso_timestamp s
      then (case iso_year s of
              Some (y, r) \<Rightarrow>
                Some (86400000 * days_of_date y (field_at r 1 2) (field_at r 4 2)
                  + 3600000 * int (field_at r 7 2) + 60000 * int (field_at r 10 2) + 1000 * int (field_at r 13 2)
                  + int (field_at r 16 3))
            | None \<Rightarrow> None)
      else None)"

text \<open>\<open>Date.parse\<close>, \<open>None\<close> for \<open>NaN\<close>: \<open>other\<close> is the engine's reading of other formats.\<close>

definition date_parse :: "(string \<Rightarrow> int option) \<Rightarrow> string \<Rightarrow> int option" where
  "date_parse other s = (case iso_ms s of Some t \<Rightarrow> Some t | None \<Rightarrow> other s)"

section \<open>Parsing what was printed\<close>

lemma year_len_bounds: "365 \<le> year_len y" "year_len y \<le> 366"
  by (simp_all add: year_len_def)

lemma year_len_cycle: "year_len (y + 400 * c) = year_len y"
proof -
  have "(y + 400 * c) mod 4 = y mod 4" using mod_mult_self2 [of y 4 "100 * c"] by simp
  moreover have "(y + 400 * c) mod 100 = y mod 100" using mod_mult_self2 [of y 100 "4 * c"] by simp
  moreover have "(y + 400 * c) mod 400 = y mod 400" using mod_mult_self2 [of y 400 c] by simp
  ultimately show ?thesis by (simp add: year_len_def leap_year_def)
qed

lemma days_to_month_year: "days_to_month y 12 = year_len y"
proof -
  have "days_to_month y 2 = 31 + days_in_month y 2"
    by (simp add: numeral_2_eq_2 days_in_month_def)
  then show ?thesis
    using days_to_month.simps(2) [of y 2]
      days_to_month.simps(2) [of y 3] days_to_month.simps(2) [of y 4] days_to_month.simps(2) [of y 5]
      days_to_month.simps(2) [of y 6] days_to_month.simps(2) [of y 7] days_to_month.simps(2) [of y 8]
      days_to_month.simps(2) [of y 9] days_to_month.simps(2) [of y 10] days_to_month.simps(2) [of y 11]
    by (simp add: days_in_month_def year_len_def)
qed

lemma split_year_sum:
  "split_year n d = (m, r) \<Longrightarrow>
   n \<le> m \<and> r < year_len (1970 + int m) \<and> days_to_year n + d = days_to_year m + r"
proof (induction n d rule: split_year.induct)
  case (1 n d)
  show ?case
  proof (cases "d < year_len (1970 + int n)")
    case True
    then show ?thesis using "1.prems" by (simp add: split_year.simps [of n d] Let_def)
  next
    case False
    then have "split_year (Suc n) (d - year_len (1970 + int n)) = (m, r)"
      using "1.prems" by (simp add: split_year.simps [of n d] Let_def)
    then show ?thesis using "1.IH" [OF refl] False by simp
  qed
qed

lemma days_to_year_mono: "m \<le> n \<Longrightarrow> days_to_year m \<le> days_to_year n"
  by (induction rule: dec_induct) auto

lemma days_to_year_sum: "int (days_to_year n) = sum_list (map (\<lambda>i. int (year_len (1970 + i))) [0..int n - 1])"
proof (induction n)
  case (Suc n)
  have "[0..int (Suc n) - 1] = [0..int n - 1] @ [int n]" by (simp add: upto_rec2)
  then show ?case using Suc by simp
qed simp

lemma year_len_400: "sum_list (map (\<lambda>i. int (year_len (1970 + i))) [0..399]) = 146097"
  by code_simp

lemma days_to_400: "days_to_year 400 = 146097"
  using days_to_year_sum [of 400] year_len_400 by simp

lemma split_year_400:
  assumes "split_year 0 d = (m, r)" "d < 146097"
  shows "m < 400"
proof (rule ccontr)
  assume "\<not> m < 400"
  then have "days_to_year 400 \<le> days_to_year m" by (intro days_to_year_mono) simp
  then show False using split_year_sum [OF assms(1)] assms(2) by (simp add: days_to_400)
qed

lemma year_len_30: "sum_list (map (\<lambda>i. int (year_len (1970 + i))) [0..29]) = 10957"
  by code_simp

lemma days_to_year_30: "days_to_year 30 = 10957"
  using days_to_year_sum [of 30] year_len_30 by simp

lemma split_month_sum:
  "split_month fuel y m d = (k, r) \<Longrightarrow> 1 \<le> m \<Longrightarrow> m \<le> k \<and> k \<le> m + fuel \<and>
   days_to_month y (m - 1) + d = days_to_month y (k - 1) + r \<and> (k < m + fuel \<longrightarrow> r < days_in_month y k)"
proof (induction fuel y m d rule: split_month.induct)
  case (2 fuel y m d)
  show ?case
  proof (cases "d < days_in_month y m")
    case True
    then show ?thesis using "2.prems" by auto
  next
    case False
    obtain j where m: "m = Suc j" using "2.prems"(2) by (cases m) auto
    have "split_month fuel y (Suc m) (d - days_in_month y m) = (k, r)" using False "2.prems"(1) by simp
    then show ?thesis using "2.IH" [OF False] False by (auto simp: m)
  qed
qed simp

lemma date_of_days_days:
  assumes "date_of_days z = (y, mo, d)"
  shows "days_of_date y mo d = z" "1 \<le> mo" "mo \<le> 12" "1 \<le> d" "d \<le> days_in_month y mo"
proof -
  obtain n k where s: "split_year 0 (nat (z mod 146097)) = (n, k)" by (metis surj_pair)
  have y: "y = 1970 + 400 * (z div 146097) + int n"
    using assms s by (simp add: date_of_days_def Let_def split: prod.splits)
  obtain mm r where sm: "split_month 11 y 1 k = (mm, r)" by (metis surj_pair)
  have mo: "mo = mm" and d: "d = r + 1"
    using assms s sm [unfolded y] by (simp_all add: date_of_days_def Let_def)
  have lt: "nat (z mod 146097) < 146097" by (simp add: nat_less_iff)
  have n: "n < 400" by (rule split_year_400 [OF s lt])
  note ys = split_year_sum [OF s]
  note ms = split_month_sum [OF sm]
  have len: "year_len y = year_len (1970 + int n)"
    using year_len_cycle [of "1970 + int n" "z div 146097"] by (simp add: y algebra_simps)
  have m12: "1 \<le> mm" "mm \<le> 12" using ms by auto
  have r: "r < days_in_month y mm"
  proof (cases "mm < 12")
    case True
    then show ?thesis using ms by simp
  next
    case False
    then have "mm = 12" using m12 by simp
    then have "days_to_month y 11 + r = k" using ms by simp
    then have "days_to_month y 11 + r < year_len y" using ys len by simp
    then show ?thesis
      using days_to_month_year [of y] days_to_month.simps(2) [of y 11] \<open>mm = 12\<close> by simp
  qed
  show "1 \<le> mo" "mo \<le> 12" "1 \<le> d" "d \<le> days_in_month y mo" using m12 r by (simp_all add: mo d)
  have "(y - 1970) div 400 = z div 146097" "(y - 1970) mod 400 = int n"
    using n by (simp_all add: y)
  then have "days_of_date y mo d = 146097 * (z div 146097) + int (days_to_year n + (days_to_month y (mm - 1) + r))"
    by (simp add: days_of_date_def mo d)
  also have "\<dots> = 146097 * (z div 146097) + int (nat (z mod 146097))" using ms ys by simp
  also have "\<dots> = z" by simp
  finally show "days_of_date y mo d = z" .
qed


lemma days_of_date_days:
  "date_of_days z = (y, mo, d) \<Longrightarrow> days_of_date y mo d = z"
  by (rule date_of_days_days(1))

lemma digits_val_digit:
  "d < 10 \<Longrightarrow> digits_val (digit_char d # s) = d * 10 ^ length s + digits_val s"
proof (induction s rule: rev_induct)
  case Nil
  then show ?case by (simp add: digits_val_def digit_val_digit_char)
next
  case (snoc c s)
  then show ?case using digits_val_append [of "digit_char d # s" c] digits_val_append [of s c] by simp
qed

lemma digits_pad2: "n < 100 \<Longrightarrow> digits_val (pad2 n) = n"
  by (simp add: pad2_def digits_val_digit, simp add: digits_val_def)

lemma digits_pad3: "n < 1000 \<Longrightarrow> digits_val (pad3 n) = n"
  by (simp add: pad3_def digits_val_digit digits_pad2, simp add: pad2_def)

lemma digits_pad4: "n < 10000 \<Longrightarrow> digits_val (pad4 n) = n"
  by (simp add: pad4_def digits_val_digit digits_pad3, simp add: pad3_def pad2_def)

lemmas digits_pad = digits_pad2 digits_pad3 digits_pad4

lemma all_digits_pad:
  "n < 100 \<Longrightarrow> all_digits (pad2 n)" "n < 1000 \<Longrightarrow> all_digits (pad3 n)" "n < 10000 \<Longrightarrow> all_digits (pad4 n)"
  by (simp_all add: all_digits_def pad2_def pad3_def pad4_def is_digit_digit_char)

lemma length_pad [simp]: "length (pad2 n) = 2" "length (pad3 n) = 3" "length (pad4 n) = 4"
  by (simp_all add: pad2_def pad3_def pad4_def)

lemma digit_not_sign: "d < 10 \<Longrightarrow> digit_char d \<noteq> CHR ''+'' \<and> digit_char d \<noteq> CHR ''-''"
  using is_digit_digit_char [of d] by (auto simp: char_class_defs)

text \<open>The text after the year, from its fields.\<close>

definition iso_tail :: "nat \<Rightarrow> nat \<Rightarrow> nat \<Rightarrow> nat \<Rightarrow> nat \<Rightarrow> nat \<Rightarrow> string" where
  "iso_tail mo d h mi sec ms =
     ''-'' @ pad2 mo @ ''-'' @ pad2 d @ ''T'' @ pad2 h @ '':'' @ pad2 mi @ '':'' @ pad2 sec @ ''.'' @ pad3 ms @ ''Z''"

lemma iso_tail_fields:
  assumes "mo < 100" "d < 100" "h < 100" "mi < 100" "sec < 100" "ms < 1000"
  shows "field_at (iso_tail mo d h mi sec ms) 1 2 = mo" "field_at (iso_tail mo d h mi sec ms) 4 2 = d"
    "field_at (iso_tail mo d h mi sec ms) 7 2 = h" "field_at (iso_tail mo d h mi sec ms) 10 2 = mi"
    "field_at (iso_tail mo d h mi sec ms) 13 2 = sec" "field_at (iso_tail mo d h mi sec ms) 16 3 = ms"
  using assms digits_pad2 [unfolded pad2_def] digits_pad3 [unfolded pad3_def pad2_def]
  by (simp_all add: field_at_def iso_tail_def pad2_def pad3_def)

lemma iso_tail_shape:
  assumes "mo < 100" "d < 100" "h < 100" "mi < 100" "sec < 100" "ms < 1000"
  shows "iso_rest_shape (iso_tail mo d h mi sec ms)"
  using assms
  by (simp add: iso_rest_shape_def iso_tail_def pad2_def pad3_def all_digits_def is_digit_digit_char)

lemma iso_year_text:
  assumes "0 \<le> y" "y \<le> 9999"
  shows "iso_year (year_text y @ r) = Some (y, r)"
proof -
  have lt: "nat y < 10000" using assms by simp
  have "hd (pad4 (nat y) @ r) = digit_char (nat y div 1000)" by (simp add: pad4_def)
  moreover have "nat y div 1000 < 10" using lt by simp
  ultimately have "hd (pad4 (nat y) @ r) \<noteq> CHR ''+'' \<and> hd (pad4 (nat y) @ r) \<noteq> CHR ''-''"
    using digit_not_sign by simp
  then show ?thesis
    using assms lt digits_pad(3) [OF lt] all_digits_pad(3) [OF lt]
    by (simp add: year_text_def iso_year_def)
qed

lemma to_iso_tail:
  assumes "date_of_days (t div 86400000) = (y, mo, d)"
  shows "to_iso t = year_text y @ iso_tail mo d (nat (t mod 86400000) div 3600000)
    (nat (t mod 86400000) div 60000 mod 60) (nat (t mod 86400000) div 1000 mod 60) (nat (t mod 86400000) mod 1000)"
  by (simp add: to_iso_def iso_tail_def assms Let_def)

lemma day_parts:
  fixes r :: nat
  assumes "r < 86400000"
  shows "r div 3600000 \<le> 23" "3600000 * (r div 3600000) + 60000 * (r div 60000 mod 60) + 1000 * (r div 1000 mod 60) + r mod 1000 = r"
proof -
  show "r div 3600000 \<le> 23" using assms by simp
  have "r div 60000 = 60 * (r div 3600000) + r div 60000 mod 60"
    using div_mult2_eq [of r 60000 60] by simp
  moreover have "r div 1000 = 60 * (r div 60000) + r div 1000 mod 60"
    using div_mult2_eq [of r 1000 60] by simp
  moreover have "r = 1000 * (r div 1000) + r mod 1000" by simp
  ultimately show "3600000 * (r div 3600000) + 60000 * (r div 60000 mod 60) + 1000 * (r div 1000 mod 60) + r mod 1000 = r"
    by linarith
qed

text \<open>The time values whose year has four digits.\<close>

definition four_digit_time :: "int \<Rightarrow> bool" where
  "four_digit_time t = (0 \<le> t \<and> t < 253402300800000)"

lemma four_digit_year:
  assumes "four_digit_time t" "date_of_days (t div 86400000) = (y, mo, d)"
  shows "1970 \<le> y" "y \<le> 9999"
proof -
  let ?z = "t div 86400000"
  have z: "0 \<le> ?z" "?z < 2932897" using assms(1) by (auto simp: four_digit_time_def)
  obtain n k where s: "split_year 0 (nat (?z mod 146097)) = (n, k)" by (metis surj_pair)
  have y: "y = 1970 + 400 * (?z div 146097) + int n"
    using assms(2) s by (simp add: date_of_days_def Let_def split: prod.splits)
  have c: "0 \<le> ?z div 146097" using z by simp
  then show "1970 \<le> y" by (simp add: y)
  have lt: "nat (?z mod 146097) < 146097" by (simp add: nat_less_iff)
  have n: "n < 400" by (rule split_year_400 [OF s lt])
  show "y \<le> 9999"
  proof (cases "?z div 146097 \<le> 19")
    case True
    then show ?thesis using n by (simp add: y)
  next
    case False
    then have c20: "?z div 146097 = 20" using z by simp
    have "nat (?z mod 146097) < 10957"
      using z c20 by (simp add: nat_less_iff minus_div_mult_eq_mod [symmetric])
    then have "days_to_year n < days_to_year 30"
      using split_year_sum [OF s] by (simp add: days_to_year_30)
    then have "n < 30" using days_to_year_mono [of 30 n] by (meson leD leI)
    then show ?thesis by (simp add: y c20)
  qed
qed

lemma to_iso_time:
  assumes "four_digit_time t"
  shows "is_iso_timestamp (to_iso t)" "iso_ms (to_iso t) = Some t"
proof -
  obtain y mo d where dt: "date_of_days (t div 86400000) = (y, mo, d)" by (metis prod_cases3)
  define r where "r = nat (t mod 86400000)"
  have r: "r < 86400000" by (simp add: r_def nat_less_iff)
  have rt: "int r = t mod 86400000" by (simp add: r_def)
  note ds = date_of_days_days [OF dt]
  note ys = four_digit_year [OF assms dt]
  note tm = to_iso_tail [OF dt, folded r_def]
  have d100: "d < 100" using ds(5) by (auto simp: days_in_month_def split: if_splits)
  have small: "mo < 100" "d < 100" "r div 3600000 < 100" "r div 60000 mod 60 < 100" "r div 1000 mod 60 < 100"
    "r mod 1000 < 1000"
    using ds(3) d100 day_parts(1) [OF r] pos_mod_bound [of 60 "r div 60000"]
    by (simp_all add: less_le_trans [OF mod_less_divisor])
  note fields = iso_tail_fields [OF small]
  have year: "iso_year (to_iso t) = Some (y, iso_tail mo d (r div 3600000) (r div 60000 mod 60) (r div 1000 mod 60) (r mod 1000))"
    using iso_year_text ys by (simp add: tm)
  have m59: "r div 60000 mod 60 \<le> 59" "r div 1000 mod 60 \<le> 59"
    using mod_less_divisor [of 60 "r div 60000"] mod_less_divisor [of 60 "r div 1000"] by linarith+
  show iso: "is_iso_timestamp (to_iso t)"
    using ds ys day_parts(1) [OF r] m59 iso_tail_shape [OF small]
    by (simp add: is_iso_timestamp_def year fields Let_def del: One_nat_def)
  have "86400000 * days_of_date y mo d + 3600000 * int (r div 3600000) + 60000 * int (r div 60000 mod 60)
      + 1000 * int (r div 1000 mod 60) + int (r mod 1000) = 86400000 * (t div 86400000) + int r"
    using arg_cong [OF day_parts(2) [OF r], of int] by (simp add: ds(1))
  also have "\<dots> = t" by (simp add: rt)
  finally show "iso_ms (to_iso t) = Some t"
    using iso by (simp add: iso_ms_def year fields del: One_nat_def)
qed

end
