(* ===== verification/MailboxModel.thy ===== *)
theory MailboxModel
  imports IsoTime
begin

text \<open>
  The contract for persisted agent-mailbox records (\<open>nanoclaw/src/mailbox/model.ts\<close>): the strict
  readers of single properties, the parser of each record kind, and the functions that
  create the records a mailbox stores.  A parser returns the object it builds, with its
  properties in the order of the object literal; a \<open>throw\<close> is an \<open>Inl\<close> with the message.
  Objects are association lists in the order of \<open>Object.keys\<close>.
\<close>

type_synonym fields_of = "(string \<times> jsval) list"

definition bind_result :: "'a result \<Rightarrow> ('a \<Rightarrow> 'b result) \<Rightarrow> 'b result" where
  "bind_result r f = (case r of Inl e \<Rightarrow> Inl e | Inr x \<Rightarrow> f x)"

lemma bind_result_Inr [simp]: "bind_result (Inr x) f = f x" "bind_result (Inl e) f = Inl e"
  by (simp_all add: bind_result_def)

lemma bind_result_eq_Inr: "bind_result r f = Inr y \<longleftrightarrow> (\<exists>x. r = Inr x \<and> f x = Inr y)"
  by (cases r) auto

section \<open>Reading one property\<close>

definition has_key :: "fields_of \<Rightarrow> string \<Rightarrow> bool" where
  "has_key ps k = (k \<in> set (map fst ps))"

definition parseIsoTimestamp :: "jsval \<Rightarrow> jsval result" where
  "parseIsoTimestamp v =
     (case v of
        Str s \<Rightarrow> if is_iso_timestamp s then Inr v else Inl ''invalid ISO-8601 UTC timestamp''
      | _ \<Rightarrow> Inl ''invalid ISO-8601 UTC timestamp'')"

fun is_nested :: "jsval \<Rightarrow> bool" where
  "is_nested (Arr _) = True"
| "is_nested (Obj _) = True"
| "is_nested _ = False"

definition strictRecord :: "jsval \<Rightarrow> string \<Rightarrow> string list \<Rightarrow> fields_of result" where
  "strictRecord v name keys =
     (case v of
        Obj ps \<Rightarrow>
          (case filter (\<lambda>k. k \<notin> set keys) (map fst ps) of
             k # _ \<Rightarrow> Inl (''invalid '' @ name @ '': unknown field '' @ k)
           | [] \<Rightarrow>
               (case find (\<lambda>(_, f). is_nested f) ps of
                  Some (k, _) \<Rightarrow> Inl (''invalid '' @ name @ '': nested field '' @ k)
                | None \<Rightarrow> Inr ps))
      | _ \<Rightarrow> Inl (''invalid '' @ name @ '': expected object''))"

definition field_error :: "string \<Rightarrow> string \<Rightarrow> 'a result" where
  "field_error k what = Inl (''invalid mailbox field '' @ k @ '': '' @ what)"

definition text_field :: "fields_of \<Rightarrow> string \<Rightarrow> jsval result" where
  "text_field r k = (case prop_of r k of Str s \<Rightarrow> Inr (Str s) | _ \<Rightarrow> field_error k ''expected string'')"

definition nullableText :: "fields_of \<Rightarrow> string \<Rightarrow> jsval result" where
  "nullableText r k =
     (case prop_of r k of
        Null \<Rightarrow> Inr Null
      | Str s \<Rightarrow> Inr (Str s)
      | _ \<Rightarrow> field_error k ''expected string or null'')"

definition optionalNullableText :: "fields_of \<Rightarrow> string \<Rightarrow> jsval result" where
  "optionalNullableText r k =
     (if \<not> has_key r k then Inr Undefined
      else if prop_of r k = Undefined then Inr Undefined
      else nullableText r k)"

definition timestamp_field :: "fields_of \<Rightarrow> string \<Rightarrow> jsval result" where
  "timestamp_field r k =
     bind_result (text_field r k) (\<lambda>v.
       case parseIsoTimestamp v of
         Inl _ \<Rightarrow> field_error k ''expected ISO-8601 UTC timestamp''
       | Inr t \<Rightarrow> Inr t)"

definition nullableTimestamp :: "fields_of \<Rightarrow> string \<Rightarrow> jsval result" where
  "nullableTimestamp r k = (if prop_of r k = Null then Inr Null else timestamp_field r k)"

definition optionalNullableTimestamp :: "fields_of \<Rightarrow> string \<Rightarrow> jsval result" where
  "optionalNullableTimestamp r k =
     (if \<not> has_key r k \<or> prop_of r k = Undefined then Inr Undefined else nullableTimestamp r k)"

fun non_negative_safe :: "jsval \<Rightarrow> bool" where
  "non_negative_safe (Num n) = (is_safe_integer n \<and> \<not> n < Fin 0)"
| "non_negative_safe _ = False"

definition nonNegativeInteger :: "fields_of \<Rightarrow> string \<Rightarrow> jsval result" where
  "nonNegativeInteger r k =
     (if non_negative_safe (prop_of r k) then Inr (prop_of r k)
      else field_error k ''expected nonnegative integer'')"

definition nullableNonNegativeInteger :: "fields_of \<Rightarrow> string \<Rightarrow> jsval result" where
  "nullableNonNegativeInteger r k =
     (if prop_of r k = Null \<or> non_negative_safe (prop_of r k) then Inr (prop_of r k)
      else field_error k ''expected nonnegative integer or null'')"

definition booleanValue :: "fields_of \<Rightarrow> string \<Rightarrow> jsval result" where
  "booleanValue r k = (case prop_of r k of Bool b \<Rightarrow> Inr (Bool b) | _ \<Rightarrow> field_error k ''expected boolean'')"

definition optionalBoolean :: "fields_of \<Rightarrow> string \<Rightarrow> jsval result" where
  "optionalBoolean r k =
     (if \<not> has_key r k then Inr Undefined
      else case prop_of r k of
             Undefined \<Rightarrow> Inr Undefined
           | Bool b \<Rightarrow> Inr (Bool b)
           | _ \<Rightarrow> field_error k ''expected boolean'')"

definition oneOf :: "string list \<Rightarrow> fields_of \<Rightarrow> string \<Rightarrow> jsval result" where
  "oneOf values r k =
     (case prop_of r k of
        Str s \<Rightarrow> if s \<in> set values then Inr (Str s) else field_error k ''unexpected value''
      | _ \<Rightarrow> field_error k ''unexpected value'')"

section \<open>Object literals of property readers\<close>

text \<open>
  The object literals of the parsers: a property with its reader, or a property that is
  spread into the literal only when the record has the key.  Readers run in order and the
  first error is thrown.
\<close>

datatype field_reader =
    Field (reader_key: string) (reader: "fields_of \<Rightarrow> string \<Rightarrow> jsval result")
  | Spread (reader_key: string) (reader: "fields_of \<Rightarrow> string \<Rightarrow> jsval result")

fun object_literal :: "field_reader list \<Rightarrow> fields_of \<Rightarrow> fields_of result" where
  "object_literal [] r = Inr []"
| "object_literal (Field k f # fs) r =
     bind_result (f r k) (\<lambda>v. bind_result (object_literal fs r) (\<lambda>ps. Inr ((k, v) # ps)))"
| "object_literal (Spread k f # fs) r =
     (if has_key r k
      then bind_result (f r k) (\<lambda>v. bind_result (object_literal fs r) (\<lambda>ps. Inr ((k, v) # ps)))
      else object_literal fs r)"

definition parse_with :: "string \<Rightarrow> string list \<Rightarrow> field_reader list \<Rightarrow> jsval \<Rightarrow> jsval result" where
  "parse_with name keys fs v =
     bind_result (strictRecord v name keys) (\<lambda>r. bind_result (object_literal fs r) (\<lambda>ps. Inr (Obj ps)))"

section \<open>The parsers\<close>

definition INBOUND_KINDS :: "string list" where
  "INBOUND_KINDS = [''chat'', ''chat-sdk'', ''task'', ''webhook'', ''system'']"

definition inbound_write_fields :: "field_reader list" where
  "inbound_write_fields =
     [Field ''id'' text_field, Field ''kind'' (oneOf INBOUND_KINDS), Field ''timestamp'' timestamp_field,
      Field ''platformId'' nullableText, Field ''channelType'' nullableText, Field ''threadId'' nullableText,
      Field ''content'' text_field, Field ''processAfter'' nullableTimestamp, Field ''recurrence'' nullableText,
      Spread ''trigger'' optionalBoolean, Spread ''sourceSessionId'' optionalNullableText, Spread ''onWake'' optionalBoolean]"

definition parseInboundWrite :: "jsval \<Rightarrow> jsval result" where
  "parseInboundWrite = parse_with ''InboundWrite''
     [''id'', ''kind'', ''timestamp'', ''platformId'', ''channelType'', ''threadId'', ''content'', ''processAfter'',
      ''recurrence'', ''trigger'', ''sourceSessionId'', ''onWake''] inbound_write_fields"

definition inbound_record_fields :: "field_reader list" where
  "inbound_record_fields =
     [Field ''id'' text_field, Field ''sequence'' nullableNonNegativeInteger, Field ''kind'' (oneOf INBOUND_KINDS),
      Field ''timestamp'' timestamp_field,
      Field ''status'' (oneOf [''pending'', ''paused'', ''processing'', ''completed'', ''failed'', ''cancelled'']),
      Field ''processAfter'' nullableTimestamp, Field ''recurrence'' nullableText, Field ''seriesId'' nullableText,
      Field ''tries'' nonNegativeInteger, Field ''trigger'' booleanValue, Field ''platformId'' nullableText,
      Field ''channelType'' nullableText, Field ''threadId'' nullableText, Field ''content'' text_field,
      Field ''sourceSessionId'' nullableText, Field ''onWake'' booleanValue]"

definition parseInboundRecord :: "jsval \<Rightarrow> jsval result" where
  "parseInboundRecord = parse_with ''InboundRecord''
     [''id'', ''sequence'', ''kind'', ''timestamp'', ''status'', ''processAfter'', ''recurrence'', ''seriesId'', ''tries'',
      ''trigger'', ''platformId'', ''channelType'', ''threadId'', ''content'', ''sourceSessionId'', ''onWake'']
     inbound_record_fields"

definition outbound_write_fields :: "field_reader list" where
  "outbound_write_fields =
     [Field ''id'' text_field, Spread ''inReplyTo'' optionalNullableText, Spread ''deliverAfter'' optionalNullableTimestamp,
      Spread ''recurrence'' optionalNullableText, Field ''kind'' text_field, Spread ''platformId'' optionalNullableText,
      Spread ''channelType'' optionalNullableText, Spread ''threadId'' optionalNullableText, Field ''content'' text_field]"

definition parseOutboundWrite :: "jsval \<Rightarrow> jsval result" where
  "parseOutboundWrite = parse_with ''OutboundWrite''
     [''id'', ''inReplyTo'', ''deliverAfter'', ''recurrence'', ''kind'', ''platformId'', ''channelType'', ''threadId'', ''content'']
     outbound_write_fields"

definition direct_outbound_fields :: "field_reader list" where
  "direct_outbound_fields =
     [Field ''id'' text_field, Field ''kind'' text_field, Field ''platformId'' nullableText, Field ''channelType'' nullableText,
      Field ''threadId'' nullableText, Field ''content'' text_field]"

definition parseDirectOutboundWrite :: "jsval \<Rightarrow> jsval result" where
  "parseDirectOutboundWrite = parse_with ''DirectOutboundWrite''
     [''id'', ''kind'', ''platformId'', ''channelType'', ''threadId'', ''content''] direct_outbound_fields"

definition outbound_record_fields :: "field_reader list" where
  "outbound_record_fields =
     [Field ''id'' text_field, Field ''sequence'' nullableNonNegativeInteger, Field ''inReplyTo'' nullableText,
      Field ''timestamp'' timestamp_field, Field ''deliverAfter'' nullableTimestamp, Field ''recurrence'' nullableText,
      Field ''kind'' text_field, Field ''platformId'' nullableText, Field ''channelType'' nullableText,
      Field ''threadId'' nullableText, Field ''content'' text_field]"

definition parseOutboundRecord :: "jsval \<Rightarrow> jsval result" where
  "parseOutboundRecord = parse_with ''OutboundRecord''
     [''id'', ''sequence'', ''inReplyTo'', ''timestamp'', ''deliverAfter'', ''recurrence'', ''kind'', ''platformId'', ''channelType'',
      ''threadId'', ''content''] outbound_record_fields"

definition outbound_delivery_fields :: "field_reader list" where
  "outbound_delivery_fields =
     [Field ''id'' text_field, Field ''kind'' text_field, Field ''platformId'' nullableText, Field ''channelType'' nullableText,
      Field ''threadId'' nullableText, Field ''content'' text_field, Field ''inReplyTo'' nullableText]"

definition parseOutboundDelivery :: "jsval \<Rightarrow> jsval result" where
  "parseOutboundDelivery = parse_with ''OutboundDelivery''
     [''id'', ''kind'', ''platformId'', ''channelType'', ''threadId'', ''content'', ''inReplyTo''] outbound_delivery_fields"

definition parseProcessingAckRecord :: "jsval \<Rightarrow> jsval result" where
  "parseProcessingAckRecord = parse_with ''ProcessingAckRecord'' [''messageId'', ''status'', ''statusChanged'']
     [Field ''messageId'' text_field,
      Field ''status'' (oneOf [''processing'', ''completed'', ''failed'', ''script-skip:error'']),
      Field ''statusChanged'' timestamp_field]"

definition parseDeliveryRecord :: "jsval \<Rightarrow> jsval result" where
  "parseDeliveryRecord = parse_with ''DeliveryRecord'' [''messageOutId'', ''platformMessageId'', ''status'', ''deliveredAt'']
     [Field ''messageOutId'' text_field, Field ''platformMessageId'' nullableText,
      Field ''status'' (oneOf [''delivered'', ''failed'']), Field ''deliveredAt'' timestamp_field]"

text \<open>The destination's properties in the order they are read, and the routing rule for its type.\<close>

definition destination_fields :: "field_reader list" where
  "destination_fields =
     [Field ''name'' text_field, Field ''displayName'' nullableText, Field ''type'' (oneOf [''channel'', ''agent'']),
      Field ''channelType'' nullableText, Field ''platformId'' nullableText, Field ''agentGroupId'' nullableText]"

definition destination_routing :: "fields_of \<Rightarrow> fields_of result" where
  "destination_routing ps =
     (if prop_of ps ''type'' = Str ''channel''
      then (if prop_of ps ''channelType'' = Null \<or> prop_of ps ''platformId'' = Null \<or> prop_of ps ''agentGroupId'' \<noteq> Null
            then Inl ''invalid DestinationRecord: channel routing fields'' else Inr ps)
      else (if prop_of ps ''channelType'' \<noteq> Null \<or> prop_of ps ''platformId'' \<noteq> Null \<or> prop_of ps ''agentGroupId'' = Null
            then Inl ''invalid DestinationRecord: agent routing fields'' else Inr ps))"

definition parseDestinationRecord :: "jsval \<Rightarrow> jsval result" where
  "parseDestinationRecord v =
     bind_result (strictRecord v ''DestinationRecord''
         [''name'', ''displayName'', ''type'', ''channelType'', ''platformId'', ''agentGroupId'']) (\<lambda>r.
       bind_result (object_literal destination_fields r) (\<lambda>ps.
         bind_result (destination_routing ps) (\<lambda>qs. Inr (Obj qs))))"

definition parseSessionRoutingRecord :: "jsval \<Rightarrow> jsval result" where
  "parseSessionRoutingRecord = parse_with ''SessionRoutingRecord'' [''channelType'', ''platformId'', ''threadId'']
     [Field ''channelType'' nullableText, Field ''platformId'' nullableText, Field ''threadId'' nullableText]"

definition parseStateRecord :: "jsval \<Rightarrow> jsval result" where
  "parseStateRecord = parse_with ''StateRecord'' [''key'', ''value'', ''updatedAt'']
     [Field ''key'' text_field, Field ''value'' text_field, Field ''updatedAt'' timestamp_field]"

definition parseContainerRecord :: "jsval \<Rightarrow> jsval result" where
  "parseContainerRecord = parse_with ''ContainerRecord''
     [''currentTool'', ''toolDeclaredTimeoutMs'', ''toolStartedAt'', ''updatedAt'']
     [Field ''currentTool'' nullableText, Field ''toolDeclaredTimeoutMs'' nullableNonNegativeInteger,
      Field ''toolStartedAt'' nullableTimestamp, Field ''updatedAt'' timestamp_field]"

definition parseTaskRecord :: "jsval \<Rightarrow> jsval result" where
  "parseTaskRecord = parse_with ''TaskRecord''
     [''id'', ''seriesId'', ''status'', ''processAfter'', ''recurrence'', ''content'', ''timestamp'', ''tries'', ''sequence'']
     [Field ''id'' text_field, Field ''seriesId'' nullableText,
      Field ''status'' (oneOf [''pending'', ''paused'', ''completed'', ''failed'', ''cancelled'']),
      Field ''processAfter'' nullableTimestamp, Field ''recurrence'' nullableText, Field ''content'' text_field,
      Field ''timestamp'' timestamp_field, Field ''tries'' nonNegativeInteger, Field ''sequence'' nonNegativeInteger]"

definition task_write_fields :: "field_reader list" where
  "task_write_fields =
     [Field ''id'' text_field, Field ''seriesId'' text_field, Field ''processAfter'' nullableTimestamp,
      Field ''recurrence'' nullableText, Field ''content'' text_field, Spread ''status'' (oneOf [''pending'', ''paused''])]"

definition parseTaskWrite :: "jsval \<Rightarrow> jsval result" where
  "parseTaskWrite = parse_with ''TaskWrite''
     [''id'', ''seriesId'', ''processAfter'', ''recurrence'', ''content'', ''status''] task_write_fields"

section \<open>Creating records\<close>

text \<open>\<open>a ?? b\<close>\<close>

definition nullish_or :: "jsval \<Rightarrow> jsval \<Rightarrow> jsval" where
  "nullish_or a b = (if a = Undefined \<or> a = Null then b else a)"

text \<open>\<open>{...input, k: v, \<dots>}\<close>: a spread, then properties that replace or are appended.\<close>

definition override :: "fields_of \<Rightarrow> fields_of \<Rightarrow> fields_of" where
  "override ps qs = fold (\<lambda>(k, v). AList.update k v) qs ps"

definition createInboundRecord :: "jsval \<Rightarrow> jsval \<Rightarrow> jsval result" where
  "createInboundRecord message seq =
     bind_result (parseInboundWrite message) (\<lambda>input.
       parseInboundRecord (case input of
         Obj ps \<Rightarrow> Obj (override ps
           [(''sequence'', seq), (''status'', Str ''pending''), (''seriesId'', get_prop input ''id''),
            (''tries'', Num (Fin 0)), (''trigger'', nullish_or (get_prop input ''trigger'') (Bool True)),
            (''sourceSessionId'', nullish_or (get_prop input ''sourceSessionId'') Null),
            (''onWake'', nullish_or (get_prop input ''onWake'') (Bool False))])
       | v \<Rightarrow> v))"

definition createTaskInboundRecord :: "jsval \<Rightarrow> jsval \<Rightarrow> jsval \<Rightarrow> jsval result" where
  "createTaskInboundRecord task seq timestamp =
     bind_result (parseTaskWrite task) (\<lambda>input.
       parseInboundRecord (Obj
         [(''id'', get_prop input ''id''), (''sequence'', seq), (''kind'', Str ''task''), (''timestamp'', timestamp),
          (''status'', nullish_or (get_prop input ''status'') (Str ''pending'')),
          (''processAfter'', get_prop input ''processAfter''), (''recurrence'', get_prop input ''recurrence''),
          (''seriesId'', get_prop input ''seriesId''), (''tries'', Num (Fin 0)), (''trigger'', Bool True),
          (''platformId'', Null), (''channelType'', Null), (''threadId'', Null), (''content'', get_prop input ''content''),
          (''sourceSessionId'', Null), (''onWake'', Bool False)]))"

definition createOutboundRecord :: "jsval \<Rightarrow> jsval \<Rightarrow> jsval \<Rightarrow> jsval result" where
  "createOutboundRecord message seq timestamp =
     bind_result (parseOutboundWrite message) (\<lambda>input.
       parseOutboundRecord (Obj
         [(''id'', get_prop input ''id''), (''sequence'', seq),
          (''inReplyTo'', nullish_or (get_prop input ''inReplyTo'') Null), (''timestamp'', timestamp),
          (''deliverAfter'', nullish_or (get_prop input ''deliverAfter'') Null),
          (''recurrence'', nullish_or (get_prop input ''recurrence'') Null), (''kind'', get_prop input ''kind''),
          (''platformId'', nullish_or (get_prop input ''platformId'') Null),
          (''channelType'', nullish_or (get_prop input ''channelType'') Null),
          (''threadId'', nullish_or (get_prop input ''threadId'') Null), (''content'', get_prop input ''content'')]))"

definition createDirectOutboundRecord :: "jsval \<Rightarrow> jsval \<Rightarrow> jsval \<Rightarrow> jsval result" where
  "createDirectOutboundRecord message seq timestamp =
     bind_result (parseDirectOutboundWrite message) (\<lambda>input. createOutboundRecord input seq timestamp)"

definition outboundDelivery :: "jsval \<Rightarrow> jsval result" where
  "outboundDelivery rec =
     bind_result (parseOutboundRecord rec) (\<lambda>input.
       parseOutboundDelivery (Obj
         [(''id'', get_prop input ''id''), (''kind'', get_prop input ''kind''), (''platformId'', get_prop input ''platformId''),
          (''channelType'', get_prop input ''channelType''), (''threadId'', get_prop input ''threadId''),
          (''content'', get_prop input ''content''), (''inReplyTo'', get_prop input ''inReplyTo'')]))"

datatype record_kind =
  KInbound | KOutbound | KProcessingAck | KDelivery | KDestination | KSessionRouting | KState | KContainer

fun parseMailboxRecord :: "record_kind \<Rightarrow> jsval \<Rightarrow> jsval result" where
  "parseMailboxRecord KInbound v = parseInboundRecord v"
| "parseMailboxRecord KOutbound v = parseOutboundRecord v"
| "parseMailboxRecord KProcessingAck v = parseProcessingAckRecord v"
| "parseMailboxRecord KDelivery v = parseDeliveryRecord v"
| "parseMailboxRecord KDestination v = parseDestinationRecord v"
| "parseMailboxRecord KSessionRouting v = parseSessionRoutingRecord v"
| "parseMailboxRecord KState v = parseStateRecord v"
| "parseMailboxRecord KContainer v = parseContainerRecord v"

text \<open>What each reader accepts: it returns the value of the property, of its type.\<close>

lemma no_key: "\<not> has_key r k \<Longrightarrow> prop_of r k = Undefined"
  by (auto simp: has_key_def prop_of_def map_of_eq_None_iff [symmetric])

lemma text_iff: "text_field r k = Inr v \<longleftrightarrow> prop_of r k = v \<and> (\<exists>s. v = Str s)"
  by (cases "prop_of r k") (auto simp: text_field_def field_error_def)

lemma nullableText_iff: "nullableText r k = Inr v \<longleftrightarrow> prop_of r k = v \<and> (v = Null \<or> (\<exists>s. v = Str s))"
  by (cases "prop_of r k") (auto simp: nullableText_def field_error_def)

lemma optionalNullableText_iff:
  "optionalNullableText r k = Inr v \<longleftrightarrow> prop_of r k = v \<and> (v = Undefined \<or> v = Null \<or> (\<exists>s. v = Str s))"
  using no_key [of r k] by (auto simp: optionalNullableText_def nullableText_iff)

lemma timestamp_iff: "timestamp_field r k = Inr v \<longleftrightarrow> prop_of r k = v \<and> (\<exists>s. v = Str s \<and> is_iso_timestamp s)"
  by (cases "prop_of r k") (auto simp: timestamp_field_def text_field_def parseIsoTimestamp_def field_error_def)

lemma nullableTimestamp_iff:
  "nullableTimestamp r k = Inr v \<longleftrightarrow> prop_of r k = v \<and> (v = Null \<or> (\<exists>s. v = Str s \<and> is_iso_timestamp s))"
  by (auto simp: nullableTimestamp_def timestamp_iff)

lemma optionalNullableTimestamp_iff:
  "optionalNullableTimestamp r k = Inr v \<longleftrightarrow>
     prop_of r k = v \<and> (v = Undefined \<or> v = Null \<or> (\<exists>s. v = Str s \<and> is_iso_timestamp s))"
  using no_key [of r k] by (auto simp: optionalNullableTimestamp_def nullableTimestamp_iff)

lemma integer_iff: "nonNegativeInteger r k = Inr v \<longleftrightarrow> prop_of r k = v \<and> non_negative_safe v"
  by (auto simp: nonNegativeInteger_def field_error_def)

lemma nullable_integer_iff:
  "nullableNonNegativeInteger r k = Inr v \<longleftrightarrow> prop_of r k = v \<and> (v = Null \<or> non_negative_safe v)"
  by (auto simp: nullableNonNegativeInteger_def field_error_def)

lemma boolean_iff: "booleanValue r k = Inr v \<longleftrightarrow> prop_of r k = v \<and> (\<exists>b. v = Bool b)"
  by (cases "prop_of r k") (auto simp: booleanValue_def field_error_def)

lemma optionalBoolean_iff: "optionalBoolean r k = Inr v \<longleftrightarrow> prop_of r k = v \<and> (v = Undefined \<or> (\<exists>b. v = Bool b))"
  using no_key [of r k] by (cases "prop_of r k") (auto simp: optionalBoolean_def field_error_def)

lemma oneOf_iff: "oneOf values r k = Inr v \<longleftrightarrow> prop_of r k = v \<and> (\<exists>s\<in>set values. v = Str s)"
  by (cases "prop_of r k") (auto simp: oneOf_def field_error_def)

lemmas reader_iffs = text_iff nullableText_iff optionalNullableText_iff timestamp_iff nullableTimestamp_iff
  optionalNullableTimestamp_iff integer_iff nullable_integer_iff boolean_iff optionalBoolean_iff oneOf_iff

lemma reader_types:
  "text_field r k = Inr v \<Longrightarrow> \<exists>s. v = Str s"
  "oneOf values r k = Inr v \<Longrightarrow> \<exists>s\<in>set values. v = Str s"
  "timestamp_field r k = Inr v \<Longrightarrow> \<exists>s. v = Str s \<and> is_iso_timestamp s"
  "nullableText r k = Inr v \<Longrightarrow> v = Null \<or> (\<exists>s. v = Str s)"
  "nullableTimestamp r k = Inr v \<Longrightarrow> v = Null \<or> (\<exists>s. v = Str s \<and> is_iso_timestamp s)"
  "v = Undefined \<or> optionalBoolean r k = Inr v \<Longrightarrow> v = Undefined \<or> (\<exists>b. v = Bool b)"
  "v = Undefined \<or> optionalNullableText r k = Inr v \<Longrightarrow> v = Undefined \<or> v = Null \<or> (\<exists>s. v = Str s)"
  by (simp_all add: reader_iffs) blast+

text \<open>A reader is stable when it returns the property's own value, never a nested one, and returns it
  from every record that has it.\<close>

definition stable :: "(fields_of \<Rightarrow> string \<Rightarrow> jsval result) \<Rightarrow> bool" where
  "stable f = (\<exists>P. (\<forall>v. P v \<longrightarrow> \<not> is_nested v) \<and> (\<forall>r k v. f r k = Inr v \<longleftrightarrow> prop_of r k = v \<and> P v))"

lemma non_negative_safe_flat: "non_negative_safe v \<Longrightarrow> \<not> is_nested v"
  by (cases v) auto

lemma stableI:
  "(\<And>v. P v \<Longrightarrow> \<not> is_nested v) \<Longrightarrow> (\<And>r k v. f r k = Inr v \<longleftrightarrow> prop_of r k = v \<and> P v) \<Longrightarrow> stable f"
  unfolding stable_def by blast

lemma stable_readers:
  "stable text_field"
  "stable nullableText"
  "stable optionalNullableText"
  "stable timestamp_field"
  "stable nullableTimestamp"
  "stable optionalNullableTimestamp"
  "stable nonNegativeInteger"
  "stable nullableNonNegativeInteger"
  "stable booleanValue"
  "stable optionalBoolean"
  "stable (oneOf values)"
proof -
  show "stable text_field" by (rule stableI [OF _ text_iff]) (auto simp: non_negative_safe_flat)
  show "stable nullableText" by (rule stableI [OF _ nullableText_iff]) (auto simp: non_negative_safe_flat)
  show "stable optionalNullableText" by (rule stableI [OF _ optionalNullableText_iff]) (auto simp: non_negative_safe_flat)
  show "stable timestamp_field" by (rule stableI [OF _ timestamp_iff]) (auto simp: non_negative_safe_flat)
  show "stable nullableTimestamp" by (rule stableI [OF _ nullableTimestamp_iff]) (auto simp: non_negative_safe_flat)
  show "stable optionalNullableTimestamp" by (rule stableI [OF _ optionalNullableTimestamp_iff]) (auto simp: non_negative_safe_flat)
  show "stable nonNegativeInteger" by (rule stableI [OF _ integer_iff]) (auto simp: non_negative_safe_flat)
  show "stable nullableNonNegativeInteger" by (rule stableI [OF _ nullable_integer_iff]) (auto simp: non_negative_safe_flat)
  show "stable booleanValue" by (rule stableI [OF _ boolean_iff]) (auto simp: non_negative_safe_flat)
  show "stable optionalBoolean" by (rule stableI [OF _ optionalBoolean_iff]) (auto simp: non_negative_safe_flat)
  show "stable (oneOf values)" by (rule stableI [OF _ oneOf_iff]) (auto simp: non_negative_safe_flat)
qed

lemma stableD:
  assumes "stable f" "f r k = Inr v"
  shows "\<not> is_nested v" "prop_of r' k = v \<Longrightarrow> f r' k = Inr v"
  using assms unfolding stable_def by blast+

lemma prop_of_Cons: "prop_of ((k, v) # ps) j = (if j = k then v else prop_of ps j)"
  by (simp add: prop_of_def)

lemma has_key_Cons: "has_key ((k, v) # ps) j \<longleftrightarrow> j = k \<or> has_key ps j"
  by (auto simp: has_key_def)

lemma has_key_Nil [simp]: "\<not> has_key [] j"
  by (simp add: has_key_def)

lemma literal_ConsE:
  assumes "object_literal (fr # fs) r = Inr ps"
  obtains (there) v qs where "reader fr r (reader_key fr) = Inr v" "object_literal fs r = Inr qs" "ps = (reader_key fr, v) # qs"
    | (skipped) "\<not> has_key r (reader_key fr)" "object_literal fs r = Inr ps" "fr = Spread (reader_key fr) (reader fr)"
  using assms by (cases fr) (auto simp: bind_result_eq_Inr split: if_splits)

lemma literal_keys:
  "object_literal fs r = Inr ps \<Longrightarrow> set (map fst ps) \<subseteq> set (map reader_key fs)"
proof (induction fs arbitrary: ps)
  case (Cons fr fs)
  from Cons.prems show ?case by (cases rule: literal_ConsE) (use Cons.IH in auto)
qed simp

lemma literal_flat:
  "object_literal fs r = Inr ps \<Longrightarrow> \<forall>f\<in>set fs. stable (reader f) \<Longrightarrow> \<forall>(k, v)\<in>set ps. \<not> is_nested v"
proof (induction fs arbitrary: ps)
  case (Cons fr fs)
  from Cons.prems(1) show ?case
  proof (cases rule: literal_ConsE)
    case (there v qs)
    with Cons.IH [OF there(2)] Cons.prems(2) stableD(1) [of "reader fr" r "reader_key fr" v] show ?thesis by simp
  next
    case skipped
    with Cons.IH [OF skipped(2)] Cons.prems(2) show ?thesis by simp
  qed
qed simp

text \<open>Reading the literal again, from any record that agrees with it on its own keys, gives it back.\<close>

lemma literal_again:
  assumes "object_literal fs r = Inr ps" "distinct (map reader_key fs)" "\<forall>f\<in>set fs. stable (reader f)"
    and "\<forall>f\<in>set fs. prop_of r' (reader_key f) = prop_of ps (reader_key f)
           \<and> (has_key r' (reader_key f) \<longleftrightarrow> has_key ps (reader_key f))"
  shows "object_literal fs r' = Inr ps"
  using assms
proof (induction fs r arbitrary: ps rule: object_literal.induct)
  case (1 r)
  then show ?case by simp
next
  case (2 k f fs r)
  then obtain v qs where v: "f r k = Inr v" "object_literal fs r = Inr qs" "ps = (k, v) # qs"
    by (auto simp: bind_result_eq_Inr)
  have "f r' k = Inr v"
    using 2(4,5) v stableD(2) [of f r k v r'] by (simp add: prop_of_Cons)
  moreover have "object_literal fs r' = Inr qs"
    by (rule "2.IH" [OF v(2)]) (use 2(3-5) v(3) in \<open>auto simp: prop_of_Cons has_key_Cons\<close>)
  ultimately show ?case by (simp add: v)
next
  case (3 k f fs r)
  show ?case
  proof (cases "has_key r k")
    case True
    with 3 obtain v qs where v: "f r k = Inr v" "object_literal fs r = Inr qs" "ps = (k, v) # qs"
      by (auto simp: bind_result_eq_Inr)
    have "f r' k = Inr v" "has_key r' k"
      using 3(5,6) v stableD(2) [of f r k v r'] by (simp_all add: prop_of_Cons has_key_Cons)
    moreover have "object_literal fs r' = Inr qs"
      by (rule "3.IH"(1) [OF True v(2)]) (use 3(4-6) v(3) in \<open>auto simp: prop_of_Cons has_key_Cons\<close>)
    ultimately show ?thesis by (simp add: v)
  next
    case False
    with 3 have ps: "object_literal fs r = Inr ps" by simp
    with literal_keys [OF ps] 3(4,6) have "\<not> has_key r' k" by (auto simp: has_key_def)
    moreover have "object_literal fs r' = Inr ps"
      by (rule "3.IH"(2) [OF False ps]) (use 3(4-6) in auto)
    ultimately show ?thesis by simp
  qed
qed

lemma strictRecord_Inr:
  "strictRecord v name keys = Inr r \<longleftrightarrow>
     v = Obj r \<and> set (map fst r) \<subseteq> set keys \<and> (\<forall>(k, f)\<in>set r. \<not> is_nested f)"
proof (cases v)
  case (Obj ps)
  have "filter (\<lambda>k. k \<notin> set keys) (map fst ps) = [] \<longleftrightarrow> set (map fst ps) \<subseteq> set keys"
    by (auto simp: filter_empty_conv)
  moreover have "find (\<lambda>(_, f). is_nested f) ps = None \<longleftrightarrow> (\<forall>(k, f)\<in>set ps. \<not> is_nested f)"
    by (auto simp: find_None_iff)
  ultimately show ?thesis
    using Obj by (auto simp: strictRecord_def split: list.splits option.splits)
qed (auto simp: strictRecord_def)

lemma parse_with_Inr:
  assumes "parse_with name keys fs v = Inr r"
  obtains ps qs where "v = Obj ps" "r = Obj qs" "object_literal fs ps = Inr qs"
    "set (map fst ps) \<subseteq> set keys" "\<forall>(k, f)\<in>set ps. \<not> is_nested f"
  using assms by (auto simp: parse_with_def bind_result_eq_Inr strictRecord_Inr)

lemma parse_with_again:
  assumes "parse_with name keys fs v = Inr r"
    and "distinct (map reader_key fs)" "\<forall>f\<in>set fs. stable (reader f)" "set (map reader_key fs) \<subseteq> set keys"
  shows "parse_with name keys fs r = Inr r"
proof (rule parse_with_Inr [OF assms(1)])
  fix ps qs assume *: "v = Obj ps" "r = Obj qs" "object_literal fs ps = Inr qs"
  have "object_literal fs qs = Inr qs" by (rule literal_again [OF *(3) assms(2,3)]) simp
  moreover have "strictRecord (Obj qs) name keys = Inr qs"
    using literal_keys [OF *(3)] literal_flat [OF *(3) assms(3)] assms(4) by (simp add: strictRecord_Inr)
  ultimately show ?thesis by (simp add: parse_with_def *)
qed


text \<open>Every parser of a record kind is of this form; its properties are listed once each.\<close>

lemmas parser_defs = parseInboundWrite_def parseInboundRecord_def parseOutboundWrite_def parseDirectOutboundWrite_def
  parseOutboundRecord_def parseOutboundDelivery_def parseProcessingAckRecord_def parseDeliveryRecord_def
  parseSessionRoutingRecord_def parseStateRecord_def parseContainerRecord_def parseTaskRecord_def parseTaskWrite_def

lemmas field_list_defs = inbound_write_fields_def inbound_record_fields_def outbound_write_fields_def
  direct_outbound_fields_def outbound_record_fields_def outbound_delivery_fields_def destination_fields_def
  task_write_fields_def

lemma parsers_again:
  "parseInboundWrite v = Inr r \<Longrightarrow> parseInboundWrite r = Inr r"
  "parseInboundRecord v = Inr r \<Longrightarrow> parseInboundRecord r = Inr r"
  "parseOutboundWrite v = Inr r \<Longrightarrow> parseOutboundWrite r = Inr r"
  "parseDirectOutboundWrite v = Inr r \<Longrightarrow> parseDirectOutboundWrite r = Inr r"
  "parseOutboundRecord v = Inr r \<Longrightarrow> parseOutboundRecord r = Inr r"
  "parseOutboundDelivery v = Inr r \<Longrightarrow> parseOutboundDelivery r = Inr r"
  "parseProcessingAckRecord v = Inr r \<Longrightarrow> parseProcessingAckRecord r = Inr r"
  "parseDeliveryRecord v = Inr r \<Longrightarrow> parseDeliveryRecord r = Inr r"
  "parseSessionRoutingRecord v = Inr r \<Longrightarrow> parseSessionRoutingRecord r = Inr r"
  "parseStateRecord v = Inr r \<Longrightarrow> parseStateRecord r = Inr r"
  "parseContainerRecord v = Inr r \<Longrightarrow> parseContainerRecord r = Inr r"
  "parseTaskRecord v = Inr r \<Longrightarrow> parseTaskRecord r = Inr r"
  "parseTaskWrite v = Inr r \<Longrightarrow> parseTaskWrite r = Inr r"
  unfolding parser_defs
  by (erule parse_with_again; simp add: field_list_defs stable_readers)+

lemma parseDestination_again:
  assumes "parseDestinationRecord v = Inr r"
  shows "parseDestinationRecord r = Inr r"
proof -
  from assms obtain ps qs where *: "object_literal destination_fields ps = Inr qs" "destination_routing qs = Inr qs" "r = Obj qs"
    by (auto simp: parseDestinationRecord_def bind_result_eq_Inr destination_routing_def split: if_splits)
  have st: "\<forall>f\<in>set destination_fields. stable (reader f)" "distinct (map reader_key destination_fields)"
    by (simp_all add: destination_fields_def stable_readers)
  have "object_literal destination_fields qs = Inr qs" by (rule literal_again [OF *(1) st(2,1)]) simp
  moreover have "set (map fst qs) \<subseteq> set [''name'', ''displayName'', ''type'', ''channelType'', ''platformId'', ''agentGroupId'']"
    using literal_keys [OF *(1)] by (simp add: destination_fields_def)
  ultimately show ?thesis
    using literal_flat [OF *(1) st(1)] *(2,3)
      strictRecord_Inr [of "Obj qs" _ "[''name'', ''displayName'', ''type'', ''channelType'', ''platformId'', ''agentGroupId'']" qs]
    by (simp add: parseDestinationRecord_def)
qed

section \<open>What a created record holds\<close>

lemma prop_of_update [simp]: "prop_of (AList.update k v ps) j = (if j = k then v else prop_of ps j)"
  by (simp add: prop_of_def update_conv)

lemma flat_update:
  "\<forall>(k, f)\<in>set ps. \<not> is_nested f \<Longrightarrow> \<not> is_nested v \<Longrightarrow> \<forall>(k, f)\<in>set (AList.update j v ps). \<not> is_nested f"
  by (induction ps) auto

lemma literal_defined:
  "\<forall>fr\<in>set fs. \<exists>v. reader fr r (reader_key fr) = Inr v \<Longrightarrow> \<exists>ps. object_literal fs r = Inr ps"
proof (induction fs)
  case (Cons fr fs)
  then show ?case by (cases fr) auto
qed simp

lemma literal_value:
  assumes "object_literal fs r = Inr ps" "distinct (map reader_key fs)" "Field k f \<in> set fs"
  shows "f r k = Inr (prop_of ps k)"
  using assms
proof (induction fs arbitrary: ps)
  case (Cons fr fs)
  from Cons.prems(1) show ?case
  proof (cases rule: literal_ConsE)
    case (there v qs)
    show ?thesis
    proof (cases "Field k f = fr")
      case True
      with there show ?thesis by (auto simp: prop_of_Cons)
    next
      case False
      with Cons.prems have f: "Field k f \<in> set fs" "reader_key fr \<noteq> k" by (auto simp: image_iff)
      with Cons.IH [OF there(2)] Cons.prems(2) there(3) show ?thesis by (simp add: prop_of_Cons)
    qed
  next
    case skipped
    then have "Field k f \<noteq> fr" by (cases fr) auto
    with Cons.IH [OF skipped(2)] Cons.prems show ?thesis by simp
  qed
qed simp

lemma literal_spread:
  assumes "object_literal fs r = Inr ps" "distinct (map reader_key fs)" "Spread k f \<in> set fs"
  shows "prop_of ps k = Undefined \<or> f r k = Inr (prop_of ps k)"
  using assms
proof (induction fs arbitrary: ps)
  case (Cons fr fs)
  have other: "k \<notin> set (map reader_key fs) \<Longrightarrow> object_literal fs r = Inr qs \<Longrightarrow> prop_of qs k = Undefined" for qs
    using literal_keys [of fs r qs] by (intro no_key) (auto simp: has_key_def)
  from Cons.prems(1) show ?case
  proof (cases rule: literal_ConsE)
    case (there v qs)
    show ?thesis
    proof (cases "Spread k f = fr")
      case True
      with there show ?thesis by (auto simp: prop_of_Cons)
    next
      case False
      with Cons.prems have f: "Spread k f \<in> set fs" "reader_key fr \<noteq> k" by (auto simp: image_iff)
      with Cons.IH [OF there(2)] Cons.prems(2) there(3) show ?thesis by (simp add: prop_of_Cons)
    qed
  next
    case skipped
    show ?thesis
    proof (cases "Spread k f = fr")
      case True
      with other [OF _ skipped(2)] Cons.prems(2) show ?thesis by auto
    next
      case False
      with Cons.IH [OF skipped(2)] Cons.prems show ?thesis by simp
    qed
  qed
qed simp

lemma parse_with_ok:
  assumes "set (map fst r) \<subseteq> set keys" "\<forall>(k, f)\<in>set r. \<not> is_nested f"
    and "\<forall>fr\<in>set fs. \<exists>v. reader fr r (reader_key fr) = Inr v" "distinct (map reader_key fs)"
  obtains qs where "parse_with name keys fs (Obj r) = Inr (Obj qs)"
    "\<forall>k f. Field k f \<in> set fs \<longrightarrow> f r k = Inr (prop_of qs k)"
proof -
  obtain qs where qs: "object_literal fs r = Inr qs" using literal_defined [OF assms(3)] by blast
  moreover have "strictRecord (Obj r) name keys = Inr r" using assms(1,2) by (simp add: strictRecord_Inr)
  ultimately show thesis
    using literal_value [OF qs assms(4)] by (intro that [of qs]) (simp_all add: parse_with_def)
qed


lemma keys_update: "fst ` set (AList.update k v ps) = insert k (fst ` set ps)"
  by (induction ps) auto

lemma inbound_write_parsed:
  assumes "parseInboundWrite m = Inr w"
  obtains qs where "w = Obj qs" "fst ` set qs \<subseteq> set (map reader_key inbound_write_fields)" "\<forall>(k, v)\<in>set qs. \<not> is_nested v"
    "\<exists>s. prop_of qs ''id'' = Str s" "\<exists>s\<in>set INBOUND_KINDS. prop_of qs ''kind'' = Str s"
    "\<exists>s. prop_of qs ''timestamp'' = Str s \<and> is_iso_timestamp s"
    "\<forall>k\<in>{''platformId'', ''channelType'', ''threadId'', ''recurrence''}. prop_of qs k = Null \<or> (\<exists>s. prop_of qs k = Str s)"
    "\<exists>s. prop_of qs ''content'' = Str s"
    "prop_of qs ''processAfter'' = Null \<or> (\<exists>s. prop_of qs ''processAfter'' = Str s \<and> is_iso_timestamp s)"
    "\<forall>k\<in>{''trigger'', ''onWake''}. prop_of qs k = Undefined \<or> (\<exists>b. prop_of qs k = Bool b)"
    "prop_of qs ''sourceSessionId'' = Undefined \<or> prop_of qs ''sourceSessionId'' = Null
       \<or> (\<exists>s. prop_of qs ''sourceSessionId'' = Str s)"
proof -
  from assms obtain ps qs where w: "w = Obj qs" and lit: "object_literal inbound_write_fields ps = Inr qs"
    unfolding parser_defs by (rule parse_with_Inr)
  have d: "distinct (map reader_key inbound_write_fields)" "\<forall>f\<in>set inbound_write_fields. stable (reader f)"
    by (simp_all add: inbound_write_fields_def stable_readers)
  note v = literal_value [OF lit d(1)] and sp = literal_spread [OF lit d(1)]
  have "text_field ps ''id'' = Inr (prop_of qs ''id'')" "oneOf INBOUND_KINDS ps ''kind'' = Inr (prop_of qs ''kind'')"
    "timestamp_field ps ''timestamp'' = Inr (prop_of qs ''timestamp'')" "nullableText ps ''platformId'' = Inr (prop_of qs ''platformId'')"
    "nullableText ps ''channelType'' = Inr (prop_of qs ''channelType'')" "nullableText ps ''threadId'' = Inr (prop_of qs ''threadId'')"
    "nullableText ps ''recurrence'' = Inr (prop_of qs ''recurrence'')" "text_field ps ''content'' = Inr (prop_of qs ''content'')"
    "nullableTimestamp ps ''processAfter'' = Inr (prop_of qs ''processAfter'')"
    by (rule v, simp add: inbound_write_fields_def)+
  note t = this(1,8) [THEN reader_types(1)] this(2) [THEN reader_types(2)] this(3) [THEN reader_types(3)]
    this(4-7) [THEN reader_types(4)] this(9) [THEN reader_types(5)]
  have "prop_of qs ''trigger'' = Undefined \<or> optionalBoolean ps ''trigger'' = Inr (prop_of qs ''trigger'')"
    "prop_of qs ''onWake'' = Undefined \<or> optionalBoolean ps ''onWake'' = Inr (prop_of qs ''onWake'')"
    "prop_of qs ''sourceSessionId'' = Undefined \<or> optionalNullableText ps ''sourceSessionId'' = Inr (prop_of qs ''sourceSessionId'')"
    by (rule sp, simp add: inbound_write_fields_def)+
  note o = this(1,2) [THEN reader_types(6)] this(3) [THEN reader_types(7)]
  show thesis
    by (rule that [OF w _ literal_flat [OF lit d(2)] _ _ _ _ _ _ _ o(3)])
      (use literal_keys [OF lit] t o(1,2) in simp_all)
qed

lemma nullish_or_simps [simp]:
  "nullish_or Undefined b = b" "nullish_or Null b = b" "nullish_or (Str s) b = Str s" "nullish_or (Bool c) b = Bool c"
  by (simp_all add: nullish_or_def)

lemma nullish_or_types:
  "v = Undefined \<or> (\<exists>b. v = Bool b) \<Longrightarrow> \<exists>b. nullish_or v (Bool c) = Bool b"
  "v = Undefined \<or> v = Null \<or> (\<exists>s. v = Str s) \<Longrightarrow> nullish_or v Null = Null \<or> (\<exists>s. nullish_or v Null = Str s)"
  by (auto simp: nullish_or_def)

lemma created_inbound:
  assumes "parseInboundWrite m = Inr w" "non_negative_safe seq"
  shows "\<exists>r. createInboundRecord m seq = Inr r
    \<and> get_prop r ''sequence'' = seq \<and> get_prop r ''status'' = Str ''pending'' \<and> get_prop r ''tries'' = Num (Fin 0)
    \<and> get_prop r ''seriesId'' = get_prop w ''id''
    \<and> get_prop r ''trigger'' = nullish_or (get_prop w ''trigger'') (Bool True)
    \<and> get_prop r ''onWake'' = nullish_or (get_prop w ''onWake'') (Bool False)
    \<and> list_all (\<lambda>k. get_prop r k = get_prop w k)
        [''id'', ''kind'', ''timestamp'', ''platformId'', ''channelType'', ''threadId'', ''content'', ''processAfter'', ''recurrence'']"
proof (rule inbound_write_parsed [OF assms(1)])
  fix qs
  assume w: "w = Obj qs" and keys: "fst ` set qs \<subseteq> set (map reader_key inbound_write_fields)"
    and flat: "\<forall>(k, v)\<in>set qs. \<not> is_nested v"
    and typed: "\<exists>s. prop_of qs ''id'' = Str s" "\<exists>s\<in>set INBOUND_KINDS. prop_of qs ''kind'' = Str s"
    "\<exists>s. prop_of qs ''timestamp'' = Str s \<and> is_iso_timestamp s"
    "\<forall>k\<in>{''platformId'', ''channelType'', ''threadId'', ''recurrence''}. prop_of qs k = Null \<or> (\<exists>s. prop_of qs k = Str s)"
    "\<exists>s. prop_of qs ''content'' = Str s"
    "prop_of qs ''processAfter'' = Null \<or> (\<exists>s. prop_of qs ''processAfter'' = Str s \<and> is_iso_timestamp s)"
    "\<forall>k\<in>{''trigger'', ''onWake''}. prop_of qs k = Undefined \<or> (\<exists>b. prop_of qs k = Bool b)"
    "prop_of qs ''sourceSessionId'' = Undefined \<or> prop_of qs ''sourceSessionId'' = Null
       \<or> (\<exists>s. prop_of qs ''sourceSessionId'' = Str s)"
  let ?r = "override qs
           [(''sequence'', seq), (''status'', Str ''pending''), (''seriesId'', prop_of qs ''id''),
            (''tries'', Num (Fin 0)), (''trigger'', nullish_or (prop_of qs ''trigger'') (Bool True)),
            (''sourceSessionId'', nullish_or (prop_of qs ''sourceSessionId'') Null),
            (''onWake'', nullish_or (prop_of qs ''onWake'') (Bool False))]"
  have seq: "\<not> is_nested seq" by (rule non_negative_safe_flat [OF assms(2)])
  have new: "\<exists>b. nullish_or (prop_of qs ''trigger'') (Bool True) = Bool b"
    "\<exists>b. nullish_or (prop_of qs ''onWake'') (Bool False) = Bool b"
    by (rule nullish_or_types(1), use typed(7) in simp)+
  note new' = nullish_or_types(2) [OF typed(8)]
  have flat': "\<not> is_nested (nullish_or (prop_of qs ''trigger'') (Bool True))" "\<not> is_nested (prop_of qs ''id'')"
    "\<not> is_nested (nullish_or (prop_of qs ''onWake'') (Bool False))" "\<not> is_nested (nullish_or (prop_of qs ''sourceSessionId'') Null)"
    using new new' typed(1) by (metis is_nested.simps(3-7))+
  have a1: "set (map fst ?r) \<subseteq> set (map reader_key inbound_record_fields)"
    using keys by (auto simp: override_def keys_update inbound_write_fields_def inbound_record_fields_def)
  have a2: "\<forall>(k, f)\<in>set ?r. \<not> is_nested f"
    unfolding override_def fold.simps comp_apply id_apply prod.case
    by (intro flat_update flat) (use seq flat' in simp_all)
  have a3: "\<forall>fr\<in>set inbound_record_fields. \<exists>v. reader fr ?r (reader_key fr) = Inr v"
    using typed new new' assms(2) by (simp add: inbound_record_fields_def reader_iffs override_def)
  have a4: "distinct (map reader_key inbound_record_fields)" by (simp add: inbound_record_fields_def)
  obtain out where out: "parse_with ''InboundRecord'' (map reader_key inbound_record_fields) inbound_record_fields (Obj ?r) = Inr (Obj out)"
    and vals: "\<forall>k f. Field k f \<in> set inbound_record_fields \<longrightarrow> f ?r k = Inr (prop_of out k)"
    by (rule parse_with_ok [OF a1 a2 a3 a4, of "''InboundRecord''"])
  have same: "prop_of out k = prop_of ?r k" if "k \<in> set (map reader_key inbound_record_fields)" for k
  proof -
    from that obtain fr where fr: "fr \<in> set inbound_record_fields" "reader_key fr = k" by fastforce
    have "\<forall>fr\<in>set inbound_record_fields. fr = Field (reader_key fr) (reader fr) \<and> stable (reader fr)"
      by (simp add: inbound_record_fields_def stable_readers)
    with fr obtain f where "Field k f \<in> set inbound_record_fields" "stable f" by metis
    with vals have "f ?r k = Inr (prop_of out k)" by blast
    with \<open>stable f\<close> show ?thesis unfolding stable_def by metis
  qed
  have "createInboundRecord m seq = Inr (Obj out)"
    using out by (simp add: createInboundRecord_def assms(1) w parseInboundRecord_def inbound_record_fields_def)
  moreover note same
  ultimately show ?thesis
    by (simp add: w inbound_record_fields_def override_def)
qed


definition nullable_str :: "jsval \<Rightarrow> bool" where
  "nullable_str v = (v = Null \<or> (\<exists>s. v = Str s))"

lemma nullable_strD: "nullable_str v \<Longrightarrow> \<not> is_nested v \<and> v \<noteq> Undefined \<and> nullish_or v Null = v"
  by (auto simp: nullable_str_def)

lemma read_text: "prop_of r k = Str s \<Longrightarrow> text_field r k = Inr (Str s)"
  by (simp add: text_field_def)

lemma read_nullable: "nullable_str (prop_of r k) \<Longrightarrow> nullableText r k = Inr (prop_of r k)"
  by (simp add: nullableText_iff nullable_str_def)

lemma read_optional: "nullable_str (prop_of r k) \<Longrightarrow> optionalNullableText r k = Inr (prop_of r k)"
  by (simp add: optionalNullableText_iff nullable_str_def)

lemma parse_with_flat:
  "set (map fst r) \<subseteq> set keys \<Longrightarrow> \<forall>(k, f)\<in>set r. \<not> is_nested f \<Longrightarrow> object_literal fs r = Inr qs \<Longrightarrow>
     parse_with name keys fs (Obj r) = Inr (Obj qs)"
  using strictRecord_Inr [of "Obj r" name keys r] by (simp add: parse_with_def)

text \<open>The outbound record of a direct write.\<close>

definition direct_record :: "jsval \<Rightarrow> jsval \<Rightarrow> jsval \<Rightarrow> jsval" where
  "direct_record w seq ts = Obj [(''id'', get_prop w ''id''), (''sequence'', seq), (''inReplyTo'', Null), (''timestamp'', ts),
      (''deliverAfter'', Null), (''recurrence'', Null), (''kind'', get_prop w ''kind''), (''platformId'', get_prop w ''platformId''),
      (''channelType'', get_prop w ''channelType''), (''threadId'', get_prop w ''threadId''), (''content'', get_prop w ''content'')]"

lemma created_direct:
  fixes a b x ts :: string and p c t seq :: jsval
  assumes "nullable_str p" "nullable_str c" "nullable_str t" "non_negative_safe seq" "is_iso_timestamp ts"
  defines "w \<equiv> Obj [(''id'', Str a), (''kind'', Str b), (''platformId'', p), (''channelType'', c), (''threadId'', t), (''content'', Str x)]"
  shows "createOutboundRecord w seq (Str ts) = Inr (direct_record w seq (Str ts))"
proof -
  have null: "nullable_str Null" by (simp add: nullable_str_def)
  note flat = assms(1-3) [THEN nullable_strD] non_negative_safe_flat [OF assms(4)]
  have w: "parseOutboundWrite w = Inr w"
    unfolding parseOutboundWrite_def w_def
    by (rule parse_with_flat)
      (use flat assms(1-3) in \<open>simp_all add: outbound_write_fields_def has_key_Cons has_key_Nil read_text read_optional prop_of_def\<close>)
  have r: "parseOutboundRecord (direct_record w seq (Str ts)) = Inr (direct_record w seq (Str ts))"
    unfolding parseOutboundRecord_def direct_record_def
    by (rule parse_with_flat)
      (use flat assms(1-5) null in \<open>simp_all add: w_def outbound_record_fields_def read_text read_nullable prop_of_def
        nullableNonNegativeInteger_def timestamp_field_def parseIsoTimestamp_def nullableTimestamp_def\<close>)
  have "nullish_or p Null = p" "nullish_or c Null = c" "nullish_or t Null = t" using flat by simp_all
  then have "Obj [(''id'', get_prop w ''id''), (''sequence'', seq), (''inReplyTo'', nullish_or (get_prop w ''inReplyTo'') Null),
      (''timestamp'', Str ts), (''deliverAfter'', nullish_or (get_prop w ''deliverAfter'') Null),
      (''recurrence'', nullish_or (get_prop w ''recurrence'') Null), (''kind'', get_prop w ''kind''),
      (''platformId'', nullish_or (get_prop w ''platformId'') Null), (''channelType'', nullish_or (get_prop w ''channelType'') Null),
      (''threadId'', nullish_or (get_prop w ''threadId'') Null), (''content'', get_prop w ''content'')] = direct_record w seq (Str ts)"
    by (simp add: direct_record_def w_def prop_of_def nullish_or_def)
  with r show ?thesis by (simp add: createOutboundRecord_def w)
qed

text \<open>Which messages are direct writes: only the known fields, no nested value, text where text is
  due, and text or null for the address.\<close>

definition direct_write_ok :: "jsval \<Rightarrow> bool" where
  "direct_write_ok message =
     (case message of
        Obj ps \<Rightarrow> list_all (\<lambda>(k, f). k \<in> set [''id'', ''kind'', ''platformId'', ''channelType'', ''threadId'', ''content''] \<and> \<not> is_nested f) ps
          \<and> list_all (\<lambda>k. \<exists>s. prop_of ps k = Str s) [''id'', ''kind'', ''content'']
          \<and> list_all (\<lambda>k. nullable_str (prop_of ps k)) [''platformId'', ''channelType'', ''threadId'']
      | _ \<Rightarrow> False)"

definition direct_copy :: "jsval \<Rightarrow> jsval" where
  "direct_copy v = Obj (map (\<lambda>k. (k, get_prop v k)) [''id'', ''kind'', ''platformId'', ''channelType'', ''threadId'', ''content''])"

lemma parse_direct_iff:
  "parseDirectOutboundWrite m = Inr w \<longleftrightarrow> direct_write_ok m \<and> w = direct_copy m"
proof (cases m)
  case (Obj ps)
  let ?keys = "[''id'', ''kind'', ''platformId'', ''channelType'', ''threadId'', ''content'']"
  have strict: "strictRecord m name ?keys = Inr r \<longleftrightarrow> list_all (\<lambda>(k, f). k \<in> set ?keys \<and> \<not> is_nested f) ps \<and> r = ps" for name r
    by (subst Obj, subst strictRecord_Inr) (auto simp: list_all_iff)
  show ?thesis
    by (simp only: parseDirectOutboundWrite_def parse_with_def bind_result_eq_Inr strict direct_outbound_fields_def
          object_literal.simps text_iff nullableText_iff)
      (auto simp: Obj direct_write_ok_def direct_copy_def nullable_str_def)
qed (auto simp: parseDirectOutboundWrite_def parse_with_def strictRecord_def direct_write_ok_def bind_result_def)

lemma createDirectOutboundRecord_cases:
  assumes "non_negative_safe seq" "is_iso_timestamp ts"
  shows "if direct_write_ok m then createDirectOutboundRecord m seq (Str ts) = Inr (direct_record m seq (Str ts))
    else \<exists>e. createDirectOutboundRecord m seq (Str ts) = Inl e"
proof (cases "direct_write_ok m")
  case True
  then obtain ps where m: "m = Obj ps" by (auto simp: direct_write_ok_def split: jsval.splits)
  with True obtain a b x where "prop_of ps ''id'' = Str a" "prop_of ps ''kind'' = Str b" "prop_of ps ''content'' = Str x"
    and n: "nullable_str (prop_of ps ''platformId'')" "nullable_str (prop_of ps ''channelType'')" "nullable_str (prop_of ps ''threadId'')"
    by (auto simp: direct_write_ok_def)
  then have c: "direct_copy m = Obj [(''id'', Str a), (''kind'', Str b), (''platformId'', prop_of ps ''platformId''),
      (''channelType'', prop_of ps ''channelType''), (''threadId'', prop_of ps ''threadId''), (''content'', Str x)]"
    by (simp add: direct_copy_def m)
  have "createOutboundRecord (direct_copy m) seq (Str ts) = Inr (direct_record (direct_copy m) seq (Str ts))"
    unfolding c by (rule created_direct [OF n assms])
  moreover have "direct_record (direct_copy m) seq (Str ts) = direct_record m seq (Str ts)"
    by (simp add: direct_record_def direct_copy_def prop_of_def)
  moreover have "parseDirectOutboundWrite m = Inr (direct_copy m)" using True by (simp add: parse_direct_iff)
  ultimately show ?thesis using True by (simp add: createDirectOutboundRecord_def)
next
  case False
  then have "parseDirectOutboundWrite m \<noteq> Inr w" for w by (simp add: parse_direct_iff)
  with False show ?thesis by (cases "parseDirectOutboundWrite m") (auto simp: createDirectOutboundRecord_def)
qed

section \<open>Properties\<close>

lemma sample_iso: "is_iso_timestamp ''2026-02-28T23:59:59.999Z''"
  by (simp add: is_iso_timestamp_def iso_year_def iso_rest_shape_def all_digits_def char_class_defs field_at_def
      digits_val_def digit_val_def days_in_month_def leap_year_def nth_Cons')

text \<open>creating an inbound record from an accepted write succeeds for every sequence number: the
  record is pending and untried, starts its own series, wakes the agent unless the write says
  otherwise, and keeps the fields of the write.\<close>

theorem inbound_record_created:
  assumes "parseInboundWrite m = Inr w" "non_negative_safe seq"
  shows "\<exists>r. createInboundRecord m seq = Inr r
    \<and> get_prop r ''sequence'' = seq \<and> get_prop r ''status'' = Str ''pending'' \<and> get_prop r ''tries'' = Num (Fin 0)
    \<and> get_prop r ''seriesId'' = get_prop w ''id''
    \<and> get_prop r ''trigger'' = nullish_or (get_prop w ''trigger'') (Bool True)
    \<and> get_prop r ''onWake'' = nullish_or (get_prop w ''onWake'') (Bool False)
    \<and> list_all (\<lambda>k. get_prop r k = get_prop w k)
        [''id'', ''kind'', ''timestamp'', ''platformId'', ''channelType'', ''threadId'', ''content'', ''processAfter'', ''recurrence'']"
  by (rule created_inbound [OF assms])

definition sample_write :: jsval where
  "sample_write = Obj [(''id'', Str ''m1''), (''kind'', Str ''chat''), (''timestamp'', Str ''2026-02-28T23:59:59.999Z''),
     (''platformId'', Null), (''channelType'', Null), (''threadId'', Null), (''content'', Str ''hi''), (''processAfter'', Null),
     (''recurrence'', Null), (''onWake'', Bool True)]"

theorem inbound_record_created_witness:
  "\<exists>r. createInboundRecord sample_write (Num (Fin 7)) = Inr r \<and> get_prop r ''onWake'' = Bool True
     \<and> get_prop r ''trigger'' = Bool True \<and> get_prop r ''seriesId'' = Str ''m1''"
proof -
  have "parseInboundWrite sample_write = Inr sample_write"
    by (simp add: sample_write_def parseInboundWrite_def inbound_write_fields_def parse_with_def strictRecord_def text_field_def
        oneOf_def INBOUND_KINDS_def timestamp_field_def nullableTimestamp_def parseIsoTimestamp_def sample_iso nullableText_def
        has_key_def optionalBoolean_def prop_of_def)
  from inbound_record_created [OF this, of "Num (Fin 7)"] show ?thesis
    by (auto simp: sample_write_def prop_of_def)
qed

end
