(* ===== verification/NodePath.thy ===== *)
theory NodePath
  imports Prelude
begin

text \<open>
  The POSIX functions of Node's \<open>path\<close> module that the sources call: \<open>normalize\<close>, \<open>join\<close> of two
  parts, \<open>resolve\<close>, \<open>relative\<close>, \<open>isAbsolute\<close> and \<open>basename\<close>, on strings.  The working directory is
  an argument of the functions that depend on it.
\<close>

abbreviation slash :: char where
  "slash \<equiv> CHR ''/''"

definition isAbsolute :: "string \<Rightarrow> bool" where
  "isAbsolute p = (p \<noteq> [] \<and> hd p = slash)"

text \<open>The segments of a path with \<open>.\<close> and empty segments dropped and \<open>..\<close> resolved; the
  accumulator holds the segments so far, last first.\<close>

fun norm_segs :: "bool \<Rightarrow> string list \<Rightarrow> string list \<Rightarrow> string list" where
  "norm_segs escape acc [] = rev acc"
| "norm_segs escape acc (s # ss) =
     (if s = [] \<or> s = ''.'' then norm_segs escape acc ss
      else if s = ''..'' then
        (if acc \<noteq> [] \<and> hd acc \<noteq> ''..'' then norm_segs escape (tl acc) ss
         else if escape then norm_segs escape (''..'' # acc) ss
         else norm_segs escape acc ss)
      else norm_segs escape (s # acc) ss)"

definition normalize_path :: "string \<Rightarrow> string" where
  "normalize_path p =
     (if p = [] then ''.''
      else let s = join_with slash (norm_segs (\<not> isAbsolute p) [] (split_on slash p));
               trailing = (last p = slash)
           in if s = [] then (if isAbsolute p then ''/'' else if trailing then ''./'' else ''.'')
              else (if isAbsolute p then ''/'' else []) @ s @ (if trailing then ''/'' else []))"

definition path_join :: "string \<Rightarrow> string \<Rightarrow> string" where
  "path_join a b =
     (if a = [] \<and> b = [] then ''.''
      else if a = [] then normalize_path b
      else if b = [] then normalize_path a
      else normalize_path (a @ slash # b))"

text \<open>The segments of the absolute path \<open>path.resolve(p)\<close> denotes.\<close>

definition resolve_segs :: "string \<Rightarrow> string \<Rightarrow> string list" where
  "resolve_segs cwd p =
     norm_segs False [] (split_on slash (if isAbsolute p then p else cwd @ slash # p))"

definition path_resolve :: "string \<Rightarrow> string \<Rightarrow> string" where
  "path_resolve cwd p = slash # join_with slash (resolve_segs cwd p)"

fun drop_common :: "'a list \<Rightarrow> 'a list \<Rightarrow> 'a list \<times> 'a list" where
  "drop_common (x # xs) (y # ys) = (if x = y then drop_common xs ys else (x # xs, y # ys))"
| "drop_common xs ys = (xs, ys)"

definition path_relative :: "string \<Rightarrow> string \<Rightarrow> string \<Rightarrow> string" where
  "path_relative cwd p q =
     (case drop_common (resolve_segs cwd p) (resolve_segs cwd q) of
        (up, down) \<Rightarrow> join_with slash (map (\<lambda>_. ''..'') up @ down))"

definition basename :: "string \<Rightarrow> string" where
  "basename p = rev (takeWhile (\<lambda>c. c \<noteq> slash) (dropWhile (\<lambda>c. c = slash) (rev p)))"

section \<open>Facts\<close>

lemma drop_common_prefix: "fst (drop_common xs ys) = [] \<longleftrightarrow> prefix xs ys"
  by (induction xs ys rule: drop_common.induct) auto

text \<open>A relative path that does not start with two dots leads down.\<close>

lemma relative_below:
  assumes "\<not> starts_with ''..'' (path_relative cwd p q)"
  shows "prefix (resolve_segs cwd p) (resolve_segs cwd q)"
proof -
  obtain u v where d: "drop_common (resolve_segs cwd p) (resolve_segs cwd q) = (u, v)" by fastforce
  have "u = []"
  proof (rule ccontr)
    assume "u \<noteq> []"
    then obtain a u' where "u = a # u'" by (cases u) auto
    with d have "starts_with ''..'' (path_relative cwd p q)"
      by (cases "map (\<lambda>_. ''..'') u' @ v") (simp_all add: path_relative_def starts_with_def)
    with assms show False by simp
  qed
  with d drop_common_prefix [of "resolve_segs cwd p" "resolve_segs cwd q"] show ?thesis by simp
qed

end
