(* ===== verification/MountSecurity.thy ===== *)
theory MountSecurity
  imports JsonText NodePath
begin

text \<open>
  Validation of the additional mounts of a container
  (\<open>nanoclaw/src/modules/mount-security/index.ts\<close>): the allow-list file with its cache, the blocked
  patterns, and the check of a host path against the allowed roots.  The file system, the
  home and working directory and the string conversion of non-string patterns are the
  record \<open>host_env\<close>; the JSON text is parsed by the model of \<open>JSON.parse\<close>.
\<close>

record host_env =
  home_dir :: string
  cwd :: string
  realpath :: "string \<Rightarrow> string option"
  allow_path :: string
  allow_mtime :: "rat option"
  allow_text :: "string option"
  js_string :: "jsval \<Rightarrow> string"


record allowed_root =
  ar_path :: string
  ar_allowReadWrite :: bool
  ar_description :: "string option"




section \<open>Loading the allow-list\<close>

text \<open>Reading a property of \<open>null\<close> throws; of any other JSON value it does not.\<close>

definition normalizeRoot :: "jsval \<Rightarrow> allowed_root result" where
  "normalizeRoot entry =
     (if entry = Null then Inl ''TypeError''
      else Inr \<lparr>
        ar_path = (case get_prop entry ''path'' of Str s \<Rightarrow> s | _ \<Rightarrow> []),
        ar_allowReadWrite =
          (case get_prop entry ''allowReadWrite'' of
             Bool b \<Rightarrow> b
           | _ \<Rightarrow> (case get_prop entry ''readOnly'' of Bool b \<Rightarrow> \<not> b | _ \<Rightarrow> False)),
        ar_description = (case get_prop entry ''description'' of Str s \<Rightarrow> Some s | _ \<Rightarrow> None)\<rparr>)"


text \<open>\<open>[...new Set(xs)]\<close>: the first occurrence of each value, in order.\<close>

definition distinct_values :: "'a list \<Rightarrow> 'a list" where
  "distinct_values xs = rev (remdups (rev xs))"



section \<open>Checking a path\<close>

definition expandPath :: "host_env \<Rightarrow> string \<Rightarrow> string" where
  "expandPath env p =
     (if starts_with ''~/'' p then path_join (home_dir env) (drop 2 p)
      else if p = ''~'' then home_dir env
      else path_resolve (cwd env) p)"



fun findAllowedRoot :: "host_env \<Rightarrow> string \<Rightarrow> allowed_root list \<Rightarrow> allowed_root option" where
  "findAllowedRoot env rpath [] = None"
| "findAllowedRoot env rpath (entry # roots) =
     (case realpath env (expandPath env (ar_path entry)) of
        None \<Rightarrow> findAllowedRoot env rpath roots
      | Some realRoot \<Rightarrow>
          (let relative = path_relative (cwd env) realRoot rpath
           in if \<not> starts_with ''..'' relative \<and> \<not> isAbsolute relative then Some entry
              else findAllowedRoot env rpath roots))"





abbreviation quoted :: "string \<Rightarrow> string" where
  "quoted s \<equiv> CHR 0x22 # s @ [CHR 0x22]"






section \<open>Lemmas\<close>







lemma distinct_values_set [simp]: "set (distinct_values xs) = set xs"
  by (simp add: distinct_values_def)









text \<open>An environment with an allow-list whose only root has no path.\<close>

definition sample_list :: string where
  "sample_list = CHR ''{'' # quoted ''allowedRoots'' @ '':[{'' @ quoted ''allowReadWrite'' @ '':true}],''
     @ quoted ''blockedPatterns'' @ '':[]}''"

definition sample_env :: host_env where
  "sample_env = \<lparr>home_dir = ''/home/op'', cwd = ''/srv/app'', realpath = Some,
     allow_path = ''/home/op/.config/nanoclaw/mount-allowlist.json'', allow_mtime = Some 1, allow_text = Some sample_list,
     js_string = (\<lambda>_. [])\<rparr>"



definition pathless :: allowed_root where
  "pathless = \<lparr>ar_path = [], ar_allowReadWrite = True, ar_description = None\<rparr>"


section \<open>Properties\<close>





text \<open>an entry of the allow-list without a string \<open>path\<close> is not ignored: it is normalised to the
  empty path, which \<open>path.resolve\<close> turns into the working directory of the host process, so
  that directory becomes an allowed root, writable if the entry says so.\<close>

theorem pathless_root_allows_cwd:
  assumes "raw \<noteq> Null" "get_prop raw ''path'' \<notin> range Str" "realpath env (path_resolve (cwd env) []) = Some dir"
  shows "\<exists>e. normalizeRoot raw = Inr e \<and> findAllowedRoot env dir (e # es) = Some e
    \<and> (get_prop raw ''allowReadWrite'' = Bool True \<longrightarrow> ar_allowReadWrite e)"
proof -
  have same: "drop_common xs xs = ([], [])" for xs :: "string list" by (induction xs) auto
  have "normalizeRoot raw = Inr \<lparr>ar_path = [], ar_allowReadWrite = (case get_prop raw ''allowReadWrite'' of
             Bool b \<Rightarrow> b
           | _ \<Rightarrow> (case get_prop raw ''readOnly'' of Bool b \<Rightarrow> \<not> b | _ \<Rightarrow> False)),
        ar_description = (case get_prop raw ''description'' of Str s \<Rightarrow> Some s | _ \<Rightarrow> None)\<rparr>"
    using assms(1,2) by (auto simp: normalizeRoot_def split: jsval.splits)
  moreover have "expandPath env [] = path_resolve (cwd env) []" by (simp add: expandPath_def starts_with_def)
  ultimately show ?thesis
    using assms(3) by (auto simp: path_relative_def same starts_with_def isAbsolute_def)
qed

theorem pathless_root_allows_cwd_witness:
  "normalizeRoot (Obj [(''allowReadWrite'', Bool True)]) = Inr pathless
   \<and> findAllowedRoot sample_env ''/srv/app'' [pathless] = Some pathless"
proof -
  have "realpath sample_env (path_resolve (cwd sample_env) []) = Some ''/srv/app''" by code_simp
  from pathless_root_allows_cwd [OF _ _ this, of "Obj [(''allowReadWrite'', Bool True)]" "[]"] show ?thesis
    by (auto simp: prop_of_def normalizeRoot_def pathless_def)
qed

end
