(* ===== verification/ReconcileQueue.thy ===== *)
theory ReconcileQueue
  imports Prelude "HOL-Library.Multiset"
begin

text \<open>
  The keyed work queue of the host (\<open>nanoclaw/src/reconcile-queue.ts\<close>) behind the contract of
  \<open>reconcile.ts\<close>: coalescing adds, delayed retries with back-off, bounded concurrency, shutdown.
  One step is one synchronous piece of the code: a call from outside, a timer that fires, or
  the end of a dispatched reconcile.  The calls of \<open>dispatch\<close> are recorded in \<open>q_starts\<close>.
\<close>

section \<open>Keys\<close>

definition SINGLETON_KEYS :: "string list" where
  "SINGLETON_KEYS = [''singleton:egress-reheal'', ''singleton:approvals-scan'', ''singleton:orphan-containers'']"

definition sessionKey :: "string \<Rightarrow> string" where
  "sessionKey s = ''session:'' @ s"

definition sessionIdOf :: "string \<Rightarrow> string option" where
  "sessionIdOf key = (if starts_with ''session:'' key then Some (drop 8 key) else None)"

text \<open>What \<open>dispatch\<close> runs for a key, given the keys with a registered singleton handler.\<close>

datatype dispatched = Reconcile string | Singleton string | NoHandler

definition dispatch :: "string list \<Rightarrow> string \<Rightarrow> dispatched" where
  "dispatch handlers key =
     (case sessionIdOf key of
        Some s \<Rightarrow> Reconcile s
      | None \<Rightarrow> if key \<in> set handlers then Singleton key else NoHandler)"

section \<open>The queue\<close>

definition INITIAL_BACKOFF_MS :: int where "INITIAL_BACKOFF_MS = 5000"
definition MAX_BACKOFF_MS :: int where "MAX_BACKOFF_MS = 30000"

record rqueue =
  q_ready :: "string list"
  q_readySet :: "string list"
  q_running :: "string list"
  q_dirty :: "string list"
  q_delayed :: "(string \<times> int) list"
  q_failures :: "(string \<times> nat) list"
  q_active :: nat
  q_stopped :: bool
  q_waiters :: nat
  q_starts :: "string list"

definition new_queue :: rqueue where
  "new_queue = \<lparr>q_ready = [], q_readySet = [], q_running = [], q_dirty = [], q_delayed = [], q_failures = [],
     q_active = 0, q_stopped = False, q_waiters = 0, q_starts = []\<rparr>"

definition isIdle :: "rqueue \<Rightarrow> bool" where
  "isIdle q = (q_active q = 0 \<and> q_ready q = [])"

text \<open>One turn of the loop of \<open>pump\<close>.\<close>

definition start_next :: "rqueue \<Rightarrow> rqueue" where
  "start_next q =
     (let key = hd (q_ready q)
      in q\<lparr>q_ready := tl (q_ready q), q_readySet := removeAll key (q_readySet q), q_active := q_active q + 1,
           q_running := List.insert key (q_running q), q_starts := q_starts q @ [key]\<rparr>)"

function pump :: "nat \<Rightarrow> rqueue \<Rightarrow> rqueue" where
  "pump c q = (if q_active q < c \<and> q_ready q \<noteq> [] then pump c (start_next q) else q)"
  by pat_completeness auto
termination
  by (relation "measure (\<lambda>(c, q). length (q_ready q))") (auto simp: start_next_def Let_def)

declare pump.simps [simp del]

definition rq_add :: "nat \<Rightarrow> string \<Rightarrow> rqueue \<Rightarrow> rqueue" where
  "rq_add c key q =
     (if q_stopped q then q
      else if key \<in> set (q_readySet q) then q
      else if key \<in> set (q_running q) then q\<lparr>q_dirty := List.insert key (q_dirty q)\<rparr>
      else pump c (q\<lparr>q_delayed := AList.delete key (q_delayed q), q_readySet := List.insert key (q_readySet q),
                     q_ready := q_ready q @ [key]\<rparr>))"

definition rq_addAfter :: "int \<Rightarrow> string \<Rightarrow> int \<Rightarrow> rqueue \<Rightarrow> rqueue" where
  "rq_addAfter now key delayMs q =
     (if q_stopped q then q
      else if key \<in> set (q_readySet q) then q
      else (let dueAt = now + delayMs
            in case map_of (q_delayed q) key of
                 Some due \<Rightarrow> if due \<le> dueAt then q else q\<lparr>q_delayed := AList.update key dueAt (q_delayed q)\<rparr>
               | None \<Rightarrow> q\<lparr>q_delayed := AList.update key dueAt (q_delayed q)\<rparr>))"

definition rq_timer :: "nat \<Rightarrow> string \<Rightarrow> rqueue \<Rightarrow> rqueue" where
  "rq_timer c key q = rq_add c key (q\<lparr>q_delayed := AList.delete key (q_delayed q)\<rparr>)"

definition rq_idle :: "rqueue \<Rightarrow> rqueue" where
  "rq_idle q = (if isIdle q then q else q\<lparr>q_waiters := q_waiters q + 1\<rparr>)"

definition rq_shutdown :: "rqueue \<Rightarrow> rqueue" where
  "rq_shutdown q =
     rq_idle (q\<lparr>q_stopped := True, q_delayed := [], q_ready := [], q_readySet := [], q_dirty := []\<rparr>)"

definition backoff_ms :: "nat \<Rightarrow> int" where
  "backoff_ms attempt = min (INITIAL_BACKOFF_MS * 2 ^ (attempt - 1)) MAX_BACKOFF_MS"

definition failure_count :: "string \<Rightarrow> rqueue \<Rightarrow> nat" where
  "failure_count key q = (case map_of (q_failures q) key of None \<Rightarrow> 0 | Some n \<Rightarrow> n)"

text \<open>The end of \<open>run\<close>: \<open>ok\<close> says whether the dispatched promise was fulfilled.\<close>

definition rq_finish :: "nat \<Rightarrow> int \<Rightarrow> string \<Rightarrow> bool \<Rightarrow> rqueue \<Rightarrow> rqueue" where
  "rq_finish c now key ok q =
     (let attempt = failure_count key q + 1;
          retryInMs = (if ok then 0 else backoff_ms attempt);
          q1 = (if ok then q\<lparr>q_failures := AList.delete key (q_failures q)\<rparr>
                else q\<lparr>q_failures := AList.update key attempt (q_failures q)\<rparr>);
          q2 = q1\<lparr>q_running := removeAll key (q_running q1), q_active := q_active q1 - 1\<rparr>;
          q3 = (if key \<in> set (q_dirty q2)
                then rq_add c key (q2\<lparr>q_dirty := removeAll key (q_dirty q2)\<rparr>)
                else if retryInMs > 0 then rq_addAfter now key retryInMs q2 else q2);
          q4 = pump c q3
      in if isIdle q4 then q4\<lparr>q_waiters := 0\<rparr> else q4)"

section \<open>Runs of the queue\<close>

datatype rq_event =
    AddCall string
  | AddAfterCall int string int
  | TimerFires int string
  | RunEnds int string bool
  | IdleCall
  | ShutdownCall

fun rq_step :: "nat \<Rightarrow> rq_event \<Rightarrow> rqueue \<Rightarrow> rqueue" where
  "rq_step c (AddCall key) q = rq_add c key q"
| "rq_step c (AddAfterCall now key d) q = rq_addAfter now key d q"
| "rq_step c (TimerFires now key) q = rq_timer c key q"
| "rq_step c (RunEnds now key ok) q = rq_finish c now key ok q"
| "rq_step c IdleCall q = rq_idle q"
| "rq_step c ShutdownCall q = rq_shutdown q"

text \<open>A timer fires for a delayed key that is due, a run ends for a running key.\<close>

fun rq_enabled :: "rq_event \<Rightarrow> rqueue \<Rightarrow> bool" where
  "rq_enabled (TimerFires now key) q = (case map_of (q_delayed q) key of None \<Rightarrow> False | Some due \<Rightarrow> due \<le> now)"
| "rq_enabled (RunEnds now key ok) q = (key \<in> set (q_running q))"
| "rq_enabled _ q = True"

inductive rq_reachable :: "nat \<Rightarrow> rqueue \<Rightarrow> bool" for c where
  rq_initially: "rq_reachable c new_queue"
| rq_next: "rq_reachable c q \<Longrightarrow> rq_enabled e q \<Longrightarrow> rq_reachable c (rq_step c e q)"

definition rq_ok :: "nat \<Rightarrow> rqueue \<Rightarrow> bool" where
  "rq_ok c q =
     (distinct (q_ready q) \<and> distinct (q_readySet q) \<and> set (q_readySet q) = set (q_ready q)
      \<and> distinct (q_running q) \<and> q_active q = length (q_running q) \<and> q_active q \<le> c
      \<and> set (q_ready q) \<inter> set (q_running q) = {}
      \<and> distinct (q_dirty q) \<and> set (q_dirty q) \<subseteq> set (q_running q)
      \<and> distinct (map fst (q_delayed q)) \<and> fst ` set (q_delayed q) \<inter> set (q_ready q) = {}
      \<and> (q_stopped q \<longrightarrow> q_ready q = [] \<and> q_delayed q = [] \<and> q_dirty q = []))"

text \<open>Between steps the queue has also pumped: a key waits only while all slots are taken.\<close>

definition rq_settled :: "nat \<Rightarrow> rqueue \<Rightarrow> bool" where
  "rq_settled c q =
     (rq_ok c q \<and> (q_ready q \<noteq> [] \<longrightarrow> q_active q = c) \<and> (isIdle q \<longrightarrow> q_waiters q = 0))"

lemma pump_go: "q_active q < c \<and> q_ready q \<noteq> [] \<Longrightarrow> pump c q = pump c (start_next q)"
  by (simp add: pump.simps [of c q])

lemma pump_stop: "\<not> (q_active q < c \<and> q_ready q \<noteq> []) \<Longrightarrow> pump c q = q"
  using pump.simps [of c q] by argo

lemma start_next_ok:
  assumes "rq_ok c q" "q_active q < c" "q_ready q \<noteq> []"
  shows "rq_ok c (start_next q)"
proof -
  obtain k ks where k: "q_ready q = k # ks" using assms(3) by (cases "q_ready q") auto
  with assms show ?thesis
    by (auto simp: rq_ok_def start_next_def distinct_removeAll)
qed

lemma pump_ok: "rq_ok c q \<Longrightarrow> rq_ok c (pump c q)"
proof (induction c q rule: pump.induct)
  case (1 c q)
  then show ?case by (subst pump.simps) (auto simp: start_next_ok)
qed

lemma pump_full: "rq_ok c q \<Longrightarrow> q_ready (pump c q) \<noteq> [] \<Longrightarrow> q_active (pump c q) = c"
proof (induction c q rule: pump.induct)
  case (1 c q)
  show ?case
  proof (cases "q_active q < c \<and> q_ready q \<noteq> []")
    case True
    with 1 start_next_ok show ?thesis by (simp add: pump.simps [of c q])
  next
    case False
    with 1(2,3) show ?thesis by (auto simp: pump.simps [of c q] rq_ok_def)
  qed
qed

text \<open>\<open>pump\<close> only moves keys from waiting to running, and records each as started.\<close>

lemma pump_frame:
  "q_dirty (pump c q) = q_dirty q" "q_delayed (pump c q) = q_delayed q" "q_failures (pump c q) = q_failures q"
  "q_stopped (pump c q) = q_stopped q" "q_waiters (pump c q) = q_waiters q"
proof (induction c q rule: pump.induct)
  case (1 c q)
  show "q_dirty (pump c q) = q_dirty q" "q_delayed (pump c q) = q_delayed q" "q_failures (pump c q) = q_failures q"
    "q_stopped (pump c q) = q_stopped q" "q_waiters (pump c q) = q_waiters q"
    using 1 by (auto simp: pump.simps [of c q] start_next_def Let_def)
qed

lemma pump_moves:
  "\<exists>ks. q_ready q = ks @ q_ready (pump c q) \<and> q_starts (pump c q) = q_starts q @ ks"
proof (induction c q rule: pump.induct)
  case (1 c q)
  show ?case
  proof (cases "q_active q < c \<and> q_ready q \<noteq> []")
    case True
    with 1 obtain ks where ks: "q_ready (start_next q) = ks @ q_ready (pump c (start_next q))"
      "q_starts (pump c (start_next q)) = q_starts (start_next q) @ ks" by blast
    from True obtain k rest where "q_ready q = k # rest" by (cases "q_ready q") auto
    with ks have "q_ready q = (k # ks) @ q_ready (pump c (start_next q))"
      "q_starts (pump c (start_next q)) = q_starts q @ (k # ks)"
      by (simp_all add: start_next_def)
    with pump_go [OF True] show ?thesis by metis
  next
    case False
    then show ?thesis by (simp add: pump_stop)
  qed
qed

lemma pump_sum:
  "rq_ok c q \<Longrightarrow> length (q_ready (pump c q)) + q_active (pump c q) = length (q_ready q) + q_active q"
proof (induction c q rule: pump.induct)
  case (1 c q)
  show ?case
  proof (cases "q_active q < c \<and> q_ready q \<noteq> []")
    case True
    then have "length (q_ready (start_next q)) + q_active (start_next q) = length (q_ready q) + q_active q"
      by (cases "q_ready q") (simp_all add: start_next_def)
    with 1 True start_next_ok show ?thesis by (simp add: pump_go)
  next
    case False
    then show ?thesis by (simp add: pump_stop)
  qed
qed

lemma pump_settled:
  assumes "rq_ok c q" "q_waiters q = 0 \<or> q_active q \<noteq> 0 \<or> q_ready q \<noteq> []" "0 < c"
  shows "rq_settled c (pump c q)"
proof -
  have "isIdle (pump c q) \<longrightarrow> q_waiters (pump c q) = 0"
    using pump_sum [OF assms(1)] assms(2) by (auto simp: isIdle_def pump_frame)
  with pump_ok [OF assms(1)] pump_full [OF assms(1)] show ?thesis by (simp add: rq_settled_def)
qed


lemma delayed_delete: "fst ` set (AList.delete k xs) = fst ` set xs - {k}"
  by (induction xs) auto

lemma delayed_update: "fst ` set (AList.update k v xs) = insert k (fst ` set xs)"
  by (induction xs) auto

lemma rq_add_ok:
  assumes "rq_ok c q"
  shows "rq_ok c (rq_add c key q)"
proof -
  let ?q = "q\<lparr>q_delayed := AList.delete key (q_delayed q), q_readySet := List.insert key (q_readySet q),
      q_ready := q_ready q @ [key]\<rparr>"
  have "rq_ok c ?q" if "\<not> q_stopped q" "key \<notin> set (q_readySet q)" "key \<notin> set (q_running q)"
    using assms that by (auto simp: rq_ok_def delayed_delete distinct_delete)
  with pump_ok [of c ?q] assms show ?thesis
    by (auto simp: rq_add_def rq_ok_def)
qed

lemma rq_addAfter_ok: "rq_ok c q \<Longrightarrow> rq_ok c (rq_addAfter now key d q)"
  by (auto simp: rq_ok_def rq_addAfter_def delayed_update distinct_update Let_def split: option.split)


lemma rq_settled_ok: "rq_settled c q \<Longrightarrow> rq_ok c q"
  by (simp add: rq_settled_def)

lemma rq_add_cases:
  obtains (ignored) "q_stopped q \<or> key \<in> set (q_readySet q)" "rq_add c key q = q"
    | (dirty) "\<not> q_stopped q" "key \<in> set (q_running q)" "rq_add c key q = q\<lparr>q_dirty := List.insert key (q_dirty q)\<rparr>"
    | (queued) "\<not> q_stopped q" "key \<notin> set (q_readySet q)" "key \<notin> set (q_running q)"
        "rq_add c key q = pump c (q\<lparr>q_delayed := AList.delete key (q_delayed q),
           q_readySet := List.insert key (q_readySet q), q_ready := q_ready q @ [key]\<rparr>)"
proof (cases "q_stopped q \<or> key \<in> set (q_readySet q)")
  case True
  then show thesis by (intro ignored) (auto simp: rq_add_def)
next
  case False
  then show thesis
    by (cases "key \<in> set (q_running q)") (rule dirty queued; simp add: rq_add_def)+
qed

lemma add_settled:
  assumes "rq_settled c q" "0 < c"
  shows "rq_settled c (rq_add c key q)"
proof -
  let ?q = "q\<lparr>q_delayed := AList.delete key (q_delayed q), q_readySet := List.insert key (q_readySet q),
      q_ready := q_ready q @ [key]\<rparr>"
  have ok: "rq_ok c q" using assms(1) by (rule rq_settled_ok)
  show ?thesis
  proof (cases rule: rq_add_cases [of q key c])
    case dirty
    with assms(1) rq_add_ok [OF ok, of key] show ?thesis by (simp add: rq_settled_def isIdle_def)
  next
    case queued
    with ok have "rq_ok c ?q" by (auto simp: rq_ok_def delayed_delete distinct_delete)
    from pump_settled [OF this _ assms(2)] queued show ?thesis by simp
  qed (use assms in simp)
qed

lemma addAfter_settled: "rq_settled c q \<Longrightarrow> rq_settled c (rq_addAfter now key d q)"
  using rq_addAfter_ok [OF rq_settled_ok]
  by (auto simp: rq_settled_def rq_addAfter_def isIdle_def Let_def split: option.splits)

lemma timer_settled:
  assumes "rq_settled c q" "0 < c"
  shows "rq_settled c (rq_timer c key q)"
proof -
  have "rq_settled c (q\<lparr>q_delayed := AList.delete key (q_delayed q)\<rparr>)"
    using assms(1) by (auto simp: rq_settled_def rq_ok_def isIdle_def delayed_delete distinct_delete)
  from add_settled [OF this assms(2)] show ?thesis by (simp add: rq_timer_def)
qed

text \<open>The queue when a run has ended, before it is re-added or retried.\<close>

definition released :: "string \<Rightarrow> bool \<Rightarrow> rqueue \<Rightarrow> rqueue" where
  "released key ok q =
     q\<lparr>q_failures := (if ok then AList.delete key (q_failures q) else AList.update key (failure_count key q + 1) (q_failures q)),
       q_running := removeAll key (q_running q), q_active := q_active q - 1, q_dirty := removeAll key (q_dirty q)\<rparr>"

definition requeued :: "nat \<Rightarrow> int \<Rightarrow> string \<Rightarrow> bool \<Rightarrow> rqueue \<Rightarrow> rqueue" where
  "requeued c now key ok q =
     (if key \<in> set (q_dirty q) then rq_add c key (released key ok q)
      else if ok then released key ok q
      else rq_addAfter now key (backoff_ms (failure_count key q + 1)) (released key ok q))"

lemma backoff_bounds: "5000 \<le> backoff_ms n" "backoff_ms n \<le> 30000"
proof -
  have "(1 :: int) \<le> 2 ^ (n - 1)" by simp
  then show "5000 \<le> backoff_ms n" "backoff_ms n \<le> 30000"
    by (simp_all add: backoff_ms_def INITIAL_BACKOFF_MS_def MAX_BACKOFF_MS_def)
qed

lemma rq_finish_eq:
  "rq_finish c now key ok q =
     (let q4 = pump c (requeued c now key ok q) in if isIdle q4 then q4\<lparr>q_waiters := 0\<rparr> else q4)"
proof -
  have "0 < backoff_ms (failure_count key q + 1)" using backoff_bounds [of "failure_count key q + 1"] by linarith
  moreover have "key \<notin> set (q_dirty q) \<Longrightarrow> removeAll key (q_dirty q) = q_dirty q" by simp
  ultimately show ?thesis
    by (cases "key \<in> set (q_dirty q)"; cases ok)
      (simp_all add: rq_finish_def requeued_def released_def Let_def)
qed

lemma released_ok:
  assumes "rq_ok c q" "key \<in> set (q_running q)"
  shows "rq_ok c (released key ok q)"
proof -
  have "length (removeAll key (q_running q)) = q_active q - 1"
    using assms by (simp add: rq_ok_def distinct_remove1_removeAll [symmetric] length_remove1)
  with assms show ?thesis by (auto simp: rq_ok_def released_def distinct_removeAll)
qed

lemma requeued_ok:
  assumes "rq_ok c q" "key \<in> set (q_running q)"
  shows "rq_ok c (requeued c now key ok q)"
  using rq_add_ok [OF released_ok [OF assms]] rq_addAfter_ok [OF released_ok [OF assms]] released_ok [OF assms]
  unfolding requeued_def by (simp del: One_nat_def)

lemma finish_settled:
  assumes "rq_settled c q" "key \<in> set (q_running q)"
  shows "rq_settled c (rq_finish c now key ok q)"
proof -
  have "rq_ok c (requeued c now key ok q)" using requeued_ok [OF rq_settled_ok] assms by blast
  from pump_ok [OF this] pump_full [OF this] show ?thesis
    by (auto simp: rq_finish_eq Let_def rq_settled_def rq_ok_def isIdle_def)
qed

lemma shutdown_settled:
  assumes "rq_settled c q" "0 < c"
  shows "rq_settled c (rq_shutdown q)"
  using assms by (auto simp: rq_shutdown_def rq_idle_def rq_settled_def rq_ok_def isIdle_def)

lemma step_settled:
  assumes "rq_settled c q" "rq_enabled e q" "0 < c"
  shows "rq_settled c (rq_step c e q)"
proof (cases e)
  case IdleCall
  with assms(1) show ?thesis by (auto simp: rq_idle_def rq_settled_def rq_ok_def isIdle_def)
qed (use assms add_settled addAfter_settled timer_settled finish_settled shutdown_settled in simp_all)

lemma reachable_settled: "rq_reachable c q \<Longrightarrow> 0 < c \<Longrightarrow> rq_settled c q"
proof (induction rule: rq_reachable.induct)
  case rq_initially
  then show ?case by (simp add: rq_settled_def rq_ok_def new_queue_def isIdle_def)
next
  case (rq_next q e)
  then show ?case using step_settled by blast
qed


section \<open>Adds are not lost\<close>

definition wanted :: "string \<Rightarrow> rqueue \<Rightarrow> bool" where
  "wanted k q = (k \<in> set (q_ready q) \<or> k \<in> set (q_dirty q))"

definition runs_of :: "string \<Rightarrow> rqueue \<Rightarrow> nat" where
  "runs_of k q = length (filter ((=) k) (q_starts q))"

text \<open>\<open>q'\<close> comes after \<open>q\<close>: what was wanted is wanted still, or has been started.\<close>

definition keeps_wanted :: "rqueue \<Rightarrow> rqueue \<Rightarrow> bool" where
  "keeps_wanted q q' = (\<forall>k. runs_of k q \<le> runs_of k q' \<and> (wanted k q \<longrightarrow> wanted k q' \<or> runs_of k q < runs_of k q'))"

lemma keeps_wanted_trans: "keeps_wanted q1 q2 \<Longrightarrow> keeps_wanted q2 q3 \<Longrightarrow> keeps_wanted q1 q3"
  unfolding keeps_wanted_def by (metis order.trans order.strict_trans2 order.strict_trans1)

lemma keeps_wantedI:
  "q_starts q' = q_starts q \<Longrightarrow> set (q_ready q) \<subseteq> set (q_ready q') \<Longrightarrow> set (q_dirty q) \<subseteq> set (q_dirty q') \<Longrightarrow> keeps_wanted q q'"
  by (auto simp: keeps_wanted_def wanted_def runs_of_def)

lemma pump_wanted: "keeps_wanted q (pump c q)"
proof -
  obtain ks where ks: "q_ready q = ks @ q_ready (pump c q)" "q_starts (pump c q) = q_starts q @ ks"
    using pump_moves by blast
  have "0 < length (filter ((=) k) ks)" if "k \<in> set ks" for k using that by (auto simp: filter_empty_conv)
  moreover have "k \<in> set ks \<or> k \<in> set (q_ready (pump c q))" if "k \<in> set (q_ready q)" for k
    using that ks(1) by (metis Un_iff set_append)
  ultimately show ?thesis
    by (auto simp: keeps_wanted_def wanted_def runs_of_def ks(2) pump_frame)
qed

lemma add_wanted: "keeps_wanted q (rq_add c key q)"
proof (cases rule: rq_add_cases [of q key c])
  case queued
  let ?q = "q\<lparr>q_delayed := AList.delete key (q_delayed q), q_readySet := List.insert key (q_readySet q),
      q_ready := q_ready q @ [key]\<rparr>"
  have "keeps_wanted q ?q" by (rule keeps_wantedI) auto
  from keeps_wanted_trans [OF this pump_wanted [of ?q c]] queued show ?thesis by simp
qed (auto intro: keeps_wantedI)

lemma add_makes_wanted:
  assumes "rq_ok c q" "\<not> q_stopped q"
  shows "wanted key (rq_add c key q) \<or> runs_of key q < runs_of key (rq_add c key q)"
proof (cases rule: rq_add_cases [of q key c])
  case queued
  let ?q = "q\<lparr>q_delayed := AList.delete key (q_delayed q), q_readySet := List.insert key (q_readySet q),
      q_ready := q_ready q @ [key]\<rparr>"
  have "wanted key ?q" "runs_of key ?q = runs_of key q" by (simp_all add: wanted_def runs_of_def)
  with pump_wanted [of ?q c] queued show ?thesis by (auto simp: keeps_wanted_def)
qed (use assms in \<open>auto simp: wanted_def rq_ok_def\<close>)

lemma addAfter_wanted: "keeps_wanted q (rq_addAfter now key d q)"
  by (rule keeps_wantedI) (auto simp: rq_addAfter_def Let_def split: option.splits)

lemma requeued_wanted:
  assumes "rq_ok c q" "key \<in> set (q_running q)"
  shows "keeps_wanted q (requeued c now key ok q)"
proof (cases "key \<in> set (q_dirty q)")
  case True
  then have live: "\<not> q_stopped q" using assms(1) by (auto simp: rq_ok_def)
  let ?r = "released key ok q"
  have r: "q_starts ?r = q_starts q" "q_ready ?r = q_ready q" "set (q_dirty ?r) = set (q_dirty q) - {key}" "\<not> q_stopped ?r"
    using live by (simp_all add: released_def)
  have "keeps_wanted ?r (rq_add c key ?r)" by (rule add_wanted)
  moreover have "wanted key (rq_add c key ?r) \<or> runs_of key q < runs_of key (rq_add c key ?r)"
    using add_makes_wanted [OF released_ok [OF assms], of ok] r by (auto simp: runs_of_def)
  ultimately show ?thesis
    using True r by (auto simp: keeps_wanted_def requeued_def wanted_def runs_of_def)
next
  case False
  have "keeps_wanted q (released key ok q)" by (rule keeps_wantedI) (use False in \<open>auto simp: released_def\<close>)
  from this keeps_wanted_trans [OF this addAfter_wanted] False show ?thesis by (cases ok) (simp_all add: requeued_def)
qed

lemma step_wanted:
  assumes "rq_ok c q" "rq_enabled e q" "e \<noteq> ShutdownCall"
  shows "keeps_wanted q (rq_step c e q)"
proof (cases e)
  case (TimerFires now key)
  have "keeps_wanted q (q\<lparr>q_delayed := AList.delete key (q_delayed q)\<rparr>)" by (rule keeps_wantedI) auto
  from keeps_wanted_trans [OF this add_wanted] TimerFires show ?thesis by (simp add: rq_timer_def)
next
  case (RunEnds now key ok)
  then have k: "key \<in> set (q_running q)" using assms(2) by simp
  let ?p = "pump c (requeued c now key ok q)"
  have p: "keeps_wanted q ?p" by (rule keeps_wanted_trans [OF requeued_wanted [OF assms(1) k] pump_wanted])
  have "keeps_wanted ?p (?p\<lparr>q_waiters := 0\<rparr>)" by (rule keeps_wantedI) auto
  from p keeps_wanted_trans [OF p this] RunEnds show ?thesis by (simp add: rq_finish_eq Let_def)
qed (use assms add_wanted addAfter_wanted in \<open>auto simp: rq_idle_def intro: keeps_wantedI\<close>)

definition rq_moves :: "nat \<Rightarrow> rqueue \<Rightarrow> rqueue \<Rightarrow> bool" where
  "rq_moves c q q' = (\<exists>e. rq_enabled e q \<and> q' = rq_step c e q)"

lemma stopped_stays: "q_stopped q \<Longrightarrow> q_stopped (rq_step c e q)"
  by (cases e)
    (auto simp: rq_add_def rq_addAfter_def rq_timer_def rq_idle_def rq_shutdown_def rq_finish_eq requeued_def released_def
      pump_frame Let_def split: option.splits)

lemma moves_wanted:
  assumes "(rq_moves c)\<^sup>*\<^sup>* q q'" "rq_settled c q" "0 < c" "\<not> q_stopped q'"
  shows "keeps_wanted q q' \<and> rq_settled c q'"
  using assms
proof (induction rule: rtranclp_induct)
  case base
  then show ?case by (simp add: keeps_wanted_def)
next
  case (step q1 q2)
  from step(2) obtain e where e: "rq_enabled e q1" "q2 = rq_step c e q1" by (auto simp: rq_moves_def)
  then have "\<not> q_stopped q1" using step(6) stopped_stays by blast
  with step have IH: "keeps_wanted q q1" "rq_settled c q1" by auto
  have "e \<noteq> ShutdownCall" using e(2) step(6) by (auto simp: rq_shutdown_def rq_idle_def split: if_splits)
  from step_wanted [OF rq_settled_ok [OF IH(2)] e(1) this] step_settled [OF IH(2) e(1) step(5)] e(2)
    keeps_wanted_trans [OF IH(1)] show ?case by blast
qed

section \<open>Draining\<close>

definition q_work :: "rqueue \<Rightarrow> nat" where
  "q_work q = length (q_ready q) + q_active q + length (q_dirty q)"

lemma rq_add_work:
  assumes "rq_ok c q" "\<not> q_stopped q" "key \<notin> set (q_readySet q)" "key \<notin> set (q_running q)"
  shows "q_work (rq_add c key q) = q_work q + 1"
proof (cases rule: rq_add_cases [of q key c])
  case queued
  let ?q = "q\<lparr>q_delayed := AList.delete key (q_delayed q), q_readySet := List.insert key (q_readySet q),
      q_ready := q_ready q @ [key]\<rparr>"
  have "rq_ok c ?q" using assms by (auto simp: rq_ok_def delayed_delete distinct_delete)
  from pump_sum [OF this] queued show ?thesis by (simp add: q_work_def pump_frame)
qed (use assms in auto)

lemma finish_work:
  assumes "rq_settled c q" "key \<in> set (q_running q)"
  shows "q_work (rq_finish c now key ok q) + 1 = q_work q"
proof -
  note ok = rq_settled_ok [OF assms(1)]
  let ?r = "released key ok q"
  have r: "rq_ok c ?r" by (rule released_ok [OF ok assms(2)])
  have pos: "0 < q_active q" using ok assms(2) by (cases "q_running q") (auto simp: rq_ok_def)
  have dirty: "length (removeAll key (q_dirty q)) = length (q_dirty q) - (if key \<in> set (q_dirty q) then 1 else 0)"
    using ok by (simp add: rq_ok_def distinct_remove1_removeAll [symmetric] length_remove1)
  have work: "q_work (requeued c now key ok q) + 1 = q_work q"
  proof (cases "key \<in> set (q_dirty q)")
    case True
    have "\<not> q_stopped ?r" "key \<notin> set (q_readySet ?r)" "key \<notin> set (q_running ?r)"
      using ok True assms(2) by (auto simp: rq_ok_def released_def)
    note more = rq_add_work [OF r this]
    have "0 < length (q_dirty q)" using True by (auto dest: length_pos_if_in_set)
    with True pos dirty have "q_work ?r + 2 = q_work q" unfolding q_work_def by (simp add: released_def)
    with more True show ?thesis by (simp add: requeued_def)
  next
    case False
    with pos dirty have "q_work ?r + 1 = q_work q" by (simp add: q_work_def released_def)
    moreover have "q_work (rq_addAfter now key d ?r) = q_work ?r" for d
      by (auto simp: q_work_def rq_addAfter_def Let_def split: option.splits)
    ultimately show ?thesis using False by (cases ok) (simp_all add: requeued_def)
  qed
  have "q_work (pump c q') = q_work q'" if "rq_ok c q'" for q'
    using pump_sum [OF that] by (simp add: q_work_def pump_frame)
  from this [OF requeued_ok [OF ok assms(2)]] work show ?thesis
    by (auto simp: rq_finish_eq Let_def q_work_def)
qed

text \<open>The running reconciles end one after another, with the given outcomes and in any order.\<close>

fun drain :: "nat \<Rightarrow> (int \<times> nat \<times> bool) list \<Rightarrow> rqueue \<Rightarrow> rqueue" where
  "drain c [] q = q"
| "drain c ((now, i, ok) # outcomes) q =
     (if q_running q = [] then q
      else drain c outcomes (rq_finish c now (q_running q ! (i mod length (q_running q))) ok q))"

lemma idle_work: "rq_settled c q \<Longrightarrow> 0 < c \<Longrightarrow> q_running q = [] \<longleftrightarrow> isIdle q"
  by (auto simp: rq_settled_def rq_ok_def isIdle_def)

lemma drain_idle:
  "rq_settled c q \<Longrightarrow> 0 < c \<Longrightarrow> q_work q \<le> length outcomes \<Longrightarrow> isIdle (drain c outcomes q) \<and> q_waiters (drain c outcomes q) = 0"
proof (induction c outcomes q rule: drain.induct)
  case (1 c q)
  then show ?case by (auto simp: q_work_def isIdle_def rq_settled_def)
next
  case (2 c now i ok outcomes q)
  show ?case
  proof (cases "q_running q = []")
    case True
    with 2 idle_work show ?thesis by (auto simp: rq_settled_def)
  next
    case False
    then have k: "q_running q ! (i mod length (q_running q)) \<in> set (q_running q)" by simp
    from finish_work [OF 2(2) k, of now ok] finish_settled [OF 2(2) k, of now ok] 2 False show ?thesis by simp
  qed
qed

lemma drain_settled: "rq_settled c q \<Longrightarrow> 0 < c \<Longrightarrow> rq_settled c (drain c outcomes q)"
proof (induction c outcomes q rule: drain.induct)
  case (2 c now i ok outcomes q)
  show ?case
  proof (cases "q_running q = []")
    case False
    then have k: "q_running q ! (i mod length (q_running q)) \<in> set (q_running q)" by simp
    from 2(1) [OF False finish_settled [OF 2(2) k] 2(3)] False show ?thesis by simp
  qed (use 2 in simp)
qed simp

text \<open>The keys started so far and the keys waiting, in the order of their starts.\<close>

definition q_line :: "rqueue \<Rightarrow> string list" where
  "q_line q = q_starts q @ q_ready q"

lemma pump_line: "q_line (pump c q) = q_line q"
  using pump_moves [of q c] by (auto simp: q_line_def)

lemma finish_line:
  assumes "rq_settled c q" "key \<in> set (q_running q)"
  shows "q_line (rq_finish c now key ok q) = q_line q @ (if key \<in> set (q_dirty q) then [key] else [])"
    "q_dirty (rq_finish c now key ok q) = removeAll key (q_dirty q)"
proof -
  note inv = rq_settled_ok [OF assms(1)]
  let ?r = "released key ok q"
  have "q_line (requeued c now key ok q) = q_line q @ (if key \<in> set (q_dirty q) then [key] else [])
      \<and> q_dirty (requeued c now key ok q) = removeAll key (q_dirty q)"
  proof (cases "key \<in> set (q_dirty q)")
    case True
    have free: "\<not> q_stopped ?r" "key \<notin> set (q_readySet ?r)" "key \<notin> set (q_running ?r)"
      using inv True assms(2) by (auto simp: rq_ok_def released_def)
    have "q_line (rq_add c key ?r) = q_line ?r @ [key] \<and> q_dirty (rq_add c key ?r) = q_dirty ?r"
    proof (cases rule: rq_add_cases [of ?r key c])
      case queued
      then show ?thesis by (simp add: pump_line pump_frame) (simp add: q_line_def)
    qed (use free in auto)
    with True show ?thesis by (simp add: requeued_def q_line_def) (simp add: released_def)
  next
    case False
    have "q_line (rq_addAfter now key d ?r) = q_line ?r \<and> q_dirty (rq_addAfter now key d ?r) = q_dirty ?r" for d
      by (auto simp: q_line_def rq_addAfter_def Let_def split: option.splits)
    with False show ?thesis by (cases ok) (simp_all add: requeued_def q_line_def released_def)
  qed
  then show "q_line (rq_finish c now key ok q) = q_line q @ (if key \<in> set (q_dirty q) then [key] else [])"
    "q_dirty (rq_finish c now key ok q) = removeAll key (q_dirty q)"
    using pump_line [of c "requeued c now key ok q"] by (auto simp: rq_finish_eq Let_def pump_frame q_line_def)
qed

lemma drain_line:
  "rq_settled c q \<Longrightarrow> 0 < c \<Longrightarrow>
     \<exists>again. q_line (drain c outcomes q) = q_line q @ again \<and> mset again + mset (q_dirty (drain c outcomes q)) = mset (q_dirty q)"
proof (induction c outcomes q rule: drain.induct)
  case (2 c now i ok outcomes q)
  show ?case
  proof (cases "q_running q = []")
    case True
    then show ?thesis by simp
  next
    case False
    let ?key = "q_running q ! (i mod length (q_running q))"
    have k: "?key \<in> set (q_running q)" using False by simp
    note l = finish_line [OF 2(2) k, of now ok]
    obtain again where a: "q_line (drain c outcomes (rq_finish c now ?key ok q)) = q_line (rq_finish c now ?key ok q) @ again"
      "mset again + mset (q_dirty (drain c outcomes (rq_finish c now ?key ok q))) = mset (q_dirty (rq_finish c now ?key ok q))"
      using 2(1) [OF False finish_settled [OF 2(2) k] 2(3)] by blast
    let ?new = "if ?key \<in> set (q_dirty q) then [?key] else []"
    have d: "mset (q_dirty q) = mset ?new + mset (removeAll ?key (q_dirty q))"
      using rq_settled_ok [OF 2(2)] by (auto simp: rq_ok_def distinct_remove1_removeAll [symmetric])
    show ?thesis
      using False a l d by (intro exI [of _ "?new @ again"]) (simp add: ac_simps)
  qed
qed simp

section \<open>Properties\<close>

lemma session_key_inverse [simp]: "sessionIdOf (sessionKey s) = Some s"
  by (simp add: sessionIdOf_def sessionKey_def starts_with_def)

text \<open>C24: at every moment at most \<open>concurrency\<close> reconciles run, no key runs concurrently with itself
  or waits twice, no waiting key runs, and keys wait only while every slot is taken.\<close>

theorem queue_concurrency:
  assumes "rq_reachable c q" "0 < c"
  shows "distinct (q_running q) \<and> length (q_running q) \<le> c \<and> distinct (q_ready q)
    \<and> set (q_ready q) \<inter> set (q_running q) = {} \<and> (q_ready q \<noteq> [] \<longrightarrow> length (q_running q) = c)"
  using reachable_settled [OF assms] by (auto simp: rq_settled_def rq_ok_def)

definition busy_queue :: rqueue where
  "busy_queue = fold (rq_step 2) [AddCall ''a'', AddCall ''b'', AddCall ''c'', AddCall ''a''] new_queue"

lemma busy_reachable: "rq_reachable 2 busy_queue"
  unfolding busy_queue_def fold.simps comp_apply id_apply
  by (intro rq_next rq_initially) simp_all

lemma busy_values: "q_running busy_queue = [''b'', ''a''] \<and> q_ready busy_queue = [''c''] \<and> q_dirty busy_queue = [''a'']"
  by (simp add: busy_queue_def new_queue_def rq_add_def pump.simps start_next_def Let_def)

theorem queue_concurrency_witness:
  "distinct (q_running busy_queue) \<and> length (q_running busy_queue) = 2 \<and> q_ready busy_queue = [''c'']"
  using queue_concurrency [OF busy_reachable] busy_values by simp

text \<open>an add is never lost: from the moment it is made, and until the queue is shut down, the key is
  waiting or marked to run again, unless a reconcile of it has been started since.\<close>

theorem add_not_lost:
  assumes "rq_reachable c q" "0 < c" "(rq_moves c)\<^sup>*\<^sup>* (rq_add c key q) q'" "\<not> q_stopped q'"
  shows "wanted key q' \<or> runs_of key q < runs_of key q'"
proof -
  note set1 = reachable_settled [OF assms(1,2)]
  have m: "keeps_wanted (rq_add c key q) q'"
    using moves_wanted [OF assms(3) add_settled [OF set1 assms(2)] assms(2,4)] by simp
  have live: "\<not> q_stopped q"
  proof
    assume st: "q_stopped q"
    have "q_stopped x \<Longrightarrow> q_stopped y" if "(rq_moves c)\<^sup>*\<^sup>* x y" for x y
      using that by (induction rule: rtranclp_induct) (auto simp: rq_moves_def stopped_stays)
    from this [OF assms(3)] st assms(4) show False by (simp add: rq_add_def)
  qed
  have "runs_of key q \<le> runs_of key (rq_add c key q)" using add_wanted by (auto simp: keeps_wanted_def)
  with add_makes_wanted [OF rq_settled_ok [OF set1] live] m show ?thesis
    unfolding keeps_wanted_def by (metis order.strict_trans1 order.strict_trans2)
qed

theorem add_not_lost_witness:
  "wanted ''a'' (rq_finish 2 0 ''b'' True (rq_add 2 ''a'' busy_queue))
   \<or> runs_of ''a'' busy_queue < runs_of ''a'' (rq_finish 2 0 ''b'' True (rq_add 2 ''a'' busy_queue))"
proof (rule add_not_lost [OF busy_reachable])
  have "rq_enabled (RunEnds 0 ''b'' True) (rq_add 2 ''a'' busy_queue)"
    using busy_values by (auto simp: rq_add_def pump_frame)
  then have "rq_moves 2 (rq_add 2 ''a'' busy_queue) (rq_finish 2 0 ''b'' True (rq_add 2 ''a'' busy_queue))"
    unfolding rq_moves_def by (intro exI [of _ "RunEnds 0 ''b'' True"]) simp
  then show "(rq_moves 2)\<^sup>*\<^sup>* (rq_add 2 ''a'' busy_queue) (rq_finish 2 0 ''b'' True (rq_add 2 ''a'' busy_queue))" by blast
  show "\<not> q_stopped (rq_finish 2 0 ''b'' True (rq_add 2 ''a'' busy_queue))"
    by code_simp
qed simp

text \<open>C25: without new adds the queue drains: once the running reconciles have ended as many times as
  there are waiting, running and marked keys, whatever their outcomes and their order, nothing
  runs or waits and every promise of \<open>idle()\<close> has been resolved; and on the way a reconcile was started
  exactly once for each waiting key, in the order they waited, and then once more for each key that
  was marked to run again, and for no other key.\<close>

theorem queue_drains:
  assumes "rq_reachable c q" "0 < c" "length (q_ready q) + length (q_running q) + length (q_dirty q) \<le> length outcomes"
  shows "isIdle (drain c outcomes q) \<and> q_waiters (drain c outcomes q) = 0
    \<and> (\<exists>again. q_starts (drain c outcomes q) = q_starts q @ q_ready q @ again \<and> mset again = mset (q_dirty q))"
proof -
  note inv = reachable_settled [OF assms(1,2)]
  have idle: "isIdle (drain c outcomes q) \<and> q_waiters (drain c outcomes q) = 0"
    using drain_idle [OF inv assms(2)] inv assms(3) by (simp add: q_work_def rq_settled_def rq_ok_def)
  moreover have "q_dirty (drain c outcomes q) = []"
    using drain_settled [OF inv assms(2), of outcomes] idle by (auto simp: rq_settled_def rq_ok_def isIdle_def)
  ultimately show ?thesis
    using drain_line [OF inv assms(2), of outcomes] by (auto simp: q_line_def isIdle_def)
qed

theorem queue_drains_witness:
  "isIdle (drain 2 [(0, 1, False), (7, 0, True), (9, 5, True), (11, 2, False)] busy_queue)
   \<and> q_starts (drain 2 [(0, 1, False), (7, 0, True), (9, 5, True), (11, 2, False)] busy_queue) = [''a'', ''b'', ''c'', ''a'']"
proof -
  have "q_starts busy_queue = [''a'', ''b'']"
    by (simp add: busy_queue_def new_queue_def rq_add_def pump.simps start_next_def Let_def)
  with queue_drains [OF busy_reachable, of "[(0, 1, False), (7, 0, True), (9, 5, True), (11, 2, False)]"] busy_values
  show ?thesis by auto
qed

text \<open>a failed reconcile is retried: unless the key was marked meanwhile or the queue is stopped, its
  retry is due within the back-off of its failure count, between 5 and 30 seconds, and no other
  key's retry moves.\<close>

theorem failed_run_retried:
  assumes "rq_reachable c q" "0 < c" "key \<in> set (q_running q)" "key \<notin> set (q_dirty q)" "\<not> q_stopped q"
  shows "\<exists>due. map_of (q_delayed (rq_finish c now key False q)) key = Some due
    \<and> due \<le> now + backoff_ms (failure_count key q + 1)
    \<and> failure_count key (rq_finish c now key False q) = failure_count key q + 1
    \<and> (\<forall>k. k \<noteq> key \<longrightarrow> map_of (q_delayed (rq_finish c now key False q)) k = map_of (q_delayed q) k)"
proof -
  have ok: "rq_ok c q" by (rule rq_settled_ok [OF reachable_settled [OF assms(1,2)]])
  then have notready: "key \<notin> set (q_readySet q)" using assms(3) by (auto simp: rq_ok_def)
  have "q_delayed (rq_finish c now key False q) = q_delayed (requeued c now key False q)"
    "q_failures (rq_finish c now key False q) = q_failures (requeued c now key False q)"
    by (simp_all add: rq_finish_eq Let_def pump_frame)
  with assms(4,5) notready show ?thesis
    by (auto simp: requeued_def released_def rq_addAfter_def Let_def failure_count_def update_conv split: option.split)
qed

theorem failed_run_retried_witness:
  "\<exists>due. map_of (q_delayed (rq_finish 2 100 ''b'' False busy_queue)) ''b'' = Some due \<and> due \<le> 5100"
proof -
  have "failure_count ''b'' busy_queue = 0" "\<not> q_stopped busy_queue"
    by (simp_all add: busy_queue_def new_queue_def rq_add_def pump.simps start_next_def Let_def failure_count_def)
  with failed_run_retried [OF busy_reachable, of "''b''" 100] busy_values show ?thesis
    by (auto simp: backoff_ms_def INITIAL_BACKOFF_MS_def MAX_BACKOFF_MS_def)
qed

end
