(* ===== verification/Coordination.thy ===== *)
theory Coordination
  imports SqlTable "HOL-Library.List_Lexorder" "HOL-Library.Char_ord"
begin

text \<open>
  The host-coordination tables (\<open>nanoclaw/src/db/coordination.ts\<close>): leases of host processes,
  session claims fenced by an incarnation number, delivery attempts and the wake-signal
  outbox.  Each SQL statement is a function on the database; a TypeScript function with several
  statements is their composition, and the step relations interleave the statements of
  concurrent callers, since every \<open>await\<close> lets another caller run.  Timestamps are ISO strings
  compared as SQLite compares text, byte by byte.  Incarnations are JavaScript integers, exact
  below \<open>2 ^ 53\<close>, and are modelled by \<open>int\<close>.
\<close>

section \<open>Rows\<close>

record host_instance_row =
  hi_instance_id :: string
  hi_install_id :: string
  hi_hostname :: "string option"
  hi_pid :: "int option"
  hi_started_at :: string
  hi_lease_expires_at :: string
  hi_stopped_at :: "string option"

datatype stop_intent = StopIntent | RespawnAfterStop

record session_claim_row =
  sc_session_id :: string
  sc_incarnation :: int
  sc_claimed_by :: "string option"
  sc_claimed_at :: "string option"
  sc_container_ref :: "string option"
  sc_stop_intent :: "stop_intent option"
  sc_updated_at :: string

record delivery_attempt_row =
  da_message_id :: string
  da_session_id :: string
  da_attempts :: int
  da_last_attempt_at :: "string option"
  da_next_attempt_at :: "string option"
  da_last_error :: "string option"

record wake_signal_row =
  ws_id :: string
  ws_session_id :: string
  ws_reason :: string
  ws_created_at :: string
  ws_consumed_at :: "string option"
  ws_consumed_by :: "string option"

record coord_db =
  host_instances :: "host_instance_row list"
  session_claims :: "session_claim_row list"
  delivery_attempts :: "delivery_attempt_row list"
  wake_signals :: "wake_signal_row list"

interpretation hosts: upsert_table hi_instance_id "sql_select hi_instance_id" "sql_insert hi_instance_id"
  "sql_update hi_instance_id" "keys_distinct hi_instance_id" "sql_upsert hi_instance_id" "sql_delete hi_instance_id"
  by (rule list_upsert_table)

interpretation scs: upsert_table sc_session_id "sql_select sc_session_id" "sql_insert sc_session_id"
  "sql_update sc_session_id" "keys_distinct sc_session_id" "sql_upsert sc_session_id" "sql_delete sc_session_id"
  by (rule list_upsert_table)

interpretation das: upsert_table da_message_id "sql_select da_message_id" "sql_insert da_message_id"
  "sql_update da_message_id" "keys_distinct da_message_id" "sql_upsert da_message_id" "sql_delete da_message_id"
  by (rule list_upsert_table)

interpretation wss: upsert_table ws_id "sql_select ws_id" "sql_insert ws_id"
  "sql_update ws_id" "keys_distinct ws_id" "sql_upsert ws_id" "sql_delete ws_id"
  by (rule list_upsert_table)

definition wf_coord :: "coord_db \<Rightarrow> bool" where
  "wf_coord db = (keys_distinct hi_instance_id (host_instances db) \<and> keys_distinct sc_session_id (session_claims db) \<and>
     keys_distinct da_message_id (delivery_attempts db) \<and> keys_distinct ws_id (wake_signals db))"

section \<open>A failing shadow write is swallowed\<close>

definition shadowWrite :: "('s \<Rightarrow> 'a result \<times> 's) \<Rightarrow> 's \<Rightarrow> 's" where
  "shadowWrite wr s = snd (wr s)"

section \<open>Host leases\<close>

definition registerHostInstance ::
    "string \<Rightarrow> string \<Rightarrow> string option \<Rightarrow> int option \<Rightarrow> string \<Rightarrow> string \<Rightarrow> coord_db \<Rightarrow> coord_db" where
  "registerHostInstance instanceId installId hostname pid now leaseExpiresAt db =
     db\<lparr>host_instances := sql_upsert hi_instance_id
         \<lparr>hi_instance_id = instanceId, hi_install_id = installId, hi_hostname = hostname, hi_pid = pid,
          hi_started_at = now, hi_lease_expires_at = leaseExpiresAt, hi_stopped_at = None\<rparr>
         (\<lambda>r. r\<lparr>hi_lease_expires_at := leaseExpiresAt, hi_stopped_at := None\<rparr>) (host_instances db)\<rparr>"

definition renewHostInstanceLease :: "string \<Rightarrow> string \<Rightarrow> coord_db \<Rightarrow> bool \<times> coord_db" where
  "renewHostInstanceLease instanceId leaseExpiresAt db =
     (let (t, changes) = sql_update hi_instance_id instanceId (\<lambda>r. hi_stopped_at r = None)
            (\<lambda>r. r\<lparr>hi_lease_expires_at := leaseExpiresAt\<rparr>) (host_instances db)
      in (changes > 0, db\<lparr>host_instances := t\<rparr>))"

definition markHostInstanceStopped :: "string \<Rightarrow> string \<Rightarrow> coord_db \<Rightarrow> coord_db" where
  "markHostInstanceStopped instanceId now db =
     db\<lparr>host_instances := fst (sql_update hi_instance_id instanceId (\<lambda>r. True)
         (\<lambda>r. r\<lparr>hi_stopped_at := Some now\<rparr>) (host_instances db))\<rparr>"

definition live_at :: "string \<Rightarrow> host_instance_row \<Rightarrow> bool" where
  "live_at now r = (hi_stopped_at r = None \<and> hi_lease_expires_at r > now)"

definition getLiveHostInstance :: "string \<Rightarrow> string \<Rightarrow> coord_db \<Rightarrow> host_instance_row option" where
  "getLiveHostInstance instanceId now db =
     find (\<lambda>r. hi_instance_id r = instanceId \<and> live_at now r) (host_instances db)"

definition listLiveHostInstances :: "string \<Rightarrow> coord_db \<Rightarrow> host_instance_row list" where
  "listLiveHostInstances now db = sort_key hi_started_at (filter (live_at now) (host_instances db))"

section \<open>Session claims\<close>

definition getSessionClaim :: "string \<Rightarrow> coord_db \<Rightarrow> session_claim_row option" where
  "getSessionClaim sessionId db = sql_select sc_session_id sessionId (session_claims db)"

text \<open>The two statements of \<open>tryClaimSession\<close>: the insert of the first spawn and the
  compare-and-set, each with the number of changed rows.\<close>

definition claim_insert :: "string \<Rightarrow> string \<Rightarrow> int \<Rightarrow> string option \<Rightarrow> string \<Rightarrow> coord_db \<Rightarrow> nat \<times> coord_db" where
  "claim_insert sessionId instanceId expected containerRef now db =
     (let (t, changes) = sql_insert sc_session_id
            \<lparr>sc_session_id = sessionId, sc_incarnation = expected + 1, sc_claimed_by = Some instanceId,
             sc_claimed_at = Some now, sc_container_ref = containerRef, sc_stop_intent = None,
             sc_updated_at = now\<rparr> (session_claims db)
      in (changes, db\<lparr>session_claims := t\<rparr>))"

definition claim_cas :: "string \<Rightarrow> string \<Rightarrow> int \<Rightarrow> string option \<Rightarrow> string \<Rightarrow> coord_db \<Rightarrow> nat \<times> coord_db" where
  "claim_cas sessionId instanceId expected containerRef now db =
     (let (t, changes) = sql_update sc_session_id sessionId (\<lambda>r. sc_incarnation r = expected)
            (\<lambda>r. r\<lparr>sc_incarnation := expected + 1, sc_claimed_by := Some instanceId, sc_claimed_at := Some now,
                   sc_container_ref := containerRef, sc_updated_at := now\<rparr>) (session_claims db)
      in (changes, db\<lparr>session_claims := t\<rparr>))"

definition tryClaimSession :: "string \<Rightarrow> string \<Rightarrow> int \<Rightarrow> string option \<Rightarrow> string \<Rightarrow> coord_db \<Rightarrow> int option \<times> coord_db" where
  "tryClaimSession sessionId instanceId expected containerRef now db =
     (let next = expected + 1;
          (inserted, db1) = (if expected = 0 then claim_insert sessionId instanceId expected containerRef now db
                             else (0, db))
      in if inserted > 0 then (Some next, db1)
         else (let (updated, db2) = claim_cas sessionId instanceId expected containerRef now db1
               in (if updated > 0 then Some next else None, db2)))"

definition releaseSessionClaim :: "string \<Rightarrow> string \<Rightarrow> int \<Rightarrow> string \<Rightarrow> coord_db \<Rightarrow> bool \<times> coord_db" where
  "releaseSessionClaim sessionId instanceId incarnation now db =
     (let (t, changes) = sql_update sc_session_id sessionId
            (\<lambda>r. sc_claimed_by r = Some instanceId \<and> sc_incarnation r = incarnation)
            (\<lambda>r. r\<lparr>sc_claimed_by := None, sc_claimed_at := None, sc_container_ref := None, sc_updated_at := now\<rparr>)
            (session_claims db)
      in (changes > 0, db\<lparr>session_claims := t\<rparr>))"

definition listSessionsWithStopIntent :: "coord_db \<Rightarrow> session_claim_row list" where
  "listSessionsWithStopIntent db = filter (\<lambda>r. sc_stop_intent r \<noteq> None) (session_claims db)"

definition setStopIntent :: "string \<Rightarrow> stop_intent option \<Rightarrow> string \<Rightarrow> coord_db \<Rightarrow> coord_db" where
  "setStopIntent sessionId intent now db =
     db\<lparr>session_claims := sql_upsert sc_session_id
         \<lparr>sc_session_id = sessionId, sc_incarnation = 0, sc_claimed_by = None, sc_claimed_at = None,
          sc_container_ref = None, sc_stop_intent = intent, sc_updated_at = now\<rparr>
         (\<lambda>r. r\<lparr>sc_stop_intent := intent, sc_updated_at := now\<rparr>) (session_claims db)\<rparr>"

section \<open>Delivery attempts\<close>

definition recordDeliveryAttempt ::
    "string \<Rightarrow> string \<Rightarrow> string \<Rightarrow> string option \<Rightarrow> string option \<Rightarrow> coord_db \<Rightarrow> int \<times> coord_db" where
  "recordDeliveryAttempt messageId sessionId now nextAttemptAt err db =
     (let t = sql_upsert da_message_id
            \<lparr>da_message_id = messageId, da_session_id = sessionId, da_attempts = 1, da_last_attempt_at = Some now,
             da_next_attempt_at = nextAttemptAt, da_last_error = err\<rparr>
            (\<lambda>r. r\<lparr>da_attempts := da_attempts r + 1, da_last_attempt_at := Some now,
                   da_next_attempt_at := nextAttemptAt, da_last_error := err\<rparr>) (delivery_attempts db)
      in (case sql_select da_message_id messageId t of Some r \<Rightarrow> da_attempts r | None \<Rightarrow> 1,
          db\<lparr>delivery_attempts := t\<rparr>))"

definition getDeliveryAttempt :: "string \<Rightarrow> coord_db \<Rightarrow> delivery_attempt_row option" where
  "getDeliveryAttempt messageId db = sql_select da_message_id messageId (delivery_attempts db)"

definition clearDeliveryAttempt :: "string \<Rightarrow> coord_db \<Rightarrow> coord_db" where
  "clearDeliveryAttempt messageId db = db\<lparr>delivery_attempts := sql_delete da_message_id messageId (delivery_attempts db)\<rparr>"

section \<open>Wake signals\<close>

text \<open>\<open>id\<close> is the value of \<open>randomUUID()\<close>; a primary key in use throws.\<close>

definition writeWakeSignal :: "string \<Rightarrow> string \<Rightarrow> string \<Rightarrow> string \<Rightarrow> coord_db \<Rightarrow> string result \<times> coord_db" where
  "writeWakeSignal uuid sessionId reason now db =
     (let (t, changes) = sql_insert ws_id
            \<lparr>ws_id = uuid, ws_session_id = sessionId, ws_reason = reason, ws_created_at = now,
             ws_consumed_at = None, ws_consumed_by = None\<rparr> (wake_signals db)
      in if changes = 0 then (Inl ''UNIQUE constraint failed: wake_signals.id'', db)
         else (Inr uuid, db\<lparr>wake_signals := t\<rparr>))"

text \<open>The first statement of \<open>takeWakeSignals\<close>; an empty or missing session id selects all.\<close>

definition pending_signals :: "string option \<Rightarrow> coord_db \<Rightarrow> wake_signal_row list" where
  "pending_signals sessionId db =
     sort_key ws_created_at
       (filter (\<lambda>r. (case sessionId of Some s \<Rightarrow> s = [] \<or> ws_session_id r = s | None \<Rightarrow> True) \<and>
          ws_consumed_at r = None) (wake_signals db))"

text \<open>One turn of its loop: the guarded update and the row it reports.\<close>

definition take_one :: "string \<Rightarrow> string \<Rightarrow> wake_signal_row \<Rightarrow> coord_db \<Rightarrow> wake_signal_row list \<times> coord_db" where
  "take_one consumerId now signal db =
     (let (t, changes) = sql_update ws_id (ws_id signal) (\<lambda>r. ws_consumed_at r = None)
            (\<lambda>r. r\<lparr>ws_consumed_at := Some now, ws_consumed_by := Some consumerId\<rparr>) (wake_signals db)
      in (if changes > 0 then [signal\<lparr>ws_consumed_at := Some now, ws_consumed_by := Some consumerId\<rparr>] else [],
          db\<lparr>wake_signals := t\<rparr>))"

fun take_loop :: "string \<Rightarrow> string \<Rightarrow> wake_signal_row list \<Rightarrow> coord_db \<Rightarrow> wake_signal_row list \<times> coord_db" where
  "take_loop consumerId now [] db = ([], db)"
| "take_loop consumerId now (signal # rest) db =
     (let (got, db1) = take_one consumerId now signal db;
          (more, db2) = take_loop consumerId now rest db1
      in (got @ more, db2))"

definition takeWakeSignals :: "string \<Rightarrow> string \<Rightarrow> string option \<Rightarrow> coord_db \<Rightarrow> wake_signal_row list \<times> coord_db" where
  "takeWakeSignals consumerId now sessionId db = take_loop consumerId now (pending_signals sessionId db) db"

section \<open>Leases, intents and attempts\<close>

lemma find_map_stopped:
  "find (\<lambda>r. hi_instance_id r = i \<and> live_at now r)
     (map (\<lambda>r. if hi_instance_id r = i then r\<lparr>hi_stopped_at := Some at\<rparr> else r) t) = None"
  by (induction t) (simp_all add: live_at_def)

lemma markHostInstanceStopped_not_live:
  "getLiveHostInstance i now (markHostInstanceStopped i at db) = None"
  by (simp add: getLiveHostInstance_def markHostInstanceStopped_def sql_update_def find_map_stopped)

text \<open>A renewal never revives a stopped host, and reports it.\<close>

lemma renew_after_stop:
  assumes "wf_coord db"
  shows "fst (renewHostInstanceLease i lease (markHostInstanceStopped i at db)) = False"
proof -
  let ?t = "fst (sql_update hi_instance_id i (\<lambda>r. True) (\<lambda>r. r\<lparr>hi_stopped_at := Some at\<rparr>) (host_instances db))"
  have "snd (sql_update hi_instance_id i (\<lambda>r. hi_stopped_at r = None) (\<lambda>r. r\<lparr>hi_lease_expires_at := lease\<rparr>) ?t) = 0"
    by (auto simp: sql_update_def filter_empty_conv)
  then show ?thesis
    by (simp add: renewHostInstanceLease_def markHostInstanceStopped_def case_prod_unfold)
qed

text \<open>An expired lease reads as not live, and so does an unknown host.\<close>

lemma getLiveHostInstance_expired:
  assumes "wf_coord db"
  shows "getLiveHostInstance i now db =
    (case sql_select hi_instance_id i (host_instances db) of
       Some r \<Rightarrow> if live_at now r then Some r else None | None \<Rightarrow> None)"
proof -
  have "distinct (map hi_instance_id t) \<Longrightarrow>
      find (\<lambda>r. hi_instance_id r = i \<and> P r) t =
      (case find (\<lambda>r. hi_instance_id r = i) t of Some r \<Rightarrow> if P r then Some r else None | None \<Rightarrow> None)"
    for t :: "host_instance_row list" and P
    by (induction t) (auto simp: find_None_iff image_iff split: option.splits dest!: find_key_SomeD)
  then show ?thesis
    using assms by (simp add: getLiveHostInstance_def sql_select_def wf_coord_def keys_distinct_def)
qed

lemma listLiveHostInstances_sorted: "sorted (map hi_started_at (listLiveHostInstances now db))"
  by (simp add: listLiveHostInstances_def)

lemma recordDeliveryAttempt_counts:
  assumes "wf_coord db"
  shows "fst (recordDeliveryAttempt m s now nx er db) =
    (case getDeliveryAttempt m db of Some r \<Rightarrow> da_attempts r + 1 | None \<Rightarrow> 1)"
  using assms
  by (auto simp: recordDeliveryAttempt_def getDeliveryAttempt_def das.select_upsert wf_coord_def Let_def
      split: option.splits)

lemma attempts_after_clear:
  "wf_coord db \<Longrightarrow> fst (recordDeliveryAttempt m s now nx er (clearDeliveryAttempt m db)) = 1"
  using recordDeliveryAttempt_counts [of "clearDeliveryAttempt m db"]
  by (simp add: clearDeliveryAttempt_def wf_coord_def das.wf_delete getDeliveryAttempt_def das.select_delete)

section \<open>Concurrent claims\<close>

text \<open>One claim statement run by one of the hosts.  A call of \<open>tryClaimSession\<close> that did not
  insert is in flight until its compare-and-set runs; \<open>cw_granted\<close> lists the incarnations
  handed out, newest first, with the host that received them.\<close>

type_synonym claim_call = "string \<times> string \<times> int \<times> string option \<times> string"

record claim_world =
  cw_db :: coord_db
  cw_inflight :: "claim_call list"
  cw_granted :: "(string \<times> int \<times> string) list"

definition claim_begin :: "claim_call \<Rightarrow> claim_world \<Rightarrow> claim_world" where
  "claim_begin call w = (case call of (s, i, e, c, now) \<Rightarrow>
     (if e = 0 then
        (let (n, db1) = claim_insert s i e c now (cw_db w)
         in if n > 0 then w\<lparr>cw_db := db1, cw_granted := (s, e + 1, i) # cw_granted w\<rparr>
            else w\<lparr>cw_db := db1, cw_inflight := call # cw_inflight w\<rparr>)
      else w\<lparr>cw_inflight := call # cw_inflight w\<rparr>))"

definition claim_finish :: "claim_call \<Rightarrow> claim_world \<Rightarrow> claim_world" where
  "claim_finish call w = (case call of (s, i, e, c, now) \<Rightarrow>
     (let (n, db1) = claim_cas s i e c now (cw_db w);
          w1 = w\<lparr>cw_db := db1, cw_inflight := remove1 call (cw_inflight w)\<rparr>
      in if n > 0 then w1\<lparr>cw_granted := (s, e + 1, i) # cw_granted w\<rparr> else w1))"

inductive claim_step :: "claim_world \<Rightarrow> claim_world \<Rightarrow> bool" where
  Begin: "claim_step w (claim_begin call w)"
| Finish: "call \<in> set (cw_inflight w) \<Longrightarrow> claim_step w (claim_finish call w)"
| Release: "claim_step w (w\<lparr>cw_db := snd (releaseSessionClaim s i k now (cw_db w))\<rparr>)"
| Intent: "claim_step w (w\<lparr>cw_db := setStopIntent s intent now (cw_db w)\<rparr>)"

inductive claim_reachable :: "coord_db \<Rightarrow> claim_world \<Rightarrow> bool" for db where
  Init: "claim_reachable db \<lparr>cw_db = db, cw_inflight = [], cw_granted = []\<rparr>"
| Step: "claim_reachable db w \<Longrightarrow> claim_step w w' \<Longrightarrow> claim_reachable db w'"

text \<open>The two statements without interleaving are the function.\<close>

lemma tryClaimSession_steps:
  "tryClaimSession s i e c now (cw_db w) =
     (let w1 = claim_begin (s, i, e, c, now) w
      in if cw_granted w1 \<noteq> cw_granted w then (Some (e + 1), cw_db w1)
         else (let w2 = claim_finish (s, i, e, c, now) w1
               in (if cw_granted w2 \<noteq> cw_granted w1 then Some (e + 1) else None, cw_db w2)))"
  by (auto simp: tryClaimSession_def claim_begin_def claim_finish_def Let_def split: prod.splits)

text \<open>The incarnation of a session; before its row exists, below all others a claim can meet.\<close>

definition incarnation_of :: "string \<Rightarrow> coord_db \<Rightarrow> int option" where
  "incarnation_of s db = map_option sc_incarnation (getSessionClaim s db)"

lemma incarnation_insert:
  assumes "claim_insert s i e c now db = (n, db1)"
  shows "incarnation_of s' db1 = (if s' = s \<and> incarnation_of s db = None then Some (e + 1) else incarnation_of s' db)"
    and "n > 0 \<longleftrightarrow> incarnation_of s db = None"
  using assms
  by (auto simp: claim_insert_def incarnation_of_def getSessionClaim_def sql_insert_def sql_select_append
      sql_select_Cons split: if_splits option.splits)

lemma incarnation_cas:
  assumes "claim_cas s i e c now db = (n, db1)" "wf_coord db"
  shows "incarnation_of s' db1 = (if s' = s \<and> incarnation_of s db = Some e then Some (e + 1) else incarnation_of s' db)"
    and "n > 0 \<longleftrightarrow> incarnation_of s db = Some e"
proof -
  let ?f = "\<lambda>r. r\<lparr>sc_incarnation := e + 1, sc_claimed_by := Some i, sc_claimed_at := Some now,
      sc_container_ref := c, sc_updated_at := now\<rparr>"
  have wf: "keys_distinct sc_session_id (session_claims db)" using assms(2) by (simp add: wf_coord_def)
  have db1: "session_claims db1 = fst (sql_update sc_session_id s (\<lambda>r. sc_incarnation r = e) ?f (session_claims db))"
    and n: "n = snd (sql_update sc_session_id s (\<lambda>r. sc_incarnation r = e) ?f (session_claims db))"
    using assms(1) by (auto simp: claim_cas_def case_prod_unfold Let_def)
  show "incarnation_of s' db1 = (if s' = s \<and> incarnation_of s db = Some e then Some (e + 1) else incarnation_of s' db)"
    by (cases "getSessionClaim s db")
      (auto simp: incarnation_of_def getSessionClaim_def db1 scs.select_update [OF wf])
  show "n > 0 \<longleftrightarrow> incarnation_of s db = Some e"
    by (auto simp: n incarnation_of_def getSessionClaim_def scs.update_changes [OF wf] split: option.splits)
qed

lemma incarnation_release:
  "wf_coord db \<Longrightarrow> incarnation_of s' (snd (releaseSessionClaim s i k now db)) = incarnation_of s' db"
  by (cases "sql_select sc_session_id s (session_claims db)")
    (auto simp: releaseSessionClaim_def incarnation_of_def getSessionClaim_def wf_coord_def case_prod_unfold
      Let_def scs.select_update)

lemma incarnation_intent:
  "wf_coord db \<Longrightarrow> incarnation_of s' (setStopIntent s intent now db) =
     (if s' = s \<and> incarnation_of s db = None then Some 0 else incarnation_of s' db)"
  by (cases "sql_select sc_session_id s (session_claims db)")
    (auto simp: setStopIntent_def incarnation_of_def getSessionClaim_def wf_coord_def scs.select_upsert)

lemma wf_claims:
  assumes "wf_coord db"
  shows "wf_coord (snd (claim_insert s i e c now db))" "wf_coord (snd (claim_cas s i e c now db))"
    "wf_coord (snd (releaseSessionClaim s i k now db))" "wf_coord (setStopIntent s intent now db)"
  using assms
  by (simp_all add: wf_coord_def claim_insert_def claim_cas_def releaseSessionClaim_def setStopIntent_def
      case_prod_unfold Let_def scs.wf_insert scs.wf_update scs.wf_upsert)

definition granted_to :: "string \<Rightarrow> claim_world \<Rightarrow> int list" where
  "granted_to s w = map (\<lambda>g. fst (snd g)) (filter (\<lambda>g. fst g = s) (cw_granted w))"

lemma granted_to_simps [simp]:
  "granted_to s (w\<lparr>cw_db := db\<rparr>) = granted_to s w"
  "granted_to s (w\<lparr>cw_inflight := xs\<rparr>) = granted_to s w"
  "granted_to s (w\<lparr>cw_granted := (s', k, i) # gs\<rparr>) =
     (if s' = s then [k] else []) @ granted_to s (w\<lparr>cw_granted := gs\<rparr>)"
  "granted_to s (w\<lparr>cw_granted := cw_granted w\<rparr>) = granted_to s w"
  by (simp_all add: granted_to_def)

definition claim_inv :: "claim_world \<Rightarrow> bool" where
  "claim_inv w \<longleftrightarrow> wf_coord (cw_db w) \<and>
     (\<forall>s. sorted_wrt (>) (granted_to s w) \<and>
          (\<forall>k\<in>set (granted_to s w). \<exists>m. incarnation_of s (cw_db w) = Some m \<and> k \<le> m))"

lemma claim_invI:
  assumes "wf_coord (cw_db w)"
    and "\<And>s. sorted_wrt (>) (granted_to s w)"
    and "\<And>s k. k \<in> set (granted_to s w) \<Longrightarrow> \<exists>m. incarnation_of s (cw_db w) = Some m \<and> k \<le> m"
  shows "claim_inv w"
  using assms by (simp add: claim_inv_def)

text \<open>A grant above the present incarnation keeps the invariant.\<close>

lemma claim_inv_grant:
  assumes inv: "claim_inv w" and wf: "wf_coord db1"
    and below: "\<And>m. incarnation_of s (cw_db w) = Some m \<Longrightarrow> m < k"
    and new: "incarnation_of s db1 = Some k"
    and others: "\<And>s'. s' \<noteq> s \<Longrightarrow> incarnation_of s' db1 = incarnation_of s' (cw_db w)"
  shows "claim_inv (w\<lparr>cw_db := db1, cw_granted := (s, k, i) # cw_granted w\<rparr>)"
proof (rule claim_invI)
  have bound: "j < k" if "j \<in> set (granted_to s w)" for j
    using inv that below unfolding claim_inv_def by fastforce
  have g: "granted_to s' (w\<lparr>cw_db := db1, cw_granted := (s, k, i) # cw_granted w\<rparr>) =
      (if s = s' then [k] else []) @ granted_to s' w" for s'
    by (simp add: granted_to_def)
  show "wf_coord (cw_db (w\<lparr>cw_db := db1, cw_granted := (s, k, i) # cw_granted w\<rparr>))"
    using wf by simp
  show "sorted_wrt (>) (granted_to s' (w\<lparr>cw_db := db1, cw_granted := (s, k, i) # cw_granted w\<rparr>))" for s'
    using inv bound by (simp add: g claim_inv_def)
  fix s' j
  assume j: "j \<in> set (granted_to s' (w\<lparr>cw_db := db1, cw_granted := (s, k, i) # cw_granted w\<rparr>))"
  show "\<exists>m. incarnation_of s' (cw_db (w\<lparr>cw_db := db1, cw_granted := (s, k, i) # cw_granted w\<rparr>)) = Some m \<and> j \<le> m"
  proof (cases "s' = s")
    case True
    then show ?thesis using j bound new unfolding g by fastforce
  next
    case False
    then show ?thesis using j inv others [OF False] unfolding g by (auto simp: claim_inv_def)
  qed
qed

text \<open>A statement that keeps or creates incarnations grants nothing.\<close>

lemma claim_inv_quiet:
  assumes "claim_inv w" "wf_coord db1"
    and "\<And>s m. incarnation_of s (cw_db w) = Some m \<Longrightarrow> incarnation_of s db1 = Some m"
  shows "claim_inv (w\<lparr>cw_db := db1\<rparr>)"
  using assms by (fastforce simp: claim_inv_def)

lemma claim_inv_inflight: "claim_inv (w\<lparr>cw_inflight := xs\<rparr>) = claim_inv w"
  by (simp add: claim_inv_def)

lemma claim_inv_begin:
  assumes "claim_inv w"
  shows "claim_inv (claim_begin call w)"
proof -
  obtain s i e c now where call: "call = (s, i, e, c, now)" by (metis prod_cases5)
  obtain n db1 where ins: "claim_insert s i e c now (cw_db w) = (n, db1)" by (metis surj_pair)
  have wf: "wf_coord db1" using wf_claims(1) [of "cw_db w" s i e c now] assms ins by (simp add: claim_inv_def)
  note inc = incarnation_insert [OF ins]
  show ?thesis
  proof (cases "e = 0 \<and> n > 0")
    case True
    then have none: "incarnation_of s (cw_db w) = None" using inc(2) by simp
    have "claim_inv (w\<lparr>cw_db := db1, cw_granted := (s, e + 1, i) # cw_granted w\<rparr>)"
      by (rule claim_inv_grant [OF assms wf]) (simp_all add: inc(1) none)
    then show ?thesis using True ins by (simp add: claim_begin_def call)
  next
    case False
    have "claim_inv (w\<lparr>cw_db := db1\<rparr>)" if "e = 0"
      by (rule claim_inv_quiet [OF assms wf]) (auto simp: inc(1))
    then have "claim_inv (w\<lparr>cw_db := db1, cw_inflight := call # cw_inflight w\<rparr>)" if "e = 0"
      using that claim_inv_inflight [where w = "w\<lparr>cw_db := db1\<rparr>"] by simp
    then show ?thesis
      using False ins assms claim_inv_inflight [where w = w] by (auto simp: claim_begin_def call)
  qed
qed

lemma claim_inv_finish:
  assumes "claim_inv w"
  shows "claim_inv (claim_finish call w)"
proof -
  obtain s i e c now where call: "call = (s, i, e, c, now)" by (metis prod_cases5)
  obtain n db1 where cas: "claim_cas s i e c now (cw_db w) = (n, db1)" by (metis surj_pair)
  have wf0: "wf_coord (cw_db w)" using assms by (simp add: claim_inv_def)
  have wf: "wf_coord db1" using wf_claims(2) [OF wf0, of s i e c now] cas by simp
  note inc = incarnation_cas [OF cas wf0]
  define w0 where "w0 = w\<lparr>cw_inflight := remove1 call (cw_inflight w)\<rparr>"
  have inv0: "claim_inv w0" using assms by (simp add: w0_def claim_inv_inflight)
  show ?thesis
  proof (cases "n > 0")
    case True
    then have "incarnation_of s (cw_db w) = Some e" using inc(2) by simp
    then have "claim_inv (w0\<lparr>cw_db := db1, cw_granted := (s, e + 1, i) # cw_granted w0\<rparr>)"
      by (intro claim_inv_grant [OF inv0 wf]) (simp_all add: inc(1) w0_def)
    then show ?thesis using True cas by (simp add: claim_finish_def call w0_def claim_inv_def granted_to_def)
  next
    case False
    have "claim_inv (w0\<lparr>cw_db := db1\<rparr>)"
      using False by (intro claim_inv_quiet [OF inv0 wf]) (auto simp: inc w0_def)
    then show ?thesis using False cas by (simp add: claim_finish_def call w0_def claim_inv_def granted_to_def)
  qed
qed

lemma claim_inv_step: "claim_step w w' \<Longrightarrow> claim_inv w \<Longrightarrow> claim_inv w'"
proof (induction rule: claim_step.induct)
  case (Release w s i k now)
  then have wf: "wf_coord (cw_db w)" by (simp add: claim_inv_def)
  show ?case by (rule claim_inv_quiet [OF Release wf_claims(3) [OF wf]]) (simp add: incarnation_release [OF wf])
next
  case (Intent w s intent now)
  then have wf: "wf_coord (cw_db w)" by (simp add: claim_inv_def)
  show ?case by (rule claim_inv_quiet [OF Intent wf_claims(4) [OF wf]]) (auto simp: incarnation_intent [OF wf])
qed (simp_all add: claim_inv_begin claim_inv_finish)

lemma claim_inv_reachable: "claim_reachable db w \<Longrightarrow> wf_coord db \<Longrightarrow> claim_inv w"
  by (induction rule: claim_reachable.induct) (auto simp: claim_inv_step intro: claim_invI simp: granted_to_def)

text \<open>What an outdated incarnation can still do to the table: nothing.\<close>

lemma sql_update_none:
  assumes "\<forall>r\<in>set t. key r = k \<longrightarrow> \<not> P r"
  shows "sql_update key k P f t = (t, 0)"
proof -
  have "map (\<lambda>r. if key r = k \<and> P r then f r else r) t = t"
    using assms by (intro map_idI) auto
  then show ?thesis using assms by (auto simp: sql_update_def filter_empty_conv)
qed

lemma stale_rows:
  assumes "wf_coord db" "incarnation_of s db = Some m" "e < m"
  shows "\<forall>r\<in>set (session_claims db). sc_session_id r = s \<longrightarrow> \<not> sc_incarnation r = e"
proof -
  obtain z where z: "sql_select sc_session_id s (session_claims db) = Some z" "sc_incarnation z = m"
    using assms(2) by (auto simp: incarnation_of_def getSessionClaim_def)
  have "r = z" if "r \<in> set (session_claims db)" "sc_session_id r = s" for r
    using sql_select_iff [of sc_session_id "session_claims db" s r] that z(1) assms(1)
    by (simp add: wf_coord_def)
  then show ?thesis using z(2) assms(3) by auto
qed

lemma stale_release:
  assumes "wf_coord db" "incarnation_of s db = Some m" "e < m"
  shows "releaseSessionClaim s i e now db = (False, db)"
proof -
  have "\<forall>r\<in>set (session_claims db). sc_session_id r = s \<longrightarrow> \<not> (sc_claimed_by r = Some i \<and> sc_incarnation r = e)"
    using stale_rows [OF assms] by blast
  from sql_update_none [OF this] show ?thesis by (simp add: releaseSessionClaim_def)
qed

lemma stale_claim:
  assumes "wf_coord db" "incarnation_of s db = Some m" "e < m"
  shows "tryClaimSession s i e c now db = (None, db)"
proof -
  have "claim_cas s i e c now db = (0, db)"
    using sql_update_none [OF stale_rows [OF assms]] by (simp add: claim_cas_def)
  moreover have "claim_insert s i e c now db = (0, db)"
    using assms(2) by (auto simp: claim_insert_def sql_insert_def incarnation_of_def getSessionClaim_def)
  ultimately show ?thesis by (cases "e = 0") (simp_all add: tryClaimSession_def)
qed

text \<open>C16: sessions are fenced.  However hosts interleave the statements of \<open>tryClaimSession\<close>
  with releases and stop intents, the incarnations granted for a session strictly increase, so
  none is granted twice; and a host that presents an incarnation older than one granted can
  neither claim nor release: both calls report failure and change nothing.\<close>

theorem claims_fenced:
  assumes "claim_reachable db w" "wf_coord db"
  shows "sorted_wrt (>) (granted_to s w) \<and>
    (\<forall>k\<in>set (granted_to s w). \<forall>e<k. \<forall>i c now.
      tryClaimSession s i e c now (cw_db w) = (None, cw_db w) \<and>
      releaseSessionClaim s i e now (cw_db w) = (False, cw_db w))"
proof (intro conjI ballI allI impI)
  have inv: "claim_inv w" by (rule claim_inv_reachable [OF assms])
  show "sorted_wrt (>) (granted_to s w)" using inv by (simp add: claim_inv_def)
  fix k e i c now
  assume ke: "k \<in> set (granted_to s w)" "e < k"
  obtain m where m: "incarnation_of s (cw_db w) = Some m" "e < m"
    using inv ke unfolding claim_inv_def by fastforce
  have wf: "wf_coord (cw_db w)" using inv by (simp add: claim_inv_def)
  show "tryClaimSession s i e c now (cw_db w) = (None, cw_db w)"
    by (rule stale_claim [OF wf m])
  show "releaseSessionClaim s i e now (cw_db w) = (False, cw_db w)"
    by (rule stale_release [OF wf m])
qed

text \<open>Two hosts race for the first spawn of a session, both with the first statement before the
  second of either; the first restarts the session afterwards.\<close>

definition race_world :: claim_world where
  "race_world =
     (let w0 = \<lparr>cw_db = \<lparr>host_instances = [], session_claims = [], delivery_attempts = [], wake_signals = []\<rparr>,
            cw_inflight = [], cw_granted = []\<rparr>;
          a = (''s'', ''a'', 0, None, ''t0''); b = (''s'', ''b'', 0, None, ''t0''); a2 = (''s'', ''a'', 1, None, ''t1'')
      in claim_finish a2 (claim_begin a2 (claim_finish b (claim_begin b (claim_begin a w0)))))"

lemma race_granted: "granted_to ''s'' race_world = [2, 1]"
  by code_simp

lemma race_reachable:
  "claim_reachable \<lparr>host_instances = [], session_claims = [], delivery_attempts = [], wake_signals = []\<rparr> race_world"
  unfolding race_world_def Let_def
  by (rule Step [OF Step [OF Step [OF Step [OF Step [OF Init]]]]];
      (rule claim_step.Begin | (rule claim_step.Finish, code_simp)))

lemma claims_fenced_witness:
  "sorted_wrt (>) (granted_to ''s'' race_world) \<and>
   releaseSessionClaim ''s'' ''a'' 1 ''t2'' (cw_db race_world) = (False, cw_db race_world)"
proof -
  have wf: "wf_coord \<lparr>host_instances = [], session_claims = [], delivery_attempts = [], wake_signals = []\<rparr>"
    by (simp add: wf_coord_def keys_distinct_def)
  note fenced = claims_fenced [OF race_reachable wf, of "''s''"]
  have "2 \<in> set (granted_to ''s'' race_world)" by (simp add: race_granted)
  then have "releaseSessionClaim ''s'' ''a'' 1 ''t2'' (cw_db race_world) = (False, cw_db race_world)"
    using conjunct2 [OF fenced] by (metis one_less_numeral_iff semiring_norm(76))
  then show ?thesis using conjunct1 [OF fenced] by blast
qed

section \<open>Concurrent consumers of wake signals\<close>

text \<open>A call of \<open>takeWakeSignals\<close> in flight: its consumer, its clock, the rows it read as
  pending and those it has still to try.\<close>

record wake_world =
  ww_db :: coord_db
  ww_calls :: "nat \<rightharpoonup> string \<times> string \<times> wake_signal_row list \<times> wake_signal_row list"
  ww_taken :: "(string \<times> wake_signal_row) list"

definition wake_start :: "nat \<Rightarrow> string \<Rightarrow> string \<Rightarrow> string option \<Rightarrow> wake_world \<Rightarrow> wake_world" where
  "wake_start n c now s w =
     (let p = pending_signals s (ww_db w) in w\<lparr>ww_calls := (ww_calls w)(n \<mapsto> (c, now, p, p))\<rparr>)"

definition wake_turn :: "nat \<Rightarrow> wake_world \<Rightarrow> wake_world" where
  "wake_turn n w =
     (case ww_calls w n of
        Some (c, now, p, x # rest) \<Rightarrow>
          (let (got, db1) = take_one c now x (ww_db w)
           in w\<lparr>ww_db := db1, ww_calls := (ww_calls w)(n \<mapsto> (c, now, p, rest)),
                ww_taken := ww_taken w @ map (Pair c) got\<rparr>)
      | _ \<Rightarrow> w)"

inductive wake_step :: "wake_world \<Rightarrow> wake_world \<Rightarrow> bool" where
  Write: "wake_step w (w\<lparr>ww_db := snd (writeWakeSignal uuid s reason now (ww_db w))\<rparr>)"
| Start: "ww_calls w n = None \<Longrightarrow> wake_step w (wake_start n c now s w)"
| Turn: "wake_step w (wake_turn n w)"

inductive wake_reachable :: "coord_db \<Rightarrow> wake_world \<Rightarrow> bool" for db where
  WInit: "wake_reachable db \<lparr>ww_db = db, ww_calls = (\<lambda>n. None), ww_taken = []\<rparr>"
| WStep: "wake_reachable db w \<Longrightarrow> wake_step w w' \<Longrightarrow> wake_reachable db w'"

text \<open>A call whose turns are not interleaved with others is the function.\<close>

lemma takeWakeSignals_turns:
  assumes "ww_calls w n = Some (c, now, p, xs)"
  shows "(wake_turn n ^^ length xs) w =
    w\<lparr>ww_db := snd (take_loop c now xs (ww_db w)), ww_calls := (ww_calls w)(n \<mapsto> (c, now, p, [])),
      ww_taken := ww_taken w @ map (Pair c) (fst (take_loop c now xs (ww_db w)))\<rparr>"
  using assms
proof (induction xs arbitrary: w)
  case Nil
  then have "(ww_calls w)(n \<mapsto> (c, now, p, [])) = ww_calls w" by auto
  then show ?case by simp
next
  case (Cons x xs)
  obtain got db1 where t: "take_one c now x (ww_db w) = (got, db1)" by (metis surj_pair)
  have turn: "wake_turn n w = w\<lparr>ww_db := db1, ww_calls := (ww_calls w)(n \<mapsto> (c, now, p, xs)),
      ww_taken := ww_taken w @ map (Pair c) got\<rparr>"
    using Cons.prems t by (simp add: wake_turn_def)
  show ?case
    using Cons.IH [of "wake_turn n w"] t
    by (simp add: funpow_Suc_right turn case_prod_unfold Let_def fun_upd_upd fun_upd_same del: funpow.simps fun_upd_apply)
qed

definition consumed :: "wake_signal_row \<Rightarrow> bool" where
  "consumed r = (ws_consumed_at r \<noteq> None)"

text \<open>A row as it was written, whatever was later recorded about its consumption.\<close>

definition blank :: "wake_signal_row \<Rightarrow> wake_signal_row" where
  "blank r = r\<lparr>ws_consumed_at := None, ws_consumed_by := None\<rparr>"

definition mark :: "string \<Rightarrow> string \<Rightarrow> wake_signal_row \<Rightarrow> wake_signal_row" where
  "mark c now r = r\<lparr>ws_consumed_at := Some now, ws_consumed_by := Some c\<rparr>"

lemma mark_blank: "blank r = blank x \<Longrightarrow> mark c now r = mark c now x"
  by (cases r; cases x) (simp add: blank_def mark_def)

lemma mark_simps [simp]:
  "ws_id (mark c now r) = ws_id r" "consumed (mark c now r)" "blank (mark c now r) = blank r"
  "ws_consumed_by (mark c now r) = Some c"
  by (simp_all add: mark_def consumed_def blank_def)

lemma blank_id: "blank r = blank x \<Longrightarrow> ws_id r = ws_id x"
  by (cases r; cases x) (simp add: blank_def)

text \<open>The guarded update hits the one row of the signal, when it is not consumed yet.\<close>

lemma take_one_cases:
  assumes "keys_distinct ws_id (wake_signals db)" "r \<in> set (wake_signals db)" "blank r = blank x"
  shows "take_one c now x db =
    (if consumed r then ([], db)
     else ([mark c now r], db\<lparr>wake_signals := map (\<lambda>y. if y = r then mark c now r else y) (wake_signals db)\<rparr>))"
proof -
  have id: "ws_id r = ws_id x" by (rule blank_id [OF assms(3)])
  have uniq: "y = r" if "y \<in> set (wake_signals db)" "ws_id y = ws_id x" for y
    using assms(1,2) that id inj_onD [of ws_id "set (wake_signals db)" y r]
    by (simp add: keys_distinct_def distinct_map)
  let ?P = "\<lambda>y. ws_consumed_at y = None"
  show ?thesis
  proof (cases "consumed r")
    case True
    then have "\<forall>y\<in>set (wake_signals db). ws_id y = ws_id x \<longrightarrow> \<not> ?P y"
      using uniq by (auto simp: consumed_def)
    from sql_update_none [OF this] show ?thesis using True by (simp add: take_one_def)
  next
    case False
    have m: "map (\<lambda>y. if ws_id y = ws_id x \<and> ?P y then mark c now y else y) (wake_signals db) =
        map (\<lambda>y. if y = r then mark c now r else y) (wake_signals db)"
      using False id by (intro map_cong) (auto simp: consumed_def dest: uniq)
    have f: "filter (\<lambda>y. ws_id y = ws_id x \<and> ?P y) (wake_signals db) \<noteq> []"
      using False id assms(2) by (auto simp: consumed_def filter_empty_conv)
    have "mark c now x = mark c now r" by (rule mark_blank [symmetric, OF assms(3)])
    then show ?thesis
      using False f m by (simp only: take_one_def sql_update_def mark_def [symmetric]) simp
  qed
qed

definition wake_inv :: "wake_world \<Rightarrow> bool" where
  "wake_inv w \<longleftrightarrow>
     keys_distinct ws_id (wake_signals (ww_db w)) \<and>
     distinct (map (\<lambda>t. ws_id (snd t)) (ww_taken w)) \<and>
     snd ` set (ww_taken w) = {r \<in> set (wake_signals (ww_db w)). consumed r} \<and>
     (\<forall>t\<in>set (ww_taken w). ws_consumed_by (snd t) = Some (fst t)) \<and>
     (\<forall>n c now p rest. ww_calls w n = Some (c, now, p, rest) \<longrightarrow>
        set rest \<subseteq> set p \<and>
        (\<forall>x\<in>set p. \<exists>r\<in>set (wake_signals (ww_db w)). blank r = blank x \<and> (x \<in> set rest \<or> consumed r)))"

lemma wake_inv_write:
  assumes "wake_inv w"
  shows "wake_inv (w\<lparr>ww_db := snd (writeWakeSignal uuid s reason now (ww_db w))\<rparr>)"
proof (cases "sql_select ws_id uuid (wake_signals (ww_db w))")
  case None
  define r where "r = \<lparr>ws_id = uuid, ws_session_id = s, ws_reason = reason, ws_created_at = now,
      ws_consumed_at = None, ws_consumed_by = None\<rparr>"
  have db: "snd (writeWakeSignal uuid s reason now (ww_db w)) =
      (ww_db w)\<lparr>wake_signals := wake_signals (ww_db w) @ [r]\<rparr>"
    using None by (simp add: writeWakeSignal_def sql_insert_def r_def)
  have kd: "keys_distinct ws_id (wake_signals (ww_db w) @ [r])"
    using wss.wf_insert [of "wake_signals (ww_db w)" r] assms None
    by (simp add: wake_inv_def sql_insert_def r_def)
  have "\<not> consumed r" by (simp add: consumed_def r_def)
  then have "{x \<in> set (wake_signals (ww_db w) @ [r]). consumed x} = {x \<in> set (wake_signals (ww_db w)). consumed x}"
    by auto
  then show ?thesis
    using assms kd unfolding db by (fastforce simp: wake_inv_def)
next
  case (Some r)
  then show ?thesis using assms by (simp add: writeWakeSignal_def sql_insert_def)
qed

lemma wake_inv_start:
  assumes "wake_inv w"
  shows "wake_inv (wake_start n c now s w)"
proof -
  have "set (pending_signals s (ww_db w)) \<subseteq> set (wake_signals (ww_db w))"
    by (auto simp: pending_signals_def)
  then show ?thesis
    using assms by (fastforce simp: wake_start_def wake_inv_def Let_def)
qed

lemma wake_turn_idle:
  assumes "\<And>c now p x rest. ww_calls w n \<noteq> Some (c, now, p, x # rest)"
  shows "wake_turn n w = w"
proof (cases "ww_calls w n")
  case None
  then show ?thesis by (simp add: wake_turn_def)
next
  case (Some call)
  then obtain c now p xs where "ww_calls w n = Some (c, now, p, xs)" by (metis prod_cases4)
  then show ?thesis using assms by (cases xs) (auto simp: wake_turn_def)
qed

text \<open>A turn on a signal somebody else consumed only drops it from the call's list.\<close>

lemma wake_inv_skip:
  assumes inv: "wake_inv w" and call: "ww_calls w n = Some (c, now, p, x # rest)"
    and r: "r \<in> set (wake_signals (ww_db w))" "blank r = blank x" "consumed r"
  shows "wake_inv (w\<lparr>ww_calls := (ww_calls w)(n \<mapsto> (c, now, p, rest))\<rparr>)"
proof -
  have old: "set (x # rest) \<subseteq> set p"
      "\<forall>y\<in>set p. \<exists>r\<in>set (wake_signals (ww_db w)). blank r = blank y \<and> (y \<in> set (x # rest) \<or> consumed r)"
    using inv call unfolding wake_inv_def by blast+
  have "\<exists>r\<in>set (wake_signals (ww_db w)). blank r = blank y \<and> (y \<in> set rest \<or> consumed r)" if "y \<in> set p" for y
  proof (cases "y = x")
    case True
    then show ?thesis using r by blast
  next
    case False
    then show ?thesis using old(2) that by auto
  qed
  then show ?thesis
    using inv old(1) by (simp add: wake_inv_def)
qed

text \<open>Consuming one row: the rows keep their identities, and no consumed row changes.\<close>

lemma consume_row:
  fixes c now :: string
  assumes kd: "keys_distinct ws_id rows" and r: "r \<in> set rows" "\<not> consumed r"
  defines "rows' \<equiv> map (\<lambda>y. if y = r then mark c now r else y) rows"
  shows "keys_distinct ws_id rows'"
    and "{y \<in> set rows'. consumed y} = insert (mark c now r) {y \<in> set rows. consumed y}"
    and "\<forall>y\<in>set rows. \<exists>z\<in>set rows'. blank z = blank y \<and> (consumed y \<longrightarrow> consumed z)"
    and "ws_id r \<notin> ws_id ` {y \<in> set rows. consumed y}"
proof -
  have "map ws_id rows' = map ws_id rows" by (simp add: rows'_def)
  then show "keys_distinct ws_id rows'" using kd by (simp add: keys_distinct_def)
  show "{y \<in> set rows'. consumed y} = insert (mark c now r) {y \<in> set rows. consumed y}"
    using r by (auto simp: rows'_def image_iff)
  show "\<forall>y\<in>set rows. \<exists>z\<in>set rows'. blank z = blank y \<and> (consumed y \<longrightarrow> consumed z)"
  proof
    fix y
    assume "y \<in> set rows"
    then have "(if y = r then mark c now r else y) \<in> set rows'" by (auto simp: rows'_def)
    then show "\<exists>z\<in>set rows'. blank z = blank y \<and> (consumed y \<longrightarrow> consumed z)"
      by (rule bexI [rotated]) simp
  qed
  have "y = r" if "y \<in> set rows" "ws_id y = ws_id r" for y
    using kd r(1) that inj_onD [of ws_id "set rows" y r] by (simp add: keys_distinct_def distinct_map)
  then show "ws_id r \<notin> ws_id ` {y \<in> set rows. consumed y}"
    using r(2) by auto
qed

lemma wake_inv_consume:
  fixes c now :: string
  assumes inv: "wake_inv w" and r: "r \<in> set (wake_signals (ww_db w))" "\<not> consumed r"
  defines "rows' \<equiv> map (\<lambda>y. if y = r then mark c now r else y) (wake_signals (ww_db w))"
  shows "wake_inv (w\<lparr>ww_db := (ww_db w)\<lparr>wake_signals := rows'\<rparr>, ww_taken := ww_taken w @ [(c, mark c now r)]\<rparr>)"
proof -
  have kd: "keys_distinct ws_id (wake_signals (ww_db w))"
    and taken: "snd ` set (ww_taken w) = {r \<in> set (wake_signals (ww_db w)). consumed r}"
    using inv by (simp_all add: wake_inv_def)
  note rows = consume_row(1-3) [OF kd r, where c = c and now = now, folded rows'_def] consume_row(4) [OF kd r]
  have "ws_id r \<notin> ws_id ` snd ` set (ww_taken w)" using rows(4) by (simp add: taken)
  then have fresh: "distinct (map (\<lambda>t. ws_id (snd t)) (ww_taken w @ [(c, mark c now r)]))"
    using inv by (auto simp: wake_inv_def)
  have calls: "\<exists>z\<in>set rows'. blank z = blank x \<and> (Q \<or> consumed z)"
    if "\<exists>y\<in>set (wake_signals (ww_db w)). blank y = blank x \<and> (Q \<or> consumed y)" for x Q
    using that rows(3) by metis
  show ?thesis
    unfolding wake_inv_def
  proof (intro conjI allI impI ballI)
    fix n d at p rest x
    assume call: "ww_calls (w\<lparr>ww_db := (ww_db w)\<lparr>wake_signals := rows'\<rparr>,
        ww_taken := ww_taken w @ [(c, mark c now r)]\<rparr>) n = Some (d, at, p, rest)"
    then have old: "set rest \<subseteq> set p"
      "\<forall>x\<in>set p. \<exists>r\<in>set (wake_signals (ww_db w)). blank r = blank x \<and> (x \<in> set rest \<or> consumed r)"
      using inv unfolding wake_inv_def by simp_all
    show "set rest \<subseteq> set p" by (rule old(1))
    assume "x \<in> set p"
    then show "\<exists>r\<in>set (wake_signals (ww_db (w\<lparr>ww_db := (ww_db w)\<lparr>wake_signals := rows'\<rparr>,
        ww_taken := ww_taken w @ [(c, mark c now r)]\<rparr>))). blank r = blank x \<and> (x \<in> set rest \<or> consumed r)"
      using calls [OF bspec [OF old(2)]] by simp
  next
    fix t
    assume "t \<in> set (ww_taken (w\<lparr>ww_db := (ww_db w)\<lparr>wake_signals := rows'\<rparr>,
        ww_taken := ww_taken w @ [(c, mark c now r)]\<rparr>))"
    then show "ws_consumed_by (snd t) = Some (fst t)" using inv by (auto simp: wake_inv_def)
  qed (use rows fresh taken in simp_all)
qed

lemma wake_inv_turn:
  assumes inv: "wake_inv w"
  shows "wake_inv (wake_turn n w)"
proof (cases "\<exists>c now p x rest. ww_calls w n = Some (c, now, p, x # rest)")
  case False
  then show ?thesis using inv wake_turn_idle by metis
next
  case True
  then obtain c now p x rest where call: "ww_calls w n = Some (c, now, p, x # rest)" by blast
  have "\<exists>r\<in>set (wake_signals (ww_db w)). blank r = blank x"
    using inv call unfolding wake_inv_def by (meson list.set_intros(1) subsetD)
  then obtain r where r: "r \<in> set (wake_signals (ww_db w))" "blank r = blank x" by blast
  have kd: "keys_distinct ws_id (wake_signals (ww_db w))" using inv by (simp add: wake_inv_def)
  note one = take_one_cases [OF kd r, of c now]
  show ?thesis
  proof (cases "consumed r")
    case True
    then have "wake_turn n w = w\<lparr>ww_calls := (ww_calls w)(n \<mapsto> (c, now, p, rest))\<rparr>"
      using call one by (simp add: wake_turn_def)
    then show ?thesis using wake_inv_skip [OF inv call r True] by simp
  next
    case False
    define rows' where "rows' = map (\<lambda>y. if y = r then mark c now r else y) (wake_signals (ww_db w))"
    define w1 where "w1 = w\<lparr>ww_db := (ww_db w)\<lparr>wake_signals := rows'\<rparr>,
        ww_taken := ww_taken w @ [(c, mark c now r)]\<rparr>"
    have inv1: "wake_inv w1"
      unfolding w1_def rows'_def by (rule wake_inv_consume [OF inv r(1) False])
    have "mark c now r \<in> set (wake_signals (ww_db w1))" using r(1) by (force simp: w1_def rows'_def)
    then have "wake_inv (w1\<lparr>ww_calls := (ww_calls w1)(n \<mapsto> (c, now, p, rest))\<rparr>)"
      using call r(2) by (intro wake_inv_skip [OF inv1, where x = x and r = "mark c now r"]) (simp_all add: w1_def)
    moreover have "wake_turn n w = w1\<lparr>ww_calls := (ww_calls w1)(n \<mapsto> (c, now, p, rest))\<rparr>"
      using call one False by (simp add: wake_turn_def w1_def rows'_def)
    ultimately show ?thesis by simp
  qed
qed

lemma wake_inv_reachable:
  assumes "wake_reachable db w" "keys_distinct ws_id (wake_signals db)" "\<forall>r\<in>set (wake_signals db). \<not> consumed r"
  shows "wake_inv w"
  using assms(1)
proof (induction rule: wake_reachable.induct)
  case WInit
  then show ?case using assms(2,3) by (simp add: wake_inv_def)
next
  case (WStep w w')
  from WStep(2,3) show ?case
    by (cases rule: wake_step.cases) (simp_all add: wake_inv_write wake_inv_start wake_inv_turn)
qed

text \<open>C17: every wake signal goes to exactly one consumer.  However calls of
  \<open>takeWakeSignals\<close> and \<open>writeWakeSignal\<close> interleave, no signal is returned twice, the returned
  rows are exactly the consumed rows of the table and name the consumer they were returned to,
  and a finished call leaves none of the signals it found pending untaken.\<close>

theorem wake_signal_taken_once:
  assumes "wake_reachable db w" "keys_distinct ws_id (wake_signals db)" "\<forall>r\<in>set (wake_signals db). \<not> consumed r"
  shows "distinct (map (\<lambda>t. ws_id (snd t)) (ww_taken w)) \<and>
    snd ` set (ww_taken w) = {r \<in> set (wake_signals (ww_db w)). consumed r} \<and>
    (\<forall>t\<in>set (ww_taken w). ws_consumed_by (snd t) = Some (fst t)) \<and>
    (\<forall>n c now p. ww_calls w n = Some (c, now, p, []) \<longrightarrow>
       (\<forall>x\<in>set p. \<exists>t\<in>set (ww_taken w). blank (snd t) = blank x))"
proof -
  have inv: "wake_inv w" by (rule wake_inv_reachable [OF assms])
  have "\<exists>t\<in>set (ww_taken w). blank (snd t) = blank x"
    if "ww_calls w n = Some (c, now, p, [])" "x \<in> set p" for n c now p x
  proof -
    have "\<exists>r\<in>set (wake_signals (ww_db w)). blank r = blank x \<and> (x \<in> set [] \<or> consumed r)"
      using inv that unfolding wake_inv_def by blast
    then obtain r where "r \<in> snd ` set (ww_taken w)" "blank r = blank x"
      using inv by (auto simp: wake_inv_def)
    then show ?thesis by auto
  qed
  then show ?thesis using inv by (simp add: wake_inv_def)
qed

text \<open>Two consumers read the same pending signal and alternate.\<close>

definition wake_race :: wake_world where
  "wake_race =
     (let w0 = \<lparr>ww_db = \<lparr>host_instances = [], session_claims = [], delivery_attempts = [], wake_signals = []\<rparr>,
            ww_calls = (\<lambda>n. None), ww_taken = []\<rparr>;
          w1 = w0\<lparr>ww_db := snd (writeWakeSignal ''u1'' ''s'' ''mail'' ''t0'' (ww_db w0))\<rparr>
      in wake_turn 1 (wake_turn 0 (wake_start 1 ''b'' ''t1'' None (wake_start 0 ''a'' ''t1'' (Some ''s'') w1))))"

lemma wake_race_reachable:
  "wake_reachable \<lparr>host_instances = [], session_claims = [], delivery_attempts = [], wake_signals = []\<rparr> wake_race"
  unfolding wake_race_def Let_def
  by (rule WStep [OF WStep [OF WStep [OF WStep [OF WStep [OF WInit]]]]];
      (rule wake_step.Write | rule wake_step.Turn | (rule wake_step.Start, simp add: wake_start_def Let_def)))

lemma wake_race_taken:
  "map (\<lambda>t. (fst t, ws_id (snd t))) (ww_taken wake_race) = [(''a'', ''u1'')]"
  by code_simp

lemma wake_signal_taken_once_witness:
  "snd ` set (ww_taken wake_race) = {r \<in> set (wake_signals (ww_db wake_race)). consumed r} \<and> ww_taken wake_race \<noteq> []"
  using wake_signal_taken_once [OF wake_race_reachable] wake_race_taken
  by (auto simp: keys_distinct_def)

end
