(* ===== verification/SessionMailbox.thy ===== *)
theory SessionMailbox
  imports MailboxModel IsoClock SqlTable "HOL-Library.List_Lexorder" "HOL-Library.Char_ord"
    "HOL-Library.Option_ord" "HOL-Library.Product_Lexorder"
begin

text \<open>
  The SQLite mailbox of a session (\<open>nanoclaw/src/mailbox/sqlite\<close>): the inbound tables the host
  owns, the outbound tables the runner owns, and the host's operations on them.  A table is the
  list of its rows; SQL \<open>NULL\<close> is \<open>None\<close>, which sorts below every value as in SQLite.  SQLite's
  \<open>datetime\<close> function and \<open>GLOB\<close> operator and the engine's reading of unusual dates are
  arguments; a thrown error is \<open>Inl\<close> and leaves the database as the statement or transaction
  rolled it back.
\<close>

section \<open>Rows\<close>

datatype inbound_status = Pending | Paused | Processing | Completed | Failed | Cancelled

record message_in =
  mi_id :: string
  mi_seq :: "int option"
  mi_kind :: string
  mi_timestamp :: string
  mi_status :: inbound_status
  mi_process_after :: "string option"
  mi_recurrence :: "string option"
  mi_series_id :: "string option"
  mi_tries :: int
  mi_trigger :: bool
  mi_platform_id :: "string option"
  mi_channel_type :: "string option"
  mi_thread_id :: "string option"
  mi_content :: string
  mi_source_session_id :: "string option"
  mi_on_wake :: bool

record delivered_row =
  dl_message_out_id :: string
  dl_platform_message_id :: "string option"
  dl_status :: string
  dl_delivered_at :: string

record destination_row =
  de_name :: string
  de_display_name :: "string option"
  de_type :: string
  de_channel_type :: "string option"
  de_platform_id :: "string option"
  de_agent_group_id :: "string option"

record routing_row =
  ro_channel_type :: "string option"
  ro_platform_id :: "string option"
  ro_thread_id :: "string option"

record inbound_db =
  messages_in :: "message_in list"
  delivered :: "delivered_row list"
  destinations :: "destination_row list"
  session_routing :: "routing_row option"

record message_out =
  mo_id :: string
  mo_seq :: "int option"
  mo_in_reply_to :: "string option"
  mo_timestamp :: string
  mo_deliver_after :: "string option"
  mo_recurrence :: "string option"
  mo_kind :: string
  mo_platform_id :: "string option"
  mo_channel_type :: "string option"
  mo_thread_id :: "string option"
  mo_content :: string

record processing_ack_row =
  pa_message_id :: string
  pa_status :: string
  pa_status_changed :: string

record container_state_row =
  cs_current_tool :: "string option"
  cs_tool_declared_timeout_ms :: "int option"
  cs_tool_started_at :: "string option"
  cs_updated_at :: string

text \<open>\<open>container_state\<close> is absent from older session databases: \<open>None\<close> is the missing table.\<close>

record outbound_db =
  messages_out :: "message_out list"
  processing_ack :: "processing_ack_row list"
  container_state :: "container_state_row option option"

text \<open>The database functions of one statement: \<open>datetime(x)\<close>, \<open>datetime('now')\<close> and \<open>x GLOB p\<close>; the
  host's clock and the engine's \<open>Date.parse\<close> of non-canonical strings.\<close>

record host_env =
  datetime :: "string \<Rightarrow> string option"
  datetime_now :: string
  glob :: "string \<Rightarrow> string \<Rightarrow> bool"
  now_ms :: int
  other_date :: "string \<Rightarrow> int option"

section \<open>Values between JavaScript and SQL\<close>

fun js_text :: "jsval \<Rightarrow> string" where
  "js_text (Str s) = s"
| "js_text _ = []"

fun js_opt :: "jsval \<Rightarrow> string option" where
  "js_opt (Str s) = Some s"
| "js_opt _ = None"

fun js_int :: "jsval \<Rightarrow> int option" where
  "js_int (Num (Fin r)) = Some \<lfloor>r\<rfloor>"
| "js_int _ = None"

definition opt_js :: "string option \<Rightarrow> jsval" where
  "opt_js x = (case x of Some s \<Rightarrow> Str s | None \<Rightarrow> Null)"

definition int_js :: "int option \<Rightarrow> jsval" where
  "int_js x = (case x of Some n \<Rightarrow> Num (Fin (of_int n)) | None \<Rightarrow> Null)"

fun status_text :: "inbound_status \<Rightarrow> string" where
  "status_text Pending = ''pending''"
| "status_text Paused = ''paused''"
| "status_text Processing = ''processing''"
| "status_text Completed = ''completed''"
| "status_text Failed = ''failed''"
| "status_text Cancelled = ''cancelled''"

definition status_of :: "string \<Rightarrow> inbound_status" where
  "status_of s = (case find (\<lambda>st. status_text st = s) [Paused, Processing, Completed, Failed, Cancelled] of
     Some st \<Rightarrow> st | None \<Rightarrow> Pending)"

definition row_of_record :: "jsval \<Rightarrow> message_in" where
  "row_of_record rec =
     \<lparr>mi_id = js_text (get_prop rec ''id''), mi_seq = js_int (get_prop rec ''sequence''),
      mi_kind = js_text (get_prop rec ''kind''), mi_timestamp = js_text (get_prop rec ''timestamp''),
      mi_status = status_of (js_text (get_prop rec ''status'')),
      mi_process_after = js_opt (get_prop rec ''processAfter''),
      mi_recurrence = js_opt (get_prop rec ''recurrence''), mi_series_id = js_opt (get_prop rec ''seriesId''),
      mi_tries = (case js_int (get_prop rec ''tries'') of Some n \<Rightarrow> n | None \<Rightarrow> 0),
      mi_trigger = (get_prop rec ''trigger'' = Bool True), mi_platform_id = js_opt (get_prop rec ''platformId''),
      mi_channel_type = js_opt (get_prop rec ''channelType''), mi_thread_id = js_opt (get_prop rec ''threadId''),
      mi_content = js_text (get_prop rec ''content''),
      mi_source_session_id = js_opt (get_prop rec ''sourceSessionId''),
      mi_on_wake = (get_prop rec ''onWake'' = Bool True)\<rparr>"

text \<open>\<open>SQLITE_TIMESTAMP\<close> and \<open>sqliteTimestamp\<close>.\<close>

definition sqlite_shape :: "string \<Rightarrow> bool" where
  "sqlite_shape s =
     (19 \<le> length s \<and> s ! 4 = CHR ''-'' \<and> s ! 7 = CHR ''-'' \<and> (s ! 10 = CHR '' '' \<or> s ! 10 = CHR ''T'')
      \<and> s ! 13 = CHR '':'' \<and> s ! 16 = CHR '':''
      \<and> all_digits (map ((!) s) [0, 1, 2, 3, 5, 6, 8, 9, 11, 12, 14, 15, 17, 18])
      \<and> (let f = drop 19 s in f = [] \<or> hd f = CHR ''.'' \<and> tl f \<noteq> [] \<and> all_digits (tl f)))"

definition sqliteTimestamp :: "host_env \<Rightarrow> string \<Rightarrow> string" where
  "sqliteTimestamp env value =
     (let source = (if sqlite_shape value then value[10 := CHR ''T''] @ ''Z'' else value)
      in case date_parse (other_date env) source of Some ms \<Rightarrow> to_iso ms | None \<Rightarrow> value)"

section \<open>Times in the queries\<close>

text \<open>\<open>x IS NULL OR datetime(x) <= datetime('now')\<close>, and \<open>datetime(x) > datetime('now')\<close>; a comparison
  with \<open>NULL\<close> is not true.\<close>

definition due :: "host_env \<Rightarrow> string option \<Rightarrow> bool" where
  "due env x = (case x of None \<Rightarrow> True | Some t \<Rightarrow> (case datetime env t of Some d \<Rightarrow> d \<le> datetime_now env | None \<Rightarrow> False))"

definition in_future :: "host_env \<Rightarrow> string option \<Rightarrow> bool" where
  "in_future env x =
     (case Option.bind x (datetime env) of Some d \<Rightarrow> d > datetime_now env | None \<Rightarrow> False)"

section \<open>Writing inbound messages\<close>

definition next_even :: "int \<Rightarrow> int" where
  "next_even m = (if m < 2 then 2 else m + 2 - m mod 2)"

text \<open>\<open>COALESCE(MAX(seq), 0)\<close>; \<open>nextEvenAcross\<close> is over the databases it is given.\<close>

definition table_max :: "int option list \<Rightarrow> int" where
  "table_max xs = (let ns = List.map_filter id xs in if ns = [] then 0 else foldr max (tl ns) (hd ns))"

definition nextEvenSeq :: "inbound_db \<Rightarrow> int" where
  "nextEvenSeq db = next_even (table_max (map mi_seq (messages_in db)))"

definition nextEvenAcross :: "inbound_db option \<Rightarrow> outbound_db option \<Rightarrow> int" where
  "nextEvenAcross inb outb =
     next_even (max (case inb of Some db \<Rightarrow> table_max (map mi_seq (messages_in db)) | None \<Rightarrow> 0)
                    (case outb of Some db \<Rightarrow> table_max (map mo_seq (messages_out db)) | None \<Rightarrow> 0))"

text \<open>\<open>INSERT INTO messages_in\<close>: the primary key and the unique sequence.\<close>

definition insert_row_in :: "message_in \<Rightarrow> inbound_db \<Rightarrow> unit result \<times> inbound_db" where
  "insert_row_in r db =
     (if mi_id r \<in> mi_id ` set (messages_in db) then (Inl ''UNIQUE constraint failed: messages_in.id'', db)
      else if mi_seq r \<noteq> None \<and> mi_seq r \<in> mi_seq ` set (messages_in db)
        then (Inl ''UNIQUE constraint failed: messages_in.seq'', db)
      else (Inr (), db\<lparr>messages_in := messages_in db @ [r]\<rparr>))"

definition insertMessage :: "jsval \<Rightarrow> int \<Rightarrow> inbound_db \<Rightarrow> unit result \<times> inbound_db" where
  "insertMessage message seq db =
     (case createInboundRecord message (Num (Fin (of_int seq))) of
        Inl e \<Rightarrow> (Inl e, db)
      | Inr rec \<Rightarrow> insert_row_in (row_of_record rec) db)"

definition insertTaskRow :: "jsval \<Rightarrow> int \<Rightarrow> int \<Rightarrow> inbound_db \<Rightarrow> unit result \<times> inbound_db" where
  "insertTaskRow task seq nowMs db =
     (case createTaskInboundRecord task (Num (Fin (of_int seq))) (Str (to_iso nowMs)) of
        Inl e \<Rightarrow> (Inl e, db)
      | Inr rec \<Rightarrow> insert_row_in (row_of_record rec) db)"

section \<open>The state of inbound messages\<close>

text \<open>\<open>UPDATE messages_in SET f WHERE P\<close>, with the number of changed rows.\<close>

definition update_in :: "(message_in \<Rightarrow> bool) \<Rightarrow> (message_in \<Rightarrow> message_in) \<Rightarrow> inbound_db \<Rightarrow> nat \<times> inbound_db" where
  "update_in P f db =
     (length (filter P (messages_in db)), db\<lparr>messages_in := map (\<lambda>r. if P r then f r else r) (messages_in db)\<rparr>)"

definition delete_in :: "(message_in \<Rightarrow> bool) \<Rightarrow> inbound_db \<Rightarrow> nat \<times> inbound_db" where
  "delete_in P db =
     (length (filter P (messages_in db)), db\<lparr>messages_in := filter (\<lambda>r. \<not> P r) (messages_in db)\<rparr>)"

definition countDueMessages :: "host_env \<Rightarrow> inbound_db \<Rightarrow> nat" where
  "countDueMessages env db =
     length (filter (\<lambda>r. mi_status r = Pending \<and> mi_trigger r \<and> due env (mi_process_after r)) (messages_in db))"

definition markMessageFailed :: "string \<Rightarrow> inbound_db \<Rightarrow> inbound_db" where
  "markMessageFailed i db = snd (update_in (\<lambda>r. mi_id r = i) (\<lambda>r. r\<lparr>mi_status := Failed\<rparr>) db)"

definition retryWithBackoff :: "int \<Rightarrow> string \<Rightarrow> int \<Rightarrow> inbound_db \<Rightarrow> inbound_db" where
  "retryWithBackoff nowMs i backoffSec db =
     snd (update_in (\<lambda>r. mi_id r = i)
       (\<lambda>r. r\<lparr>mi_tries := mi_tries r + 1, mi_process_after := Some (to_iso (nowMs + backoffSec * 1000))\<rparr>) db)"

definition retry_message :: "string \<Rightarrow> inbound_status \<Rightarrow> inbound_db \<Rightarrow> (string \<times> int \<times> string option) option" where
  "retry_message i st db =
     map_option (\<lambda>r. (mi_id r, mi_tries r, mi_process_after r))
       (find (\<lambda>r. mi_id r = i \<and> mi_status r = st) (messages_in db))"

definition getMessageForRetry :: "host_env \<Rightarrow> string \<Rightarrow> inbound_status \<Rightarrow> inbound_db \<Rightarrow> (string \<times> int \<times> string option) option" where
  "getMessageForRetry env i st db =
     map_option (\<lambda>(j, tries, p). (j, tries, map_option (sqliteTimestamp env) p)) (retry_message i st db)"

definition not_terminal :: "inbound_status \<Rightarrow> bool" where
  "not_terminal st = (st \<noteq> Completed \<and> st \<noteq> Failed)"

text \<open>One acknowledgement: message id and status.\<close>

definition apply_ack :: "string \<times> string \<Rightarrow> inbound_db \<Rightarrow> inbound_db" where
  "apply_ack ack db =
     snd (update_in (\<lambda>r. mi_id r = fst ack \<and> not_terminal (mi_status r))
       (\<lambda>r. r\<lparr>mi_status := (if snd ack = ''script-skip:error'' then Failed else Completed)\<rparr>) db)"

definition applyProcessingAcks :: "(string \<times> string) list \<Rightarrow> inbound_db \<Rightarrow> inbound_db" where
  "applyProcessingAcks acks db = (if acks = [] then db else fold apply_ack acks db)"

definition terminal_acks :: "outbound_db \<Rightarrow> processing_ack_row list" where
  "terminal_acks outb =
     filter (\<lambda>a. pa_status a \<in> set [''completed'', ''failed'', ''script-skip:error'']) (processing_ack outb)"

definition syncProcessingAcks :: "outbound_db \<Rightarrow> inbound_db \<Rightarrow> inbound_db" where
  "syncProcessingAcks outb db =
     (let completed = map (\<lambda>a. (pa_message_id a, pa_status a)) (terminal_acks outb)
      in if completed = [] then db else fold apply_ack completed db)"

definition getDeliveredIds :: "inbound_db \<Rightarrow> string set" where
  "getDeliveredIds db = dl_message_out_id ` set (delivered db)"

definition markDelivered :: "int \<Rightarrow> string \<Rightarrow> string option \<Rightarrow> inbound_db \<Rightarrow> inbound_db" where
  "markDelivered nowMs i platformMessageId db =
     db\<lparr>delivered := fst (sql_insert dl_message_out_id
         \<lparr>dl_message_out_id = i, dl_platform_message_id = platformMessageId, dl_status = ''delivered'',
          dl_delivered_at = to_iso nowMs\<rparr> (delivered db))\<rparr>"

definition markDeliveryFailed :: "int \<Rightarrow> string \<Rightarrow> inbound_db \<Rightarrow> inbound_db" where
  "markDeliveryFailed nowMs i db =
     db\<lparr>delivered := fst (sql_insert dl_message_out_id
         \<lparr>dl_message_out_id = i, dl_platform_message_id = None, dl_status = ''failed'',
          dl_delivered_at = to_iso nowMs\<rparr> (delivered db))\<rparr>"

definition getInboundSourceSessionId :: "string \<Rightarrow> inbound_db \<Rightarrow> string option" where
  "getInboundSourceSessionId i db =
     Option.bind (find (\<lambda>r. mi_id r = i) (messages_in db)) mi_source_session_id"

text \<open>\<open>ORDER BY seq DESC LIMIT 1\<close>\<close>

definition newest :: "message_in list \<Rightarrow> message_in option" where
  "newest rows = (case rev (sort_key mi_seq rows) of r # _ \<Rightarrow> Some r | [] \<Rightarrow> None)"

definition getMostRecentPeerSourceSessionId :: "string \<Rightarrow> inbound_db \<Rightarrow> string option" where
  "getMostRecentPeerSourceSessionId peer db =
     Option.bind (newest (filter (\<lambda>r. mi_channel_type r = Some ''agent'' \<and> mi_platform_id r = Some peer \<and>
        mi_source_session_id r \<noteq> None) (messages_in db))) mi_source_session_id"

section \<open>Routing and destinations\<close>

definition upsertSessionRouting :: "routing_row \<Rightarrow> inbound_db \<Rightarrow> inbound_db" where
  "upsertSessionRouting routing db = db\<lparr>session_routing := Some routing\<rparr>"

definition setRouting :: "jsval \<Rightarrow> inbound_db \<Rightarrow> unit result \<times> inbound_db" where
  "setRouting routing db =
     (case parseSessionRoutingRecord routing of
        Inl e \<Rightarrow> (Inl e, db)
      | Inr rec \<Rightarrow> (Inr (), upsertSessionRouting
            \<lparr>ro_channel_type = js_opt (get_prop rec ''channelType''),
             ro_platform_id = js_opt (get_prop rec ''platformId''),
             ro_thread_id = js_opt (get_prop rec ''threadId'')\<rparr> db))"

fun traverse :: "('a \<Rightarrow> 'b result) \<Rightarrow> 'a list \<Rightarrow> 'b list result" where
  "traverse f [] = Inr []"
| "traverse f (x # xs) = bind_result (f x) (\<lambda>y. bind_result (traverse f xs) (\<lambda>ys. Inr (y # ys)))"

definition destination_of :: "jsval \<Rightarrow> destination_row result" where
  "destination_of entry =
     bind_result (parseDestinationRecord entry) (\<lambda>rec. Inr
       \<lparr>de_name = js_text (get_prop rec ''name''), de_display_name = js_opt (get_prop rec ''displayName''),
        de_type = js_text (get_prop rec ''type''), de_channel_type = js_opt (get_prop rec ''channelType''),
        de_platform_id = js_opt (get_prop rec ''platformId''), de_agent_group_id = js_opt (get_prop rec ''agentGroupId'')\<rparr>)"

text \<open>One transaction; the table is empty before the inserts.\<close>

definition replace_destination_rows :: "destination_row list \<Rightarrow> inbound_db \<Rightarrow> unit result \<times> inbound_db" where
  "replace_destination_rows rows db =
     (if distinct (map de_name rows) then (Inr (), db\<lparr>destinations := rows\<rparr>)
      else (Inl ''UNIQUE constraint failed: destinations.name'', db))"

definition replaceDestinations :: "jsval list \<Rightarrow> inbound_db \<Rightarrow> unit result \<times> inbound_db" where
  "replaceDestinations entries db =
     (case traverse destination_of entries of
        Inl e \<Rightarrow> (Inl e, db)
      | Inr rows \<Rightarrow> replace_destination_rows rows db)"

section \<open>Tasks\<close>

text \<open>\<open>(id = ? OR series_id = ?) AND kind = 'task'\<close>\<close>

definition in_series :: "string \<Rightarrow> message_in \<Rightarrow> bool" where
  "in_series i r = (mi_id r = i \<or> mi_series_id r = Some i)"

definition is_task :: "message_in \<Rightarrow> bool" where
  "is_task r = (mi_kind r = ''task'')"

definition live :: "message_in \<Rightarrow> bool" where
  "live r = (mi_status r = Pending \<or> mi_status r = Paused)"

definition cancelTask :: "string \<Rightarrow> inbound_db \<Rightarrow> nat \<times> inbound_db" where
  "cancelTask i = update_in (\<lambda>r. in_series i r \<and> is_task r \<and> live r)
     (\<lambda>r. r\<lparr>mi_status := Cancelled, mi_recurrence := None\<rparr>)"

definition cancelAllTasks :: "inbound_db \<Rightarrow> nat \<times> inbound_db" where
  "cancelAllTasks = update_in (\<lambda>r. is_task r \<and> live r) (\<lambda>r. r\<lparr>mi_status := Cancelled, mi_recurrence := None\<rparr>)"

definition pauseTask :: "string \<Rightarrow> inbound_db \<Rightarrow> nat \<times> inbound_db" where
  "pauseTask i = update_in (\<lambda>r. in_series i r \<and> is_task r \<and> mi_status r = Pending) (\<lambda>r. r\<lparr>mi_status := Paused\<rparr>)"

definition resumeTask :: "string \<Rightarrow> inbound_db \<Rightarrow> nat \<times> inbound_db" where
  "resumeTask i = update_in (\<lambda>r. in_series i r \<and> is_task r \<and> mi_status r = Paused) (\<lambda>r. r\<lparr>mi_status := Pending\<rparr>)"

definition deleteTask :: "string \<Rightarrow> inbound_db \<Rightarrow> nat \<times> inbound_db" where
  "deleteTask i = delete_in (\<lambda>r. in_series i r \<and> is_task r)"

text \<open>\<open>JSON.stringify\<close>; \<open>num_text\<close> is the text of a finite number.  \<open>None\<close> is \<open>undefined\<close>.\<close>

fun stringify :: "(jsnum \<Rightarrow> string) \<Rightarrow> jsval \<Rightarrow> string option"
  and stringify_list :: "(jsnum \<Rightarrow> string) \<Rightarrow> jsval list \<Rightarrow> string list"
  and stringify_members :: "(jsnum \<Rightarrow> string) \<Rightarrow> (string \<times> jsval) list \<Rightarrow> string list" where
  "stringify nt Undefined = None"
| "stringify nt Null = Some ''null''"
| "stringify nt (Bool b) = Some (if b then ''true'' else ''false'')"
| "stringify nt (Num n) = Some (case n of Fin _ \<Rightarrow> nt n | _ \<Rightarrow> ''null'')"
| "stringify nt (Str s) = Some (quote s)"
| "stringify nt (Arr xs) = Some (''['' @ join_with CHR '','' (stringify_list nt xs) @ '']'')"
| "stringify nt (Obj ps) = Some (CHR ''{'' # join_with CHR '','' (stringify_members nt ps) @ ''}'')"
| "stringify_list nt [] = []"
| "stringify_list nt (x # xs) = (case stringify nt x of Some s \<Rightarrow> s | None \<Rightarrow> ''null'') # stringify_list nt xs"
| "stringify_members nt [] = []"
| "stringify_members nt ((k, v) # ps) =
     (case stringify nt v of Some s \<Rightarrow> [quote k @ CHR '':'' # s] | None \<Rightarrow> []) @ stringify_members nt ps"

text \<open>An assignment \<open>parsed.k = v\<close> in a module (strict mode); a property of an array is not
  part of its JSON text.\<close>

fun set_prop :: "string \<Rightarrow> jsval \<Rightarrow> jsval \<Rightarrow> jsval result" where
  "set_prop k x (Obj ps) = Inr (Obj (AList.update k x ps))"
| "set_prop k x (Arr xs) = Inr (Arr xs)"
| "set_prop k x v = Inl ''TypeError''"

record task_update =
  tu_prompt :: "string option"
  tu_script :: "string option option"
  tu_recurrence :: "string option option"
  tu_process_after :: "string option"

definition merge_content :: "(jsnum \<Rightarrow> string) \<Rightarrow> task_update \<Rightarrow> string \<Rightarrow> string result" where
  "merge_content nt u content =
     (if tu_prompt u = None \<and> tu_script u = None then Inr content
      else (case json_parse content of
              None \<Rightarrow> Inl ''SyntaxError''
            | Some v \<Rightarrow>
                bind_result (case tu_prompt u of Some p \<Rightarrow> set_prop ''prompt'' (Str p) v | None \<Rightarrow> Inr v) (\<lambda>v1.
                  bind_result (case tu_script u of Some sc \<Rightarrow> set_prop ''script'' (opt_js sc) v1 | None \<Rightarrow> Inr v1) (\<lambda>v2.
                    case stringify nt v2 of Some t \<Rightarrow> Inr t | None \<Rightarrow> Inl ''NOT NULL constraint failed: messages_in.content''))))"

definition update_row :: "task_update \<Rightarrow> string \<Rightarrow> message_in \<Rightarrow> message_in" where
  "update_row u content r =
     (let r1 = r\<lparr>mi_content := content\<rparr>;
          r2 = (case tu_process_after u of Some t \<Rightarrow> r1\<lparr>mi_process_after := Some t\<rparr> | None \<Rightarrow> r1)
      in case tu_recurrence u of Some c \<Rightarrow> r2\<lparr>mi_recurrence := c\<rparr> | None \<Rightarrow> r2)"

fun update_rows :: "(jsnum \<Rightarrow> string) \<Rightarrow> task_update \<Rightarrow> (string \<times> string) list \<Rightarrow> inbound_db \<Rightarrow> inbound_db result" where
  "update_rows nt u [] db = Inr db"
| "update_rows nt u ((i, content) # rows) db =
     bind_result (merge_content nt u content) (\<lambda>c.
       update_rows nt u rows (snd (update_in (\<lambda>r. mi_id r = i) (update_row u c) db)))"

definition updatable :: "host_env \<Rightarrow> message_in \<Rightarrow> bool" where
  "updatable env r = (mi_status r = Paused \<or> mi_status r = Pending \<and> in_future env (mi_process_after r))"

definition updateTask :: "host_env \<Rightarrow> (jsnum \<Rightarrow> string) \<Rightarrow> string \<Rightarrow> task_update \<Rightarrow> inbound_db \<Rightarrow> nat result \<times> inbound_db" where
  "updateTask env nt taskId u db =
     (let rows = map (\<lambda>r. (mi_id r, mi_content r))
            (filter (\<lambda>r. in_series taskId r \<and> is_task r \<and> updatable env r) (messages_in db))
      in if rows = [] then (Inr 0, db)
         else (case update_rows nt u rows db of Inl e \<Rightarrow> (Inl e, db) | Inr db1 \<Rightarrow> (Inr (length rows), db1)))"

record recurring =
  rm_id :: string
  rm_content :: string
  rm_recurrence :: string
  rm_series_id :: "string option"

definition completed_recurring :: "message_in \<Rightarrow> bool" where
  "completed_recurring r = ((mi_status r = Completed \<or> mi_status r = Failed) \<and> mi_recurrence r \<noteq> None)"

definition getCompletedRecurring :: "inbound_db \<Rightarrow> recurring list" where
  "getCompletedRecurring db =
     map (\<lambda>r. \<lparr>rm_id = mi_id r, rm_content = mi_content r, rm_recurrence = the (mi_recurrence r),
               rm_series_id = mi_series_id r\<rparr>)
       (filter completed_recurring (messages_in db))"

text \<open>The length of the leading run of failed occurrences, newest first.\<close>

definition trailingFailedRuns :: "string \<Rightarrow> inbound_db \<Rightarrow> nat" where
  "trailingFailedRuns k db =
     length (takeWhile (\<lambda>r. mi_status r = Failed)
       (rev (sort_key mi_seq
         (filter (\<lambda>r. in_series k r \<and> is_task r \<and> (mi_status r = Completed \<or> mi_status r = Failed)) (messages_in db)))))"

text \<open>A \<open>TaskWrite\<close> object; \<open>status\<close> may be absent.\<close>

definition task_write :: "string \<Rightarrow> string option \<Rightarrow> string option \<Rightarrow> string option \<Rightarrow> string \<Rightarrow> string option \<Rightarrow> jsval" where
  "task_write i series processAfter recurrence content status =
     Obj ([(''id'', Str i), (''seriesId'', opt_js series), (''processAfter'', opt_js processAfter),
           (''recurrence'', opt_js recurrence), (''content'', Str content)]
          @ (case status of Some s \<Rightarrow> [(''status'', Str s)] | None \<Rightarrow> []))"

definition insertRecurrence ::
    "recurring \<Rightarrow> string \<Rightarrow> string option \<Rightarrow> string \<Rightarrow> int \<Rightarrow> inbound_db \<Rightarrow> unit result \<times> inbound_db" where
  "insertRecurrence msg newId nextRun status nowMs db =
     insertTaskRow (task_write newId (rm_series_id msg) nextRun (Some (rm_recurrence msg)) (rm_content msg) (Some status))
       (nextEvenSeq db) nowMs db"

definition clearRecurrence :: "string \<Rightarrow> inbound_db \<Rightarrow> inbound_db" where
  "clearRecurrence i db = snd (update_in (\<lambda>r. mi_id r = i) (\<lambda>r. r\<lparr>mi_recurrence := None\<rparr>) db)"

text \<open>One transaction: the clear runs only after the insert, and an error undoes both.\<close>

definition armNextTask :: "string \<Rightarrow> jsval \<Rightarrow> int \<Rightarrow> inbound_db \<Rightarrow> unit result \<times> inbound_db" where
  "armNextTask originalId task nowMs db =
     (case insertTaskRow task (nextEvenAcross (Some db) None) nowMs db of
        (Inl e, _) \<Rightarrow> (Inl e, db)
      | (Inr _, db1) \<Rightarrow> (Inr (), clearRecurrence originalId db1))"

definition cancel_task :: "string option \<Rightarrow> inbound_db \<Rightarrow> nat \<times> inbound_db" where
  "cancel_task taskId db = (case taskId of None \<Rightarrow> cancelAllTasks db | Some i \<Rightarrow> cancelTask i db)"

section \<open>Task queries\<close>

definition taskRecord :: "host_env \<Rightarrow> message_in \<Rightarrow> jsval result" where
  "taskRecord env r = parseTaskRecord (Obj
     [(''id'', Str (mi_id r)), (''seriesId'', opt_js (mi_series_id r)), (''status'', Str (status_text (mi_status r))),
      (''processAfter'', opt_js (map_option (sqliteTimestamp env) (mi_process_after r))),
      (''recurrence'', opt_js (mi_recurrence r)), (''content'', Str (mi_content r)),
      (''timestamp'', Str (sqliteTimestamp env (mi_timestamp r))), (''tries'', int_js (Some (mi_tries r))),
      (''sequence'', int_js (mi_seq r))])"

text \<open>\<open>ROW_NUMBER() OVER (PARTITION BY series_id ORDER BY ...) = 1\<close>: the first row of each series.\<close>

definition live_rank :: "host_env \<Rightarrow> message_in \<Rightarrow> nat \<times> int option" where
  "live_rank env r = (if mi_status r = Paused \<or> in_future env (mi_process_after r) then 0 else 1, mi_seq r)"

definition first_of_series :: "host_env \<Rightarrow> message_in list \<Rightarrow> message_in list" where
  "first_of_series env rows =
     filter (\<lambda>r. take 1 (sort_key (live_rank env) (filter (\<lambda>q. mi_series_id q = mi_series_id r) rows)) = [r]) rows"

definition listLiveTasks :: "host_env \<Rightarrow> inbound_status option \<Rightarrow> inbound_db \<Rightarrow> jsval list result" where
  "listLiveTasks env status db =
     (let rows = filter (\<lambda>r. is_task r \<and> (case status of Some st \<Rightarrow> mi_status r = st | None \<Rightarrow> live r)) (messages_in db)
      in traverse (taskRecord env)
           (sort_key (\<lambda>r. (Option.bind (mi_process_after r) (datetime env), mi_seq r)) (first_of_series env rows)))"

text \<open>The \<open>ORDER BY\<close> of \<open>getTask\<close>: the \<open>CASE\<close> rank, the sequence of live rows upwards, then the
  sequence downwards with \<open>NULL\<close> last.\<close>

definition desc_key :: "int option \<Rightarrow> nat \<times> int" where
  "desc_key s = (case s of Some n \<Rightarrow> (0, - n) | None \<Rightarrow> (1, 0))"

definition task_rank :: "host_env \<Rightarrow> message_in \<Rightarrow> nat \<times> int option \<times> nat \<times> int" where
  "task_rank env r =
     (if updatable env r then 0 else if mi_status r = Pending then 1 else 2,
      if live r then mi_seq r else None, desc_key (mi_seq r))"

definition first_by :: "('a \<Rightarrow> 'k::linorder) \<Rightarrow> 'a list \<Rightarrow> 'a option" where
  "first_by k rows = (case sort_key k rows of r # _ \<Rightarrow> Some r | [] \<Rightarrow> None)"

definition optional_result :: "'a result option \<Rightarrow> 'a option result" where
  "optional_result x = (case x of None \<Rightarrow> Inr None | Some (Inl e) \<Rightarrow> Inl e | Some (Inr v) \<Rightarrow> Inr (Some v))"

definition getTask :: "host_env \<Rightarrow> string \<Rightarrow> inbound_db \<Rightarrow> jsval option result" where
  "getTask env i db =
     optional_result (map_option (taskRecord env)
       (first_by (task_rank env) (filter (\<lambda>r. is_task r \<and> in_series i r) (messages_in db))))"

fun sql_max :: "string list \<Rightarrow> string option" where
  "sql_max [] = None"
| "sql_max (x # xs) = Some (foldr max xs x)"

definition getTaskStats :: "host_env \<Rightarrow> string \<Rightarrow> inbound_db \<Rightarrow> nat \<times> string option \<times> nat" where
  "getTaskStats env i db =
     (let rows = filter (\<lambda>r. is_task r \<and> in_series i r) (messages_in db);
          done_rows = filter (\<lambda>r. mi_status r = Completed) rows
      in (length done_rows, map_option (sqliteTimestamp env) (sql_max (List.map_filter mi_process_after done_rows)),
          length (filter (\<lambda>r. mi_status r = Failed) rows)))"

definition countLiveTasks :: "inbound_db \<Rightarrow> nat" where
  "countLiveTasks db = length (filter (\<lambda>r. is_task r \<and> live r) (messages_in db))"

definition findTaskBySeriesSlug :: "host_env \<Rightarrow> string \<Rightarrow> inbound_db \<Rightarrow> jsval option result" where
  "findTaskBySeriesSlug env slug db =
     optional_result (map_option (taskRecord env)
       (first_by (\<lambda>r. (if live r then 0 else 1 :: nat, desc_key (mi_seq r)))
         (filter (\<lambda>r. is_task r \<and>
            (case mi_series_id r of Some s \<Rightarrow> glob env s (slug @ ''-[0-9a-f][0-9a-f][0-9a-f][0-9a-f]'') | None \<Rightarrow> False))
          (messages_in db))))"

section \<open>Pruning and history\<close>

text \<open>SQL \<open>LIMIT n\<close>: a negative limit is none.\<close>

definition sql_limit :: "int \<Rightarrow> 'a list \<Rightarrow> 'a list" where
  "sql_limit n xs = (if n < 0 then xs else take (nat n) xs)"

text \<open>\<open>x NOT IN (list)\<close>, when it is true rather than false or \<open>NULL\<close>.\<close>

definition sql_not_in :: "'a option \<Rightarrow> 'a option list \<Rightarrow> bool" where
  "sql_not_in x xs = (xs = [] \<or> x \<noteq> None \<and> None \<notin> set xs \<and> x \<notin> set xs)"

definition prunable :: "string \<Rightarrow> message_in \<Rightarrow> bool" where
  "prunable channelType r = (mi_channel_type r = Some channelType \<and> mi_status r = Pending)"

definition before_time :: "host_env \<Rightarrow> string \<Rightarrow> message_in \<Rightarrow> bool" where
  "before_time env before r =
     (case (datetime env (mi_timestamp r), datetime env before) of (Some a, Some b) \<Rightarrow> a < b | _ \<Rightarrow> False)"

definition prunePendingMessages :: "host_env \<Rightarrow> string \<Rightarrow> string \<Rightarrow> int \<Rightarrow> inbound_db \<Rightarrow> nat \<times> inbound_db" where
  "prunePendingMessages env channelType before keep db =
     (let (expired, db1) = delete_in (\<lambda>r. prunable channelType r \<and> before_time env before r) db;
          kept = map mi_seq (sql_limit keep (rev (sort_key mi_seq (filter (prunable channelType) (messages_in db1)))));
          (overflow, db2) = delete_in (\<lambda>r. prunable channelType r \<and> sql_not_in (mi_seq r) kept) db1
      in (expired + overflow, db2))"

definition getInboundHistory :: "host_env \<Rightarrow> int \<Rightarrow> inbound_db \<Rightarrow> (string \<times> string \<times> string) list" where
  "getInboundHistory env limit db =
     map (\<lambda>r. (sqliteTimestamp env (mi_timestamp r), mi_kind r, mi_content r))
       (sql_limit limit (rev (sort_key mi_seq (messages_in db))))"

definition getConversationRoot :: "host_env \<Rightarrow> inbound_db \<Rightarrow> (string \<times> string) option" where
  "getConversationRoot env db =
     map_option (\<lambda>r. (sqliteTimestamp env (mi_timestamp r), mi_content r))
       (first_by mi_seq (filter (\<lambda>r. mi_kind r \<in> set [''chat'', ''chat-sdk''] \<and> mi_trigger r \<and>
          mi_channel_type r \<notin> set [Some ''session-echo'', Some ''agent'']) (messages_in db)))"

section \<open>The outbound side\<close>

definition ack_record :: "host_env \<Rightarrow> processing_ack_row \<Rightarrow> (string \<times> string \<times> string) result" where
  "ack_record env a =
     bind_result (parseProcessingAckRecord (Obj [(''messageId'', Str (pa_message_id a)), (''status'', Str (pa_status a)),
         (''statusChanged'', Str (sqliteTimestamp env (pa_status_changed a)))]))
       (\<lambda>rec. Inr (js_text (get_prop rec ''messageId''), js_text (get_prop rec ''status''),
          js_text (get_prop rec ''statusChanged'')))"

definition getTerminalProcessingAcks :: "host_env \<Rightarrow> outbound_db \<Rightarrow> (string \<times> string \<times> string) list result" where
  "getTerminalProcessingAcks env outb = traverse (ack_record env) (terminal_acks outb)"

definition processing_claim_rows :: "outbound_db \<Rightarrow> processing_ack_row list" where
  "processing_claim_rows outb = filter (\<lambda>a. pa_status a = ''processing'') (processing_ack outb)"

definition getProcessingClaims :: "host_env \<Rightarrow> outbound_db \<Rightarrow> (string \<times> string) list result" where
  "getProcessingClaims env outb =
     traverse (\<lambda>a. bind_result (ack_record env a) (\<lambda>(i, _, changed). Inr (i, changed))) (processing_claim_rows outb)"

definition deleteOrphanProcessingClaims :: "outbound_db \<Rightarrow> nat \<times> outbound_db" where
  "deleteOrphanProcessingClaims outb =
     (length (filter (\<lambda>a. pa_status a = ''processing'') (processing_ack outb)),
      outb\<lparr>processing_ack := filter (\<lambda>a. pa_status a \<noteq> ''processing'') (processing_ack outb)\<rparr>)"

text \<open>A missing table reads as no row.\<close>

definition container_row :: "outbound_db \<Rightarrow> container_state_row option" where
  "container_row outb = (case container_state outb of None \<Rightarrow> None | Some row \<Rightarrow> row)"

definition getContainerState :: "host_env \<Rightarrow> outbound_db \<Rightarrow> jsval option result" where
  "getContainerState env outb =
     (case container_row outb of
        None \<Rightarrow> Inr None
      | Some row \<Rightarrow>
          bind_result (parseContainerRecord (Obj
            [(''currentTool'', opt_js (cs_current_tool row)),
             (''toolDeclaredTimeoutMs'', int_js (cs_tool_declared_timeout_ms row)),
             (''toolStartedAt'', opt_js (map_option (sqliteTimestamp env) (cs_tool_started_at row))),
             (''updatedAt'', Str (sqliteTimestamp env (cs_updated_at row)))]))
          (\<lambda>rec. Inr (Some (Obj
             [(''currentTool'', get_prop rec ''currentTool''),
              (''toolDeclaredTimeoutMs'', get_prop rec ''toolDeclaredTimeoutMs''),
              (''toolStartedAt'', get_prop rec ''toolStartedAt'')]))))"

definition best_effort :: "message_out \<Rightarrow> jsval" where
  "best_effort r = Obj
     [(''id'', Str (mo_id r)), (''kind'', Str (mo_kind r)), (''platformId'', opt_js (mo_platform_id r)),
      (''channelType'', opt_js (mo_channel_type r)), (''threadId'', opt_js (mo_thread_id r)),
      (''content'', Str (mo_content r)), (''inReplyTo'', opt_js (mo_in_reply_to r))]"

definition outbound_js :: "host_env \<Rightarrow> message_out \<Rightarrow> jsval" where
  "outbound_js env r = Obj
     [(''id'', Str (mo_id r)), (''sequence'', int_js (mo_seq r)), (''inReplyTo'', opt_js (mo_in_reply_to r)),
      (''timestamp'', Str (sqliteTimestamp env (mo_timestamp r))),
      (''deliverAfter'', opt_js (map_option (sqliteTimestamp env) (mo_deliver_after r))),
      (''recurrence'', opt_js (mo_recurrence r)), (''kind'', Str (mo_kind r)), (''platformId'', opt_js (mo_platform_id r)),
      (''channelType'', opt_js (mo_channel_type r)), (''threadId'', opt_js (mo_thread_id r)), (''content'', Str (mo_content r))]"

definition getDueOutboundMessages :: "host_env \<Rightarrow> outbound_db \<Rightarrow> message_out list" where
  "getDueOutboundMessages env outb = sort_key mo_timestamp (filter (\<lambda>r. due env (mo_deliver_after r)) (messages_out outb))"

definition delivery_of :: "host_env \<Rightarrow> message_out \<Rightarrow> jsval" where
  "delivery_of env r =
     (case bind_result (parseOutboundRecord (outbound_js env r)) outboundDelivery of
        Inr d \<Rightarrow> d | Inl _ \<Rightarrow> best_effort r)"

definition getDueMessages :: "host_env \<Rightarrow> string set \<Rightarrow> outbound_db \<Rightarrow> jsval list" where
  "getDueMessages env excludeIds outb =
     map (delivery_of env) (filter (\<lambda>r. mo_id r \<notin> excludeIds) (getDueOutboundMessages env outb))"

definition out_row_of_record :: "jsval \<Rightarrow> message_out" where
  "out_row_of_record rec =
     \<lparr>mo_id = js_text (get_prop rec ''id''), mo_seq = js_int (get_prop rec ''sequence''),
      mo_in_reply_to = js_opt (get_prop rec ''inReplyTo''), mo_timestamp = js_text (get_prop rec ''timestamp''),
      mo_deliver_after = js_opt (get_prop rec ''deliverAfter''), mo_recurrence = js_opt (get_prop rec ''recurrence''),
      mo_kind = js_text (get_prop rec ''kind''), mo_platform_id = js_opt (get_prop rec ''platformId''),
      mo_channel_type = js_opt (get_prop rec ''channelType''), mo_thread_id = js_opt (get_prop rec ''threadId''),
      mo_content = js_text (get_prop rec ''content'')\<rparr>"

text \<open>\<open>INSERT OR IGNORE\<close>\<close>

definition writeDirect :: "int \<Rightarrow> jsval \<Rightarrow> outbound_db \<Rightarrow> unit result \<times> outbound_db" where
  "writeDirect nowMs message outb =
     (case createDirectOutboundRecord message (Num (Fin (of_int (nextEvenAcross None (Some outb))))) (Str (to_iso nowMs)) of
        Inl e \<Rightarrow> (Inl e, outb)
      | Inr rec \<Rightarrow>
          (let r = out_row_of_record rec
           in if mo_id r \<in> mo_id ` set (messages_out outb) \<or> mo_seq r \<noteq> None \<and> mo_seq r \<in> mo_seq ` set (messages_out outb)
              then (Inr (), outb) else (Inr (), outb\<lparr>messages_out := messages_out outb @ [r]\<rparr>)))"

definition getOutboundHistory :: "host_env \<Rightarrow> int \<Rightarrow> outbound_db \<Rightarrow> (string \<times> string \<times> string) list" where
  "getOutboundHistory env limit outb =
     map (\<lambda>r. (sqliteTimestamp env (mo_timestamp r), mo_kind r, mo_content r))
       (sql_limit limit (rev (sort_key mo_seq (messages_out outb))))"

definition getTopLevelOutbound :: "host_env \<Rightarrow> int \<Rightarrow> outbound_db \<Rightarrow> (string \<times> string) list" where
  "getTopLevelOutbound env limit outb =
     map (\<lambda>r. (sqliteTimestamp env (mo_timestamp r), mo_content r))
       (sql_limit limit (rev (sort_key mo_seq
         (filter (\<lambda>r. mo_kind r \<notin> set [''system'', ''task_log''] \<and> mo_channel_type r \<noteq> Some ''agent'' \<and>
            (case mo_thread_id r of None \<Rightarrow> True | Some t \<Rightarrow> t = [] \<or> ends_with '':'' t)) (messages_out outb)))))"

section \<open>Well-formed mailboxes\<close>

lemma next_even_props: "even (next_even m)" "m < next_even m" "2 \<le> next_even m"
proof -
  have e: "even (m - m mod 2)" by (simp add: minus_mod_eq_mult_div)
  then show "even (next_even m)" by (simp add: next_even_def algebra_simps)
  have "m mod 2 < 2" by simp
  then show "m < next_even m" "2 \<le> next_even m" unfolding next_even_def by (auto split: if_splits)
qed

lemma foldr_max_ge: "x \<in> set xs \<or> x = y \<Longrightarrow> x \<le> foldr max xs (y :: 'a :: linorder)"
  by (induction xs) (auto simp: le_max_iff_disj)

lemma table_max_ge: "Some n \<in> set xs \<Longrightarrow> n \<le> table_max xs"
proof -
  assume "Some n \<in> set xs"
  then have "n \<in> set (List.map_filter id xs)" by (force simp: List.map_filter_def)
  then show ?thesis
    by (cases "List.map_filter id xs") (auto simp: table_max_def intro: foldr_max_ge)
qed

lemma nextEvenAcross_fresh: "r \<in> set (messages_in db) \<Longrightarrow> mi_seq r = Some n \<Longrightarrow> n < nextEvenAcross (Some db) outb"
proof -
  assume r: "r \<in> set (messages_in db)" "mi_seq r = Some n"
  then have "Some n \<in> set (map mi_seq (messages_in db))" by force
  from table_max_ge [OF this] have "n \<le> max (table_max (map mi_seq (messages_in db)))
      (case outb of Some db \<Rightarrow> table_max (map mo_seq (messages_out db)) | None \<Rightarrow> 0)" by simp
  also have "\<dots> < nextEvenAcross (Some db) outb" by (simp add: nextEvenAcross_def next_even_props(2))
  finally show ?thesis .
qed

definition wf_inbound :: "inbound_db \<Rightarrow> bool" where
  "wf_inbound db \<longleftrightarrow>
     distinct (map mi_id (messages_in db)) \<and> distinct (map mi_seq (messages_in db)) \<and>
     (\<forall>r\<in>set (messages_in db). \<exists>n. mi_seq r = Some n \<and> even n \<and> 2 \<le> n)"

lemma wf_insert_row:
  assumes "wf_inbound db" "mi_seq r = Some n" "even n" "2 \<le> n"
  shows "wf_inbound (snd (insert_row_in r db))"
  using assms by (auto simp: insert_row_in_def wf_inbound_def)

lemma wf_update_in:
  assumes "wf_inbound db" "\<And>r. mi_id (f r) = mi_id r" "\<And>r. mi_seq (f r) = mi_seq r"
  shows "wf_inbound (snd (update_in P f db))"
proof -
  have "map mi_id (map (\<lambda>r. if P r then f r else r) (messages_in db)) = map mi_id (messages_in db)"
    "map mi_seq (map (\<lambda>r. if P r then f r else r) (messages_in db)) = map mi_seq (messages_in db)"
    using assms(2,3) by auto
  moreover have "\<forall>r\<in>set (map (\<lambda>r. if P r then f r else r) (messages_in db)). \<exists>n. mi_seq r = Some n \<and> even n \<and> 2 \<le> n"
    using assms(1,3) by (auto simp: wf_inbound_def)
  ultimately show ?thesis using assms(1) by (simp add: wf_inbound_def update_in_def del: map_map set_map)
qed

lemma wf_delete_in: "wf_inbound db \<Longrightarrow> wf_inbound (snd (delete_in P db))"
  by (auto simp: wf_inbound_def delete_in_def distinct_map_filter)

lemma update_in_delivered [simp]: "delivered (snd (update_in P f db)) = delivered db"
  by (simp add: update_in_def)

lemma delete_in_delivered [simp]: "delivered (snd (delete_in P db)) = delivered db"
  by (simp add: delete_in_def)

lemma insert_row_in_delivered [simp]: "delivered (snd (insert_row_in r db)) = delivered db"
  by (simp add: insert_row_in_def)

text \<open>Records the parsers built.\<close>

lemma inbound_record_prop:
  assumes "parseInboundRecord (Obj ps) = Inr r" "k \<in> set (map reader_key inbound_record_fields)"
  shows "get_prop r k = prop_of ps k"
proof -
  obtain qs where qs: "r = Obj qs" "object_literal inbound_record_fields ps = Inr qs"
    using parse_with_Inr [OF assms(1) [unfolded parseInboundRecord_def]] by blast
  have d: "distinct (map reader_key inbound_record_fields)" by (simp add: inbound_record_fields_def)
  have "\<forall>fr\<in>set inbound_record_fields. \<exists>k f. fr = Field k f \<and> stable f"
    by (simp add: inbound_record_fields_def stable_readers)
  moreover obtain fr where "fr \<in> set inbound_record_fields" "k = reader_key fr" using assms(2) by auto
  ultimately obtain f where f: "Field k f \<in> set inbound_record_fields" "stable f" by force
  have "f ps k = Inr (prop_of qs k)" by (rule literal_value [OF qs(2) d f(1)])
  then have "prop_of ps k = prop_of qs k" using f(2) unfolding stable_def by blast
  then show ?thesis by (simp add: qs(1))
qed

lemma row_seq:
  assumes "parseInboundRecord (Obj ps) = Inr r" "prop_of ps ''sequence'' = Num (Fin (of_int n))"
  shows "mi_seq (row_of_record r) = Some n"
  using inbound_record_prop [OF assms(1), of "''sequence''"] assms(2)
  by (simp add: row_of_record_def inbound_record_fields_def)

lemma inbound_row_seq:
  assumes "createInboundRecord m (Num (Fin (of_int n))) = Inr r"
  shows "mi_seq (row_of_record r) = Some n"
proof -
  obtain w where w: "parseInboundWrite m = Inr w" using assms by (auto simp: createInboundRecord_def bind_result_eq_Inr)
  then obtain ps where ps: "w = Obj ps"
    by (auto simp: parseInboundWrite_def elim: parse_with_Inr)
  show ?thesis
    using assms by (simp add: createInboundRecord_def w ps) (erule row_seq, simp add: override_def)
qed

lemma task_row_seq:
  assumes "createTaskInboundRecord t (Num (Fin (of_int n))) ts = Inr r"
  shows "mi_seq (row_of_record r) = Some n"
  using assms
  by (auto simp: createTaskInboundRecord_def bind_result_eq_Inr prop_of_def intro: row_seq)

lemma wf_insertMessage:
  "wf_inbound db \<Longrightarrow> even n \<Longrightarrow> 2 \<le> n \<Longrightarrow> wf_inbound (snd (insertMessage m n db))"
  by (auto simp: insertMessage_def wf_insert_row inbound_row_seq split: sum.split)

lemma wf_insertTaskRow:
  "wf_inbound db \<Longrightarrow> even n \<Longrightarrow> 2 \<le> n \<Longrightarrow> wf_inbound (snd (insertTaskRow t n now db))"
  by (auto simp: insertTaskRow_def wf_insert_row task_row_seq split: sum.split)

lemma even_seq: "even (nextEvenAcross a b)" "2 \<le> nextEvenAcross a b"
  by (simp_all add: nextEvenAcross_def next_even_props)

lemma update_row_keys [simp]: "mi_id (update_row u c r) = mi_id r" "mi_seq (update_row u c r) = mi_seq r"
  by (auto simp: update_row_def Let_def split: option.split)

lemma wf_update_rows:
  "update_rows nt u rows db = Inr db1 \<Longrightarrow> wf_inbound db \<Longrightarrow> wf_inbound db1 \<and> delivered db1 = delivered db"
proof (induction nt u rows db rule: update_rows.induct)
  case (2 nt u i content rows db)
  then obtain c where c: "merge_content nt u content = Inr c"
    "update_rows nt u rows (snd (update_in (\<lambda>r. mi_id r = i) (update_row u c) db)) = Inr db1"
    by (auto simp: bind_result_eq_Inr)
  then show ?case using "2.IH" [of c] "2.prems"(2) by (simp add: wf_update_in)
qed simp

lemma wf_updateTask:
  "wf_inbound db \<Longrightarrow> wf_inbound (snd (updateTask env nt i u db)) \<and> delivered (snd (updateTask env nt i u db)) = delivered db"
  using wf_update_rows by (auto simp: updateTask_def Let_def split: sum.split)

lemma wf_apply_acks:
  "wf_inbound db \<Longrightarrow> wf_inbound (fold apply_ack acks db) \<and> delivered (fold apply_ack acks db) = delivered db"
proof (induction acks arbitrary: db)
  case (Cons a acks)
  have "wf_inbound (apply_ack a db)" "delivered (apply_ack a db) = delivered db"
    using Cons.prems by (simp_all add: apply_ack_def wf_update_in)
  then show ?case using Cons.IH [of "apply_ack a db"] by simp
qed simp

text \<open>One write of the host to the inbound database.\<close>

inductive mailbox_step :: "inbound_db \<Rightarrow> inbound_db \<Rightarrow> bool" where
  SetRouting: "mailbox_step db (snd (setRouting r db))"
| ReplaceDestinations: "mailbox_step db (snd (replaceDestinations es db))"
| InsertMessage: "mailbox_step db (snd (insertMessage m (nextEvenAcross (Some db) None) db))"
| MarkFailed: "mailbox_step db (markMessageFailed i db)"
| Retry: "mailbox_step db (retryWithBackoff now i sec db)"
| ApplyAcks: "mailbox_step db (applyProcessingAcks acks db)"
| MarkDelivered: "mailbox_step db (markDelivered now i p db)"
| MarkDeliveryFailed: "mailbox_step db (markDeliveryFailed now i db)"
| InsertTask: "mailbox_step db (snd (insertTaskRow t (nextEvenAcross (Some db) None) now db))"
| ArmNextTask: "mailbox_step db (snd (armNextTask i t now db))"
| CancelTask: "mailbox_step db (snd (cancel_task ti db))"
| PauseTask: "mailbox_step db (snd (pauseTask i db))"
| ResumeTask: "mailbox_step db (snd (resumeTask i db))"
| DeleteTask: "mailbox_step db (snd (deleteTask i db))"
| UpdateTask: "mailbox_step db (snd (updateTask env nt i u db))"
| ClearRecurrence: "mailbox_step db (clearRecurrence i db)"
| Prune: "mailbox_step db (snd (prunePendingMessages env ch before keep db))"

definition empty_inbound :: inbound_db where
  "empty_inbound = \<lparr>messages_in = [], delivered = [], destinations = [], session_routing = None\<rparr>"

interpretation delivered_table: upsert_table dl_message_out_id "sql_select dl_message_out_id"
  "sql_insert dl_message_out_id" "sql_update dl_message_out_id" "keys_distinct dl_message_out_id"
  "sql_upsert dl_message_out_id" "sql_delete dl_message_out_id"
  by (rule list_upsert_table)

lemma sql_insert_superset: "set t \<subseteq> set (fst (sql_insert key r t))"
  by (auto simp: sql_insert_def)

definition good_inbound :: "inbound_db \<Rightarrow> bool" where
  "good_inbound db = (wf_inbound db \<and> keys_distinct dl_message_out_id (delivered db))"

lemma wf_same_messages: "messages_in db' = messages_in db \<Longrightarrow> wf_inbound db' = wf_inbound db"
  by (simp add: wf_inbound_def)

lemma insert_delivered [simp]:
  "delivered (snd (insertMessage m n db)) = delivered db"
  "delivered (snd (insertTaskRow t n now db)) = delivered db"
  by (auto simp: insertMessage_def insertTaskRow_def split: sum.split)

lemma armNextTask_wf:
  assumes "wf_inbound db"
  shows "wf_inbound (snd (armNextTask i t now db)) \<and> delivered (snd (armNextTask i t now db)) = delivered db"
proof (cases "insertTaskRow t (nextEvenAcross (Some db) None) now db")
  case (Pair res db1)
  then have "wf_inbound db1" "delivered db1 = delivered db"
    using wf_insertTaskRow [OF assms even_seq] insert_delivered(2) [of t "nextEvenAcross (Some db) None" now db]
    by (metis snd_conv)+
  then show ?thesis
    using assms Pair by (cases res) (simp_all add: armNextTask_def clearRecurrence_def wf_update_in)
qed

lemma pruned_mailbox_wf:
  "wf_inbound db \<Longrightarrow> wf_inbound (snd (prunePendingMessages env ch before keep db)) \<and>
   delivered (snd (prunePendingMessages env ch before keep db)) = delivered db"
  by (simp add: prunePendingMessages_def case_prod_unfold Let_def wf_delete_in)

lemma mailbox_step_good:
  assumes "mailbox_step db db'" "good_inbound db"
  shows "good_inbound db' \<and> set (delivered db) \<subseteq> set (delivered db')"
  using assms
proof (cases rule: mailbox_step.cases)
  case (SetRouting r)
  then show ?thesis
    using assms(2) wf_same_messages [of db' db] by (auto simp: setRouting_def upsertSessionRouting_def good_inbound_def split: sum.splits)
next
  case (ReplaceDestinations es)
  then show ?thesis
    using assms(2) wf_same_messages [of db' db] by (auto simp: replaceDestinations_def replace_destination_rows_def good_inbound_def split: sum.splits)
next
  case (InsertMessage m)
  then show ?thesis using assms(2) even_seq [of "Some db" None] by (simp add: good_inbound_def wf_insertMessage)
next
  case (ApplyAcks acks)
  then show ?thesis
    using assms(2) wf_apply_acks [of db acks] by (auto simp: good_inbound_def applyProcessingAcks_def)
next
  case (MarkDelivered now i p)
  then show ?thesis
    using assms(2) wf_same_messages [of db' db]
    by (simp add: good_inbound_def markDelivered_def delivered_table.wf_insert sql_insert_superset)
next
  case (MarkDeliveryFailed now i)
  then show ?thesis
    using assms(2) wf_same_messages [of db' db]
    by (simp add: good_inbound_def markDeliveryFailed_def delivered_table.wf_insert sql_insert_superset)
next
  case (InsertTask t now)
  then show ?thesis using assms(2) even_seq [of "Some db" None] by (simp add: good_inbound_def wf_insertTaskRow)
next
  case (ArmNextTask i t now)
  then show ?thesis using assms(2) armNextTask_wf [of db i t now] by (simp add: good_inbound_def)
next
  case (UpdateTask env nt i u)
  then show ?thesis using assms(2) wf_updateTask [of db env nt i u] by (simp add: good_inbound_def)
next
  case (Prune env ch before keep)
  then show ?thesis using assms(2) pruned_mailbox_wf [of db env ch before keep] by (simp add: good_inbound_def)
qed (use assms(2) in \<open>simp_all add: good_inbound_def markMessageFailed_def retryWithBackoff_def cancel_task_def
    cancelTask_def cancelAllTasks_def pauseTask_def resumeTask_def deleteTask_def clearRecurrence_def
    wf_update_in wf_delete_in split: option.split\<close>)

text \<open>C21: the host's side of the mailbox stays well formed.  From an empty inbound database, through
  any sequence of writes, message ids are unique, every sequence number is even (the odd ones
  belong to the runner), positive and used once, and the outcome recorded for an outbound
  message is unique and never lost or overwritten.\<close>

theorem mailbox_well_formed:
  assumes "mailbox_step\<^sup>*\<^sup>* empty_inbound db" "mailbox_step\<^sup>*\<^sup>* db db'"
  shows "wf_inbound db' \<and> keys_distinct dl_message_out_id (delivered db') \<and> set (delivered db) \<subseteq> set (delivered db')"
proof -
  have step: "good_inbound b \<and> set (delivered a) \<subseteq> set (delivered b)" if "mailbox_step\<^sup>*\<^sup>* a b" "good_inbound a" for a b
    using that
  proof (induction rule: rtranclp_induct)
    case (step y z)
    then show ?case using mailbox_step_good [of y z] by blast
  qed simp
  have "good_inbound empty_inbound"
    by (simp add: good_inbound_def empty_inbound_def wf_inbound_def keys_distinct_def)
  then show ?thesis using step assms by (simp add: good_inbound_def)
qed

text \<open>A failed delivery is recorded first, and a later success does not replace it.\<close>

lemma mailbox_well_formed_witness:
  "delivered (markDelivered 1 ''o1'' (Some ''p'') (markDeliveryFailed 0 ''o1'' empty_inbound))
     = delivered (markDeliveryFailed 0 ''o1'' empty_inbound) \<and>
   wf_inbound (markDelivered 1 ''o1'' (Some ''p'') (markDeliveryFailed 0 ''o1'' empty_inbound))"
proof -
  have "mailbox_step\<^sup>*\<^sup>* empty_inbound (markDeliveryFailed 0 ''o1'' empty_inbound)"
    by (rule r_into_rtranclp, rule MarkDeliveryFailed)
  moreover have "mailbox_step\<^sup>*\<^sup>* (markDeliveryFailed 0 ''o1'' empty_inbound)
      (markDelivered 1 ''o1'' (Some ''p'') (markDeliveryFailed 0 ''o1'' empty_inbound))"
    by (rule r_into_rtranclp, rule MarkDelivered)
  ultimately show ?thesis
    using mailbox_well_formed [of "markDeliveryFailed 0 ''o1'' empty_inbound"]
    by (simp add: markDelivered_def markDeliveryFailed_def empty_inbound_def sql_insert_def sql_select_Cons)
qed

section \<open>Pruning\<close>

lemma seq_inj:
  "wf_inbound db \<Longrightarrow> r \<in> set (messages_in db) \<Longrightarrow> q \<in> set (messages_in db) \<Longrightarrow> mi_seq r = mi_seq q \<longleftrightarrow> r = q"
  by (auto simp: wf_inbound_def distinct_map dest: inj_onD)

lemma sql_limit_subset: "set (sql_limit n xs) \<subseteq> set xs"
  by (auto simp: sql_limit_def dest: in_set_takeD)

lemma not_in_kept:
  assumes "wf_inbound db" "r \<in> set (messages_in db)" "set kept \<subseteq> set (messages_in db)"
  shows "sql_not_in (mi_seq r) (map mi_seq kept) \<longleftrightarrow> r \<notin> set kept"
proof -
  have "mi_seq r \<noteq> None" using assms(1,2) by (auto simp: wf_inbound_def)
  moreover have "None \<notin> set (map mi_seq kept)" using assms(1,3) by (fastforce simp: wf_inbound_def)
  moreover have "mi_seq r \<in> set (map mi_seq kept) \<longleftrightarrow> r \<in> set kept"
    using seq_inj [OF assms(1,2)] assms(3) by force
  ultimately show ?thesis by (auto simp: sql_not_in_def)
qed

lemma length_filter_partition: "length (filter P xs) + length (filter (\<lambda>x. \<not> P x) xs) = length xs"
  by (rule sum_length_filter_compl)

definition newest_pending :: "host_env \<Rightarrow> string \<Rightarrow> string \<Rightarrow> int \<Rightarrow> inbound_db \<Rightarrow> message_in list" where
  "newest_pending env ch before keep db =
     take (nat keep) (rev (sort_key mi_seq
       (filter (\<lambda>r. prunable ch r \<and> \<not> before_time env before r) (messages_in db))))"

text \<open>pruning a channel keeps the newest messages.  Of the pending messages of the channel that
  are not older than the bound, exactly the \<open>keep\<close> with the highest sequence numbers remain, every
  other row is untouched, and the returned count is the number of rows removed.\<close>

theorem prune_keeps_newest:
  assumes "wf_inbound db" "0 \<le> keep"
  shows "messages_in (snd (prunePendingMessages env ch before keep db)) =
      filter (\<lambda>r. \<not> prunable ch r \<or> r \<in> set (newest_pending env ch before keep db)) (messages_in db) \<and>
    fst (prunePendingMessages env ch before keep db) + length (messages_in (snd (prunePendingMessages env ch before keep db)))
      = length (messages_in db)"
proof -
  let ?kept = "newest_pending env ch before keep db"
  define kept where "kept = ?kept"
  define db1 where "db1 = snd (delete_in (\<lambda>r. prunable ch r \<and> before_time env before r) db)"
  have m1: "messages_in db1 = filter (\<lambda>r. \<not> (prunable ch r \<and> before_time env before r)) (messages_in db)"
    by (simp add: db1_def delete_in_def)
  have pend: "filter (prunable ch) (messages_in db1) = filter (\<lambda>r. prunable ch r \<and> \<not> before_time env before r) (messages_in db)"
    by (auto simp: m1 filter_filter intro: filter_cong)
  have kept: "sql_limit keep (rev (sort_key mi_seq (filter (prunable ch) (messages_in db1)))) = kept"
    using assms(2) by (simp add: pend kept_def newest_pending_def sql_limit_def)
  have sub: "set kept \<subseteq> set (messages_in db1)"
    unfolding kept [symmetric] using sql_limit_subset by fastforce
  have wf1: "wf_inbound db1" unfolding db1_def by (rule wf_delete_in [OF assms(1)])
  let ?Q = "\<lambda>r. prunable ch r \<and> sql_not_in (mi_seq r) (map mi_seq kept)"
  have res: "prunePendingMessages env ch before keep db =
      (fst (delete_in (\<lambda>r. prunable ch r \<and> before_time env before r) db) + fst (delete_in ?Q db1), snd (delete_in ?Q db1))"
    by (simp add: prunePendingMessages_def case_prod_unfold Let_def kept [symmetric] db1_def)
  have "filter (\<lambda>r. \<not> ?Q r) (messages_in db1) = filter (\<lambda>r. \<not> prunable ch r \<or> r \<in> set kept) (messages_in db1)"
    using not_in_kept [OF wf1 _ sub] by (auto intro: filter_cong)
  also have "\<dots> = filter (\<lambda>r. \<not> prunable ch r \<or> r \<in> set kept) (messages_in db)"
    using sub by (auto simp: m1 filter_filter intro!: filter_cong)
  finally have rows: "messages_in (snd (delete_in ?Q db1)) = filter (\<lambda>r. \<not> prunable ch r \<or> r \<in> set kept) (messages_in db)"
    by (simp add: delete_in_def)
  have "fst (delete_in P d) + length (messages_in (snd (delete_in P d))) = length (messages_in d)" for P d
    using length_filter_partition [of P "messages_in d"] by (simp add: delete_in_def)
  from this [of ?Q db1] this [of "\<lambda>r. prunable ch r \<and> before_time env before r" db]
  show ?thesis unfolding res using rows by (simp add: db1_def [symmetric] kept_def)
qed

definition sample_env :: host_env where
  "sample_env = \<lparr>datetime = Some, datetime_now = ''2026-02-28T12:00:00.000Z'', glob = (\<lambda>s p. False), now_ms = 0,
     other_date = (\<lambda>s. None)\<rparr>"

definition sample_row :: "string \<Rightarrow> int \<Rightarrow> string \<Rightarrow> message_in" where
  "sample_row i n t = \<lparr>mi_id = i, mi_seq = Some n, mi_kind = ''chat'', mi_timestamp = t, mi_status = Pending,
     mi_process_after = None, mi_recurrence = None, mi_series_id = Some i, mi_tries = 0, mi_trigger = True,
     mi_platform_id = None, mi_channel_type = Some ''session-echo'', mi_thread_id = None, mi_content = ''x'',
     mi_source_session_id = None, mi_on_wake = False\<rparr>"

definition sample_inbound :: inbound_db where
  "sample_inbound = empty_inbound\<lparr>messages_in :=
     [sample_row ''a'' 2 ''2026-02-01'', sample_row ''b'' 4 ''2026-02-02'', sample_row ''c'' 6 ''2026-01-01'']\<rparr>"

lemma prune_keeps_newest_witness:
  "map mi_id (messages_in (snd (prunePendingMessages sample_env ''session-echo'' ''2026-02-01'' 1 sample_inbound))) = [''b'']"
proof -
  have "wf_inbound sample_inbound"
    by (simp add: wf_inbound_def sample_inbound_def empty_inbound_def sample_row_def)
  note p = prune_keeps_newest [OF this, of 1 sample_env "''session-echo''" "''2026-02-01''"]
  have "map mi_id (filter (\<lambda>r. \<not> prunable ''session-echo'' r \<or>
      r \<in> set (newest_pending sample_env ''session-echo'' ''2026-02-01'' 1 sample_inbound)) (messages_in sample_inbound)) = [''b'']"
    by code_simp
  then show ?thesis using p by simp
qed

section \<open>Direct writes\<close>

lemma opt_js_flat: "opt_js x = Null \<or> (\<exists>s. opt_js x = Str s)"
  by (simp add: opt_js_def split: option.split)

lemma delivery_readers:
  assumes "k \<in> set [''inReplyTo'', ''id'', ''kind'', ''platformId'', ''channelType'', ''threadId'', ''content'']"
  shows "(Field k text_field \<in> set outbound_record_fields \<and> Field k text_field \<in> set outbound_delivery_fields)
    \<or> (Field k nullableText \<in> set outbound_record_fields \<and> Field k nullableText \<in> set outbound_delivery_fields)"
proof -
  have "list_all (\<lambda>k. (Field k text_field \<in> set outbound_record_fields \<and> Field k text_field \<in> set outbound_delivery_fields)
      \<or> (Field k nullableText \<in> set outbound_record_fields \<and> Field k nullableText \<in> set outbound_delivery_fields))
    [''inReplyTo'', ''id'', ''kind'', ''platformId'', ''channelType'', ''threadId'', ''content'']"
    by (simp add: outbound_record_fields_def outbound_delivery_fields_def)
  with assms show ?thesis unfolding list_all_iff by blast
qed

text \<open>A row is delivered with its own fields, whether it parses as a record or is sent as it stands.\<close>

lemma delivery_of_field:
  assumes "k \<in> set [''inReplyTo'', ''id'', ''kind'', ''platformId'', ''channelType'', ''threadId'', ''content'']"
  shows "get_prop (delivery_of env r) k = get_prop (outbound_js env r) k"
proof (cases "bind_result (parseOutboundRecord (outbound_js env r)) outboundDelivery")
  case (Inl e)
  with assms show ?thesis by (auto simp: delivery_of_def best_effort_def outbound_js_def prop_of_def)
next
  case (Inr d)
  then obtain v where a: "parseOutboundRecord (outbound_js env r) = Inr v" "outboundDelivery v = Inr d"
    by (auto simp: bind_result_eq_Inr)
  obtain os where os: "outbound_js env r = Obj os" by (simp add: outbound_js_def)
  obtain qs where qs: "v = Obj qs" "object_literal outbound_record_fields os = Inr qs"
    using a(1) os unfolding parseOutboundRecord_def by (elim parse_with_Inr) auto
  have d: "distinct (map reader_key outbound_record_fields)" "distinct (map reader_key outbound_delivery_fields)"
    by (simp_all add: outbound_record_fields_def outbound_delivery_fields_def)
  have 1: "prop_of qs k = prop_of os k"
  proof -
    from delivery_readers [OF assms] have "Field k text_field \<in> set outbound_record_fields \<or> Field k nullableText \<in> set outbound_record_fields"
      by blast
    then have "text_field os k = Inr (prop_of qs k) \<or> nullableText os k = Inr (prop_of qs k)"
      using literal_value [OF qs(2) d(1)] by blast
    then show ?thesis unfolding text_iff nullableText_iff by (elim disjE conjE) (rule sym, assumption)+
  qed
  let ?ps = "[(''id'', prop_of qs ''id''), (''kind'', prop_of qs ''kind''), (''platformId'', prop_of qs ''platformId''),
        (''channelType'', prop_of qs ''channelType''), (''threadId'', prop_of qs ''threadId''),
        (''content'', prop_of qs ''content''), (''inReplyTo'', prop_of qs ''inReplyTo'')]"
  have v: "parseOutboundRecord v = Inr v" by (rule parsers_again(5) [OF a(1)])
  have p: "parseOutboundDelivery (Obj ?ps) = Inr d" using a(2) v qs(1) by (simp add: outboundDelivery_def)
  obtain rs where rs: "d = Obj rs" "object_literal outbound_delivery_fields ?ps = Inr rs"
    using p unfolding parseOutboundDelivery_def by (elim parse_with_Inr) auto
  have "prop_of rs k = prop_of ?ps k"
  proof -
    from delivery_readers [OF assms] have "Field k text_field \<in> set outbound_delivery_fields \<or> Field k nullableText \<in> set outbound_delivery_fields"
      by blast
    then have "text_field ?ps k = Inr (prop_of rs k) \<or> nullableText ?ps k = Inr (prop_of rs k)"
      using literal_value [OF rs(2) d(2)] by blast
    then show ?thesis unfolding text_iff nullableText_iff by (elim disjE conjE) (rule sym, assumption)+
  qed
  moreover have "prop_of ?ps k = prop_of qs k" using assms by (auto simp: prop_of_def)
  ultimately show ?thesis using Inr 1 by (simp add: delivery_of_def rs(1) os)
qed

lemma delivery_of_id: "get_prop (delivery_of env r) ''id'' = Str (mo_id r)"
  by (subst delivery_of_field) (simp_all add: outbound_js_def prop_of_def)

lemma js_opt_nullable: "nullable_str v \<Longrightarrow> opt_js (js_opt v) = v"
  by (auto simp: nullable_str_def opt_js_def)

text \<open>The row a direct write inserts.\<close>

definition direct_row :: "int \<Rightarrow> jsval \<Rightarrow> outbound_db \<Rightarrow> message_out" where
  "direct_row nowMs message outb =
     out_row_of_record (direct_record message (Num (Fin (of_int (nextEvenAcross None (Some outb))))) (Str (to_iso nowMs)))"

lemma direct_row_delivered:
  assumes "direct_write_ok m" "k \<in> set [''id'', ''kind'', ''platformId'', ''channelType'', ''threadId'', ''content'']"
  shows "get_prop (delivery_of env (direct_row now m outb)) k = get_prop m k"
    "get_prop (delivery_of env (direct_row now m outb)) ''inReplyTo'' = Null"
proof -
  obtain a b x where t: "get_prop m ''id'' = Str a" "get_prop m ''kind'' = Str b" "get_prop m ''content'' = Str x"
    and n: "nullable_str (get_prop m ''platformId'')" "nullable_str (get_prop m ''channelType'')" "nullable_str (get_prop m ''threadId'')"
    using assms(1) by (cases m) (auto simp: direct_write_ok_def)
  note n = n [THEN js_opt_nullable]
  have "list_all (\<lambda>k. get_prop (outbound_js env (direct_row now m outb)) k = get_prop m k)
      [''id'', ''kind'', ''platformId'', ''channelType'', ''threadId'', ''content'']"
    using t n by (simp add: outbound_js_def direct_row_def out_row_of_record_def direct_record_def prop_of_def)
  moreover have "k \<in> set [''inReplyTo'', ''id'', ''kind'', ''platformId'', ''channelType'', ''threadId'', ''content'']"
    by (rule list.set_intros(2) [OF assms(2)])
  ultimately show "get_prop (delivery_of env (direct_row now m outb)) k = get_prop m k"
    using assms(2) delivery_of_field unfolding list_all_iff by metis
  show "get_prop (delivery_of env (direct_row now m outb)) ''inReplyTo'' = Null"
    by (subst delivery_of_field)
      (simp_all add: outbound_js_def direct_row_def out_row_of_record_def direct_record_def prop_of_def opt_js_def)
qed

lemma nextEvenAcross_out_fresh:
  assumes "r \<in> set (messages_out outb)"
  shows "mo_seq r \<noteq> Some (nextEvenAcross None (Some outb))"
proof
  assume r: "mo_seq r = Some (nextEvenAcross None (Some outb))"
  with assms have "Some (nextEvenAcross None (Some outb)) \<in> set (map mo_seq (messages_out outb))" by force
  then have "nextEvenAcross None (Some outb) \<le> table_max (map mo_seq (messages_out outb))" by (rule table_max_ge)
  also have "\<dots> < nextEvenAcross None (Some outb)" by (simp add: nextEvenAcross_def less_max_iff_disj next_even_props(2)
        order.strict_trans1 [OF max.cobounded2 next_even_props(2)])
  finally show False by simp
qed

lemma writeDirect_effect:
  assumes "four_digit_time nowMs" "nextEvenAcross None (Some outb) < 2 ^ 53"
    and w: "writeDirect nowMs m outb = (res, outb')"
  shows "if direct_write_ok m
    then res = Inr () \<and> (if js_text (get_prop m ''id'') \<in> mo_id ` set (messages_out outb) then outb' = outb
        else outb' = outb\<lparr>messages_out := messages_out outb @ [direct_row nowMs m outb]\<rparr>)
    else (\<exists>e. res = Inl e) \<and> outb' = outb"
proof -
  let ?n = "nextEvenAcross None (Some outb)"
  have seq: "non_negative_safe (Num (Fin (of_int ?n)))"
  proof -
    have "2 \<le> ?n" by (simp add: nextEvenAcross_def next_even_props(3))
    with assms(2) show ?thesis by (simp add: is_safe_integer_int)
  qed
  note c = createDirectOutboundRecord_cases [OF seq to_iso_time(1) [OF assms(1)], of m]
  show ?thesis
  proof (cases "direct_write_ok m")
    case True
    then have c: "createDirectOutboundRecord m (Num (Fin (of_int ?n))) (Str (to_iso nowMs)) =
        Inr (direct_record m (Num (Fin (of_int ?n))) (Str (to_iso nowMs)))" using c by simp
    have r: "mo_id (direct_row nowMs m outb) = js_text (get_prop m ''id'')" "mo_seq (direct_row nowMs m outb) = Some ?n"
      by (simp_all add: direct_row_def out_row_of_record_def direct_record_def prop_of_def)
    have "mo_seq (direct_row nowMs m outb) \<notin> mo_seq ` set (messages_out outb)"
      using nextEvenAcross_out_fresh r(2) by fastforce
    with w True r(1) show ?thesis
      by (auto simp: writeDirect_def c direct_row_def [symmetric] Let_def split: if_splits)
  next
    case False
    with c w show ?thesis by (auto simp: writeDirect_def)
  qed
qed

text \<open>C22: what the host writes directly is what it delivers.  A message with only the known fields,
  no nested value, text in id, kind and content and text or null in the address is accepted, and any
  other is refused with an error and changes nothing.  An accepted message whose id is new becomes one
  row more, which is due at once, and the delivery made of that row has the message's id, kind,
  address, thread and content, and answers no message; with an id that is taken nothing changes.  The
  clock is in the years 1970 to 9999 and the next sequence number is a safe integer.\<close>

theorem direct_write_round_trip:
  assumes "four_digit_time nowMs" "nextEvenAcross None (Some outb) < 2 ^ 53"
    and "writeDirect nowMs m outb = (res, outb')"
  shows "if \<not> direct_write_ok m then (\<exists>e. res = Inl e) \<and> outb' = outb
    else if js_text (get_prop m ''id'') \<in> mo_id ` set (messages_out outb) then res = Inr () \<and> outb' = outb
    else res = Inr () \<and> (\<exists>row. outb' = outb\<lparr>messages_out := messages_out outb @ [row]\<rparr>
      \<and> (\<forall>env done. js_text (get_prop m ''id'') \<notin> done \<longrightarrow> delivery_of env row \<in> set (getDueMessages env done outb'))
      \<and> (\<forall>env. get_prop (delivery_of env row) ''inReplyTo'' = Null \<and>
           list_all (\<lambda>k. get_prop (delivery_of env row) k = get_prop m k)
             [''id'', ''kind'', ''platformId'', ''channelType'', ''threadId'', ''content'']))"
proof (cases "direct_write_ok m \<and> js_text (get_prop m ''id'') \<notin> mo_id ` set (messages_out outb)")
  case True
  let ?row = "direct_row nowMs m outb"
  have w: "res = Inr ()" "outb' = outb\<lparr>messages_out := messages_out outb @ [?row]\<rparr>"
    using writeDirect_effect [OF assms] True by auto
  have r: "mo_id ?row = js_text (get_prop m ''id'')" "mo_deliver_after ?row = None"
    by (simp_all add: direct_row_def out_row_of_record_def direct_record_def prop_of_def)
  have "delivery_of env ?row \<in> set (getDueMessages env done outb')" if "js_text (get_prop m ''id'') \<notin> done" for env "done"
    using that r by (auto simp: getDueMessages_def getDueOutboundMessages_def w due_def)
  moreover have "get_prop (delivery_of env ?row) ''inReplyTo'' = Null" for env
    using direct_row_delivered(2) [of m "''id''"] True by simp
  moreover have "list_all (\<lambda>k. get_prop (delivery_of env ?row) k = get_prop m k)
      [''id'', ''kind'', ''platformId'', ''channelType'', ''threadId'', ''content'']" for env
    unfolding list_all_iff using direct_row_delivered(1) True by blast
  ultimately show ?thesis using True w by (simp only: if_False not_not simp_thms) blast
qed (use writeDirect_effect [OF assms] in auto)

definition sample_direct :: jsval where
  "sample_direct = Obj [(''content'', Str ''hi''), (''id'', Str ''o1''), (''kind'', Str ''chat''),
     (''platformId'', Str ''tg:1''), (''channelType'', Str ''telegram''), (''threadId'', Null)]"

definition no_outbound :: outbound_db where
  "no_outbound = \<lparr>messages_out = [], processing_ack = [], container_state = None\<rparr>"

theorem direct_write_round_trip_witness:
  "\<exists>row. messages_out (snd (writeDirect 1500 sample_direct no_outbound)) = [row]
     \<and> get_prop (delivery_of sample_env row) ''content'' = Str ''hi''"
proof -
  have n: "nextEvenAcross None (Some no_outbound) = 2" by code_simp
  have ok: "direct_write_ok sample_direct"
    by (simp add: direct_write_ok_def sample_direct_def prop_of_def nullable_str_def)
  have t: "four_digit_time 1500" by (simp add: four_digit_time_def)
  obtain res outb' where w: "writeDirect 1500 sample_direct no_outbound = (res, outb')" by (metis surj_pair)
  have b: "nextEvenAcross None (Some no_outbound) < 2 ^ 53" by (simp add: n)
  have new: "js_text (get_prop sample_direct ''id'') \<notin> mo_id ` set (messages_out no_outbound)"
    by (simp add: no_outbound_def)
  from direct_write_round_trip [OF t b w] ok new obtain row where
    "outb' = no_outbound\<lparr>messages_out := messages_out no_outbound @ [row]\<rparr>"
    "get_prop (delivery_of sample_env row) ''content'' = get_prop sample_direct ''content''"
    by (simp only: not_True_eq_False if_False list_all_iff) auto
  then show ?thesis unfolding w by (intro exI [of _ row]) (simp add: no_outbound_def sample_direct_def prop_of_def)
qed

end
