(* ===== verification/Recurrence.thy ===== *)
theory Recurrence
  imports SessionMailbox "HOL-Library.Multiset"
begin

text \<open>
  The sweep hook for recurring tasks (\<open>nanoclaw/src/modules/scheduling/recurrence.ts\<close>): every
  finished occurrence that still has a cron expression gets a next occurrence, throttled and
  finally paused when its runs keep failing.  The cron parser is an argument: the next run of
  an expression as a time value, \<open>None\<close> when parsing throws.  So are the new ids and the
  host's clock at each turn.
\<close>

definition SCRIPT_FAIL_PAUSE_CAP :: nat where "SCRIPT_FAIL_PAUSE_CAP = 8"
definition SCRIPT_BACKOFF_CAP_MIN :: int where "SCRIPT_BACKOFF_CAP_MIN = 60"

definition scriptBackoffMinutes :: "nat \<Rightarrow> int" where
  "scriptBackoffMinutes fails = min (2 * 2 ^ (fails - 1)) SCRIPT_BACKOFF_CAP_MIN"

text \<open>What one turn did: re-armed, re-armed paused (the note of the run log), or an error that was
  logged and swallowed.\<close>

datatype recur_outcome = Rearmed string | AutoPaused string nat | RecurFailed string

definition series_fails :: "recurring \<Rightarrow> inbound_db \<Rightarrow> nat" where
  "series_fails msg db = (case rm_series_id msg of Some k \<Rightarrow> trailingFailedRuns k db | None \<Rightarrow> 0)"

definition next_run :: "int \<Rightarrow> nat \<Rightarrow> int \<Rightarrow> int" where
  "next_run cronNext fails nowMs =
     max cronNext (if fails > 0 then nowMs + scriptBackoffMinutes fails * 60000 else 0)"

definition rearm :: "(string \<Rightarrow> int option) \<Rightarrow> string \<Rightarrow> int \<Rightarrow> recurring \<Rightarrow> inbound_db \<Rightarrow> recur_outcome \<times> inbound_db" where
  "rearm cron newId nowMs msg db =
     (case cron (rm_recurrence msg) of
        None \<Rightarrow> (RecurFailed ''cron'', db)
      | Some cronNext \<Rightarrow>
          (let fails = series_fails msg db
           in if SCRIPT_FAIL_PAUSE_CAP \<le> fails
              then (case armNextTask (rm_id msg) (task_write newId (rm_series_id msg) (Some (to_iso cronNext))
                      (Some (rm_recurrence msg)) (rm_content msg) (Some ''paused'')) nowMs db of
                      (Inl e, db1) \<Rightarrow> (RecurFailed e, db1)
                    | (Inr _, db1) \<Rightarrow> (AutoPaused newId fails, db1))
              else (case armNextTask (rm_id msg) (task_write newId (rm_series_id msg)
                      (Some (to_iso (next_run cronNext fails nowMs)))
                      (Some (rm_recurrence msg)) (rm_content msg) None) nowMs db of
                      (Inl e, db1) \<Rightarrow> (RecurFailed e, db1)
                    | (Inr _, db1) \<Rightarrow> (Rearmed newId, db1))))"

text \<open>The loop; \<open>ids\<close> has the id and the clock of each turn.\<close>

fun recur_loop :: "(string \<Rightarrow> int option) \<Rightarrow> (string \<times> int) list \<Rightarrow> recurring list \<Rightarrow> inbound_db \<Rightarrow>
    recur_outcome list \<times> inbound_db" where
  "recur_loop cron ids [] db = ([], db)"
| "recur_loop cron [] (msg # msgs) db = ([], db)"
| "recur_loop cron ((newId, nowMs) # ids) (msg # msgs) db =
     (let (out, db1) = rearm cron newId nowMs msg db;
          (outs, db2) = recur_loop cron ids msgs db1
      in (out # outs, db2))"

definition handleRecurrence :: "(string \<Rightarrow> int option) \<Rightarrow> (string \<times> int) list \<Rightarrow> inbound_db \<Rightarrow> recur_outcome list \<times> inbound_db" where
  "handleRecurrence cron ids db = recur_loop cron ids (getCompletedRecurring db) db"

section \<open>The back-off\<close>

lemma scriptBackoffMinutes_table: "map scriptBackoffMinutes [1, 2, 3, 4, 5, 6, 7] = [2, 4, 8, 16, 32, 60, 60]"
  by code_simp

lemma scriptBackoffMinutes_bounds: "0 < fails \<Longrightarrow> 2 \<le> scriptBackoffMinutes fails \<and> scriptBackoffMinutes fails \<le> 60"
proof -
  have "(1::int) \<le> 2 ^ (fails - 1)" by simp
  then show ?thesis by (simp add: scriptBackoffMinutes_def SCRIPT_BACKOFF_CAP_MIN_def)
qed

lemma scriptBackoffMinutes_mono: "0 < a \<Longrightarrow> a \<le> b \<Longrightarrow> scriptBackoffMinutes a \<le> scriptBackoffMinutes b"
proof -
  assume "0 < a" "a \<le> b"
  then have "(2::int) ^ (a - 1) \<le> 2 ^ (b - 1)" by (intro power_increasing) auto
  then show ?thesis by (simp add: scriptBackoffMinutes_def min_le_iff_disj)
qed

section \<open>The row of a new occurrence\<close>

lemma task_write_flat: "task_write i s p rc c st = Obj ps \<Longrightarrow> \<forall>(k, v)\<in>set ps. \<not> is_nested v"
  by (auto simp: task_write_def opt_js_def split: option.splits)

lemma opt_js_simps [simp]: "js_opt (opt_js x) = x" "\<not> is_nested (opt_js x)" "nullable_str (opt_js x)"
  by (auto simp: opt_js_def nullable_str_def split: option.split)

text \<open>What the row of a task write says, whatever the write.\<close>

lemma task_write_row:
  assumes "createTaskInboundRecord (task_write i s p rc c st) (Num (Fin (of_int n))) ts = Inr r"
  shows "mi_id (row_of_record r) = i" "mi_series_id (row_of_record r) = s" "mi_recurrence (row_of_record r) = rc"
    "mi_kind (row_of_record r) = ''task''"
proof -
  obtain w where w: "parseTaskWrite (task_write i s p rc c st) = Inr w"
    using assms by (auto simp: createTaskInboundRecord_def bind_result_eq_Inr)
  then obtain ps qs where ps: "task_write i s p rc c st = Obj ps" "w = Obj qs" "object_literal task_write_fields ps = Inr qs"
    unfolding parseTaskWrite_def by (elim parse_with_Inr) blast
  have d: "distinct (map reader_key task_write_fields)" by (simp add: task_write_fields_def)
  note v = literal_value [OF ps(3) d]
  have "text_field ps ''id'' = Inr (prop_of qs ''id'')" "text_field ps ''seriesId'' = Inr (prop_of qs ''seriesId'')"
    "nullableText ps ''recurrence'' = Inr (prop_of qs ''recurrence'')"
    by (rule v, simp add: task_write_fields_def)+
  then have q: "prop_of qs ''id'' = prop_of ps ''id''" "prop_of qs ''seriesId'' = prop_of ps ''seriesId''"
    "prop_of qs ''recurrence'' = prop_of ps ''recurrence''"
    by (simp_all add: reader_iffs)
  have p: "prop_of ps ''id'' = Str i" "prop_of ps ''seriesId'' = opt_js s" "prop_of ps ''recurrence'' = opt_js rc"
    using ps(1) by (auto simp: task_write_def prop_of_def split: option.splits)
  obtain rs where rs: "parseInboundRecord (Obj rs) = Inr r"
    "prop_of rs ''id'' = Str i" "prop_of rs ''seriesId'' = opt_js s" "prop_of rs ''recurrence'' = opt_js rc"
    "prop_of rs ''kind'' = Str ''task''"
    using assms q p by (auto simp: createTaskInboundRecord_def w ps(2) prop_of_def)
  note g = inbound_record_prop [OF rs(1)]
  show "mi_id (row_of_record r) = i" "mi_series_id (row_of_record r) = s" "mi_recurrence (row_of_record r) = rc"
    "mi_kind (row_of_record r) = ''task''"
    using g [of "''id''"] g [of "''seriesId''"] g [of "''recurrence''"] g [of "''kind''"] rs(2-5)
    by (simp_all add: row_of_record_def inbound_record_fields_def)
qed

lemma status_of_live: "s \<in> set [''pending'', ''paused''] \<Longrightarrow> status_of s = Pending \<or> status_of s = Paused"
  by (auto simp: status_of_def)

lemma task_write_live:
  assumes "createTaskInboundRecord (task_write i s p rc c st) (Num (Fin (of_int n))) ts = Inr r"
  shows "live (row_of_record r)"
proof -
  obtain w where w: "parseTaskWrite (task_write i s p rc c st) = Inr w"
    using assms by (auto simp: createTaskInboundRecord_def bind_result_eq_Inr)
  then obtain ps qs where ps: "w = Obj qs" "object_literal task_write_fields ps = Inr qs"
    unfolding parseTaskWrite_def by (elim parse_with_Inr) blast
  have d: "distinct (map reader_key task_write_fields)" by (simp add: task_write_fields_def)
  have "prop_of qs ''status'' = Undefined \<or> oneOf [''pending'', ''paused''] ps ''status'' = Inr (prop_of qs ''status'')"
    by (rule literal_spread [OF ps(2) d]) (simp add: task_write_fields_def)
  then have "\<exists>t\<in>set [''pending'', ''paused'']. nullish_or (prop_of qs ''status'') (Str ''pending'') = Str t"
    by (auto simp: oneOf_iff)
  then obtain rs t where rs: "parseInboundRecord (Obj rs) = Inr r" "prop_of rs ''status'' = Str t"
    "t \<in> set [''pending'', ''paused'']"
    using assms by (auto simp: createTaskInboundRecord_def w ps(1) prop_of_def)
  then show ?thesis
    using inbound_record_prop [OF rs(1), of "''status''"] status_of_live [OF rs(3)]
    by (simp add: row_of_record_def inbound_record_fields_def live_def)
qed

section \<open>No series is lost or doubled\<close>

definition unset_recurrence :: "string \<Rightarrow> message_in \<Rightarrow> message_in" where
  "unset_recurrence i r = (if mi_id r = i then r\<lparr>mi_recurrence := None\<rparr> else r)"

lemma unset_simps [simp]:
  "mi_id (unset_recurrence i r) = mi_id r" "mi_series_id (unset_recurrence i r) = mi_series_id r"
  "mi_status (unset_recurrence i r) = mi_status r"
  by (simp_all add: unset_recurrence_def)

lemma armNextTask_effect:
  assumes "armNextTask i (task_write newId s p (Some rc) c st) now db = (res, db1)"
  shows "(\<exists>e. res = Inl e \<and> db1 = db) \<or>
    (res = Inr () \<and> (\<exists>new. mi_id new = newId \<and> newId \<notin> mi_id ` set (messages_in db) \<and> mi_series_id new = s \<and>
       mi_recurrence new = Some rc \<and> live new \<and>
       messages_in db1 = map (unset_recurrence i) (messages_in db @ [new])))"
proof (cases "createTaskInboundRecord (task_write newId s p (Some rc) c st)
      (Num (Fin (of_int (nextEvenAcross (Some db) None)))) (Str (to_iso now))")
  case (Inl e)
  then show ?thesis using assms by (auto simp: armNextTask_def insertTaskRow_def)
next
  case (Inr r)
  note row = task_write_row [OF Inr] task_write_live [OF Inr]
  obtain ins db2 where ins: "insert_row_in (row_of_record r) db = (ins, db2)" by (metis surj_pair)
  show ?thesis
  proof (cases ins)
    case (Inl e)
    then show ?thesis using assms ins Inr by (auto simp: armNextTask_def insertTaskRow_def)
  next
    case ok: (Inr u)
    then have "newId \<notin> mi_id ` set (messages_in db)" "messages_in db2 = messages_in db @ [row_of_record r]"
      using ins row(1) by (auto simp: insert_row_in_def split: if_splits)
    moreover have "res = Inr ()" "db1 = clearRecurrence i db2"
      using assms ins Inr ok by (simp_all add: armNextTask_def insertTaskRow_def)
    ultimately show ?thesis
      using row by (auto simp: clearRecurrence_def update_in_def unset_recurrence_def)
  qed
qed

definition armed_rows :: "message_in list \<Rightarrow> (string option \<times> string option) multiset" where
  "armed_rows rows = mset (map (\<lambda>r. (mi_series_id r, mi_recurrence r)) (filter (\<lambda>r. mi_recurrence r \<noteq> None) rows))"

definition armed :: "inbound_db \<Rightarrow> (string option \<times> string option) multiset" where
  "armed db = armed_rows (messages_in db)"

lemma armed_rows_simps [simp]:
  "armed_rows [] = {#}"
  "armed_rows (r # rows) = (if mi_recurrence r \<noteq> None then {#(mi_series_id r, mi_recurrence r)#} else {#}) + armed_rows rows"
  "armed_rows (xs @ ys) = armed_rows xs + armed_rows ys"
  by (simp_all add: armed_rows_def)

lemma unset_other: "i \<notin> mi_id ` set rows \<Longrightarrow> map (unset_recurrence i) rows = rows"
  by (intro map_idI) (auto simp: unset_recurrence_def)

lemma armed_unset:
  assumes "distinct (map mi_id rows)" "r \<in> set rows" "mi_recurrence r = Some rc"
  shows "armed_rows rows = add_mset (mi_series_id r, Some rc) (armed_rows (map (unset_recurrence (mi_id r)) rows))"
  using assms
proof (induction rows)
  case (Cons q rows)
  show ?case
  proof (cases "q = r")
    case True
    then show ?thesis using Cons.prems by (simp add: unset_other) (simp add: unset_recurrence_def)
  next
    case False
    then have "mi_id q \<noteq> mi_id r" using Cons.prems by (auto simp: image_iff)
    then have "unset_recurrence (mi_id r) q = q" by (simp add: unset_recurrence_def)
    then show ?thesis using Cons False by simp
  qed
qed simp

definition of_row :: "message_in \<Rightarrow> recurring \<Rightarrow> bool" where
  "of_row r msg = (mi_id r = rm_id msg \<and> mi_series_id r = rm_series_id msg \<and> mi_recurrence r = Some (rm_recurrence msg))"

definition succeeded :: "recur_outcome \<Rightarrow> bool" where
  "succeeded out = (\<forall>e. out \<noteq> RecurFailed e)"

text \<open>One turn either changes nothing or moves the recurrence from the finished row to a new one.\<close>

lemma rearm_effect:
  assumes "rearm cron newId now msg db = (out, db1)"
  shows "(\<not> succeeded out \<and> db1 = db) \<or>
    (succeeded out \<and> (\<exists>new. mi_id new = newId \<and> newId \<notin> mi_id ` set (messages_in db) \<and>
       mi_series_id new = rm_series_id msg \<and> mi_recurrence new = Some (rm_recurrence msg) \<and> live new \<and>
       messages_in db1 = map (unset_recurrence (rm_id msg)) (messages_in db @ [new])))"
proof (cases "cron (rm_recurrence msg)")
  case None
  then show ?thesis using assms by (auto simp: rearm_def succeeded_def)
next
  case (Some cronNext)
  define p where "p = (if SCRIPT_FAIL_PAUSE_CAP \<le> series_fails msg db then Some (to_iso cronNext)
     else Some (to_iso (next_run cronNext (series_fails msg db) now)))"
  define st where "st = (if SCRIPT_FAIL_PAUSE_CAP \<le> series_fails msg db then Some ''paused'' else None)"
  obtain res db2 where arm: "armNextTask (rm_id msg) (task_write newId (rm_series_id msg) p (Some (rm_recurrence msg))
      (rm_content msg) st) now db = (res, db2)" by (metis surj_pair)
  have "db1 = db2 \<and> (succeeded out \<longleftrightarrow> (\<exists>u. res = Inr u))"
    using assms arm Some by (cases res) (auto simp: rearm_def Let_def p_def st_def succeeded_def split: if_splits)
  then show ?thesis using armNextTask_effect [OF arm] by auto
qed

lemma completed_unset:
  "filter completed_recurring (map (unset_recurrence i) rows) = filter (\<lambda>r. mi_id r \<noteq> i) (filter completed_recurring rows)"
  by (induction rows) (auto simp: unset_recurrence_def completed_recurring_def)

lemma rearm_moves:
  assumes "rearm cron newId now msg db = (out, db1)" "distinct (map mi_id (messages_in db))"
    and "\<exists>r\<in>set (messages_in db). of_row r msg"
  shows "distinct (map mi_id (messages_in db1)) \<and> armed db1 = armed db \<and>
    getCompletedRecurring db1 =
      (if succeeded out then filter (\<lambda>m. rm_id m \<noteq> rm_id msg) (getCompletedRecurring db) else getCompletedRecurring db) \<and>
    (\<forall>m. rm_id m \<noteq> rm_id msg \<longrightarrow> (\<exists>r\<in>set (messages_in db). of_row r m) \<longrightarrow> (\<exists>r\<in>set (messages_in db1). of_row r m))"
proof -
  obtain r where r: "r \<in> set (messages_in db)" "mi_id r = rm_id msg" "mi_series_id r = rm_series_id msg"
    "mi_recurrence r = Some (rm_recurrence msg)"
    using assms(3) by (auto simp: of_row_def)
  consider (failed) "\<not> succeeded out" "db1 = db"
    | (moved) new where "mi_id new = newId" "newId \<notin> mi_id ` set (messages_in db)" "mi_series_id new = rm_series_id msg"
        "mi_recurrence new = Some (rm_recurrence msg)" "live new"
        "messages_in db1 = map (unset_recurrence (rm_id msg)) (messages_in db @ [new])"
    using rearm_effect [OF assms(1)] by blast
  then show ?thesis
  proof cases
    case failed
    then show ?thesis using assms(2) by simp
  next
    case moved
    have other: "newId \<noteq> rm_id msg" using moved(2) r(1,2) by force
    then have rows: "messages_in db1 = map (unset_recurrence (rm_id msg)) (messages_in db) @ [new]"
      using moved(1,6) by (simp add: unset_recurrence_def)
    have d: "distinct (map mi_id (messages_in db1))"
      using assms(2) moved(1,2) by (simp add: rows comp_def)
    have "armed db = add_mset (rm_series_id msg, Some (rm_recurrence msg))
        (armed_rows (map (unset_recurrence (rm_id msg)) (messages_in db)))"
      using armed_unset [OF assms(2) r(1,4)] r by (simp add: armed_def)
    then have a: "armed db1 = armed db"
      using moved(3,4) by (simp add: armed_def rows)
    have "\<not> completed_recurring new" using moved(5) by (auto simp: completed_recurring_def live_def)
    then have f: "getCompletedRecurring db1 = filter (\<lambda>m. rm_id m \<noteq> rm_id msg) (getCompletedRecurring db)"
      by (simp add: getCompletedRecurring_def rows completed_unset) (simp add: filter_map comp_def conj_commute)
    have o: "\<exists>q\<in>set (messages_in db1). of_row q m" if "rm_id m \<noteq> rm_id msg" "q \<in> set (messages_in db)" "of_row q m" for m q
    proof -
      have "unset_recurrence (rm_id msg) q = q" using that by (simp add: of_row_def unset_recurrence_def)
      then show ?thesis using that by (force simp: rows)
    qed
    have "succeeded out" using rearm_effect [OF assms(1)] rows by (auto dest: arg_cong [of _ _ length])
    then show ?thesis using d a f o by simp blast
  qed
qed

lemma filter_others: "rm_id msg \<notin> rm_id ` set msgs \<Longrightarrow> filter (\<lambda>m. rm_id m \<noteq> rm_id msg) msgs = msgs"
  by (simp add: filter_id_conv image_iff) metis

text \<open>The finished occurrences whose turn failed.\<close>

definition failed_turns :: "recurring list \<Rightarrow> recur_outcome list \<Rightarrow> recurring list" where
  "failed_turns msgs outs = map fst (filter (\<lambda>(m, out). \<not> succeeded out) (zip msgs outs))"

lemma failed_turns_Cons [simp]:
  "failed_turns (m # msgs) (out # outs) = (if succeeded out then failed_turns msgs outs else m # failed_turns msgs outs)"
  by (simp add: failed_turns_def)

lemma rearm_cron_error: "cron (rm_recurrence m) = None \<Longrightarrow> rearm cron i now m db = (RecurFailed ''cron'', db)"
  by (simp add: rearm_def)

lemma rearm_turn:
  assumes "distinct (map mi_id (messages_in db))" "distinct (map rm_id (msg # msgs))"
    and "\<forall>m\<in>set (msg # msgs). \<exists>r\<in>set (messages_in db). of_row r m"
    and t: "rearm cron newId now msg db = (out, db1)"
  shows "distinct (map mi_id (messages_in db1))" "distinct (map rm_id msgs)"
    "\<forall>m\<in>set msgs. \<exists>r\<in>set (messages_in db1). of_row r m" "armed db1 = armed db"
    "getCompletedRecurring db1 =
      (if succeeded out then filter (\<lambda>m. rm_id m \<noteq> rm_id msg) (getCompletedRecurring db) else getCompletedRecurring db)"
proof -
  have row: "\<exists>r\<in>set (messages_in db). of_row r msg" using assms(3) by simp
  note m = rearm_moves [OF t assms(1) row]
  show "\<forall>m\<in>set msgs. \<exists>r\<in>set (messages_in db1). of_row r m"
  proof
    fix m'
    assume "m' \<in> set msgs"
    then have "rm_id m' \<noteq> rm_id msg" "\<exists>r\<in>set (messages_in db). of_row r m'"
      using assms(2,3) by (auto simp: image_iff)
    then show "\<exists>r\<in>set (messages_in db1). of_row r m'" using m by blast
  qed
  show "distinct (map mi_id (messages_in db1))" "distinct (map rm_id msgs)" "armed db1 = armed db"
    using m assms(2) by simp_all
  show "getCompletedRecurring db1 =
      (if succeeded out then filter (\<lambda>m. rm_id m \<noteq> rm_id msg) (getCompletedRecurring db) else getCompletedRecurring db)"
    using m by blast
qed

lemma recur_loop_moves:
  assumes "recur_loop cron ids msgs db = (outs, db')" "distinct (map mi_id (messages_in db))"
    and "distinct (map rm_id msgs)" "\<forall>m\<in>set msgs. \<exists>r\<in>set (messages_in db). of_row r m"
  shows "armed db' = armed db"
    and "length msgs \<le> length ids \<Longrightarrow> getCompletedRecurring db = pre @ msgs \<Longrightarrow> distinct (map rm_id (pre @ msgs)) \<Longrightarrow>
      length outs = length msgs \<and> getCompletedRecurring db' = pre @ failed_turns msgs outs \<and>
      (\<forall>(m, out)\<in>set (zip msgs outs). cron (rm_recurrence m) = None \<longrightarrow> out = RecurFailed ''cron'')"
  using assms
proof (induction cron ids msgs db arbitrary: outs db' pre rule: recur_loop.induct)
  case (3 cron newId nowMs ids msg msgs db)
  {
    case 1
    obtain out db1 where t: "rearm cron newId nowMs msg db = (out, db1)" by (metis surj_pair)
    obtain outs2 db2 where l: "recur_loop cron ids msgs db1 = (outs2, db2)" by (metis surj_pair)
    note m = rearm_turn [OF 1(2,3,4) t]
    show ?case using "3.IH"(1) [OF t [symmetric] refl l m(1,2,3)] m(4) 1(1) by (simp add: t l)
  next
    case 2
    obtain out db1 where t: "rearm cron newId nowMs msg db = (out, db1)" by (metis surj_pair)
    obtain outs2 db2 where l: "recur_loop cron ids msgs db1 = (outs2, db2)" by (metis surj_pair)
    have res: "outs = out # outs2" "db' = db2" using 2(4) by (simp_all add: t l)
    note m = rearm_turn [OF 2(5,6,7) t]
    let ?pre = "if succeeded out then pre else pre @ [msg]"
    have g: "getCompletedRecurring db1 = ?pre @ msgs"
      using 2(2,3) filter_others [of msg pre] filter_others [of msg msgs] by (simp add: m(5))
    have "length outs2 = length msgs \<and> getCompletedRecurring db2 = ?pre @ failed_turns msgs outs2 \<and>
        (\<forall>(m, out)\<in>set (zip msgs outs2). cron (rm_recurrence m) = None \<longrightarrow> out = RecurFailed ''cron'')"
      by (rule "3.IH"(2) [OF t [symmetric] refl _ g _ l m(1,2,3)]) (use 2(1,3) in \<open>auto split: if_splits\<close>)
    then show ?case using rearm_cron_error [of cron msg newId nowMs db] t by (auto simp: res)
  }
qed (auto simp: failed_turns_def)

lemma getCompletedRecurring_rows:
  "m \<in> set (getCompletedRecurring db) \<Longrightarrow> \<exists>r\<in>set (messages_in db). of_row r m"
  by (auto simp: getCompletedRecurring_def completed_recurring_def of_row_def)

lemma getCompletedRecurring_ids: "map rm_id (getCompletedRecurring db) = map mi_id (filter completed_recurring (messages_in db))"
  by (simp add: getCompletedRecurring_def)

text \<open>C20: recurring series are conserved.  Whatever the cron parser, the new ids and the history do,
  the sweep neither drops nor doubles a series: the armed occurrences, counted with their series
  and cron expression, are the same before and after.  With an id for every turn it takes exactly one
  turn for each finished occurrence that is still armed, and the finished occurrences still armed
  afterwards, which the next sweep takes again, are exactly those whose turn failed; every turn whose
  cron expression does not parse fails.\<close>

theorem series_conserved:
  assumes "handleRecurrence cron ids db = (outs, db')" "distinct (map mi_id (messages_in db))"
    and "length (getCompletedRecurring db) \<le> length ids"
  shows "armed db' = armed db
    \<and> length outs = length (getCompletedRecurring db)
    \<and> getCompletedRecurring db' = failed_turns (getCompletedRecurring db) outs
    \<and> (\<forall>(m, out)\<in>set (zip (getCompletedRecurring db) outs). cron (rm_recurrence m) = None \<longrightarrow> out = RecurFailed ''cron'')"
proof -
  have d: "distinct (map rm_id (getCompletedRecurring db))"
    using assms(2) by (simp add: getCompletedRecurring_ids distinct_map_filter)
  note l = recur_loop_moves [OF assms(1) [unfolded handleRecurrence_def] assms(2) d]
  show ?thesis
    using l(1) l(2) [of "[]"] assms(3) d getCompletedRecurring_rows by simp
qed

section \<open>Throttling\<close>

lemma created_task:
  fixes i s pa rc c ts :: string
  assumes "is_iso_timestamp pa" "is_iso_timestamp ts" "0 \<le> n" "n < 2 ^ 53" "st \<in> {None, Some ''paused''}"
  shows "\<exists>r. createTaskInboundRecord (task_write i (Some s) (Some pa) (Some rc) c st) (Num (Fin (of_int n))) (Str ts) = Inr r
    \<and> mi_process_after (row_of_record r) = Some pa
    \<and> mi_status (row_of_record r) = (if st = None then Pending else Paused)"
proof -
  let ?seq = "Num (Fin (of_int n))"
  have seq: "non_negative_safe ?seq" using assms(3,4) by (simp add: is_safe_integer_int)
  define w where "w = [(''id'', Str i), (''seriesId'', Str s), (''processAfter'', Str pa), (''recurrence'', Str rc), (''content'', Str c)]
    @ (case st of Some x \<Rightarrow> [(''status'', Str x)] | None \<Rightarrow> [])"
  have tw: "task_write i (Some s) (Some pa) (Some rc) c st = Obj w"
    by (simp add: task_write_def w_def opt_js_def)
  have w: "parseTaskWrite (Obj w) = Inr (Obj w)"
    unfolding parseTaskWrite_def
    by (rule parse_with_flat)
      (use assms in \<open>auto simp: w_def task_write_fields_def has_key_Cons has_key_Nil read_text prop_of_def
        nullableTimestamp_def timestamp_field_def parseIsoTimestamp_def nullableText_def text_field_def oneOf_def\<close>)
  define x where "x = (if st = None then ''pending'' else ''paused'')"
  let ?r = "[(''id'', Str i), (''sequence'', ?seq), (''kind'', Str ''task''), (''timestamp'', Str ts), (''status'', Str x),
      (''processAfter'', Str pa), (''recurrence'', Str rc), (''seriesId'', Str s), (''tries'', Num (Fin 0)), (''trigger'', Bool True),
      (''platformId'', Null), (''channelType'', Null), (''threadId'', Null), (''content'', Str c), (''sourceSessionId'', Null),
      (''onWake'', Bool False)]"
  have x: "x = ''pending'' \<or> x = ''paused''" by (simp add: x_def)
  have r: "parseInboundRecord (Obj ?r) = Inr (Obj ?r)"
    unfolding parseInboundRecord_def
    by (rule parse_with_flat)
      (use assms seq x in \<open>auto simp: inbound_record_fields_def INBOUND_KINDS_def prop_of_def nullableTimestamp_def timestamp_field_def
        parseIsoTimestamp_def nullableText_def text_field_def oneOf_def nullableNonNegativeInteger_def nonNegativeInteger_def
        booleanValue_def\<close>)
  have "createTaskInboundRecord (Obj w) ?seq (Str ts) = Inr (Obj ?r)"
    using r assms(5) by (auto simp: createTaskInboundRecord_def w) (auto simp: w_def prop_of_def x_def)
  then show ?thesis
    using x by (auto simp: tw row_of_record_def prop_of_def x_def status_of_def)
qed

lemma armNextTask_ok:
  assumes "is_iso_timestamp pa" "four_digit_time now" "newId \<notin> mi_id ` set (messages_in db)"
    and "nextEvenAcross (Some db) None < 2 ^ 53" "st \<in> {None, Some ''paused''}"
  shows "\<exists>new db1. armNextTask i (task_write newId (Some s) (Some pa) (Some rc) c st) now db = (Inr (), db1) \<and>
    unset_recurrence i new \<in> set (messages_in db1) \<and> mi_id new = newId \<and> mi_process_after new = Some pa \<and>
    mi_status new = (if st = None then Pending else Paused)"
proof -
  let ?n = "nextEvenAcross (Some db) None"
  have n: "0 \<le> ?n" using even_seq(2) [of "Some db" None] by linarith
  obtain r where r: "createTaskInboundRecord (task_write newId (Some s) (Some pa) (Some rc) c st)
      (Num (Fin (of_int ?n))) (Str (to_iso now)) = Inr r"
    "mi_process_after (row_of_record r) = Some pa" "mi_status (row_of_record r) = (if st = None then Pending else Paused)"
    using created_task [OF assms(1) to_iso_time(1) [OF assms(2)] n assms(4,5)] by blast
  have sq: "mi_seq (row_of_record r) = Some ?n" by (rule task_row_seq [OF r(1)])
  have "Some ?n \<notin> mi_seq ` set (messages_in db)"
    using nextEvenAcross_fresh [of _ db _ None] by force
  then have "insert_row_in (row_of_record r) db = (Inr (), db\<lparr>messages_in := messages_in db @ [row_of_record r]\<rparr>)"
    using assms(3) task_write_row(1) [OF r(1)] sq by (simp add: insert_row_in_def)
  then have arm: "armNextTask i (task_write newId (Some s) (Some pa) (Some rc) c st) now db =
      (Inr (), clearRecurrence i (db\<lparr>messages_in := messages_in db @ [row_of_record r]\<rparr>))"
    using r(1) by (simp add: armNextTask_def insertTaskRow_def)
  have "unset_recurrence i (row_of_record r) \<in>
      set (messages_in (clearRecurrence i (db\<lparr>messages_in := messages_in db @ [row_of_record r]\<rparr>)))"
    by (simp add: clearRecurrence_def update_in_def unset_recurrence_def)
  then show ?thesis using arm r(2,3) task_write_row(1) [OF r(1)] by blast
qed

text \<open>a failing series is throttled, then paused.  The next occurrence of a finished run is
  scheduled at the cron time or, after \<open>k\<close> failed runs in a row, at the earliest \<open>min (2 ^ k) 60\<close>
  minutes from now; from the eighth failure on it is paused at the cron time instead.\<close>

theorem rearm_throttled:
  assumes "cron (rm_recurrence msg) = Some cronNext" "rm_series_id msg = Some s"
    and "newId \<notin> mi_id ` set (messages_in db)" "nextEvenAcross (Some db) None < 2 ^ 53"
    and "four_digit_time cronNext" "four_digit_time now" "four_digit_time (now + 3600000)"
  shows "\<exists>new\<in>set (messages_in (snd (rearm cron newId now msg db))).
    mi_id new = newId \<and>
    (if 8 \<le> trailingFailedRuns s db
     then fst (rearm cron newId now msg db) = AutoPaused newId (trailingFailedRuns s db) \<and> mi_status new = Paused \<and>
          Option.bind (mi_process_after new) iso_ms = Some cronNext
     else fst (rearm cron newId now msg db) = Rearmed newId \<and> mi_status new = Pending \<and>
          Option.bind (mi_process_after new) iso_ms = Some (max cronNext
            (if trailingFailedRuns s db = 0 then 0
             else now + min (2 ^ trailingFailedRuns s db) 60 * 60000)))"
proof (cases "8 \<le> trailingFailedRuns s db")
  case True
  obtain new db1 where n: "armNextTask (rm_id msg) (task_write newId (Some s) (Some (to_iso cronNext)) (Some (rm_recurrence msg))
      (rm_content msg) (Some ''paused'')) now db = (Inr (), db1)" "unset_recurrence (rm_id msg) new \<in> set (messages_in db1)"
    "mi_id new = newId" "mi_process_after new = Some (to_iso cronNext)" "mi_status new = Paused"
    using armNextTask_ok [OF to_iso_time(1) [OF assms(5)] assms(6,3,4), of "Some ''paused''" "rm_id msg" s "rm_recurrence msg" "rm_content msg"] by auto
  have "rearm cron newId now msg db = (AutoPaused newId (trailingFailedRuns s db), db1)"
    using assms(1,2) True n(1) by (simp add: rearm_def series_fails_def SCRIPT_FAIL_PAUSE_CAP_def)
  then show ?thesis
    using n True to_iso_time(2) [OF assms(5)]
    by (intro bexI [of _ "unset_recurrence (rm_id msg) new"]) (simp_all add: unset_recurrence_def)
next
  case False
  define k where "k = trailingFailedRuns s db"
  define t where "t = next_run cronNext k now"
  have "(2::int) * 2 ^ (k - 1) = 2 ^ k" if "0 < k" using that by (cases k) simp_all
  then have tk: "t = max cronNext (if k = 0 then 0 else now + min (2 ^ k) 60 * 60000)"
    by (simp add: t_def next_run_def scriptBackoffMinutes_def SCRIPT_BACKOFF_CAP_MIN_def)
  have "min (2 ^ k) 60 * 60000 \<le> (3600000 :: int)" "0 \<le> min (2 ^ k) 60 * (60000 :: int)" by auto
  then have t4: "four_digit_time t" using assms(5-7) unfolding tk four_digit_time_def by auto
  obtain new db1 where n: "armNextTask (rm_id msg) (task_write newId (Some s) (Some (to_iso t)) (Some (rm_recurrence msg))
      (rm_content msg) None) now db = (Inr (), db1)" "unset_recurrence (rm_id msg) new \<in> set (messages_in db1)"
    "mi_id new = newId" "mi_process_after new = Some (to_iso t)" "mi_status new = Pending"
    using armNextTask_ok [OF to_iso_time(1) [OF t4] assms(6,3,4), of None "rm_id msg" s "rm_recurrence msg" "rm_content msg"] by auto
  have "rearm cron newId now msg db = (Rearmed newId, db1)"
    using assms(1,2) False n(1) by (simp add: rearm_def series_fails_def SCRIPT_FAIL_PAUSE_CAP_def t_def k_def)
  then show ?thesis
    using n False to_iso_time(2) [OF t4]
    by (intro bexI [of _ "unset_recurrence (rm_id msg) new"]) (simp_all add: unset_recurrence_def tk k_def)
qed

text \<open>A series whose last two runs failed.\<close>

definition task_row :: "string \<Rightarrow> int \<Rightarrow> inbound_status \<Rightarrow> string option \<Rightarrow> message_in" where
  "task_row i n st rc = (sample_row i n ''2026-02-01'')\<lparr>mi_kind := ''task'', mi_status := st, mi_recurrence := rc,
     mi_series_id := Some ''t'', mi_channel_type := None\<rparr>"

definition failing_series :: inbound_db where
  "failing_series = empty_inbound\<lparr>messages_in :=
     [task_row ''t'' 2 Completed None, task_row ''t1'' 4 Failed None, task_row ''t2'' 6 Failed (Some ''0 9 * * *'')]\<rparr>"

lemma failing_series_facts:
  "getCompletedRecurring failing_series = [\<lparr>rm_id = ''t2'', rm_content = ''x'', rm_recurrence = ''0 9 * * *'', rm_series_id = Some ''t''\<rparr>]"
  "trailingFailedRuns ''t'' failing_series = 2" "nextEvenAcross (Some failing_series) None = 8"
  "mi_id ` set (messages_in failing_series) = {''t'', ''t1'', ''t2''}"
  by code_simp+

lemma rearm_throttled_witness:
  "\<exists>new\<in>set (messages_in (snd (rearm (\<lambda>c. Some 1000000) ''t3'' 1000000 (hd (getCompletedRecurring failing_series)) failing_series))).
     mi_id new = ''t3'' \<and> mi_status new = Pending \<and> Option.bind (mi_process_after new) iso_ms = Some 1240000"
proof -
  let ?m = "hd (getCompletedRecurring failing_series)"
  have "rm_series_id ?m = Some ''t''" by (simp add: failing_series_facts)
  note r = rearm_throttled [of "\<lambda>c. Some 1000000" ?m, OF refl this, of "''t3''" failing_series 1000000]
  then show ?thesis
    by (simp add: failing_series_facts(2-4) four_digit_time_def) blast
qed

lemma series_conserved_witness:
  "armed (snd (handleRecurrence (\<lambda>c. Some 1000000) [(''t3'', 1000000)] failing_series)) = {#(Some ''t'', Some ''0 9 * * *'')#}"
proof -
  have d: "distinct (map mi_id (messages_in failing_series))" by code_simp
  have "armed (snd (handleRecurrence (\<lambda>c. Some 1000000) [(''t3'', 1000000)] failing_series)) = armed failing_series"
    using series_conserved [OF prod.collapse [symmetric] d] failing_series_facts(1) by simp
  also have "\<dots> = {#(Some ''t'', Some ''0 9 * * *'')#}"
    by (simp add: armed_def failing_series_def task_row_def empty_inbound_def sample_row_def)
  finally show ?thesis .
qed

end
