(* ===== verification/ReconcileSession.thy ===== *)
theory ReconcileSession
  imports Recurrence Coordination
begin

text \<open>
  One maintenance pass over a session (\<open>nanoclaw/src/reconcile-session.ts\<close>): acknowledgements,
  waking for due messages, the decision whether a running container is stuck, the retries of
  what it left unfinished, recurrence, the closing of spent task sessions and the echo pruner.
  The container runtime is outside the model: whether the container runs, its heartbeat and its
  start are inputs of the pass, kills and wakes are recorded.  The pass reads its clock once.
\<close>

definition ABSOLUTE_CEILING_MS :: int where "ABSOLUTE_CEILING_MS = 30 * 60 * 1000"
definition CLAIM_STUCK_MS :: int where "CLAIM_STUCK_MS = 60 * 1000"
definition MAX_TRIES :: int where "MAX_TRIES = 5"
definition BACKOFF_BASE_MS :: int where "BACKOFF_BASE_MS = 5000"

section \<open>The stuck decision\<close>

text \<open>A heartbeat is a file time in milliseconds with a fraction.\<close>

datatype stuck_decision = StuckOk | KillCeiling rat int | KillClaim string int int

definition bashTimeoutMs :: "jsval option \<Rightarrow> int option" where
  "bashTimeoutMs st =
     (case st of
        None \<Rightarrow> None
      | Some v \<Rightarrow> if get_prop v ''currentTool'' \<noteq> Str ''Bash'' then None else js_int (get_prop v ''toolDeclaredTimeoutMs''))"

definition nullish_int :: "int option \<Rightarrow> int" where
  "nullish_int x = (case x of Some n \<Rightarrow> n | None \<Rightarrow> 0)"

definition claim_stuck :: "(string \<Rightarrow> int option) \<Rightarrow> int \<Rightarrow> rat \<Rightarrow> int \<Rightarrow> string \<times> string \<Rightarrow> bool" where
  "claim_stuck other now hb tolerance claim =
     (case date_parse other (snd claim) of
        None \<Rightarrow> False
      | Some t \<Rightarrow> \<not> now - t \<le> tolerance \<and> \<not> hb > of_int t)"

definition decideStuckAction ::
    "(string \<Rightarrow> int option) \<Rightarrow> int \<Rightarrow> rat \<Rightarrow> int option \<Rightarrow> jsval option \<Rightarrow> (string \<times> string) list \<Rightarrow> stuck_decision" where
  "decideStuckAction other now hb started st claims =
     (let declared = nullish_int (bashTimeoutMs st);
          effective = (if hb \<noteq> 0 then hb else of_int (nullish_int started));
          ceiling = max ABSOLUTE_CEILING_MS declared;
          tolerance = max CLAIM_STUCK_MS declared
      in if effective \<noteq> 0 \<and> of_int now - effective > of_int ceiling
         then KillCeiling (of_int now - effective) ceiling
         else (case find (claim_stuck other now hb tolerance) claims of
                 Some c \<Rightarrow> KillClaim (fst c) (now - the (date_parse other (snd c))) tolerance
               | None \<Rightarrow> StuckOk))"

text \<open>The incarnation gate: evidence from before this incarnation is discounted.\<close>

definition incarnation_start :: "(string \<Rightarrow> int option) \<Rightarrow> session_claim_row option \<Rightarrow> int" where
  "incarnation_start other row =
     (case Option.bind row sc_claimed_at of
        None \<Rightarrow> 0
      | Some s \<Rightarrow> if s = [] then 0 else nullish_int (date_parse other s))"

definition gate_heartbeat :: "int \<Rightarrow> rat \<Rightarrow> rat" where
  "gate_heartbeat start raw = (if raw \<ge> of_int start then raw else 0)"

definition gate_claim :: "(string \<Rightarrow> int option) \<Rightarrow> int \<Rightarrow> string \<times> string \<Rightarrow> string \<times> string" where
  "gate_claim other start claim =
     (case date_parse other (snd claim) of
        None \<Rightarrow> claim
      | Some t \<Rightarrow> if t \<ge> start then claim else (fst claim, to_iso start))"

section \<open>The pass\<close>

datatype session_status = Active | Closed

record session_world =
  sw_in :: inbound_db
  sw_out :: outbound_db
  sw_status :: session_status
  sw_kills :: "string list"
  sw_wakes :: nat

text \<open>What the pass finds outside the mailbox; \<open>isContainerRunning\<close> at its three calls.\<close>

record probe =
  pr_session_id :: string
  pr_thread_id :: "string option"
  pr_running_due :: bool
  pr_running :: bool
  pr_running_close :: bool
  pr_heartbeat :: rat
  pr_started :: "int option"
  pr_cron :: "string \<Rightarrow> int option"
  pr_ids :: "(string \<times> int) list"

text \<open>What becomes of one processing claim.\<close>

definition rescheduled :: "host_env \<Rightarrow> string option \<Rightarrow> bool" where
  "rescheduled env p =
     (case p of None \<Rightarrow> False
      | Some s \<Rightarrow> s \<noteq> [] \<and> (case date_parse (other_date env) s of Some t \<Rightarrow> t > now_ms env | None \<Rightarrow> False))"

definition retry_claim :: "host_env \<Rightarrow> string \<Rightarrow> inbound_db \<Rightarrow> inbound_db" where
  "retry_claim env messageId db =
     (case getMessageForRetry env messageId Pending db of
        None \<Rightarrow> db
      | Some (i, tries, processAfter) \<Rightarrow>
          if rescheduled env processAfter then db
          else if tries \<ge> MAX_TRIES then markMessageFailed i db
          else retryWithBackoff (now_ms env) i (BACKOFF_BASE_MS * 2 ^ nat tries div 1000) db)"

definition resetStuckProcessingRows :: "host_env \<Rightarrow> session_world \<Rightarrow> unit result \<times> session_world" where
  "resetStuckProcessingRows env w =
     (case getProcessingClaims env (sw_out w) of
        Inl e \<Rightarrow> (Inl e, w)
      | Inr claims \<Rightarrow>
          (Inr (), w\<lparr>sw_in := fold (\<lambda>c. retry_claim env (fst c)) claims (sw_in w),
                     sw_out := snd (deleteOrphanProcessingClaims (sw_out w))\<rparr>))"

definition stuck_decision_of :: "host_env \<Rightarrow> coord_db \<Rightarrow> probe \<Rightarrow> session_world \<Rightarrow> stuck_decision result" where
  "stuck_decision_of env coord p w =
     (let start = incarnation_start (other_date env) (getSessionClaim (pr_session_id p) coord)
      in bind_result (getProcessingClaims env (sw_out w)) (\<lambda>claims.
           bind_result (getContainerState env (sw_out w)) (\<lambda>st.
             Inr (decideStuckAction (other_date env) (now_ms env) (gate_heartbeat start (pr_heartbeat p)) (pr_started p) st
                    (map (gate_claim (other_date env) start) claims)))))"

definition enforceRunningContainerSla :: "host_env \<Rightarrow> coord_db \<Rightarrow> probe \<Rightarrow> session_world \<Rightarrow> unit result \<times> session_world" where
  "enforceRunningContainerSla env coord p w =
     (case stuck_decision_of env coord p w of
        Inl e \<Rightarrow> (Inl e, w)
      | Inr StuckOk \<Rightarrow> (Inr (), w)
      | Inr (KillCeiling _ _) \<Rightarrow> resetStuckProcessingRows env (w\<lparr>sw_kills := sw_kills w @ [''absolute-ceiling'']\<rparr>)
      | Inr (KillClaim _ _ _) \<Rightarrow> resetStuckProcessingRows env (w\<lparr>sw_kills := sw_kills w @ [''claim-stuck'']\<rparr>))"

definition TASKS_SYSTEM_THREAD_ID :: string where "TASKS_SYSTEM_THREAD_ID = ''system:tasks''"

definition taskThreadId :: "string \<Rightarrow> string" where
  "taskThreadId seriesId = TASKS_SYSTEM_THREAD_ID @ '':'' @ seriesId"

definition isTaskThread :: "string option \<Rightarrow> bool" where
  "isTaskThread t = (t = Some TASKS_SYSTEM_THREAD_ID \<or>
     (case t of Some s \<Rightarrow> starts_with (TASKS_SYSTEM_THREAD_ID @ '':'') s | None \<Rightarrow> False))"

definition shouldCloseTaskSession :: "string option \<Rightarrow> bool \<Rightarrow> nat \<Rightarrow> bool" where
  "shouldCloseTaskSession t running liveTaskCount = (isTaskThread t \<and> \<not> running \<and> liveTaskCount = 0)"

definition ECHO_CHANNEL_TYPE :: string where "ECHO_CHANNEL_TYPE = ''session-echo''"
definition ECHO_BACKLOG_CAP :: int where "ECHO_BACKLOG_CAP = 50"
definition ECHO_MAX_AGE_DAYS :: int where "ECHO_MAX_AGE_DAYS = 3"

definition pruneEchoBacklog :: "host_env \<Rightarrow> inbound_db \<Rightarrow> nat \<times> inbound_db" where
  "pruneEchoBacklog env db =
     prunePendingMessages env ECHO_CHANNEL_TYPE (to_iso (now_ms env - ECHO_MAX_AGE_DAYS * 24 * 60 * 60 * 1000))
       ECHO_BACKLOG_CAP db"

definition close_spent :: "probe \<Rightarrow> session_world \<Rightarrow> session_world" where
  "close_spent p w =
     (if isTaskThread (pr_thread_id p) \<and>
         shouldCloseTaskSession (pr_thread_id p) (pr_running_close p) (countLiveTasks (sw_in w))
      then w\<lparr>sw_status := Closed\<rparr> else w)"

definition maintainSessionMailbox :: "host_env \<Rightarrow> coord_db \<Rightarrow> probe \<Rightarrow> session_world \<Rightarrow> unit result \<times> session_world" where
  "maintainSessionMailbox env coord p w =
     (case (if pr_running p then enforceRunningContainerSla env coord p w else resetStuckProcessingRows env w) of
        (Inl e, w1) \<Rightarrow> (Inl e, w1)
      | (Inr _, w1) \<Rightarrow>
          (let w2 = w1\<lparr>sw_in := snd (handleRecurrence (pr_cron p) (pr_ids p) (sw_in w1))\<rparr>;
               w3 = close_spent p w2
           in (Inr (), w3\<lparr>sw_in := snd (pruneEchoBacklog env (sw_in w3))\<rparr>)))"

text \<open>\<open>reconcileActiveSession\<close>; \<open>exists\<close> is whether the mailbox exists.  An error is logged and
  swallowed, the effects before it stay.\<close>

definition reconcileActiveSession :: "host_env \<Rightarrow> coord_db \<Rightarrow> bool \<Rightarrow> probe \<Rightarrow> session_world \<Rightarrow> session_world" where
  "reconcileActiveSession env coord mailbox_exists p w =
     (if \<not> mailbox_exists then w
      else (case getTerminalProcessingAcks env (sw_out w) of
              Inl e \<Rightarrow> w
            | Inr acks \<Rightarrow>
                (let w1 = w\<lparr>sw_in := applyProcessingAcks (map (\<lambda>(i, st, _). (i, st)) acks) (sw_in w)\<rparr>
                 in if countDueMessages env (sw_in w1) > 0 \<and> \<not> pr_running_due p
                    then snd (maintainSessionMailbox env coord p (w1\<lparr>sw_wakes := sw_wakes w1 + 1\<rparr>))
                    else snd (maintainSessionMailbox env coord p w1))))"

definition reconcileSession :: "host_env \<Rightarrow> coord_db \<Rightarrow> bool \<Rightarrow> bool \<Rightarrow> probe \<Rightarrow> session_world option \<Rightarrow> session_world option" where
  "reconcileSession env coord group_exists mailbox_exists p s =
     (case s of
        None \<Rightarrow> None
      | Some w \<Rightarrow>
          if sw_status w \<noteq> Active then Some w
          else if \<not> group_exists then Some w
          else Some (reconcileActiveSession env coord mailbox_exists p w))"

section \<open>A fresh incarnation is spared\<close>

lemma decide_ok_iff:
  "decideStuckAction other now hb started st claims = StuckOk \<longleftrightarrow>
     (let declared = nullish_int (bashTimeoutMs st);
          effective = (if hb \<noteq> 0 then hb else of_int (nullish_int started))
      in (effective = 0 \<or> of_int now - effective \<le> of_int (max ABSOLUTE_CEILING_MS declared)) \<and>
         (\<forall>c\<in>set claims. \<not> claim_stuck other now hb (max CLAIM_STUCK_MS declared) c))"
  by (auto simp: decideStuckAction_def Let_def find_None_iff find_Some_iff not_less split: option.split)

lemma date_parse_iso: "four_digit_time t \<Longrightarrow> date_parse other (to_iso t) = Some t"
  by (simp add: date_parse_def to_iso_time)

lemma gated_claim_fresh:
  assumes "four_digit_time start" "now - start \<le> CLAIM_STUCK_MS" "CLAIM_STUCK_MS \<le> tolerance"
  shows "\<not> claim_stuck other now hb tolerance (gate_claim other start c)"
proof (cases "date_parse other (snd c)")
  case None
  then show ?thesis by (simp add: gate_claim_def claim_stuck_def)
next
  case (Some t)
  then show ?thesis
    using assms date_parse_iso [OF assms(1), of other] by (auto simp: gate_claim_def claim_stuck_def)
qed

text \<open>C18: a fresh incarnation is not killed for its predecessor's silence.  While a session's durable
  claim is at most the tolerance window old and the container was started within the idle
  ceiling, a pass over the running container changes nothing: whatever heartbeat file and
  processing claims a crashed predecessor left, there is no kill and no retry.\<close>

theorem fresh_incarnation_spared:
  assumes "getSessionClaim (pr_session_id p) coord = Some row" "sc_claimed_at row = Some s" "iso_ms s = Some start"
    and "four_digit_time start" "now_ms env - start \<le> CLAIM_STUCK_MS"
    and "\<forall>t. pr_started p = Some t \<longrightarrow> now_ms env - t \<le> ABSOLUTE_CEILING_MS"
  shows "snd (enforceRunningContainerSla env coord p w) = w"
proof -
  have s: "s \<noteq> []" using assms(3) by (auto simp: iso_ms_def is_iso_timestamp_def iso_year_def split: if_splits)
  have st: "incarnation_start (other_date env) (getSessionClaim (pr_session_id p) coord) = start"
    using s by (simp add: incarnation_start_def assms(1-3) date_parse_def nullish_int_def)
  have "decideStuckAction (other_date env) (now_ms env) (gate_heartbeat start (pr_heartbeat p)) (pr_started p) c
      (map (gate_claim (other_date env) start) claims) = StuckOk" for c claims
    unfolding decide_ok_iff Let_def
  proof (intro conjI)
    let ?hb = "gate_heartbeat start (pr_heartbeat p)"
    let ?eff = "if ?hb \<noteq> 0 then ?hb else of_int (nullish_int (pr_started p))"
    have "?hb = 0 \<or> of_int start \<le> ?hb" by (simp add: gate_heartbeat_def)
    moreover have "of_int (now_ms env) - of_int start \<le> (of_int CLAIM_STUCK_MS :: rat)"
      using assms(5) by (metis of_int_diff of_int_le_iff)
    moreover have "(of_int CLAIM_STUCK_MS :: rat) \<le> of_int ABSOLUTE_CEILING_MS"
      by (simp add: CLAIM_STUCK_MS_def ABSOLUTE_CEILING_MS_def)
    moreover have "(of_int ABSOLUTE_CEILING_MS :: rat) \<le> of_int (max ABSOLUTE_CEILING_MS (nullish_int (bashTimeoutMs c)))"
      by simp
    moreover have "pr_started p = None \<or> of_int (now_ms env) - of_int (nullish_int (pr_started p)) \<le> (of_int ABSOLUTE_CEILING_MS :: rat)"
    proof (cases "pr_started p")
      case (Some t)
      then have "now_ms env - t \<le> ABSOLUTE_CEILING_MS" using assms(6) by blast
      then show ?thesis by (metis Some nullish_int_def of_int_diff of_int_le_iff option.simps(5))
    qed simp
    ultimately show "?eff = 0 \<or> of_int (now_ms env) - ?eff \<le> of_int (max ABSOLUTE_CEILING_MS (nullish_int (bashTimeoutMs c)))"
      by (cases "pr_started p") (auto simp: nullish_int_def)
    show "\<forall>d\<in>set (map (gate_claim (other_date env) start) claims).
        \<not> claim_stuck (other_date env) (now_ms env) ?hb (max CLAIM_STUCK_MS (nullish_int (bashTimeoutMs c))) d"
      using gated_claim_fresh [OF assms(4,5)] by auto
  qed
  then have "stuck_decision_of env coord p w = Inr StuckOk \<or> (\<exists>e. stuck_decision_of env coord p w = Inl e)"
    unfolding stuck_decision_of_def st Let_def
    by (cases "getProcessingClaims env (sw_out w)"; cases "getContainerState env (sw_out w)") simp_all
  then show ?thesis by (auto simp: enforceRunningContainerSla_def)
qed

section \<open>Retries\<close>

lemma ack_record_Inr:
  assumes "ack_record env a = Inr (i, st, changed)"
  shows "i = pa_message_id a \<and> st = pa_status a \<and> changed = sqliteTimestamp env (pa_status_changed a)"
proof -
  let ?ps = "[(''messageId'', Str (pa_message_id a)), (''status'', Str (pa_status a)),
         (''statusChanged'', Str (sqliteTimestamp env (pa_status_changed a)))]"
  let ?fs = "[Field ''messageId'' text_field,
      Field ''status'' (oneOf [''processing'', ''completed'', ''failed'', ''script-skip:error'']),
      Field ''statusChanged'' timestamp_field]"
  obtain rec where rec: "parseProcessingAckRecord (Obj ?ps) = Inr rec" "i = js_text (get_prop rec ''messageId'')"
    "st = js_text (get_prop rec ''status'')" "changed = js_text (get_prop rec ''statusChanged'')"
    using assms by (auto simp: ack_record_def bind_result_eq_Inr)
  obtain qs where qs: "rec = Obj qs" "object_literal ?fs ?ps = Inr qs"
    using rec(1) unfolding parseProcessingAckRecord_def by (elim parse_with_Inr) blast
  have d: "distinct (map reader_key ?fs)" by simp
  note v = literal_value [OF qs(2) d]
  have "text_field ?ps ''messageId'' = Inr (prop_of qs ''messageId'')"
    "oneOf [''processing'', ''completed'', ''failed'', ''script-skip:error''] ?ps ''status'' = Inr (prop_of qs ''status'')"
    "timestamp_field ?ps ''statusChanged'' = Inr (prop_of qs ''statusChanged'')"
    by (rule v, simp)+
  then have "prop_of qs ''messageId'' = prop_of ?ps ''messageId''" "prop_of qs ''status'' = prop_of ?ps ''status''"
    "prop_of qs ''statusChanged'' = prop_of ?ps ''statusChanged''"
    by (simp_all only: reader_iffs)
  moreover have "prop_of ?ps ''messageId'' = Str (pa_message_id a)" "prop_of ?ps ''status'' = Str (pa_status a)"
    "prop_of ?ps ''statusChanged'' = Str (sqliteTimestamp env (pa_status_changed a))"
    by (simp_all add: prop_of_def)
  ultimately show ?thesis using rec(2-4) qs(1) by simp
qed

lemma traverse_map:
  "traverse f xs = Inr ys \<Longrightarrow> (\<And>x y. f x = Inr y \<Longrightarrow> g y = h x) \<Longrightarrow> map g ys = map h xs"
  by (induction xs arbitrary: ys) (auto simp: bind_result_eq_Inr)

lemma claim_ids:
  assumes "getProcessingClaims env outb = Inr claims"
  shows "map fst claims = map pa_message_id (filter (\<lambda>a. pa_status a = ''processing'') (processing_ack outb))"
proof (rule traverse_map [OF assms [unfolded getProcessingClaims_def processing_claim_rows_def]])
  fix a c
  assume "bind_result (ack_record env a) (\<lambda>(i, _, changed). Inr (i, changed)) = Inr c"
  then show "fst c = pa_message_id a" by (auto simp: bind_result_eq_Inr dest: ack_record_Inr)
qed

lemma no_claims_left: "getProcessingClaims env (snd (deleteOrphanProcessingClaims outb)) = Inr []"
  by (simp add: getProcessingClaims_def processing_claim_rows_def deleteOrphanProcessingClaims_def)

text \<open>What a reset does to one row.\<close>

definition retry_row :: "host_env \<Rightarrow> message_in \<Rightarrow> message_in" where
  "retry_row env r =
     (if mi_status r = Pending \<and> \<not> rescheduled env (map_option (sqliteTimestamp env) (mi_process_after r))
      then (if MAX_TRIES \<le> mi_tries r then r\<lparr>mi_status := Failed\<rparr>
            else r\<lparr>mi_tries := mi_tries r + 1,
                   mi_process_after := Some (to_iso (now_ms env + BACKOFF_BASE_MS * 2 ^ nat (mi_tries r)))\<rparr>)
      else r)"

lemma retry_row_id [simp]: "mi_id (retry_row env r) = mi_id r"
  by (simp add: retry_row_def)

lemma retry_claim_row:
  assumes "distinct (map mi_id (messages_in db))"
  shows "retry_claim env i db = db\<lparr>messages_in := map (\<lambda>r. if mi_id r = i then retry_row env r else r) (messages_in db)\<rparr>"
proof (cases "find (\<lambda>r. mi_id r = i \<and> mi_status r = Pending) (messages_in db)")
  case None
  then have "\<forall>r\<in>set (messages_in db). mi_id r = i \<longrightarrow> mi_status r \<noteq> Pending" by (auto simp: find_None_iff)
  then have "map (\<lambda>r. if mi_id r = i then retry_row env r else r) (messages_in db) = messages_in db"
    by (intro map_idI) (auto simp: retry_row_def)
  then show ?thesis using None by (simp add: retry_claim_def getMessageForRetry_def retry_message_def)
next
  case (Some r)
  then have r: "r \<in> set (messages_in db)" "mi_id r = i" "mi_status r = Pending"
    by (auto simp: find_Some_iff)
  have uniq: "q = r" if "q \<in> set (messages_in db)" "mi_id q = i" for q
    using assms that r(1,2) by (auto simp: distinct_map dest: inj_onD)
  have sec: "BACKOFF_BASE_MS * 2 ^ nat (mi_tries r) div 1000 * 1000 = BACKOFF_BASE_MS * 2 ^ nat (mi_tries r)"
    by (simp add: BACKOFF_BASE_MS_def)
  have upd: "snd (update_in (\<lambda>q. mi_id q = i) f db) =
      db\<lparr>messages_in := map (\<lambda>q. if mi_id q = i then retry_row env q else q) (messages_in db)\<rparr>"
    if "f r = retry_row env r" for f
  proof -
    have "map (\<lambda>q. if mi_id q = i then f q else q) (messages_in db) =
        map (\<lambda>q. if mi_id q = i then retry_row env q else q) (messages_in db)"
    proof (rule map_cong [OF refl])
      fix q
      assume "q \<in> set (messages_in db)"
      then show "(if mi_id q = i then f q else q) = (if mi_id q = i then retry_row env q else q)"
        using uniq [OF \<open>q \<in> set (messages_in db)\<close>] that by metis
    qed
    then show ?thesis by (simp add: update_in_def)
  qed
  have get: "getMessageForRetry env i Pending db = Some (i, mi_tries r, map_option (sqliteTimestamp env) (mi_process_after r))"
    using Some r(2) by (simp add: getMessageForRetry_def retry_message_def)
  show ?thesis
  proof (cases "rescheduled env (map_option (sqliteTimestamp env) (mi_process_after r))")
    case True
    then have "snd (update_in (\<lambda>q. mi_id q = i) (\<lambda>q. q) db) = db" by (simp add: update_in_def)
    then show ?thesis using True upd [of "\<lambda>q. q"] by (simp add: retry_claim_def get retry_row_def)
  next
    case False
    then show ?thesis
      using r(3) sec
      by (cases "MAX_TRIES \<le> mi_tries r")
        (simp_all add: retry_claim_def get markMessageFailed_def retryWithBackoff_def upd retry_row_def)
  qed
qed

lemma retry_claims_rows:
  assumes "distinct ks" "distinct (map mi_id (messages_in db))"
  shows "fold (retry_claim env) ks db =
    db\<lparr>messages_in := map (\<lambda>r. if mi_id r \<in> set ks then retry_row env r else r) (messages_in db)\<rparr>"
  using assms
proof (induction ks arbitrary: db)
  case (Cons i js)
  let ?rows = "map (\<lambda>r. if mi_id r = i then retry_row env r else r) (messages_in db)"
  have d: "distinct (map mi_id (messages_in (db\<lparr>messages_in := ?rows\<rparr>)))"
  proof -
    have "map mi_id ?rows = map mi_id (messages_in db)"
      unfolding map_map by (rule map_cong) simp_all
    then show ?thesis using Cons.prems(2) by (simp del: map_map)
  qed
  have "map (\<lambda>r. if mi_id r \<in> set js then retry_row env r else r) ?rows =
      map (\<lambda>r. if mi_id r \<in> set (i # js) then retry_row env r else r) (messages_in db)"
    using Cons.prems(1) by auto
  then show ?case
    using Cons.IH [OF _ d] Cons.prems(1) by (simp add: retry_claim_row [OF Cons.prems(2)] del: map_map)
qed simp

definition claimed_ids :: "outbound_db \<Rightarrow> string set" where
  "claimed_ids outb = pa_message_id ` {a \<in> set (processing_ack outb). pa_status a = ''processing''}"

lemma retry_row_bound: "mi_tries r \<le> 5 \<Longrightarrow> mi_tries (retry_row env r) \<le> 5"
  by (simp add: retry_row_def MAX_TRIES_def)

text \<open>C19: what a dead container left unfinished is retried a bounded number of times.  The reset
  changes exactly the pending messages with a processing claim that are not already rescheduled:
  one with fewer than five tries gets one more and waits \<open>5000 * 2 ^ tries\<close> milliseconds, the
  others fail; no message ever exceeds five tries, and no processing claim is left for the next
  pass to find.\<close>

theorem stuck_rows_reset:
  assumes "getProcessingClaims env (sw_out w) = Inr claims"
    and "distinct (map mi_id (messages_in (sw_in w)))" "distinct (map pa_message_id (processing_ack (sw_out w)))"
  shows "\<exists>w'. resetStuckProcessingRows env w = (Inr (), w') \<and>
    sw_in w' = (sw_in w)\<lparr>messages_in := map (\<lambda>r.
       if mi_id r \<in> claimed_ids (sw_out w) \<and> mi_status r = Pending
          \<and> \<not> rescheduled env (map_option (sqliteTimestamp env) (mi_process_after r))
       then (if 5 \<le> mi_tries r then r\<lparr>mi_status := Failed\<rparr>
             else r\<lparr>mi_tries := mi_tries r + 1, mi_process_after := Some (to_iso (now_ms env + 5000 * 2 ^ nat (mi_tries r)))\<rparr>)
       else r) (messages_in (sw_in w))\<rparr> \<and>
    ((\<forall>r\<in>set (messages_in (sw_in w)). mi_tries r \<le> 5) \<longrightarrow> (\<forall>r\<in>set (messages_in (sw_in w')). mi_tries r \<le> 5)) \<and>
    getProcessingClaims env (sw_out w') = Inr []"
proof -
  have ids: "map fst claims = map pa_message_id (filter (\<lambda>a. pa_status a = ''processing'') (processing_ack (sw_out w)))"
    by (rule claim_ids [OF assms(1)])
  then have "distinct (map fst claims)" using assms(3) by (simp add: distinct_map_filter)
  moreover have "set (map fst claims) = claimed_ids (sw_out w)" unfolding ids by (auto simp: claimed_ids_def)
  moreover have "fold (\<lambda>c. retry_claim env (fst c)) claims (sw_in w) = fold (retry_claim env) (map fst claims) (sw_in w)"
    by (simp add: fold_map comp_def)
  ultimately have fold: "fold (\<lambda>c. retry_claim env (fst c)) claims (sw_in w) =
      (sw_in w)\<lparr>messages_in := map (\<lambda>r. if mi_id r \<in> claimed_ids (sw_out w) then retry_row env r else r) (messages_in (sw_in w))\<rparr>"
    using retry_claims_rows [OF _ assms(2), of "map fst claims" env] by simp
  define w' where "w' = w\<lparr>sw_in := (sw_in w)\<lparr>messages_in :=
      map (\<lambda>r. if mi_id r \<in> claimed_ids (sw_out w) then retry_row env r else r) (messages_in (sw_in w))\<rparr>,
      sw_out := snd (deleteOrphanProcessingClaims (sw_out w))\<rparr>"
  have "resetStuckProcessingRows env w = (Inr (), w')"
    using fold by (simp add: resetStuckProcessingRows_def assms(1) w'_def)
  moreover have "map (\<lambda>r. if mi_id r \<in> claimed_ids (sw_out w) then retry_row env r else r) (messages_in (sw_in w)) =
      map (\<lambda>r. if mi_id r \<in> claimed_ids (sw_out w) \<and> mi_status r = Pending
          \<and> \<not> rescheduled env (map_option (sqliteTimestamp env) (mi_process_after r))
       then (if 5 \<le> mi_tries r then r\<lparr>mi_status := Failed\<rparr>
             else r\<lparr>mi_tries := mi_tries r + 1, mi_process_after := Some (to_iso (now_ms env + 5000 * 2 ^ nat (mi_tries r)))\<rparr>)
       else r) (messages_in (sw_in w))"
    by (intro map_cong refl) (simp add: retry_row_def MAX_TRIES_def BACKOFF_BASE_MS_def)
  moreover have "(\<forall>r\<in>set (messages_in (sw_in w)). mi_tries r \<le> 5) \<longrightarrow> (\<forall>r\<in>set (messages_in (sw_in w')). mi_tries r \<le> 5)"
    using retry_row_bound by (auto simp: w'_def)
  ultimately show ?thesis
    using no_claims_left [of env "sw_out w"]
    by (intro exI [of _ w']) (simp add: w'_def)
qed

section \<open>Examples\<close>

text \<open>A container spawned eleven seconds ago inherits a heartbeat from yesterday and a claim of its
  predecessor; without the gate both would kill it.\<close>

definition fresh_start :: int where "fresh_start = 1000000000"

definition sample_coord :: coord_db where
  "sample_coord = \<lparr>host_instances = [], session_claims = [\<lparr>sc_session_id = ''s'', sc_incarnation = 2, sc_claimed_by = Some ''h'',
     sc_claimed_at = Some (to_iso fresh_start), sc_container_ref = None, sc_stop_intent = None, sc_updated_at = []\<rparr>],
     delivery_attempts = [], wake_signals = []\<rparr>"

definition sample_probe :: probe where
  "sample_probe = \<lparr>pr_session_id = ''s'', pr_thread_id = None, pr_running_due = True, pr_running = True, pr_running_close = True,
     pr_heartbeat = 900000000, pr_started = Some fresh_start, pr_cron = (\<lambda>c. None), pr_ids = []\<rparr>"

definition old_claim :: processing_ack_row where
  "old_claim = \<lparr>pa_message_id = ''a'', pa_status = ''processing'', pa_status_changed = to_iso 900000000\<rparr>"

definition stuck_world :: session_world where
  "stuck_world = \<lparr>sw_in = sample_inbound,
     sw_out = \<lparr>messages_out = [], processing_ack = [old_claim], container_state = None\<rparr>,
     sw_status = Active, sw_kills = [], sw_wakes = 0\<rparr>"

lemma fresh_incarnation_spared_witness:
  "snd (enforceRunningContainerSla (sample_env\<lparr>now_ms := fresh_start + 11000\<rparr>) sample_coord sample_probe stuck_world) = stuck_world"
proof (rule fresh_incarnation_spared)
  show "getSessionClaim (pr_session_id sample_probe) sample_coord = Some (hd (session_claims sample_coord))"
    by (simp add: getSessionClaim_def sample_coord_def sample_probe_def sql_select_Cons)
  show "sc_claimed_at (hd (session_claims sample_coord)) = Some (to_iso fresh_start)" by (simp add: sample_coord_def)
  have four: "four_digit_time fresh_start" by (simp add: four_digit_time_def fresh_start_def)
  then show "iso_ms (to_iso fresh_start) = Some fresh_start" "four_digit_time fresh_start" by (simp_all add: to_iso_time)
  show "now_ms (sample_env\<lparr>now_ms := fresh_start + 11000\<rparr>) - fresh_start \<le> CLAIM_STUCK_MS"
    by (simp add: CLAIM_STUCK_MS_def)
  show "\<forall>t. pr_started sample_probe = Some t \<longrightarrow>
      now_ms (sample_env\<lparr>now_ms := fresh_start + 11000\<rparr>) - t \<le> ABSOLUTE_CEILING_MS"
    by (simp add: sample_probe_def ABSOLUTE_CEILING_MS_def)
qed

lemma sqlite_shape_last:
  assumes "sqlite_shape s"
  shows "is_digit (last s)"
proof (cases "drop 19 s = []")
  case True
  then have "length s = 19" using assms by (simp add: sqlite_shape_def)
  then have "last s = s ! 18" by (cases "s = []") (auto simp: last_conv_nth)
  then show ?thesis using assms by (simp add: sqlite_shape_def all_digits_def)
next
  case False
  then have f: "tl (drop 19 s) \<noteq> []" "all_digits (tl (drop 19 s))"
    using assms by (auto simp: sqlite_shape_def Let_def)
  have "last s = last (tl (drop 19 s))" using False f(1) by (simp add: last_tl)
  then show ?thesis using f by (simp add: all_digits_def list_all_iff)
qed

lemma sqliteTimestamp_iso:
  assumes "four_digit_time t"
  shows "sqliteTimestamp env (to_iso t) = to_iso t"
proof -
  have "last (to_iso t) = CHR ''Z''" by (simp add: to_iso_def Let_def split: prod.split)
  then have "\<not> sqlite_shape (to_iso t)" using sqlite_shape_last [of "to_iso t"] by (auto simp: char_class_defs)
  then show ?thesis by (simp add: sqliteTimestamp_def date_parse_iso [OF assms])
qed

lemma old_claim_read: "getProcessingClaims sample_env (sw_out stuck_world) = Inr [(''a'', to_iso 900000000)]"
proof -
  have t: "four_digit_time 900000000" by (simp add: four_digit_time_def)
  show ?thesis
    by (simp add: getProcessingClaims_def processing_claim_rows_def stuck_world_def old_claim_def ack_record_def parseProcessingAckRecord_def
        parse_with_def strictRecord_def text_field_def oneOf_def timestamp_field_def parseIsoTimestamp_def prop_of_def
        sqliteTimestamp_iso [OF t] to_iso_time(1) [OF t])
qed

lemma stuck_rows_reset_witness:
  "\<exists>w'. resetStuckProcessingRows sample_env stuck_world = (Inr (), w') \<and>
     map mi_tries (messages_in (sw_in w')) = [1, 0, 0] \<and> getProcessingClaims sample_env (sw_out w') = Inr []"
proof -
  have "distinct (map mi_id (messages_in (sw_in stuck_world)))" "distinct (map pa_message_id (processing_ack (sw_out stuck_world)))"
    by (simp_all add: stuck_world_def sample_inbound_def sample_row_def)
  from stuck_rows_reset [OF old_claim_read this] show ?thesis
  proof (elim exE conjE, goal_cases)
    case (1 w')
    have ids: "claimed_ids (sw_out stuck_world) = {''a''}"
      by (auto simp: claimed_ids_def stuck_world_def old_claim_def)
    have rows: "messages_in (sw_in stuck_world) =
        [sample_row ''a'' 2 ''2026-02-01'', sample_row ''b'' 4 ''2026-02-02'', sample_row ''c'' 6 ''2026-01-01'']"
      by (simp add: stuck_world_def sample_inbound_def)
    have row: "mi_id (sample_row i n t) = i" "mi_status (sample_row i n t) = Pending" "mi_tries (sample_row i n t) = 0"
      "mi_process_after (sample_row i n t) = None" for i n t
      by (simp_all add: sample_row_def)
    have "map mi_tries (messages_in (sw_in w')) = [1, 0, 0]"
      unfolding 1(2) by (simp add: ids rows row rescheduled_def)
    with 1(1,4) show ?case by (intro exI [of _ w'] conjI)
  qed
qed

end
