(* ===== verification/Permissions.thy ===== *)
theory Permissions
  imports SqlTable "HOL-Library.List_Lexorder" "HOL-Library.Char_ord"
begin

text \<open>
  Users, roles, memberships and cached direct-message channels
  (\<open>nanoclaw/src/modules/permissions/db\<close>) and the access decision over them
  (\<open>modules/permissions/access.ts\<close>).  Foreign keys are enforced (\<open>foreign_keys = ON\<close>);
  the ids of agent groups and messaging groups belong to other components and are fields of
  the state that no call here changes.  A primary key with a NULL part never conflicts.
\<close>

section \<open>Tables\<close>

datatype user_role_kind = OwnerRole | AdminRole

record user =
  usr_id :: string
  usr_kind :: string
  usr_display_name :: "string option"
  usr_created_at :: string

record user_role =
  ur_user_id :: string
  ur_role :: user_role_kind
  ur_agent_group_id :: "string option"
  ur_granted_by :: "string option"
  ur_granted_at :: string

record agent_group_member =
  gm_user_id :: string
  gm_agent_group_id :: string
  gm_added_by :: "string option"
  gm_added_at :: string

record user_dm =
  dm_user_id :: string
  dm_channel_type :: string
  dm_messaging_group_id :: string
  dm_resolved_at :: string

record perm_db =
  pd_users :: "user list"
  pd_roles :: "user_role list"
  pd_members :: "agent_group_member list"
  pd_dms :: "user_dm list"
  pd_agent_groups :: "string list"
  pd_messaging_groups :: "string list"

definition fk_failed :: "'a result" where "fk_failed = Inl ''FOREIGN KEY constraint failed''"
definition unique_failed :: "'a result" where "unique_failed = Inl ''UNIQUE constraint failed''"

text \<open>\<open>isUniqueViolation\<close> of \<open>nanoclaw/src/db/errors.ts\<close>: errors are their messages here, so only the
  test on the message remains.\<close>

definition isUniqueViolation :: "string \<Rightarrow> bool" where
  "isUniqueViolation e = js_includes (map ascii_lower ''UNIQUE constraint failed'') (map ascii_lower e)"

lemma unique_violations [simp]:
  "isUniqueViolation ''UNIQUE constraint failed''" "\<not> isUniqueViolation ''FOREIGN KEY constraint failed''"
  by (code_simp, code_simp)

definition user_exists :: "perm_db \<Rightarrow> string \<Rightarrow> bool" where
  "user_exists db i = list_ex (\<lambda>u. usr_id u = i) (pd_users db)"

definition null_or :: "('a \<Rightarrow> bool) \<Rightarrow> 'a option \<Rightarrow> bool" where
  "null_or P x = (case x of None \<Rightarrow> True | Some y \<Rightarrow> P y)"

section \<open>Users\<close>

definition createUser :: "user \<Rightarrow> perm_db \<Rightarrow> unit result \<times> perm_db" where
  "createUser u db =
     (if user_exists db (usr_id u) then (unique_failed, db)
      else (Inr (), db\<lparr>pd_users := pd_users db @ [u]\<rparr>))"

definition upsertUser :: "user \<Rightarrow> perm_db \<Rightarrow> perm_db" where
  "upsertUser u db = db\<lparr>pd_users := sql_upsert usr_id u
     (\<lambda>old. old\<lparr>usr_display_name := (case usr_display_name u of None \<Rightarrow> usr_display_name old | Some n \<Rightarrow> Some n)\<rparr>)
     (pd_users db)\<rparr>"

definition getUser :: "string \<Rightarrow> perm_db \<Rightarrow> user option" where
  "getUser i db = sql_select usr_id i (pd_users db)"

definition getAllUsers :: "perm_db \<Rightarrow> user list" where
  "getAllUsers db = sort_key usr_created_at (pd_users db)"

definition updateDisplayName :: "string \<Rightarrow> string \<Rightarrow> perm_db \<Rightarrow> perm_db" where
  "updateDisplayName i n db = db\<lparr>pd_users := fst (sql_update usr_id i (\<lambda>_. True) (\<lambda>u. u\<lparr>usr_display_name := Some n\<rparr>) (pd_users db))\<rparr>"

definition user_referenced :: "perm_db \<Rightarrow> string \<Rightarrow> bool" where
  "user_referenced db i =
     (list_ex (\<lambda>r. ur_user_id r = i \<or> ur_granted_by r = Some i) (pd_roles db)
      \<or> list_ex (\<lambda>m. gm_user_id m = i \<or> gm_added_by m = Some i) (pd_members db)
      \<or> list_ex (\<lambda>d. dm_user_id d = i) (pd_dms db))"

definition deleteUser :: "string \<Rightarrow> perm_db \<Rightarrow> unit result \<times> perm_db" where
  "deleteUser i db =
     (if user_exists db i \<and> user_referenced db i then (fk_failed, db)
      else (Inr (), db\<lparr>pd_users := sql_delete usr_id i (pd_users db)\<rparr>))"

section \<open>Roles\<close>

definition role_key_taken :: "perm_db \<Rightarrow> user_role \<Rightarrow> bool" where
  "role_key_taken db r =
     (ur_agent_group_id r \<noteq> None
      \<and> list_ex (\<lambda>x. ur_user_id x = ur_user_id r \<and> ur_role x = ur_role r \<and> ur_agent_group_id x = ur_agent_group_id r) (pd_roles db))"

definition role_refs_ok :: "perm_db \<Rightarrow> user_role \<Rightarrow> bool" where
  "role_refs_ok db r =
     (user_exists db (ur_user_id r) \<and> null_or (\<lambda>g. g \<in> set (pd_agent_groups db)) (ur_agent_group_id r)
      \<and> null_or (user_exists db) (ur_granted_by r))"

definition grantRole :: "user_role \<Rightarrow> perm_db \<Rightarrow> unit result \<times> perm_db" where
  "grantRole row db =
     (if ur_role row = OwnerRole \<and> ur_agent_group_id row \<noteq> None
      then (Inl ''owner role must be global (agent_group_id = null)'', db)
      else if role_key_taken db row then (unique_failed, db)
      else if \<not> role_refs_ok db row then (fk_failed, db)
      else (Inr (), db\<lparr>pd_roles := pd_roles db @ [row]\<rparr>))"

definition revokeRole :: "string \<Rightarrow> user_role_kind \<Rightarrow> string option \<Rightarrow> perm_db \<Rightarrow> perm_db" where
  "revokeRole userId role agentGroupId db = db\<lparr>pd_roles :=
     filter (\<lambda>r. \<not> (ur_user_id r = userId \<and> ur_role r = role \<and> ur_agent_group_id r = agentGroupId)) (pd_roles db)\<rparr>"

definition getUserRoles :: "string \<Rightarrow> perm_db \<Rightarrow> user_role list" where
  "getUserRoles userId db = filter (\<lambda>r. ur_user_id r = userId) (pd_roles db)"

definition isOwner :: "string \<Rightarrow> perm_db \<Rightarrow> bool" where
  "isOwner userId db = list_ex (\<lambda>r. ur_user_id r = userId \<and> ur_role r = OwnerRole \<and> ur_agent_group_id r = None) (pd_roles db)"

definition isGlobalAdmin :: "string \<Rightarrow> perm_db \<Rightarrow> bool" where
  "isGlobalAdmin userId db = list_ex (\<lambda>r. ur_user_id r = userId \<and> ur_role r = AdminRole \<and> ur_agent_group_id r = None) (pd_roles db)"

definition isAdminOfAgentGroup :: "string \<Rightarrow> string \<Rightarrow> perm_db \<Rightarrow> bool" where
  "isAdminOfAgentGroup userId agentGroupId db =
     list_ex (\<lambda>r. ur_user_id r = userId \<and> ur_role r = AdminRole \<and> ur_agent_group_id r = Some agentGroupId) (pd_roles db)"

definition hasAdminPrivilege :: "string \<Rightarrow> string \<Rightarrow> perm_db \<Rightarrow> bool" where
  "hasAdminPrivilege userId agentGroupId db =
     (isOwner userId db \<or> isGlobalAdmin userId db \<or> isAdminOfAgentGroup userId agentGroupId db)"

definition getOwners :: "perm_db \<Rightarrow> user_role list" where
  "getOwners db = sort_key ur_granted_at (filter (\<lambda>r. ur_role r = OwnerRole \<and> ur_agent_group_id r = None) (pd_roles db))"

definition hasAnyOwner :: "perm_db \<Rightarrow> bool" where
  "hasAnyOwner db = list_ex (\<lambda>r. ur_role r = OwnerRole \<and> ur_agent_group_id r = None) (pd_roles db)"

definition getGlobalAdmins :: "perm_db \<Rightarrow> user_role list" where
  "getGlobalAdmins db = sort_key ur_granted_at (filter (\<lambda>r. ur_role r = AdminRole \<and> ur_agent_group_id r = None) (pd_roles db))"

definition getAdminsOfAgentGroup :: "string \<Rightarrow> perm_db \<Rightarrow> user_role list" where
  "getAdminsOfAgentGroup g db = sort_key ur_granted_at (filter (\<lambda>r. ur_role r = AdminRole \<and> ur_agent_group_id r = Some g) (pd_roles db))"

section \<open>Members\<close>

definition gm_key :: "agent_group_member \<Rightarrow> string \<times> string" where
  "gm_key m = (gm_user_id m, gm_agent_group_id m)"

definition member_refs_ok :: "perm_db \<Rightarrow> agent_group_member \<Rightarrow> bool" where
  "member_refs_ok db m =
     (user_exists db (gm_user_id m) \<and> gm_agent_group_id m \<in> set (pd_agent_groups db)
      \<and> null_or (user_exists db) (gm_added_by m))"

definition addMember :: "agent_group_member \<Rightarrow> perm_db \<Rightarrow> unit result \<times> perm_db" where
  "addMember row db =
     (if sql_select gm_key (gm_key row) (pd_members db) \<noteq> None then (Inr (), db)
      else if \<not> member_refs_ok db row then (fk_failed, db)
      else (Inr (), db\<lparr>pd_members := pd_members db @ [row]\<rparr>))"

definition removeMember :: "string \<Rightarrow> string \<Rightarrow> perm_db \<Rightarrow> perm_db" where
  "removeMember userId agentGroupId db = db\<lparr>pd_members := sql_delete gm_key (userId, agentGroupId) (pd_members db)\<rparr>"

definition getMembers :: "string \<Rightarrow> perm_db \<Rightarrow> agent_group_member list" where
  "getMembers g db = sort_key gm_added_at (filter (\<lambda>m. gm_agent_group_id m = g) (pd_members db))"

definition hasMembershipRow :: "string \<Rightarrow> string \<Rightarrow> perm_db \<Rightarrow> bool" where
  "hasMembershipRow userId agentGroupId db = (sql_select gm_key (userId, agentGroupId) (pd_members db) \<noteq> None)"

definition isMember :: "string \<Rightarrow> string \<Rightarrow> perm_db \<Rightarrow> bool" where
  "isMember userId agentGroupId db =
     (if isOwner userId db \<or> isGlobalAdmin userId db \<or> isAdminOfAgentGroup userId agentGroupId db then True
      else sql_select gm_key (userId, agentGroupId) (pd_members db) \<noteq> None)"

section \<open>Direct-message channels\<close>

definition dm_key :: "user_dm \<Rightarrow> string \<times> string" where
  "dm_key d = (dm_user_id d, dm_channel_type d)"

definition dm_refs_ok :: "perm_db \<Rightarrow> user_dm \<Rightarrow> bool" where
  "dm_refs_ok db d = (user_exists db (dm_user_id d) \<and> dm_messaging_group_id d \<in> set (pd_messaging_groups db))"

definition upsertUserDm :: "user_dm \<Rightarrow> perm_db \<Rightarrow> unit result \<times> perm_db" where
  "upsertUserDm row db =
     (if \<not> dm_refs_ok db row then (fk_failed, db)
      else (Inr (), db\<lparr>pd_dms := sql_upsert dm_key row
              (\<lambda>old. old\<lparr>dm_messaging_group_id := dm_messaging_group_id row, dm_resolved_at := dm_resolved_at row\<rparr>)
              (pd_dms db)\<rparr>))"

definition getUserDm :: "string \<Rightarrow> string \<Rightarrow> perm_db \<Rightarrow> user_dm option" where
  "getUserDm userId channelType db = sql_select dm_key (userId, channelType) (pd_dms db)"

definition getUserDmsForUser :: "string \<Rightarrow> perm_db \<Rightarrow> user_dm list" where
  "getUserDmsForUser userId db = filter (\<lambda>d. dm_user_id d = userId) (pd_dms db)"

definition deleteUserDm :: "string \<Rightarrow> string \<Rightarrow> perm_db \<Rightarrow> perm_db" where
  "deleteUserDm userId channelType db = db\<lparr>pd_dms := sql_delete dm_key (userId, channelType) (pd_dms db)\<rparr>"

section \<open>The access decision\<close>

datatype access_decision = Allowed string | Refused string

definition canAccessAgentGroup :: "string \<Rightarrow> string \<Rightarrow> perm_db \<Rightarrow> access_decision" where
  "canAccessAgentGroup userId agentGroupId db =
     (if getUser userId db = None then Refused ''unknown_user''
      else if isOwner userId db then Allowed ''owner''
      else if isGlobalAdmin userId db then Allowed ''global_admin''
      else if isAdminOfAgentGroup userId agentGroupId db then Allowed ''admin_of_group''
      else if isMember userId agentGroupId db then Allowed ''member''
      else Refused ''not_member'')"

fun access_ok :: "access_decision \<Rightarrow> bool" where
  "access_ok (Allowed _) = True"
| "access_ok (Refused _) = False"

section \<open>Sequences of calls\<close>

datatype perm_call =
    CreateUser user | UpsertUser user | UpdateDisplayName string string | DeleteUser string
  | GrantRole user_role | RevokeRole string user_role_kind "string option"
  | AddMember agent_group_member | RemoveMember string string
  | UpsertUserDm user_dm | DeleteUserDm string string

fun perm_step :: "perm_call \<Rightarrow> perm_db \<Rightarrow> perm_db" where
  "perm_step (CreateUser u) db = snd (createUser u db)"
| "perm_step (UpsertUser u) db = upsertUser u db"
| "perm_step (UpdateDisplayName i n) db = updateDisplayName i n db"
| "perm_step (DeleteUser i) db = snd (deleteUser i db)"
| "perm_step (GrantRole r) db = snd (grantRole r db)"
| "perm_step (RevokeRole i k g) db = revokeRole i k g db"
| "perm_step (AddMember m) db = snd (addMember m db)"
| "perm_step (RemoveMember i g) db = removeMember i g db"
| "perm_step (UpsertUserDm d) db = snd (upsertUserDm d db)"
| "perm_step (DeleteUserDm i c) db = deleteUserDm i c db"

text \<open>What the schema and the comments promise of the rows: the types of the columns that HOL
  does not give, references, keys, and that an owner is global.\<close>

definition role_typed :: "perm_db \<Rightarrow> user_role \<Rightarrow> bool" where
  "role_typed db r = (role_refs_ok db r \<and> (ur_role r = OwnerRole \<longrightarrow> ur_agent_group_id r = None))"

definition scoped_keys :: "user_role list \<Rightarrow> (string \<times> user_role_kind \<times> string option) list" where
  "scoped_keys rs = map (\<lambda>r. (ur_user_id r, ur_role r, ur_agent_group_id r)) (filter (\<lambda>r. ur_agent_group_id r \<noteq> None) rs)"

definition perm_typed :: "perm_db \<Rightarrow> bool" where
  "perm_typed db =
     (keys_distinct usr_id (pd_users db) \<and> list_all (role_typed db) (pd_roles db) \<and> distinct (scoped_keys (pd_roles db))
      \<and> list_all (member_refs_ok db) (pd_members db) \<and> keys_distinct gm_key (pd_members db)
      \<and> list_all (dm_refs_ok db) (pd_dms db) \<and> keys_distinct dm_key (pd_dms db))"

section \<open>The rows stay well typed\<close>

lemma user_exists_iff: "user_exists db i \<longleftrightarrow> i \<in> usr_id ` set (pd_users db)"
  by (auto simp: user_exists_def list_ex_iff)

lemma user_exists_select: "user_exists db i \<longleftrightarrow> getUser i db \<noteq> None"
  by (auto simp: user_exists_iff getUser_def sql_select_none image_iff)

definition users_kept :: "perm_db \<Rightarrow> perm_db \<Rightarrow> bool" where
  "users_kept db db' =
     (usr_id ` set (pd_users db) \<subseteq> usr_id ` set (pd_users db')
      \<and> pd_agent_groups db' = pd_agent_groups db \<and> pd_messaging_groups db' = pd_messaging_groups db)"

lemma null_or_mono: "null_or P x \<Longrightarrow> (\<And>y. P y \<Longrightarrow> Q y) \<Longrightarrow> null_or Q x"
  by (simp add: null_or_def split: option.splits)

lemma refs_kept:
  assumes "users_kept db db'"
  shows "role_typed db r \<Longrightarrow> role_typed db' r" and "member_refs_ok db m \<Longrightarrow> member_refs_ok db' m"
    and "dm_refs_ok db d \<Longrightarrow> dm_refs_ok db' d"
proof -
  have u: "user_exists db i \<Longrightarrow> user_exists db' i" for i
    using assms by (auto simp: users_kept_def user_exists_iff)
  show "role_typed db r \<Longrightarrow> role_typed db' r"
    using assms by (auto simp: role_typed_def role_refs_ok_def users_kept_def intro: u null_or_mono)
  show "member_refs_ok db m \<Longrightarrow> member_refs_ok db' m"
    using assms by (auto simp: member_refs_ok_def users_kept_def intro: u null_or_mono)
  show "dm_refs_ok db d \<Longrightarrow> dm_refs_ok db' d"
    using assms by (auto simp: dm_refs_ok_def users_kept_def intro: u)
qed

lemma perm_typed_kept:
  assumes "perm_typed db" "users_kept db db'" "keys_distinct usr_id (pd_users db')"
    and "pd_roles db' = pd_roles db" "pd_members db' = pd_members db" "pd_dms db' = pd_dms db"
  shows "perm_typed db'"
  using assms(1,3-) refs_kept [OF assms(2)] by (auto simp: perm_typed_def list_all_iff)

lemma users_kept_same: "pd_users db' = pd_users db \<Longrightarrow> pd_agent_groups db' = pd_agent_groups db \<Longrightarrow>
    pd_messaging_groups db' = pd_messaging_groups db \<Longrightarrow> users_kept db db'"
  by (simp add: users_kept_def)

lemma map_key_cond:
  "(\<And>r. key (f r) = key r) \<Longrightarrow> map key (map (\<lambda>r. if P r then f r else r) rows) = map key rows"
  by simp

lemma upsertUser_ids:
  "set (map usr_id (pd_users (upsertUser u db))) = insert (usr_id u) (set (map usr_id (pd_users db)))"
proof (cases "sql_select usr_id (usr_id u) (pd_users db) = None")
  case True
  then show ?thesis by (auto simp: upsertUser_def sql_upsert_def)
next
  case False
  then have "usr_id u \<in> set (map usr_id (pd_users db))" by (auto simp: sql_select_none intro: rev_image_eqI)
  moreover have "map usr_id (pd_users (upsertUser u db)) = map usr_id (pd_users db)"
    using False by (simp add: upsertUser_def sql_upsert_def map_key_cond del: map_map)
  ultimately show ?thesis by (metis insert_absorb)
qed

lemma perm_typed_users:
  assumes "perm_typed db"
  shows "perm_typed (snd (createUser u db))" and "perm_typed (upsertUser u db)" and "perm_typed (updateDisplayName i n db)"
proof -
  have d: "keys_distinct usr_id (pd_users db)" using assms by (simp add: perm_typed_def)
  have "keys_distinct usr_id (pd_users db @ [u])" if "\<not> user_exists db (usr_id u)"
    using d that by (auto simp: keys_distinct_def user_exists_iff)
  then show "perm_typed (snd (createUser u db))"
    using assms by (auto simp: createUser_def users_kept_def intro!: perm_typed_kept [of db])
  have "keys_distinct usr_id (pd_users (upsertUser u db))"
    unfolding upsertUser_def using upsert_table.wf_upsert [OF list_upsert_table d] by simp
  then show "perm_typed (upsertUser u db)"
    using upsertUser_ids [of u db]
    by (intro perm_typed_kept [OF assms]) (auto simp: users_kept_def upsertUser_def)
  have "map usr_id (pd_users (updateDisplayName i n db)) = map usr_id (pd_users db)"
    by (simp add: updateDisplayName_def sql_update_def)
  then show "perm_typed (updateDisplayName i n db)"
    using d by (intro perm_typed_kept [OF assms])
      (auto simp: users_kept_def keys_distinct_def updateDisplayName_def simp flip: set_map)
qed

lemma deleteUser_unreferenced:
  assumes "perm_typed db" "\<not> user_referenced db i"
  shows "perm_typed (db\<lparr>pd_users := sql_delete usr_id i (pd_users db)\<rparr>)"
proof -
  let ?db = "db\<lparr>pd_users := sql_delete usr_id i (pd_users db)\<rparr>"
  have u: "user_exists db j \<Longrightarrow> j \<noteq> i \<Longrightarrow> user_exists ?db j" for j
    by (auto simp: user_exists_iff sql_delete_def)
  have n: "null_or (user_exists db) x \<Longrightarrow> x \<noteq> Some i \<Longrightarrow> null_or (user_exists ?db) x" for x
    by (cases x) (auto simp: null_or_def intro: u)
  have "role_typed ?db r" if "r \<in> set (pd_roles db)" for r
    using assms that u n by (auto simp: perm_typed_def list_all_iff role_typed_def role_refs_ok_def user_referenced_def list_ex_iff)
  moreover have "member_refs_ok ?db m" if "m \<in> set (pd_members db)" for m
    using assms that u n by (auto simp: perm_typed_def list_all_iff member_refs_ok_def user_referenced_def list_ex_iff)
  moreover have "dm_refs_ok ?db d" if "d \<in> set (pd_dms db)" for d
    using assms that u by (auto simp: perm_typed_def list_all_iff dm_refs_ok_def user_referenced_def list_ex_iff)
  ultimately show ?thesis
    using assms(1) by (auto simp: perm_typed_def list_all_iff sql_delete_def keys_distinct_def distinct_map_filter)
qed

lemma delete_missing_user: "\<not> user_exists db i \<Longrightarrow> db\<lparr>pd_users := sql_delete usr_id i (pd_users db)\<rparr> = db"
  by (cases db) (auto simp: user_exists_def list_ex_iff sql_delete_def filter_id_conv)

lemma perm_typed_deleteUser: "perm_typed db \<Longrightarrow> perm_typed (snd (deleteUser i db))"
  using deleteUser_unreferenced [of db i] delete_missing_user [of db i]
  by (auto simp: deleteUser_def fk_failed_def)

lemma filter_commute: "filter P (filter Q xs) = filter Q (filter P xs)"
  by (simp add: conj_commute)

lemma scoped_keys_append: "scoped_keys (rs @ [r]) =
    scoped_keys rs @ (if ur_agent_group_id r \<noteq> None then [(ur_user_id r, ur_role r, ur_agent_group_id r)] else [])"
  by (simp add: scoped_keys_def)

lemma perm_typed_grantRole:
  assumes "perm_typed db"
  shows "perm_typed (snd (grantRole r db))"
proof -
  let ?db = "db\<lparr>pd_roles := pd_roles db @ [r]\<rparr>"
  have "users_kept db ?db" by (simp add: users_kept_same)
  then have "perm_typed ?db" if "role_typed db r" "\<not> role_key_taken db r"
    using assms that refs_kept [of db ?db]
    by (auto simp: perm_typed_def list_all_iff scoped_keys_append scoped_keys_def role_key_taken_def list_ex_iff)
  then show ?thesis
    using assms by (auto simp: grantRole_def role_typed_def unique_failed_def fk_failed_def)
qed

lemma perm_typed_revokeRole:
  assumes "perm_typed db"
  shows "perm_typed (revokeRole i k g db)"
proof -
  have "users_kept db (revokeRole i k g db)" by (simp add: revokeRole_def users_kept_same)
  moreover have "distinct (scoped_keys (filter P rs))" if "distinct (scoped_keys rs)" for P rs
    using that unfolding scoped_keys_def by (subst filter_commute) (rule distinct_map_filter)
  ultimately show ?thesis
    using assms refs_kept [of db "revokeRole i k g db"] by (auto simp: perm_typed_def list_all_iff revokeRole_def)
qed

lemma perm_typed_members:
  assumes "perm_typed db"
  shows "perm_typed (snd (addMember m db))" and "perm_typed (removeMember i g db)"
proof -
  let ?db = "db\<lparr>pd_members := pd_members db @ [m]\<rparr>"
  have "users_kept db ?db" by (simp add: users_kept_same)
  then have "perm_typed ?db" if "member_refs_ok db m" "sql_select gm_key (gm_key m) (pd_members db) = None"
    using assms that refs_kept [of db ?db]
    by (auto simp: perm_typed_def list_all_iff keys_distinct_def sql_select_none image_iff)
  then show "perm_typed (snd (addMember m db))"
    using assms by (auto simp: addMember_def fk_failed_def)
  have "users_kept db (removeMember i g db)" by (simp add: removeMember_def users_kept_same)
  then show "perm_typed (removeMember i g db)"
    using assms refs_kept [of db "removeMember i g db"]
    by (auto simp: perm_typed_def list_all_iff removeMember_def sql_delete_def keys_distinct_def distinct_map_filter)
qed

lemma perm_typed_dms:
  assumes "perm_typed db"
  shows "perm_typed (snd (upsertUserDm d db))" and "perm_typed (deleteUserDm i c db)"
proof -
  let ?f = "\<lambda>old. old\<lparr>dm_messaging_group_id := dm_messaging_group_id d, dm_resolved_at := dm_resolved_at d\<rparr>"
  let ?db = "db\<lparr>pd_dms := sql_upsert dm_key d ?f (pd_dms db)\<rparr>"
  have k: "keys_distinct dm_key (pd_dms db)" using assms by (simp add: perm_typed_def)
  have kept: "users_kept db ?db" by (simp add: users_kept_same)
  have "dm_refs_ok db x" if "x \<in> set (sql_upsert dm_key d ?f (pd_dms db))" "dm_refs_ok db d" for x
    using assms that by (auto simp: perm_typed_def list_all_iff sql_upsert_def dm_refs_ok_def split: if_splits)
  moreover have "keys_distinct dm_key (sql_upsert dm_key d ?f (pd_dms db))"
    by (rule upsert_table.wf_upsert [OF list_upsert_table k]) (simp add: dm_key_def)
  ultimately have "perm_typed ?db" if "dm_refs_ok db d"
    using assms that refs_kept [OF kept] by (auto simp: perm_typed_def list_all_iff)
  then show "perm_typed (snd (upsertUserDm d db))"
    using assms by (auto simp: upsertUserDm_def fk_failed_def)
  have "users_kept db (deleteUserDm i c db)" by (simp add: deleteUserDm_def users_kept_same)
  then show "perm_typed (deleteUserDm i c db)"
    using assms refs_kept [of db "deleteUserDm i c db"]
    by (auto simp: perm_typed_def list_all_iff deleteUserDm_def sql_delete_def keys_distinct_def distinct_map_filter)
qed

lemma perm_typed_step: "perm_typed db \<Longrightarrow> perm_typed (perm_step c db)"
  by (cases c) (simp_all add: perm_typed_users perm_typed_deleteUser perm_typed_grantRole
      perm_typed_revokeRole perm_typed_members perm_typed_dms)

lemma perm_typed_calls: "perm_typed db \<Longrightarrow> perm_typed (fold perm_step cs db)"
  by (induction cs arbitrary: db) (simp_all add: perm_typed_step)

definition empty_perms :: "string list \<Rightarrow> string list \<Rightarrow> perm_db" where
  "empty_perms groups mgs = \<lparr>pd_users = [], pd_roles = [], pd_members = [], pd_dms = [],
     pd_agent_groups = groups, pd_messaging_groups = mgs\<rparr>"

lemma empty_perms_typed: "perm_typed (empty_perms gs ms)"
  by (simp add: perm_typed_def empty_perms_def keys_distinct_def scoped_keys_def)

section \<open>Privilege and access\<close>

text \<open>The grants of a user, as a set: what the six lookups read.\<close>

definition granted :: "perm_db \<Rightarrow> string \<Rightarrow> user_role_kind \<Rightarrow> string option \<Rightarrow> bool" where
  "granted db u k g = (\<exists>r\<in>set (pd_roles db). ur_user_id r = u \<and> ur_role r = k \<and> ur_agent_group_id r = g)"

lemma role_lookups:
  "isOwner u db = granted db u OwnerRole None"
  "isGlobalAdmin u db = granted db u AdminRole None"
  "isAdminOfAgentGroup u g db = granted db u AdminRole (Some g)"
  by (auto simp: isOwner_def isGlobalAdmin_def isAdminOfAgentGroup_def granted_def list_ex_iff)

lemma role_lists:
  "set (map ur_user_id (getOwners db)) = {u. isOwner u db}"
  "set (map ur_user_id (getGlobalAdmins db)) = {u. isGlobalAdmin u db}"
  "set (map ur_user_id (getAdminsOfAgentGroup g db)) = {u. isAdminOfAgentGroup u g db}"
  by (auto simp: role_lookups granted_def getOwners_def getGlobalAdmins_def getAdminsOfAgentGroup_def)

lemma granted_revoke: "granted (revokeRole u k g db) v l h \<longleftrightarrow> granted db v l h \<and> (v, l, h) \<noteq> (u, k, g)"
  by (auto simp: granted_def revokeRole_def)

lemma granted_grant:
  "fst (grantRole r db) = Inr () \<Longrightarrow>
   granted (snd (grantRole r db)) v l h \<longleftrightarrow> granted db v l h \<or> (v, l, h) = (ur_user_id r, ur_role r, ur_agent_group_id r)"
  by (auto simp: granted_def grantRole_def unique_failed_def fk_failed_def split: if_splits)

lemma access_iff: "access_ok (canAccessAgentGroup u g db) \<longleftrightarrow> user_exists db u \<and> isMember u g db"
  by (simp add: canAccessAgentGroup_def isMember_def user_exists_select)

text \<open>In a typed state a privileged user is known, so privilege alone opens the group.\<close>

lemma privileged_known:
  assumes "perm_typed db" "granted db u k g"
  shows "user_exists db u"
  using assms by (auto simp: perm_typed_def list_all_iff granted_def role_typed_def role_refs_ok_def)

lemma privileged_access: "perm_typed db \<Longrightarrow> hasAdminPrivilege u g db \<Longrightarrow> access_ok (canAccessAgentGroup u g db)"
  using privileged_known by (auto simp: access_iff hasAdminPrivilege_def isMember_def role_lookups)

text \<open>C32: Whatever calls run from an empty database, the rows of users, roles, members and
  direct-message channels stay well typed: references resolve, keys are unique, an owner's grant is
  never scoped to a group; so every privileged user is a known user whom the access decision admits.\<close>

theorem permission_rows_typed:
  "perm_typed (fold perm_step calls (empty_perms gs ms))
   \<and> (hasAdminPrivilege u g (fold perm_step calls (empty_perms gs ms))
      \<longrightarrow> access_ok (canAccessAgentGroup u g (fold perm_step calls (empty_perms gs ms))))"
  using perm_typed_calls [OF empty_perms_typed] privileged_access by blast

theorem permission_rows_typed_witness:
  "access_ok (canAccessAgentGroup ''tg:1'' ''ag-9''
     (fold perm_step [CreateUser \<lparr>usr_id = ''tg:1'', usr_kind = ''tg'', usr_display_name = None, usr_created_at = ''t0''\<rparr>,
        GrantRole \<lparr>ur_user_id = ''tg:1'', ur_role = OwnerRole, ur_agent_group_id = None, ur_granted_by = None, ur_granted_at = ''t1''\<rparr>]
       (empty_perms [''ag-9''] [])))"
proof -
  let ?calls = "[CreateUser \<lparr>usr_id = ''tg:1'', usr_kind = ''tg'', usr_display_name = None, usr_created_at = ''t0''\<rparr>,
        GrantRole \<lparr>ur_user_id = ''tg:1'', ur_role = OwnerRole, ur_agent_group_id = None, ur_granted_by = None, ur_granted_at = ''t1''\<rparr>]"
  have "hasAdminPrivilege ''tg:1'' ''ag-9'' (fold perm_step ?calls (empty_perms [''ag-9''] []))"
    by code_simp
  then show ?thesis
    using permission_rows_typed [of ?calls "[''ag-9'']" "[]" "''tg:1''" "''ag-9''"] by blast
qed

end
