(* ===== verification/CentralSessions.thy ===== *)
theory CentralSessions
  imports ReconcileSession Permissions
begin

text \<open>
  The sessions, questions and approvals of the central database
  (\<open>nanoclaw/src/db/sessions.ts\<close> and the two approval tables under
  \<open>nanoclaw/src/modules/permissions/db\<close>), with the card options of
  \<open>nanoclaw/src/channels/ask-question.ts\<close>.  All migrations are assumed applied, so \<open>hasTable\<close>
  is true; foreign keys are enforced, the ids of agent groups and messaging groups being fields
  that no call here changes.  A query without \<open>ORDER BY\<close> reads rows in insertion order.
\<close>

section \<open>Card options\<close>

datatype option_style = PrimaryStyle | DangerStyle | DefaultStyle

datatype raw_option =
    RawText string
  | RawOption string "string option" "string option" "string option"

record normalized_option =
  no_label :: string
  no_selected :: string
  no_value :: string
  no_style :: "option_style option"

definition style_of :: "string option \<Rightarrow> option_style option" where
  "style_of s =
     (if s = Some ''primary'' then Some PrimaryStyle else if s = Some ''danger'' then Some DangerStyle
      else if s = Some ''default'' then Some DefaultStyle else None)"

definition or_else :: "'a option \<Rightarrow> 'a \<Rightarrow> 'a" where
  "or_else x d = (case x of None \<Rightarrow> d | Some v \<Rightarrow> v)"

text \<open>A nullable string as a condition: neither null nor empty.\<close>

fun truthy :: "string option \<Rightarrow> bool" where
  "truthy None = False"
| "truthy (Some s) = (s \<noteq> [])"

fun normalizeOption :: "raw_option \<Rightarrow> normalized_option" where
  "normalizeOption (RawText raw) = \<lparr>no_label = raw, no_selected = raw, no_value = raw, no_style = None\<rparr>"
| "normalizeOption (RawOption label selectedLabel value style) =
     \<lparr>no_label = label, no_selected = or_else selectedLabel label, no_value = or_else value label,
      no_style = style_of style\<rparr>"

definition normalizeOptions :: "raw_option list \<Rightarrow> normalized_option list" where
  "normalizeOptions raws = map normalizeOption raws"

fun style_text :: "option_style \<Rightarrow> string" where
  "style_text PrimaryStyle = ''primary''"
| "style_text DangerStyle = ''danger''"
| "style_text DefaultStyle = ''default''"

text \<open>What \<open>JSON.stringify\<close> prints of a normalized option: an undefined style is left out.\<close>

definition option_out :: "normalized_option \<Rightarrow> jout" where
  "option_out o' = OObj ([(''label'', OStr (no_label o')), (''selectedLabel'', OStr (no_selected o')),
      (''value'', OStr (no_value o'))]
     @ (case no_style o' of None \<Rightarrow> [] | Some s \<Rightarrow> [(''style'', OStr (style_text s))]))"

definition options_out :: "normalized_option list \<Rightarrow> jout" where
  "options_out os = OArr (map option_out os)"

section \<open>Tables\<close>

datatype container_status = ContainerRunning | ContainerIdle | ContainerStopped

record session =
  se_id :: string
  se_agent_group_id :: string
  se_messaging_group_id :: "string option"
  se_thread_id :: "string option"
  se_agent_provider :: "string option"
  se_status :: session_status
  se_container_status :: container_status
  se_last_active :: "string option"
  se_created_at :: string

text \<open>A row of \<open>pending_questions\<close>; the record of the code has the parsed options instead of the text.\<close>

record pending_question =
  pq_question_id :: string
  pq_session_id :: string
  pq_message_out_id :: string
  pq_platform_id :: "string option"
  pq_channel_type :: "string option"
  pq_thread_id :: "string option"
  pq_title :: string
  pq_options_json :: string
  pq_created_at :: string

datatype approval_status = ApPending | ApApproved | ApRejected | ApExpired | ApAwaitingReason

record pending_approval =
  pa_approval_id :: string
  pa_session_id :: "string option"
  pa_request_id :: string
  pa_action :: string
  pa_payload :: string
  pa_created_at :: string
  pa_agent_group_id :: "string option"
  pa_channel_type :: "string option"
  pa_platform_id :: "string option"
  pa_instance :: "string option"
  pa_platform_message_id :: "string option"
  pa_expires_at :: "string option"
  pa_status :: approval_status
  pa_title :: string
  pa_question :: string
  pa_options_json :: string
  pa_approver_user_id :: "string option"

record pending_channel_approval =
  ca_messaging_group_id :: string
  ca_agent_group_id :: string
  ca_original_message :: string
  ca_approver_user_id :: string
  ca_created_at :: string
  ca_title :: string
  ca_question :: string
  ca_options_json :: string

record pending_sender_approval =
  sa_id :: string
  sa_messaging_group_id :: string
  sa_agent_group_id :: string
  sa_sender_identity :: string
  sa_sender_name :: "string option"
  sa_original_message :: string
  sa_approver_user_id :: string
  sa_created_at :: string
  sa_title :: string
  sa_question :: string
  sa_options_json :: string

record central_db =
  cd_sessions :: "session list"
  cd_questions :: "pending_question list"
  cd_approvals :: "pending_approval list"
  cd_channel_approvals :: "pending_channel_approval list"
  cd_sender_approvals :: "pending_sender_approval list"
  cd_agent_groups :: "string list"
  cd_messaging_groups :: "string list"

section \<open>Sessions\<close>

definition getSession :: "string \<Rightarrow> central_db \<Rightarrow> session option" where
  "getSession i db = sql_select se_id i (cd_sessions db)"

definition createSession :: "session \<Rightarrow> central_db \<Rightarrow> unit result \<times> central_db" where
  "createSession s db =
     (if getSession (se_id s) db \<noteq> None then (unique_failed, db)
      else if \<not> (se_agent_group_id s \<in> set (cd_agent_groups db)
                 \<and> null_or (\<lambda>m. m \<in> set (cd_messaging_groups db)) (se_messaging_group_id s)) then (fk_failed, db)
      else (Inr (), db\<lparr>cd_sessions := cd_sessions db @ [s]\<rparr>))"

text \<open>\<open>if (threadId) \<dots> thread_id = ? \<dots> else \<dots> thread_id IS NULL\<close>\<close>

definition thread_matches :: "string option \<Rightarrow> session \<Rightarrow> bool" where
  "thread_matches threadId s =
     (case threadId of None \<Rightarrow> se_thread_id s = None
      | Some t \<Rightarrow> if t = [] then se_thread_id s = None else se_thread_id s = Some t)"

definition findSession :: "string \<Rightarrow> string option \<Rightarrow> central_db \<Rightarrow> session option" where
  "findSession messagingGroupId threadId db =
     find (\<lambda>s. se_messaging_group_id s = Some messagingGroupId \<and> thread_matches threadId s \<and> se_status s = Active)
       (cd_sessions db)"

definition findSessionForAgent :: "string \<Rightarrow> string \<Rightarrow> string option \<Rightarrow> central_db \<Rightarrow> session option" where
  "findSessionForAgent agentGroupId messagingGroupId threadId db =
     find (\<lambda>s. se_agent_group_id s = agentGroupId \<and> se_messaging_group_id s = Some messagingGroupId
               \<and> thread_matches threadId s \<and> se_status s = Active)
       (cd_sessions db)"

text \<open>\<open>ORDER BY k DESC\<close>; among equal keys the row inserted first (SQLite does not promise one).\<close>

definition latest_first :: "('a \<Rightarrow> 'k::linorder) \<Rightarrow> 'a list \<Rightarrow> 'a list" where
  "latest_first k rows = rev (sort_key k (rev rows))"

definition latest :: "('a \<Rightarrow> 'k::linorder) \<Rightarrow> 'a list \<Rightarrow> 'a option" where
  "latest k rows = (case latest_first k rows of [] \<Rightarrow> None | r # _ \<Rightarrow> Some r)"

text \<open>\<open>LIKE 'system:%'\<close> compares ASCII letters without their case.\<close>

definition like_prefix :: "string \<Rightarrow> string \<Rightarrow> bool" where
  "like_prefix p s = starts_with (map ascii_lower p) (map ascii_lower s)"

definition system_thread :: "session \<Rightarrow> bool" where
  "system_thread s = (se_messaging_group_id s = None \<and> (case se_thread_id s of None \<Rightarrow> False | Some t \<Rightarrow> like_prefix ''system:'' t))"

definition findSessionByAgentGroup :: "string \<Rightarrow> central_db \<Rightarrow> session option" where
  "findSessionByAgentGroup agentGroupId db =
     latest se_created_at (filter (\<lambda>s. se_agent_group_id s = agentGroupId \<and> se_status s = Active \<and> \<not> system_thread s) (cd_sessions db))"

definition getSessionsByAgentGroup :: "string \<Rightarrow> central_db \<Rightarrow> session list" where
  "getSessionsByAgentGroup agentGroupId db = filter (\<lambda>s. se_agent_group_id s = agentGroupId) (cd_sessions db)"

definition getRecentConversationSessions :: "string \<Rightarrow> string \<Rightarrow> string \<Rightarrow> nat \<Rightarrow> central_db \<Rightarrow> session list" where
  "getRecentConversationSessions agentGroupId messagingGroupId activeSinceIso maxRows db =
     take maxRows (latest_first se_last_active
       (filter (\<lambda>s. se_agent_group_id s = agentGroupId \<and> se_messaging_group_id s = Some messagingGroupId \<and> se_status s = Active
                    \<and> (case se_last_active s of None \<Rightarrow> False | Some t \<Rightarrow> activeSinceIso \<le> t)) (cd_sessions db)))"

definition findSystemSession :: "string \<Rightarrow> string \<Rightarrow> central_db \<Rightarrow> session option" where
  "findSystemSession agentGroupId threadId db =
     latest se_created_at (filter (\<lambda>s. se_agent_group_id s = agentGroupId \<and> se_messaging_group_id s = None
        \<and> se_thread_id s = Some threadId \<and> se_status s = Active) (cd_sessions db))"

definition findTaskSessions :: "string \<Rightarrow> bool \<Rightarrow> central_db \<Rightarrow> session list" where
  "findTaskSessions agentGroupId includeClosed db =
     latest_first se_created_at (filter (\<lambda>s. se_agent_group_id s = agentGroupId \<and> se_messaging_group_id s = None
        \<and> (includeClosed \<or> se_status s = Active)
        \<and> (case se_thread_id s of None \<Rightarrow> False
           | Some t \<Rightarrow> t = TASKS_SYSTEM_THREAD_ID \<or> like_prefix (TASKS_SYSTEM_THREAD_ID @ '':'') t)) (cd_sessions db))"

definition getActiveSessions :: "central_db \<Rightarrow> session list" where
  "getActiveSessions db = filter (\<lambda>s. se_status s = Active) (cd_sessions db)"

definition getRunningSessions :: "central_db \<Rightarrow> session list" where
  "getRunningSessions db = filter (\<lambda>s. se_container_status s \<in> {ContainerRunning, ContainerIdle}) (cd_sessions db)"

text \<open>The updates a caller passes: \<open>None\<close> is an absent or undefined property.\<close>

record session_updates =
  su_status :: "session_status option"
  su_container_status :: "container_status option"
  su_last_active :: "string option option"
  su_agent_provider :: "string option option"

definition apply_updates :: "session_updates \<Rightarrow> session \<Rightarrow> session" where
  "apply_updates u s = s\<lparr>se_status := or_else (su_status u) (se_status s),
     se_container_status := or_else (su_container_status u) (se_container_status s),
     se_last_active := or_else (su_last_active u) (se_last_active s),
     se_agent_provider := or_else (su_agent_provider u) (se_agent_provider s)\<rparr>"

definition updateSession :: "string \<Rightarrow> session_updates \<Rightarrow> central_db \<Rightarrow> central_db" where
  "updateSession i u db = db\<lparr>cd_sessions := fst (sql_update se_id i (\<lambda>_. True) (apply_updates u) (cd_sessions db))\<rparr>"

definition session_referenced :: "string \<Rightarrow> central_db \<Rightarrow> bool" where
  "session_referenced i db =
     (list_ex (\<lambda>q. pq_session_id q = i) (cd_questions db) \<or> list_ex (\<lambda>a. pa_session_id a = Some i) (cd_approvals db))"

definition deleteSession :: "string \<Rightarrow> central_db \<Rightarrow> unit result \<times> central_db" where
  "deleteSession i db =
     (if getSession i db \<noteq> None \<and> session_referenced i db then (fk_failed, db)
      else (Inr (), db\<lparr>cd_sessions := sql_delete se_id i (cd_sessions db)\<rparr>))"

section \<open>Pending questions\<close>

definition createPendingQuestion :: "pending_question \<Rightarrow> normalized_option list \<Rightarrow> central_db \<Rightarrow> bool result \<times> central_db" where
  "createPendingQuestion pq options db =
     (let row = pq\<lparr>pq_options_json := json_print (options_out options)\<rparr>
      in if sql_select pq_question_id (pq_question_id pq) (cd_questions db) \<noteq> None then (Inr False, db)
         else if getSession (pq_session_id pq) db = None then (fk_failed, db)
         else (Inr True, db\<lparr>cd_questions := cd_questions db @ [row]\<rparr>))"

definition getPendingQuestion :: "string \<Rightarrow> central_db \<Rightarrow> (pending_question \<times> jsval) option result" where
  "getPendingQuestion questionId db =
     (case sql_select pq_question_id questionId (cd_questions db) of
        None \<Rightarrow> Inr None
      | Some row \<Rightarrow> (case json_parse (pq_options_json row) of
                       None \<Rightarrow> Inl ''SyntaxError''
                     | Some options \<Rightarrow> Inr (Some (row, options))))"

definition deletePendingQuestion :: "string \<Rightarrow> central_db \<Rightarrow> central_db" where
  "deletePendingQuestion questionId db = db\<lparr>cd_questions := sql_delete pq_question_id questionId (cd_questions db)\<rparr>"

section \<open>Pending approvals\<close>

definition approval_refs_ok :: "central_db \<Rightarrow> pending_approval \<Rightarrow> bool" where
  "approval_refs_ok db a =
     (null_or (\<lambda>i. getSession i db \<noteq> None) (pa_session_id a)
      \<and> null_or (\<lambda>g. g \<in> set (cd_agent_groups db)) (pa_agent_group_id a))"

text \<open>The columns a caller may leave out have the defaults of the statement.\<close>

definition approval_defaults :: "string \<Rightarrow> string \<Rightarrow> string \<Rightarrow> string \<Rightarrow> string \<Rightarrow> string \<Rightarrow> string \<Rightarrow> pending_approval" where
  "approval_defaults approval_id request_id action payload created_at title options_json =
     \<lparr>pa_approval_id = approval_id, pa_session_id = None, pa_request_id = request_id, pa_action = action,
      pa_payload = payload, pa_created_at = created_at, pa_agent_group_id = None, pa_channel_type = None,
      pa_platform_id = None, pa_instance = None, pa_platform_message_id = None, pa_expires_at = None,
      pa_status = ApPending, pa_title = title, pa_question = [], pa_options_json = options_json,
      pa_approver_user_id = None\<rparr>"

definition createPendingApproval :: "pending_approval \<Rightarrow> central_db \<Rightarrow> bool result \<times> central_db" where
  "createPendingApproval pa db =
     (if sql_select pa_approval_id (pa_approval_id pa) (cd_approvals db) \<noteq> None then (Inr False, db)
      else if \<not> approval_refs_ok db pa then (fk_failed, db)
      else (Inr True, db\<lparr>cd_approvals := cd_approvals db @ [pa]\<rparr>))"

definition getPendingApproval :: "string \<Rightarrow> central_db \<Rightarrow> pending_approval option" where
  "getPendingApproval approvalId db = sql_select pa_approval_id approvalId (cd_approvals db)"

definition transitionPendingApprovalStatus ::
    "string \<Rightarrow> approval_status \<Rightarrow> approval_status \<Rightarrow> central_db \<Rightarrow> bool \<times> central_db" where
  "transitionPendingApprovalStatus approvalId expected status db =
     (case sql_update pa_approval_id approvalId (\<lambda>a. pa_status a = expected) (\<lambda>a. a\<lparr>pa_status := status\<rparr>) (cd_approvals db) of
        (rows, changes) \<Rightarrow> (changes > 0, db\<lparr>cd_approvals := rows\<rparr>))"

definition markApprovalAwaitingReason :: "string \<Rightarrow> string \<Rightarrow> central_db \<Rightarrow> bool \<times> central_db" where
  "markApprovalAwaitingReason approvalId expiresAt db =
     (case sql_update pa_approval_id approvalId (\<lambda>a. pa_status a = ApPending)
             (\<lambda>a. a\<lparr>pa_status := ApAwaitingReason, pa_expires_at := Some expiresAt\<rparr>) (cd_approvals db) of
        (rows, changes) \<Rightarrow> (changes > 0, db\<lparr>cd_approvals := rows\<rparr>))"

definition getExpiredAwaitingReasonApprovals :: "string \<Rightarrow> central_db \<Rightarrow> pending_approval list" where
  "getExpiredAwaitingReasonApprovals nowIso db =
     filter (\<lambda>a. pa_status a = ApAwaitingReason \<and> (case pa_expires_at a of None \<Rightarrow> False | Some e \<Rightarrow> e \<le> nowIso)) (cd_approvals db)"

definition deletePendingApproval :: "string \<Rightarrow> central_db \<Rightarrow> central_db" where
  "deletePendingApproval approvalId db = db\<lparr>cd_approvals := sql_delete pa_approval_id approvalId (cd_approvals db)\<rparr>"

definition getPendingApprovalsByAction :: "string \<Rightarrow> central_db \<Rightarrow> pending_approval list" where
  "getPendingApprovalsByAction action db = filter (\<lambda>a. pa_action a = action) (cd_approvals db)"

definition bindPendingApprovalMessage :: "string \<Rightarrow> string \<Rightarrow> central_db \<Rightarrow> central_db" where
  "bindPendingApprovalMessage approvalId messageId db = db\<lparr>cd_approvals :=
     fst (sql_update pa_approval_id approvalId (\<lambda>_. True) (\<lambda>a. a\<lparr>pa_platform_message_id := Some messageId\<rparr>) (cd_approvals db))\<rparr>"

section \<open>Channel and sender approvals\<close>

definition pending_refs_ok :: "central_db \<Rightarrow> string \<Rightarrow> string \<Rightarrow> bool" where
  "pending_refs_ok db mg ag = (mg \<in> set (cd_messaging_groups db) \<and> ag \<in> set (cd_agent_groups db))"

definition createPendingChannelApproval :: "pending_channel_approval \<Rightarrow> central_db \<Rightarrow> unit result \<times> central_db" where
  "createPendingChannelApproval row db =
     (if sql_select ca_messaging_group_id (ca_messaging_group_id row) (cd_channel_approvals db) \<noteq> None then (unique_failed, db)
      else if \<not> pending_refs_ok db (ca_messaging_group_id row) (ca_agent_group_id row) then (fk_failed, db)
      else (Inr (), db\<lparr>cd_channel_approvals := cd_channel_approvals db @ [row]\<rparr>))"

definition getPendingChannelApproval :: "string \<Rightarrow> central_db \<Rightarrow> pending_channel_approval option" where
  "getPendingChannelApproval messagingGroupId db = sql_select ca_messaging_group_id messagingGroupId (cd_channel_approvals db)"

definition hasInFlightChannelApproval :: "string \<Rightarrow> central_db \<Rightarrow> bool" where
  "hasInFlightChannelApproval messagingGroupId db =
     (sql_select ca_messaging_group_id messagingGroupId (cd_channel_approvals db) \<noteq> None)"

definition updatePendingChannelApprovalCard :: "string \<Rightarrow> string \<Rightarrow> string \<Rightarrow> string \<Rightarrow> central_db \<Rightarrow> central_db" where
  "updatePendingChannelApprovalCard messagingGroupId title question optionsJson db = db\<lparr>cd_channel_approvals :=
     fst (sql_update ca_messaging_group_id messagingGroupId (\<lambda>_. True)
       (\<lambda>a. a\<lparr>ca_title := title, ca_question := question, ca_options_json := optionsJson\<rparr>) (cd_channel_approvals db))\<rparr>"

definition deletePendingChannelApproval :: "string \<Rightarrow> central_db \<Rightarrow> central_db" where
  "deletePendingChannelApproval messagingGroupId db =
     db\<lparr>cd_channel_approvals := sql_delete ca_messaging_group_id messagingGroupId (cd_channel_approvals db)\<rparr>"

text \<open>The second key of the table, \<open>UNIQUE(messaging_group_id, sender_identity)\<close>.\<close>

definition sender_pair :: "pending_sender_approval \<Rightarrow> string \<times> string" where
  "sender_pair a = (sa_messaging_group_id a, sa_sender_identity a)"

definition createPendingSenderApproval :: "pending_sender_approval \<Rightarrow> central_db \<Rightarrow> unit result \<times> central_db" where
  "createPendingSenderApproval row db =
     (if list_ex (\<lambda>a. sa_id a = sa_id row \<or> sender_pair a = sender_pair row) (cd_sender_approvals db) then (unique_failed, db)
      else if \<not> pending_refs_ok db (sa_messaging_group_id row) (sa_agent_group_id row) then (fk_failed, db)
      else (Inr (), db\<lparr>cd_sender_approvals := cd_sender_approvals db @ [row]\<rparr>))"

definition getPendingSenderApproval :: "string \<Rightarrow> central_db \<Rightarrow> pending_sender_approval option" where
  "getPendingSenderApproval i db = sql_select sa_id i (cd_sender_approvals db)"

definition hasInFlightSenderApproval :: "string \<Rightarrow> string \<Rightarrow> central_db \<Rightarrow> bool" where
  "hasInFlightSenderApproval messagingGroupId senderIdentity db =
     (sql_select sender_pair (messagingGroupId, senderIdentity) (cd_sender_approvals db) \<noteq> None)"

definition deletePendingSenderApproval :: "string \<Rightarrow> central_db \<Rightarrow> central_db" where
  "deletePendingSenderApproval i db = db\<lparr>cd_sender_approvals := sql_delete sa_id i (cd_sender_approvals db)\<rparr>"

definition DECLINE_STAMP_ID_PREFIX :: string where "DECLINE_STAMP_ID_PREFIX = ''decline:''"

definition decline_stamp :: "pending_sender_approval \<Rightarrow> bool" where
  "decline_stamp a = like_prefix DECLINE_STAMP_ID_PREFIX (sa_id a)"

definition getDeclineStampAt :: "string \<Rightarrow> string \<Rightarrow> central_db \<Rightarrow> string option" where
  "getDeclineStampAt messagingGroupId senderIdentity db =
     map_option sa_created_at (find (\<lambda>a. sender_pair a = (messagingGroupId, senderIdentity) \<and> decline_stamp a) (cd_sender_approvals db))"

text \<open>The stamp written at time \<open>now\<close>: the columns the statement leaves out have their defaults.\<close>

definition stamp_row :: "string \<Rightarrow> string \<Rightarrow> string \<Rightarrow> string \<Rightarrow> string option \<Rightarrow> string \<Rightarrow> pending_sender_approval" where
  "stamp_row now mg ag sender name msg =
     \<lparr>sa_id = DECLINE_STAMP_ID_PREFIX @ mg @ '':'' @ sender, sa_messaging_group_id = mg, sa_agent_group_id = ag,
      sa_sender_identity = sender, sa_sender_name = name, sa_original_message = msg, sa_approver_user_id = [],
      sa_created_at = now, sa_title = [], sa_question = [], sa_options_json = ''[]''\<rparr>"

text \<open>On a conflict of the pair the row becomes the stamp, but keeps its agent group and question.
  A conflict of the id alone (another pair with the same text) is an error.\<close>

definition upsertDeclineStamp :: "pending_sender_approval \<Rightarrow> central_db \<Rightarrow> unit result \<times> central_db" where
  "upsertDeclineStamp row db =
     (if list_ex (\<lambda>a. sa_id a = sa_id row \<and> sender_pair a \<noteq> sender_pair row) (cd_sender_approvals db) then (unique_failed, db)
      else if \<not> pending_refs_ok db (sa_messaging_group_id row) (sa_agent_group_id row) then (fk_failed, db)
      else (Inr (), db\<lparr>cd_sender_approvals := sql_upsert sender_pair row
              (\<lambda>old. old\<lparr>sa_id := sa_id row, sa_created_at := sa_created_at row, sa_sender_name := sa_sender_name row,
                 sa_original_message := sa_original_message row, sa_approver_user_id := sa_approver_user_id row,
                 sa_title := sa_title row, sa_options_json := sa_options_json row\<rparr>)
              (cd_sender_approvals db)\<rparr>))"

definition clearDeclineStamp :: "string \<Rightarrow> string \<Rightarrow> central_db \<Rightarrow> central_db" where
  "clearDeclineStamp messagingGroupId senderIdentity db = db\<lparr>cd_sender_approvals :=
     filter (\<lambda>a. \<not> (sender_pair a = (messagingGroupId, senderIdentity) \<and> decline_stamp a)) (cd_sender_approvals db)\<rparr>"

section \<open>Rendering a card\<close>

record ask_render =
  ar_title :: string
  ar_question :: "string option"
  ar_options :: jsval
  ar_deferResolution :: bool

definition render_of :: "string \<Rightarrow> string \<Rightarrow> string \<Rightarrow> bool \<Rightarrow> ask_render option result" where
  "render_of title question options_json defer =
     (case json_parse options_json of
        None \<Rightarrow> Inl ''SyntaxError''
      | Some os \<Rightarrow> Inr (Some \<lparr>ar_title = title, ar_question = Some question, ar_options = os, ar_deferResolution = defer\<rparr>))"

text \<open>A row without a title is passed over.\<close>

definition channel_or_sender_render :: "string \<Rightarrow> central_db \<Rightarrow> ask_render option result" where
  "channel_or_sender_render i db =
     (let sender = (case getPendingSenderApproval i db of
                      Some s \<Rightarrow> if sa_title s \<noteq> [] then render_of (sa_title s) (sa_question s) (sa_options_json s) False else Inr None
                    | None \<Rightarrow> Inr None)
      in case getPendingChannelApproval i db of
           Some c \<Rightarrow> if ca_title c \<noteq> [] then render_of (ca_title c) (ca_question c) (ca_options_json c) False else sender
         | None \<Rightarrow> sender)"

definition getAskQuestionRender :: "string \<Rightarrow> central_db \<Rightarrow> ask_render option result" where
  "getAskQuestionRender i db =
     (case getPendingQuestion i db of
        Inl e \<Rightarrow> Inl e
      | Inr (Some (q, os)) \<Rightarrow> Inr (Some \<lparr>ar_title = pq_title q, ar_question = None, ar_options = os, ar_deferResolution = False\<rparr>)
      | Inr None \<Rightarrow>
          (case getPendingApproval i db of
             Some a \<Rightarrow> if pa_title a \<noteq> [] then render_of (pa_title a) (pa_question a) (pa_options_json a) (pa_action a = ''gateway_request'')
                       else channel_or_sender_render i db
           | None \<Rightarrow> channel_or_sender_render i db))"

section \<open>The approvals are a keyed table\<close>

interpretation approvals: upsert_table pa_approval_id "sql_select pa_approval_id" "sql_insert pa_approval_id"
  "sql_update pa_approval_id" "keys_distinct pa_approval_id" "sql_upsert pa_approval_id" "sql_delete pa_approval_id"
  by (rule list_upsert_table)

end
