(* ===== verification/SessionResolve.thy ===== *)
theory SessionResolve
  imports CentralSessions
begin

text \<open>
  Finding or creating the session of a conversation (\<open>resolveSession\<close> and
  \<open>resolveTaskSession\<close> of \<open>nanoclaw/src/session-manager.ts\<close>).  The body runs under the lock of
  its key, so it is one step here; the fresh id and the clock are arguments.
\<close>

datatype session_mode = Shared | PerThread | AgentShared

text \<open>The key of the creation lock, its parts joined by NUL characters.\<close>

definition sessionCreationKey :: "string \<Rightarrow> string option \<Rightarrow> string option \<Rightarrow> session_mode \<Rightarrow> string" where
  "sessionCreationKey agentGroupId messagingGroupId threadId mode =
     (if mode = AgentShared then ''agent'' @ CHR 0x00 # agentGroupId
      else ''route'' @ CHR 0x00 # agentGroupId @ CHR 0x00 # or_else messagingGroupId [] @ CHR 0x00 #
           (if mode = Shared then [] else or_else threadId []))"

definition lookup_route :: "string \<Rightarrow> string option \<Rightarrow> string option \<Rightarrow> session_mode \<Rightarrow> central_db \<Rightarrow> session option" where
  "lookup_route agentGroupId messagingGroupId threadId mode db =
     (if mode = AgentShared then findSessionByAgentGroup agentGroupId db
      else if truthy messagingGroupId
      then findSessionForAgent agentGroupId (the messagingGroupId) (if mode = Shared then None else threadId) db
      else None)"

definition new_session :: "string \<Rightarrow> string \<Rightarrow> string \<Rightarrow> string option \<Rightarrow> string option \<Rightarrow> session" where
  "new_session i now agentGroupId messagingGroupId threadId =
     \<lparr>se_id = i, se_agent_group_id = agentGroupId, se_messaging_group_id = messagingGroupId, se_thread_id = threadId,
      se_agent_provider = None, se_status = Active, se_container_status = ContainerStopped, se_last_active = None,
      se_created_at = now\<rparr>"

text \<open>The lookup after a unique violation: \<open>lookupThreadId\<close> is there the thread of a per-thread session.\<close>

definition lookup_raced :: "string \<Rightarrow> string option \<Rightarrow> string option \<Rightarrow> session_mode \<Rightarrow> central_db \<Rightarrow> session option" where
  "lookup_raced agentGroupId messagingGroupId threadId mode db =
     (if mode = AgentShared then findSessionByAgentGroup agentGroupId db
      else if truthy messagingGroupId
      then findSessionForAgent agentGroupId (the messagingGroupId) (if mode = PerThread then threadId else None) db
      else None)"

text \<open>\<open>catch (error) { if (!isUniqueViolation(error)) throw error; \<dots> }\<close>\<close>

definition create_or_adopt :: "session \<Rightarrow> (central_db \<Rightarrow> session option) \<Rightarrow> central_db \<Rightarrow> (session \<times> bool) result \<times> central_db" where
  "create_or_adopt s again db =
     (case createSession s db of
        (Inr _, db') \<Rightarrow> (Inr (s, True), db')
      | (Inl e, db') \<Rightarrow>
          if \<not> isUniqueViolation e then (Inl e, db')
          else (case again db' of None \<Rightarrow> (Inl e, db') | Some x \<Rightarrow> (Inr (x, False), db')))"

definition resolveSession ::
    "string \<Rightarrow> string \<Rightarrow> string \<Rightarrow> string option \<Rightarrow> string option \<Rightarrow> session_mode \<Rightarrow> central_db
     \<Rightarrow> (session \<times> bool) result \<times> central_db" where
  "resolveSession freshId now agentGroupId messagingGroupId threadId mode db =
     (case lookup_route agentGroupId messagingGroupId threadId mode db of
        Some s \<Rightarrow> (Inr (s, False), db)
      | None \<Rightarrow> create_or_adopt
                  (new_session freshId now agentGroupId messagingGroupId (if mode = PerThread then threadId else None))
                  (lookup_raced agentGroupId messagingGroupId threadId mode) db)"

definition resolveTaskSession ::
    "string \<Rightarrow> string \<Rightarrow> string \<Rightarrow> string \<Rightarrow> central_db \<Rightarrow> (session \<times> bool) result \<times> central_db" where
  "resolveTaskSession freshId now agentGroupId seriesId db =
     (case findSystemSession agentGroupId (taskThreadId seriesId) db of
        Some s \<Rightarrow> (Inr (s, False), db)
      | None \<Rightarrow> create_or_adopt (new_session freshId now agentGroupId None (Some (taskThreadId seriesId)))
                  (findSystemSession agentGroupId (taskThreadId seriesId)) db)"

section \<open>What the lookups find\<close>

lemma latest_first_set [simp]: "set (latest_first k rows) = set rows"
  by (simp add: latest_first_def)

lemma latest_None [simp]: "latest k rows = None \<longleftrightarrow> rows = []"
  using latest_first_set [of k rows] by (cases "latest_first k rows") (auto simp: latest_def)

lemma latest_SomeD: "latest k rows = Some r \<Longrightarrow> r \<in> set rows"
  using latest_first_set [of k rows] by (cases "latest_first k rows") (auto simp: latest_def)

lemma latest_single [simp]: "latest k [r] = Some r"
  by (simp add: latest_def latest_first_def)

text \<open>The conversation a session serves: what the lookups of a route select by.\<close>

definition serves :: "string \<Rightarrow> string option \<Rightarrow> string option \<Rightarrow> session_mode \<Rightarrow> session \<Rightarrow> bool" where
  "serves g m t mode s =
     (se_agent_group_id s = g \<and> se_status s = Active
      \<and> (if mode = AgentShared then \<not> system_thread s
         else se_messaging_group_id s = m \<and> thread_matches (if mode = Shared then None else t) s))"

lemma lookup_route_serves: "lookup_route g m t mode db = Some s \<Longrightarrow> serves g m t mode s"
  by (cases m)
    (auto simp: lookup_route_def serves_def findSessionByAgentGroup_def findSessionForAgent_def find_Some_iff
      dest: latest_SomeD split: if_splits)

lemma lookup_route_iff:
  assumes "mode = AgentShared \<or> truthy m"
  shows "lookup_route g m t mode db = None \<longleftrightarrow> (\<forall>s\<in>set (cd_sessions db). \<not> serves g m t mode s)"
  using assms
  by (cases m) (auto simp: lookup_route_def serves_def findSessionByAgentGroup_def findSessionForAgent_def
      find_None_iff filter_empty_conv)

lemma lookup_raced_eq: "lookup_raced g m t mode db = lookup_route g m t mode db"
  by (cases mode) (simp_all add: lookup_raced_def lookup_route_def)

lemma find_in: "find P xs = Some x \<Longrightarrow> x \<in> set xs"
  by (metis find_Some_iff nth_mem)

lemma lookup_route_in: "lookup_route g m t mode db = Some s \<Longrightarrow> s \<in> set (cd_sessions db)"
  by (auto simp: lookup_route_def findSessionByAgentGroup_def findSessionForAgent_def
      dest: latest_SomeD find_in split: if_splits)

lemma new_session_serves:
  assumes "mode = AgentShared \<or> truthy m" "\<not> (mode = PerThread \<and> t = Some [])"
  shows "serves g m t mode (new_session i now g m (if mode = PerThread then t else None))"
  using assms by (cases mode; cases t) (auto simp: serves_def new_session_def system_thread_def thread_matches_def)

lemma lookup_appended:
  assumes "lookup_route g m t mode db = None" "serves g m t mode s" "mode = AgentShared \<or> truthy m"
  shows "lookup_route g m t mode (db\<lparr>cd_sessions := cd_sessions db @ [s]\<rparr>) = Some s"
proof -
  have none: "\<forall>x\<in>set (cd_sessions db). \<not> serves g m t mode x"
    using assms lookup_route_iff by blast
  let ?db = "db\<lparr>cd_sessions := cd_sessions db @ [s]\<rparr>"
  have "lookup_route g m t mode ?db \<noteq> None"
    using lookup_route_iff [OF assms(3), of g t ?db] assms(2) by auto
  then obtain x where x: "lookup_route g m t mode ?db = Some x" by blast
  have "x \<in> set (cd_sessions ?db)" using x by (rule lookup_route_in)
  then have "x = s" using lookup_route_serves [OF x] none by auto
  with x show ?thesis by simp
qed

lemma create_or_adopt_cases:
  assumes "create_or_adopt s again db = (Inr (x, c), db')"
  shows "(x = s \<and> c \<and> db' = db\<lparr>cd_sessions := cd_sessions db @ [s]\<rparr>) \<or> (again db = Some x \<and> \<not> c \<and> db' = db)"
  using assms
  by (auto simp: create_or_adopt_def createSession_def unique_failed_def fk_failed_def
      split: if_splits option.splits)

lemma resolveSession_lookup:
  assumes "resolveSession i now g m t mode db = (Inr (s, c), db')"
    and "mode = AgentShared \<or> truthy m" "\<not> (mode = PerThread \<and> t = Some [])"
  shows "lookup_route g m t mode db' = Some s"
proof (cases "lookup_route g m t mode db")
  case None
  then show ?thesis
    using assms(1) create_or_adopt_cases lookup_appended [OF None new_session_serves [OF assms(2,3)] assms(2)]
    by (fastforce simp: resolveSession_def lookup_raced_eq)
qed (use assms(1) in \<open>simp add: resolveSession_def\<close>)

text \<open>An empty thread id is stored as given but looked up as NULL: each message of such a
  conversation opens another session.\<close>

lemma empty_thread_unfound:
  assumes "truthy m" "\<forall>s\<in>set (cd_sessions db). se_thread_id s \<noteq> None"
  shows "lookup_route g m (Some []) PerThread db = None"
  using assms by (cases m) (auto simp: lookup_route_def findSessionForAgent_def find_None_iff thread_matches_def)

lemma resolveSession_created:
  assumes "resolveSession i now g m t mode db = (Inr (s, c), db')"
  shows "c \<longleftrightarrow> lookup_route g m t mode db = None"
    "db' = (if c then db\<lparr>cd_sessions := cd_sessions db @ [s]\<rparr> else db)"
  using assms create_or_adopt_cases
  by (fastforce simp: resolveSession_def lookup_raced_eq split: option.splits)+

text \<open>C31: Resolving a conversation yields an active session of exactly that agent group and
  conversation.  It is created, as one row more, exactly when no stored session serves the conversation,
  and otherwise the database is as before; and resolving the same conversation again yields the same
  session without creating another.  (Calls without a messaging group outside the agent-shared mode
  always create; an empty thread id in the per-thread mode is the exception shown above.)\<close>

theorem session_of_route:
  assumes "resolveSession i now g m t mode db = (Inr (s, c), db')"
    and "mode = AgentShared \<or> truthy m" "\<not> (mode = PerThread \<and> t = Some [])"
  shows "serves g m t mode s \<and> s \<in> set (cd_sessions db')
    \<and> (c \<longleftrightarrow> (\<forall>x\<in>set (cd_sessions db). \<not> serves g m t mode x))
    \<and> db' = (if c then db\<lparr>cd_sessions := cd_sessions db @ [s]\<rparr> else db)
    \<and> resolveSession j now' g m t mode db' = (Inr (s, False), db')"
  using resolveSession_lookup [OF assms] resolveSession_created [OF assms(1)] lookup_route_iff [OF assms(2), of g t db]
    lookup_route_serves lookup_route_in
  by (auto simp: resolveSession_def)

definition no_sessions :: central_db where
  "no_sessions = \<lparr>cd_sessions = [], cd_questions = [], cd_approvals = [], cd_channel_approvals = [],
     cd_sender_approvals = [], cd_agent_groups = [''ag''], cd_messaging_groups = [''mg'']\<rparr>"

theorem session_of_route_witness:
  "resolveSession ''s2'' ''t2'' ''ag'' (Some ''mg'') (Some ''th'') PerThread
     (snd (resolveSession ''s1'' ''t1'' ''ag'' (Some ''mg'') (Some ''th'') PerThread no_sessions))
   = (Inr (new_session ''s1'' ''t1'' ''ag'' (Some ''mg'') (Some ''th''), False),
      snd (resolveSession ''s1'' ''t1'' ''ag'' (Some ''mg'') (Some ''th'') PerThread no_sessions))"
proof -
  let ?r = "resolveSession ''s1'' ''t1'' ''ag'' (Some ''mg'') (Some ''th'') PerThread no_sessions"
  have "fst ?r = Inr (new_session ''s1'' ''t1'' ''ag'' (Some ''mg'') (Some ''th''), True)"
    by code_simp
  then have "?r = (Inr (new_session ''s1'' ''t1'' ''ag'' (Some ''mg'') (Some ''th''), True), snd ?r)"
    by (metis prod.collapse)
  note r = session_of_route [OF this, where j = "''s2''" and now' = "''t2''"]
  have "truthy (Some ''mg'')" by simp
  with r show ?thesis by blast
qed

end
