(* ===== verification/AgentLinks.thy ===== *)
theory AgentLinks
  imports CentralSessions
begin

text \<open>
  Where an agent may send: its named destinations and the approval policies of agent-to-agent
  edges (\<open>nanoclaw/src/modules/agent-to-agent/db\<close>), with the destination a wiring creates
  (\<open>ensureAgentDestinationForWiring\<close> of \<open>nanoclaw/src/db/messaging-groups.ts\<close>).
\<close>

section \<open>Tables\<close>

datatype target_type = ChannelTarget | AgentTarget

record agent_destination =
  ad_agent_group_id :: string
  ad_local_name :: string
  ad_target_type :: target_type
  ad_target_id :: string
  ad_created_at :: string

record agent_message_policy =
  mp_from :: string
  mp_to :: string
  mp_approver :: string
  mp_created_at :: string

record link_db =
  ld_destinations :: "agent_destination list"
  ld_policies :: "agent_message_policy list"
  ld_agent_groups :: "string list"

definition ad_key :: "agent_destination \<Rightarrow> string \<times> string" where
  "ad_key d = (ad_agent_group_id d, ad_local_name d)"

definition mp_key :: "agent_message_policy \<Rightarrow> string \<times> string" where
  "mp_key p = (mp_from p, mp_to p)"

section \<open>Policies\<close>

definition getMessagePolicy :: "string \<Rightarrow> string \<Rightarrow> link_db \<Rightarrow> agent_message_policy option" where
  "getMessagePolicy from to db = sql_select mp_key (from, to) (ld_policies db)"

definition setMessagePolicy :: "string \<Rightarrow> string \<Rightarrow> string \<Rightarrow> string \<Rightarrow> link_db \<Rightarrow> unit result \<times> link_db" where
  "setMessagePolicy from to approver createdAt db =
     (if \<not> (from \<in> set (ld_agent_groups db) \<and> to \<in> set (ld_agent_groups db)) then (fk_failed, db)
      else (Inr (), db\<lparr>ld_policies := sql_upsert mp_key
              \<lparr>mp_from = from, mp_to = to, mp_approver = approver, mp_created_at = createdAt\<rparr>
              (\<lambda>old. old\<lparr>mp_approver := approver\<rparr>) (ld_policies db)\<rparr>))"

definition removeMessagePolicy :: "string \<Rightarrow> string \<Rightarrow> link_db \<Rightarrow> bool \<times> link_db" where
  "removeMessagePolicy from to db =
     (getMessagePolicy from to db \<noteq> None, db\<lparr>ld_policies := sql_delete mp_key (from, to) (ld_policies db)\<rparr>)"

definition deletePoliciesTouching :: "string \<Rightarrow> link_db \<Rightarrow> link_db" where
  "deletePoliciesTouching g db = db\<lparr>ld_policies := filter (\<lambda>p. \<not> (mp_from p = g \<or> mp_to p = g)) (ld_policies db)\<rparr>"

section \<open>Destinations\<close>

definition createDestination :: "agent_destination \<Rightarrow> link_db \<Rightarrow> unit result \<times> link_db" where
  "createDestination row db =
     (if sql_select ad_key (ad_key row) (ld_destinations db) \<noteq> None then (unique_failed, db)
      else if ad_agent_group_id row \<notin> set (ld_agent_groups db) then (fk_failed, db)
      else (Inr (), db\<lparr>ld_destinations := ld_destinations db @ [row]\<rparr>))"

definition getDestinations :: "string \<Rightarrow> link_db \<Rightarrow> agent_destination list" where
  "getDestinations agentGroupId db = filter (\<lambda>d. ad_agent_group_id d = agentGroupId) (ld_destinations db)"

definition getDestinationByName :: "string \<Rightarrow> string \<Rightarrow> link_db \<Rightarrow> agent_destination option" where
  "getDestinationByName agentGroupId localName db = sql_select ad_key (agentGroupId, localName) (ld_destinations db)"

definition getDestinationByTarget :: "string \<Rightarrow> target_type \<Rightarrow> string \<Rightarrow> link_db \<Rightarrow> agent_destination option" where
  "getDestinationByTarget agentGroupId targetType targetId db =
     find (\<lambda>d. ad_agent_group_id d = agentGroupId \<and> ad_target_type d = targetType \<and> ad_target_id d = targetId) (ld_destinations db)"

definition hasDestination :: "string \<Rightarrow> target_type \<Rightarrow> string \<Rightarrow> link_db \<Rightarrow> bool" where
  "hasDestination agentGroupId targetType targetId db =
     list_ex (\<lambda>d. ad_agent_group_id d = agentGroupId \<and> ad_target_type d = targetType \<and> ad_target_id d = targetId) (ld_destinations db)"

definition deleteDestination :: "string \<Rightarrow> string \<Rightarrow> link_db \<Rightarrow> link_db" where
  "deleteDestination agentGroupId localName db =
     (let row = getDestinationByName agentGroupId localName db;
          db' = db\<lparr>ld_destinations := sql_delete ad_key (agentGroupId, localName) (ld_destinations db)\<rparr>
      in case row of
           Some d \<Rightarrow> if ad_target_type d = AgentTarget then snd (removeMessagePolicy agentGroupId (ad_target_id d) db') else db'
         | None \<Rightarrow> db')"

definition deleteAllDestinationsTouching :: "string \<Rightarrow> link_db \<Rightarrow> link_db" where
  "deleteAllDestinationsTouching g db =
     deletePoliciesTouching g (db\<lparr>ld_destinations :=
       filter (\<lambda>d. \<not> (ad_agent_group_id d = g \<or> (ad_target_type d = AgentTarget \<and> ad_target_id d = g))) (ld_destinations db)\<rparr>)"

definition getDestinationReferencers :: "string \<Rightarrow> link_db \<Rightarrow> string list" where
  "getDestinationReferencers g db =
     rev (remdups (rev (map ad_agent_group_id (filter (\<lambda>d. ad_target_type d = AgentTarget \<and> ad_target_id d = g
        \<and> ad_agent_group_id d \<noteq> g) (ld_destinations db)))))"

section \<open>Names\<close>

definition name_char :: "char \<Rightarrow> bool" where
  "name_char c = (is_lower c \<or> is_digit c)"

text \<open>\<open>.replace(/[^a-z0-9]+/g, '-')\<close>: each longest run becomes one dash.\<close>

function dash_runs :: "string \<Rightarrow> string" where
  "dash_runs [] = []"
| "dash_runs (c # s) = (if name_char c then c # dash_runs s else CHR ''-'' # dash_runs (dropWhile (\<lambda>x. \<not> name_char x) s))"
  by pat_completeness auto
termination
  by (relation "measure length") (auto intro: le_less_trans [OF length_dropWhile_le])

text \<open>\<open>.replace(/^-+|-+$/g, '')\<close>\<close>

definition strip_dashes :: "string \<Rightarrow> string" where
  "strip_dashes s = rev (dropWhile ((=) CHR ''-'') (rev (dropWhile ((=) CHR ''-'') s)))"

definition normalizeName :: "string \<Rightarrow> string" where
  "normalizeName name = (let n = strip_dashes (dash_runs (map ascii_lower name)) in if n = [] then ''unnamed'' else n)"

definition normal_name :: "string \<Rightarrow> bool" where
  "normal_name n = (n \<noteq> [] \<and> (\<forall>c\<in>set n. name_char c \<or> c = CHR ''-'') \<and> hd n \<noteq> CHR ''-'' \<and> last n \<noteq> CHR ''-''
     \<and> successively (\<lambda>a b. \<not> (a = CHR ''-'' \<and> b = CHR ''-'')) n)"

definition no_double :: "string \<Rightarrow> bool" where
  "no_double = successively (\<lambda>a b. \<not> (a = CHR ''-'' \<and> b = CHR ''-''))"

lemma dash_not_name [simp]: "\<not> name_char CHR ''-''"
  by (simp add: name_char_def char_class_defs)

lemma hd_dropWhile_name: "dropWhile (\<lambda>x. \<not> name_char x) s = c # r \<Longrightarrow> name_char c"
  by (induction s) (auto split: if_splits)

lemma dash_runs_hd: "name_char c \<Longrightarrow> dash_runs (c # s) = c # dash_runs s"
  by simp

lemma dash_runs_shape: "(\<forall>c\<in>set (dash_runs s). name_char c \<or> c = CHR ''-'') \<and> no_double (dash_runs s)"
proof (induction s rule: dash_runs.induct)
  case (2 c s)
  show ?case
  proof (cases "name_char c")
    case True
    then have "c \<noteq> CHR ''-''" by auto
    with True 2 show ?thesis by (auto simp: no_double_def successively_Cons)
  next
    case False
    let ?r = "dropWhile (\<lambda>x. \<not> name_char x) s"
    have "hd (dash_runs ?r) \<noteq> CHR ''-''" if "dash_runs ?r \<noteq> []"
      using that by (cases ?r) (auto dest: hd_dropWhile_name)
    with False 2 show ?thesis by (auto simp: no_double_def successively_Cons)
  qed
qed (simp add: no_double_def)

lemma no_double_append: "no_double (xs @ ys) \<Longrightarrow> no_double xs \<and> no_double ys"
  by (simp add: no_double_def successively_append_iff)

lemma normal_name_strip:
  assumes "\<forall>c\<in>set s. name_char c \<or> c = CHR ''-''" "no_double s" "strip_dashes s \<noteq> []"
  shows "normal_name (strip_dashes s)"
proof -
  let ?d = "dropWhile ((=) CHR ''-'')"
  obtain p where p: "s = p @ ?d s" by (metis takeWhile_dropWhile_id)
  obtain q where q: "?d s = rev (?d (rev (?d s))) @ q"
    by (metis rev_append rev_rev_ident takeWhile_dropWhile_id)
  have sub: "set (strip_dashes s) \<subseteq> set s"
    by (auto simp: strip_dashes_def dest!: set_dropWhileD)
  have "no_double (?d s)" using assms(2) no_double_append [of p "?d s"] p by simp
  then have nd: "no_double (strip_dashes s)"
    using no_double_append [of "rev (?d (rev (?d s)))" q] by (simp only: q [symmetric] strip_dashes_def)
  have ne: "?d (rev (?d s)) \<noteq> []" using assms(3) by (simp only: strip_dashes_def rev_is_Nil_conv not_False_eq_True)
  then have "?d s \<noteq> []" by (metis dropWhile.simps(1) rev.simps(1))
  then have "hd (?d s) \<noteq> CHR ''-''" using hd_dropWhile by metis
  moreover have "hd (rev (?d (rev (?d s))) @ q) = hd (strip_dashes s)"
    using ne by (simp only: strip_dashes_def hd_append2 rev_is_Nil_conv not_False_eq_True)
  then have "hd (?d s) = hd (strip_dashes s)" by (simp only: q [symmetric])
  moreover have "last (strip_dashes s) \<noteq> CHR ''-''"
    using hd_dropWhile [OF ne] ne by (simp only: strip_dashes_def last_rev not_False_eq_True)
  ultimately show ?thesis
    using assms sub nd by (auto simp: normal_name_def no_double_def)
qed

lemma normalizeName_normal: "normal_name (normalizeName n)"
proof -
  have "normal_name ''unnamed''" by (simp add: normal_name_def name_char_def char_class_defs)
  then show ?thesis
    using normal_name_strip dash_runs_shape [of "map ascii_lower n"] by (auto simp: normalizeName_def Let_def)
qed

section \<open>The destination of a wiring\<close>

text \<open>The loop of \<open>ensureAgentDestinationForWiring\<close> from the candidate \<open>localName\<close> and the next
  suffix: a unique violation tries the next name, any other error is thrown.\<close>

definition suffixed :: "string \<Rightarrow> nat \<Rightarrow> string" where
  "suffixed base n = base @ CHR ''-'' # show_nat n"

definition wiring_destination :: "string \<Rightarrow> string \<Rightarrow> string \<Rightarrow> string \<Rightarrow> agent_destination" where
  "wiring_destination g localName mg now =
     \<lparr>ad_agent_group_id = g, ad_local_name = localName, ad_target_type = ChannelTarget, ad_target_id = mg, ad_created_at = now\<rparr>"

definition name_taken :: "link_db \<Rightarrow> string \<Rightarrow> string \<Rightarrow> bool" where
  "name_taken db g n = (getDestinationByName g n db \<noteq> None)"

lemma suffixed_inject: "suffixed base m = suffixed base n \<longleftrightarrow> m = n"
  by (simp add: suffixed_def show_nat_inject)

lemma taken_suffixes_finite: "finite {n. name_taken db g (suffixed base n)}"
proof -
  have "(\<lambda>n. suffixed base n) ` {n. name_taken db g (suffixed base n)} \<subseteq> ad_local_name ` set (ld_destinations db)"
    by (auto simp: name_taken_def getDestinationByName_def sql_select_none ad_key_def intro: rev_image_eqI)
  then show ?thesis
    by (meson finite_imageD finite_imageI finite_set finite_subset inj_onI suffixed_inject)
qed

lemma createDestination_unique:
  assumes "createDestination (wiring_destination g n mg now) db = (Inl e, db')" "isUniqueViolation e"
  shows "name_taken db g n"
  using assms by (auto simp: createDestination_def name_taken_def getDestinationByName_def ad_key_def
      wiring_destination_def fk_failed_def unique_failed_def split: if_splits)

lemma taken_suffixes_step:
  "card {n. k \<le> n \<and> name_taken db g (suffixed base n)} =
   (if name_taken db g (suffixed base k) then 1 else 0) + card {n. Suc k \<le> n \<and> name_taken db g (suffixed base n)}"
proof -
  let ?S = "{n. Suc k \<le> n \<and> name_taken db g (suffixed base n)}"
  have "finite ?S" by (rule finite_subset [OF _ taken_suffixes_finite [of db g base]]) auto
  moreover have "{n. k \<le> n \<and> name_taken db g (suffixed base n)} =
      (if name_taken db g (suffixed base k) then insert k ?S else ?S)"
    by (auto simp: Suc_le_eq order.order_iff_strict)
  ultimately show ?thesis by simp
qed

function name_loop :: "link_db \<Rightarrow> string \<Rightarrow> string \<Rightarrow> string \<Rightarrow> string \<Rightarrow> string \<Rightarrow> nat \<Rightarrow> unit result \<times> link_db" where
  "name_loop db g mg now base localName k =
     (if getDestinationByTarget g ChannelTarget mg db \<noteq> None then (Inr (), db)
      else case createDestination (wiring_destination g localName mg now) db of
             (Inr u, db') \<Rightarrow> (Inr u, db')
           | (Inl e, db') \<Rightarrow> if \<not> isUniqueViolation e then (Inl e, db')
                            else name_loop db g mg now base (suffixed base k) (Suc k))"
  by pat_completeness auto
termination
proof (relation "measure (\<lambda>(db, g, mg, now, base, localName, k).
    (if name_taken db g localName then 1 else 0) + card {n. k \<le> n \<and> name_taken db g (suffixed base n)})", goal_cases)
  case (2 db g mg now base localName k p e y)
  then have "createDestination (wiring_destination g localName mg now) db = (Inl y, e)" "isUniqueViolation y"
    by simp_all
  then have "name_taken db g localName" by (rule createDestination_unique)
  then show ?case using taken_suffixes_step [of k db g base] by simp
qed simp

text \<open>\<open>mg.name || `${channel_type}-${id.slice(0, 8)}`\<close> is the name the caller passes.\<close>

definition ensureAgentDestinationForWiring :: "string \<Rightarrow> string \<Rightarrow> string \<Rightarrow> string \<Rightarrow> link_db \<Rightarrow> unit result \<times> link_db" where
  "ensureAgentDestinationForWiring g mg now name db = name_loop db g mg now (normalizeName name) (normalizeName name) 2"

section \<open>The name loop ends with a destination\<close>

declare name_loop.simps [simp del]

lemma name_loop_creates:
  assumes "g \<in> set (ld_agent_groups db)"
  shows "fst (name_loop db g mg now base n k) = Inr ()
    \<and> (let db' = snd (name_loop db g mg now base n k) in
        hasDestination g ChannelTarget mg db' \<and>
        (db' = db \<or> (\<exists>m. \<not> name_taken db g m \<and> (m = n \<or> (\<exists>i\<ge>k. m = suffixed base i))
           \<and> db' = db\<lparr>ld_destinations := ld_destinations db @ [wiring_destination g m mg now]\<rparr>)))"
  using assms
proof (induction db g mg now base n k rule: name_loop.induct)
  case (1 db g mg now base n k)
  show ?case
  proof (cases "getDestinationByTarget g ChannelTarget mg db = None")
    case False
    then show ?thesis
      by (auto simp: name_loop.simps [of db] getDestinationByTarget_def hasDestination_def find_None_iff list_ex_iff)
  next
    case absent: True
    show ?thesis
    proof (cases "name_taken db g n")
      case True
      then have c: "createDestination (wiring_destination g n mg now) db = (unique_failed, db)"
        by (simp add: createDestination_def name_taken_def getDestinationByName_def ad_key_def wiring_destination_def)
      then have step: "name_loop db g mg now base n k = name_loop db g mg now base (suffixed base k) (Suc k)"
        using absent by (simp add: name_loop.simps [of db g mg now base n k] unique_failed_def)
      have "fst (name_loop db g mg now base (suffixed base k) (Suc k)) = Inr ()
        \<and> (let db' = snd (name_loop db g mg now base (suffixed base k) (Suc k)) in
            hasDestination g ChannelTarget mg db' \<and>
            (db' = db \<or> (\<exists>m. \<not> name_taken db g m \<and> (m = suffixed base k \<or> (\<exists>i\<ge>Suc k. m = suffixed base i))
               \<and> db' = db\<lparr>ld_destinations := ld_destinations db @ [wiring_destination g m mg now]\<rparr>)))"
        using 1 absent c by (intro "1.IH") (auto simp: unique_failed_def)
      then show ?thesis
        unfolding step Let_def by (metis Suc_leD order_refl)
    next
      case False
      then have "name_loop db g mg now base n k =
          (Inr (), db\<lparr>ld_destinations := ld_destinations db @ [wiring_destination g n mg now]\<rparr>)"
        using absent 1 by (simp add: name_loop.simps [of db] createDestination_def name_taken_def
            getDestinationByName_def ad_key_def wiring_destination_def)
      moreover have "hasDestination g ChannelTarget mg
          (db\<lparr>ld_destinations := ld_destinations db @ [wiring_destination g n mg now]\<rparr>)"
        by (simp add: hasDestination_def wiring_destination_def)
      ultimately show ?thesis
        using False unfolding Let_def by (intro conjI) (simp, simp, metis snd_conv)
    qed
  qed
qed

text \<open>Wiring a messaging group to an existing agent group always ends, throws nothing and leaves
  a destination for the group: the one that was there, or one new row under a free name, the
  normalized name or that name with a numeric suffix; no other row changes.\<close>

theorem wiring_has_destination:
  assumes "g \<in> set (ld_agent_groups db)"
  shows "\<exists>db'. ensureAgentDestinationForWiring g mg now name db = (Inr (), db') \<and> hasDestination g ChannelTarget mg db'
    \<and> (db' = db \<or> (\<exists>m. \<not> name_taken db g m \<and> normal_name (normalizeName name)
          \<and> (m = normalizeName name \<or> (\<exists>i\<ge>2. m = suffixed (normalizeName name) i))
          \<and> db' = db\<lparr>ld_destinations := ld_destinations db @ [wiring_destination g m mg now]\<rparr>))"
proof -
  let ?r = "ensureAgentDestinationForWiring g mg now name db"
  have "?r = (Inr (), snd ?r)"
    using name_loop_creates [OF assms, of mg now "normalizeName name" "normalizeName name" 2]
    by (simp add: ensureAgentDestinationForWiring_def prod_eq_iff)
  then show ?thesis
    using name_loop_creates [OF assms, of mg now "normalizeName name" "normalizeName name" 2] normalizeName_normal
    unfolding ensureAgentDestinationForWiring_def Let_def by metis
qed

definition wired_twice :: link_db where
  "wired_twice = \<lparr>ld_destinations = [wiring_destination ''ag'' ''ops'' ''mg1'' ''t''], ld_policies = [], ld_agent_groups = [''ag'']\<rparr>"

theorem wiring_has_destination_witness:
  "\<exists>db'. ensureAgentDestinationForWiring ''ag'' ''mg2'' ''t2'' ''Ops!'' wired_twice = (Inr (), db')
     \<and> hasDestination ''ag'' ChannelTarget ''mg2'' db'"
proof -
  have "''ag'' \<in> set (ld_agent_groups wired_twice)" by (simp add: wired_twice_def)
  from wiring_has_destination [OF this, of "''mg2''" "''t2''" "''Ops!''"] show ?thesis by blast
qed

section \<open>Two names for one agent\<close>

text \<open>Deleting one of two names an agent has for the same other agent drops the approval policy
  of the edge although the edge stays open under the other name: messages then pass unapproved.\<close>

theorem delete_alias_drops_policy:
  assumes "getDestinationByName g n db = Some d" "ad_target_type d = AgentTarget"
    and "getDestinationByName g n' db = Some d'" "n' \<noteq> n" "ad_target_type d' = AgentTarget" "ad_target_id d' = ad_target_id d"
  shows "hasDestination g AgentTarget (ad_target_id d) (deleteDestination g n db)
    \<and> getMessagePolicy g (ad_target_id d) (deleteDestination g n db) = None"
proof -
  have "d' \<in> set (ld_destinations db)" "ad_key d' = (g, n')"
    using assms(3) sql_select_in sql_select_key unfolding getDestinationByName_def by metis+
  then have "d' \<in> set (sql_delete ad_key (g, n) (ld_destinations db))" "ad_agent_group_id d' = g"
    using assms(4) by (auto simp: sql_delete_def ad_key_def)
  then show ?thesis
    using assms by (auto simp: deleteDestination_def removeMessagePolicy_def hasDestination_def list_ex_iff
        getMessagePolicy_def sql_select_delete)
qed

definition aliased :: link_db where
  "aliased = \<lparr>ld_destinations = [\<lparr>ad_agent_group_id = ''a'', ad_local_name = ''bob'', ad_target_type = AgentTarget, ad_target_id = ''b'', ad_created_at = ''t''\<rparr>,
       \<lparr>ad_agent_group_id = ''a'', ad_local_name = ''robert'', ad_target_type = AgentTarget, ad_target_id = ''b'', ad_created_at = ''t''\<rparr>],
     ld_policies = [\<lparr>mp_from = ''a'', mp_to = ''b'', mp_approver = ''tg:1'', mp_created_at = ''t''\<rparr>], ld_agent_groups = [''a'', ''b'']\<rparr>"

theorem delete_alias_drops_policy_witness:
  "getMessagePolicy ''a'' ''b'' aliased \<noteq> None
   \<and> hasDestination ''a'' AgentTarget ''b'' (deleteDestination ''a'' ''bob'' aliased)
   \<and> getMessagePolicy ''a'' ''b'' (deleteDestination ''a'' ''bob'' aliased) = None"
proof -
  have "getMessagePolicy ''a'' ''b'' aliased \<noteq> None" by code_simp
  moreover have "getDestinationByName ''a'' ''bob'' aliased = Some (ld_destinations aliased ! 0)"
    and "getDestinationByName ''a'' ''robert'' aliased = Some (ld_destinations aliased ! 1)"
    by code_simp+
  ultimately show ?thesis
    using delete_alias_drops_policy [of "''a''" "''bob''" aliased "ld_destinations aliased ! 0" "''robert''" "ld_destinations aliased ! 1"]
    by (simp add: aliased_def)
qed

end
