(* ===== verification/Guard.thy ===== *)
theory Guard
  imports AgentLinks
begin

text \<open>
  The decision every privileged action consults (\<open>nanoclaw/src/guard\<close>) and the entries of the
  action catalog (\<open>modules/agent-to-agent/guard.ts\<close>, \<open>modules/self-mod/guard.ts\<close>,
  \<open>modules/permissions/guard.ts\<close>).  A decision reads the databases at the time of the consult;
  whether a grant is live is read afterwards, so \<open>guard\<close> takes the central database of that moment
  as an argument of its own.
\<close>

section \<open>Vocabulary\<close>

datatype guard_actor = HostActor | AgentActor string "string option" | HumanActor string | SystemActor

datatype guard_decision = ALLOW string | HOLD string "string option" | DENY string

record guard_input =
  gi_actor :: guard_actor
  gi_resource :: "(string \<times> string) list option"
  gi_payload :: "(string \<times> jsval) list"
  gi_grant :: "pending_approval option"

text \<open>A decide function may throw; the optional binding of a grant to the replayed input.\<close>

record 'w guarded_action =
  ga_action :: string
  ga_decide :: "'w \<Rightarrow> guard_input \<Rightarrow> guard_decision result"
  ga_grantActionName :: "string option"
  ga_grantCoversRequest :: "(pending_approval \<Rightarrow> guard_input \<Rightarrow> bool) option"

section \<open>The catalog\<close>

text \<open>A value a consult passes: one that \<open>defineGuardedAction\<close> returned, by its position in the
  catalog, or a look-alike object.\<close>

datatype 'w action_value = Minted nat | Forged "'w guarded_action"

type_synonym 'w catalog = "'w guarded_action list"

definition defineGuardedAction :: "'w guarded_action \<Rightarrow> 'w catalog \<Rightarrow> 'w action_value result \<times> 'w catalog" where
  "defineGuardedAction spec defined =
     (if list_ex (\<lambda>a. ga_action a = ga_action spec) defined
      then (Inl (''guarded action \"'' @ ga_action spec @ ''\" is already defined''), defined)
      else (Inr (Minted (length defined)), defined @ [spec]))"

fun isGuardedAction :: "'w catalog \<Rightarrow> 'w action_value \<Rightarrow> bool" where
  "isGuardedAction defined (Minted i) = (i < length defined)"
| "isGuardedAction defined (Forged _) = False"

fun action_of :: "'w catalog \<Rightarrow> 'w action_value \<Rightarrow> 'w guarded_action" where
  "action_of defined (Minted i) = defined ! i"
| "action_of defined (Forged a) = a"

section \<open>The decision\<close>

definition grantSatisfies :: "'w guarded_action \<Rightarrow> guard_input \<Rightarrow> central_db \<Rightarrow> bool" where
  "grantSatisfies action input db =
     (case gi_grant input of
        None \<Rightarrow> False
      | Some grant \<Rightarrow>
          truthy (ga_grantActionName action) \<and> Some (pa_action grant) = ga_grantActionName action
          \<and> (case getPendingApproval (pa_approval_id grant) db of
               None \<Rightarrow> False | Some row \<Rightarrow> Some (pa_action row) = ga_grantActionName action)
          \<and> (case ga_grantCoversRequest action of None \<Rightarrow> True | Some covers \<Rightarrow> covers grant input))"

fun is_hold :: "guard_decision \<Rightarrow> bool" where
  "is_hold (HOLD _ _) = True"
| "is_hold _ = False"

fun is_allow :: "guard_decision \<Rightarrow> bool" where
  "is_allow (ALLOW _) = True"
| "is_allow _ = False"

definition guard :: "'w catalog \<Rightarrow> 'w action_value \<Rightarrow> 'w \<Rightarrow> guard_input \<Rightarrow> central_db \<Rightarrow> guard_decision" where
  "guard defined v w input db =
     (if \<not> isGuardedAction defined v then DENY ''guard consulted with an undefined action (failing closed)''
      else let action = action_of defined v in
        case ga_decide action w input of
          Inl e \<Rightarrow> DENY ''guard failure (failing closed)''
        | Inr decision \<Rightarrow>
            (case gi_grant input of
               None \<Rightarrow> decision
             | Some grant \<Rightarrow>
                 if \<not> is_hold decision then decision
                 else if grantSatisfies action input db
                 then ALLOW (''hold satisfied by approval '' @ pa_approval_id grant)
                 else DENY ''replay carried an invalid or mismatched grant''))"

section \<open>The entries of the catalog\<close>

text \<open>The texts of reasons are shortened where they interpolate message ids or use characters
  outside Latin-1.\<close>

text \<open>What the decide functions read.\<close>

record guard_world =
  gw_links :: link_db
  gw_perms :: perm_db
  gw_central :: central_db
  gw_agent_groups :: "string list"
  gw_cli_scope :: "string \<Rightarrow> string option"
  gw_imageBuild :: bool

definition is_agent :: "guard_actor \<Rightarrow> bool" where
  "is_agent a = (case a of AgentActor _ _ \<Rightarrow> True | _ \<Rightarrow> False)"

fun actor_group :: "guard_actor \<Rightarrow> string" where
  "actor_group (AgentActor g _) = g"
| "actor_group _ = []"

text \<open>\<open>===\<close> on values of which one was just parsed: objects and arrays are never identical.\<close>

fun strict_equals :: "jsval \<Rightarrow> jsval \<Rightarrow> bool" where
  "strict_equals (Str s) (Str t) = (s = t)"
| "strict_equals (Num m) (Num n) = (m = n \<and> m \<noteq> NaN)"
| "strict_equals (Bool a) (Bool b) = (a = b)"
| "strict_equals Null Null = True"
| "strict_equals Undefined Undefined = True"
| "strict_equals _ _ = False"

text \<open>\<open>JSON.parse(grant.payload)[k]\<close>: \<open>None\<close> when the text is not JSON or parses to null.\<close>

definition payload_prop :: "pending_approval \<Rightarrow> string \<Rightarrow> jsval option" where
  "payload_prop grant k =
     (case json_parse (pa_payload grant) of None \<Rightarrow> None
      | Some v \<Rightarrow> if v = Null then None else Some (get_prop v k))"

definition agents_create_covers :: "pending_approval \<Rightarrow> guard_input \<Rightarrow> bool" where
  "agents_create_covers grant input = (case payload_prop grant ''name'' of None \<Rightarrow> False
     | Some v \<Rightarrow> strict_equals v (prop_of (gi_payload input) ''name''))"

definition agentsCreate :: "guard_world guarded_action" where
  "agentsCreate = \<lparr>ga_action = ''agents.create'',
     ga_decide = (\<lambda>w input. Inr (
       if \<not> is_agent (gi_actor input) then DENY ''create_agent is a container-originated action.''
       else if or_else (gw_cli_scope w (actor_group (gi_actor input))) ''group'' = ''global''
       then ALLOW ''trusted global-scope agent group''
       else HOLD ''agent-initiated create_agent requires admin approval'' None)),
     ga_grantActionName = Some ''create_agent'', ga_grantCoversRequest = Some agents_create_covers\<rparr>"

definition A2A_MESSAGE_GATE_ACTION :: string where "A2A_MESSAGE_GATE_ACTION = ''a2a_message_gate''"

definition resource_to :: "guard_input \<Rightarrow> string option" where
  "resource_to input = (case gi_resource input of None \<Rightarrow> None | Some r \<Rightarrow> map_of r ''to'')"

definition a2a_covers :: "pending_approval \<Rightarrow> guard_input \<Rightarrow> bool" where
  "a2a_covers grant input =
     (case payload_prop grant ''platform_id'' of None \<Rightarrow> False
      | Some v \<Rightarrow> strict_equals v (case resource_to input of None \<Rightarrow> Undefined | Some t \<Rightarrow> Str t))"

definition a2a_decide :: "guard_world \<Rightarrow> guard_input \<Rightarrow> guard_decision" where
  "a2a_decide w input =
     (if \<not> is_agent (gi_actor input) then DENY ''agent-to-agent send requires an agent actor''
      else let from = actor_group (gi_actor input); to = or_else (resource_to input) []; isSelf = (to = from) in
        if \<not> isSelf \<and> \<not> hasDestination from AgentTarget to (gw_links w)
        then DENY (''unauthorized agent-to-agent: '' @ from @ '' has no destination for '' @ to)
        else if to \<notin> set (gw_agent_groups w) then DENY (''target agent group '' @ to @ '' not found'')
        else if isSelf then ALLOW ''self-send''
        else case getMessagePolicy from to (gw_links w) of
               Some policy \<Rightarrow> HOLD (''a2a message policy holds for '' @ mp_approver policy) (Some (mp_approver policy))
             | None \<Rightarrow> ALLOW ''destination grant exists'')"

definition a2aSend :: "guard_world guarded_action" where
  "a2aSend = \<lparr>ga_action = ''a2a.send'', ga_decide = (\<lambda>w input. Inr (a2a_decide w input)),
     ga_grantActionName = Some A2A_MESSAGE_GATE_ACTION, ga_grantCoversRequest = Some a2a_covers\<rparr>"

definition selfModDecide :: "string \<Rightarrow> guard_input \<Rightarrow> guard_decision" where
  "selfModDecide label input =
     (if \<not> is_agent (gi_actor input) then DENY (label @ '' is a container-originated action.'')
      else HOLD (label @ '' always requires admin approval from the container path'') None)"

definition selfModInstallPackages :: "guard_world guarded_action" where
  "selfModInstallPackages = \<lparr>ga_action = ''self_mod.install_packages'',
     ga_decide = (\<lambda>w input. Inr (
       if \<not> gw_imageBuild w then DENY ''install_packages needs an image rebuild''
       else selfModDecide ''install_packages'' input)),
     ga_grantActionName = Some ''install_packages'', ga_grantCoversRequest = None\<rparr>"

definition selfModAddMcpServer :: "guard_world guarded_action" where
  "selfModAddMcpServer = \<lparr>ga_action = ''self_mod.add_mcp_server'',
     ga_decide = (\<lambda>w input. Inr (selfModDecide ''add_mcp_server'' input)),
     ga_grantActionName = Some ''add_mcp_server'', ga_grantCoversRequest = None\<rparr>"

definition sendersAdmit :: "guard_world guarded_action" where
  "sendersAdmit = \<lparr>ga_action = ''senders.admit'',
     ga_decide = (\<lambda>w input. Inr (
       let policy = prop_of (gi_payload input) ''policy'' in
       if policy = Str ''public'' then ALLOW ''public messaging group''
       else if policy = Str ''request_approval'' then HOLD ''unknown sender requires admin approval'' None
       else if policy = Str ''decline_notify'' then DENY ''unknown sender declined (decline-and-notify policy)''
       else DENY ''unknown sender on a strict messaging group'')),
     ga_grantActionName = None, ga_grantCoversRequest = None\<rparr>"

definition channelsRegister :: "guard_world guarded_action" where
  "channelsRegister = \<lparr>ga_action = ''channels.register'',
     ga_decide = (\<lambda>w input. Inr (
       case gi_actor input of
         HumanActor userId \<Rightarrow>
           (let questionId = (case prop_of (gi_payload input) ''questionId'' of Str s \<Rightarrow> s | _ \<Rightarrow> []) in
            case getPendingChannelApproval questionId (gw_central w) of
              None \<Rightarrow> DENY (''no pending channel registration for '' @ (if questionId = [] then ''(missing questionId)'' else questionId))
            | Some row \<Rightarrow>
                if userId \<noteq> [] \<and> (userId = ca_approver_user_id row \<or> hasAdminPrivilege userId (ca_agent_group_id row) (gw_perms w))
                then ALLOW ''delivered approver or anchor-group admin''
                else DENY ''not an eligible channel-registration approver'')
       | _ \<Rightarrow> DENY ''channel registration resolves via human clicks/replies'')),
     ga_grantActionName = None, ga_grantCoversRequest = None\<rparr>"

text \<open>The catalog once the module barrels have loaded (the order is that of the imports).\<close>

definition catalog :: "guard_world catalog" where
  "catalog = [agentsCreate, a2aSend, selfModInstallPackages, selfModAddMcpServer, sendersAdmit, channelsRegister]"

section \<open>What a decision means\<close>

text \<open>An allow has one of two reasons: the live checks allow, or they hold and a live, matching
  approval was carried.  A deny is never loosened.\<close>

lemma guard_allow_iff:
  "is_allow (guard defined v w input db) \<longleftrightarrow>
     isGuardedAction defined v
     \<and> (\<exists>d. ga_decide (action_of defined v) w input = Inr d
          \<and> (is_allow d \<or> is_hold d \<and> grantSatisfies (action_of defined v) input db))"
  by (cases "gi_grant input")
    (auto simp: guard_def Let_def grantSatisfies_def split: sum.splits guard_decision.splits elim: is_hold.elims is_allow.elims)

lemma guard_hold_ungranted: "is_hold (guard defined v w input db) \<Longrightarrow> gi_grant input = None"
  by (cases "gi_grant input") (auto simp: guard_def Let_def split: sum.splits if_splits)

lemma catalog_distinct: "distinct (map ga_action catalog)"
  by (simp add: catalog_def agentsCreate_def a2aSend_def selfModInstallPackages_def selfModAddMcpServer_def
      sendersAdmit_def channelsRegister_def)

lemma defineGuardedAction_distinct:
  "distinct (map ga_action defined) \<Longrightarrow> distinct (map ga_action (snd (defineGuardedAction spec defined)))"
  by (auto simp: defineGuardedAction_def list_ex_iff)

section \<open>Who may send\<close>

definition a2a_authorized :: "guard_world \<Rightarrow> guard_input \<Rightarrow> central_db \<Rightarrow> bool" where
  "a2a_authorized w input db \<longleftrightarrow>
     (let source = actor_group (gi_actor input); target = or_else (resource_to input) [] in
      is_agent (gi_actor input) \<and> target \<in> set (gw_agent_groups w) \<and>
      (target = source \<or> hasDestination source AgentTarget target (gw_links w) \<and>
        (getMessagePolicy source target (gw_links w) = None \<or>
         (\<exists>grant. gi_grant input = Some grant \<and> pa_action grant = A2A_MESSAGE_GATE_ACTION \<and> a2a_covers grant input \<and>
           (\<exists>row. getPendingApproval (pa_approval_id grant) db = Some row \<and> pa_action row = A2A_MESSAGE_GATE_ACTION)))))"

lemma a2a_allow: "is_allow (guard catalog (Minted 1) w input db) \<longleftrightarrow> a2a_authorized w input db"
proof -
  let ?source = "actor_group (gi_actor input)" and ?target = "or_else (resource_to input) []"
  have a: "action_of catalog (Minted 1) = a2aSend" "isGuardedAction catalog (Minted 1)" by (simp_all add: catalog_def)
  have g: "grantSatisfies a2aSend input db \<longleftrightarrow>
      (\<exists>grant. gi_grant input = Some grant \<and> pa_action grant = A2A_MESSAGE_GATE_ACTION \<and> a2a_covers grant input \<and>
         (\<exists>row. getPendingApproval (pa_approval_id grant) db = Some row \<and> pa_action row = A2A_MESSAGE_GATE_ACTION))"
    by (auto simp: grantSatisfies_def a2aSend_def A2A_MESSAGE_GATE_ACTION_def split: option.splits)
  have h: "is_hold (a2a_decide w input) \<longleftrightarrow> is_agent (gi_actor input) \<and> ?target \<in> set (gw_agent_groups w) \<and> ?target \<noteq> ?source \<and>
      hasDestination ?source AgentTarget ?target (gw_links w) \<and> getMessagePolicy ?source ?target (gw_links w) \<noteq> None"
    by (auto simp: a2a_decide_def Let_def split: option.splits)
  have l: "is_allow (a2a_decide w input) \<longleftrightarrow> is_agent (gi_actor input) \<and> ?target \<in> set (gw_agent_groups w) \<and>
      (?target = ?source \<or> hasDestination ?source AgentTarget ?target (gw_links w) \<and> getMessagePolicy ?source ?target (gw_links w) = None)"
    by (auto simp: a2a_decide_def Let_def split: option.splits)
  have d: "ga_decide a2aSend w input = Inr (a2a_decide w input)" by (simp add: a2aSend_def)
  have "is_allow (guard catalog (Minted 1) w input db) \<longleftrightarrow>
      is_allow (a2a_decide w input) \<or> is_hold (a2a_decide w input) \<and> grantSatisfies a2aSend input db"
    using a(2) unfolding guard_allow_iff a(1) d by auto
  then show ?thesis unfolding a2a_authorized_def Let_def g h l by blast
qed

lemma a2a_not_allowed:
  "guard catalog (Minted 1) w input db = HOLD reason who \<Longrightarrow>
   gi_grant input = None \<and> (\<exists>p. getMessagePolicy (actor_group (gi_actor input)) (or_else (resource_to input) []) (gw_links w) = Some p
     \<and> who = Some (mp_approver p))"
proof -
  assume h: "guard catalog (Minted 1) w input db = HOLD reason who"
  then have n: "gi_grant input = None" using guard_hold_ungranted [of catalog "Minted 1" w input db] by simp
  then have "guard catalog (Minted 1) w input db = a2a_decide w input"
    by (simp add: guard_def catalog_def a2aSend_def)
  then show ?thesis using h n by (auto simp: a2a_decide_def Let_def split: if_splits option.splits)
qed

section \<open>Properties\<close>

text \<open>A message from one agent to another passes the guard exactly when the sender is an agent, the
  target exists and the sender sends to itself, or has a live destination row for the target and either
  no policy gates the pair or the replay carries a live approval of this gate for this very target.\<close>

theorem a2a_allowed_iff:
  "is_allow (guard catalog (Minted 1) w input db) \<longleftrightarrow>
     (let source = actor_group (gi_actor input); target = or_else (resource_to input) [] in
      is_agent (gi_actor input) \<and> target \<in> set (gw_agent_groups w) \<and>
      (target = source \<or> hasDestination source AgentTarget target (gw_links w) \<and>
        (getMessagePolicy source target (gw_links w) = None \<or>
         (\<exists>grant. gi_grant input = Some grant \<and> pa_action grant = A2A_MESSAGE_GATE_ACTION \<and> a2a_covers grant input \<and>
           (\<exists>row. getPendingApproval (pa_approval_id grant) db = Some row \<and> pa_action row = A2A_MESSAGE_GATE_ACTION)))))"
  using a2a_allow [of w input db] unfolding a2a_authorized_def .

end
