(* ===== verification/MessagingGroups.thy ===== *)
theory MessagingGroups
  imports AgentLinks SessionResolve
begin

text \<open>
  Chats and their wiring to agents (\<open>nanoclaw/src/db/messaging-groups.ts\<close>), the registry of
  channel adapters and their declared defaults (\<open>channels/channel-registry.ts\<close>,
  \<open>channels/channel-defaults.ts\<close>), and the direct-message chat of a user
  (\<open>modules/permissions/user-dm.ts\<close>).  The adapters themselves are outside the model: what they
  declare and what their \<open>openDM\<close> answers are fields of the registry.
\<close>

section \<open>Tables\<close>

datatype sender_policy = StrictPolicy | RequestApprovalPolicy | DeclineNotifyPolicy | PublicPolicy

record messaging_group =
  mg_id :: string
  mg_channel_type :: string
  mg_platform_id :: string
  mg_instance :: string
  mg_name :: "string option"
  mg_is_group :: int
  mg_policy :: sender_policy
  mg_created_at :: string
  mg_denied_at :: "string option"
  mg_detached_at :: "string option"

text \<open>The column of the engage mode has no check, so it may hold any text.\<close>

datatype engage_mode = EngagePattern | EngageMention | EngageSticky | EngageOther string
datatype sender_scope = ScopeAll | ScopeKnown
datatype ignored_policy = DropIgnored | AccumulateIgnored

record wiring =
  ma_id :: string
  ma_messaging_group_id :: string
  ma_agent_group_id :: string
  ma_engage_mode :: engage_mode
  ma_engage_pattern :: "string option"
  ma_sender_scope :: sender_scope
  ma_ignored :: ignored_policy
  ma_session_mode :: session_mode
  ma_priority :: int
  ma_threads :: "int option"
  ma_created_at :: string

record mg_db =
  md_groups :: "messaging_group list"
  md_wirings :: "wiring list"
  md_links :: link_db

section \<open>Messaging groups\<close>

definition mg_address :: "messaging_group \<Rightarrow> string \<times> string \<times> string" where
  "mg_address m = (mg_channel_type m, mg_platform_id m, mg_instance m)"

text \<open>An insert leaves the columns of later migrations NULL.\<close>

definition fresh_row :: "messaging_group \<Rightarrow> messaging_group" where
  "fresh_row m = m\<lparr>mg_denied_at := None, mg_detached_at := None\<rparr>"

definition createMessagingGroup :: "messaging_group \<Rightarrow> mg_db \<Rightarrow> unit result \<times> mg_db" where
  "createMessagingGroup m db =
     (if list_ex (\<lambda>x. mg_id x = mg_id m \<or> mg_address x = mg_address m) (md_groups db) then (unique_failed, db)
      else (Inr (), db\<lparr>md_groups := md_groups db @ [fresh_row m]\<rparr>))"

definition createMessagingGroupIfAbsent :: "messaging_group \<Rightarrow> mg_db \<Rightarrow> bool result \<times> mg_db" where
  "createMessagingGroupIfAbsent m db =
     (if list_ex (\<lambda>x. mg_address x = mg_address m) (md_groups db) then (Inr False, db)
      else if list_ex (\<lambda>x. mg_id x = mg_id m) (md_groups db) then (unique_failed, db)
      else (Inr True, db\<lparr>md_groups := md_groups db @ [fresh_row m]\<rparr>))"

definition getMessagingGroup :: "string \<Rightarrow> mg_db \<Rightarrow> messaging_group option" where
  "getMessagingGroup i db = sql_select mg_id i (md_groups db)"

definition getMessagingGroupByPlatform :: "string \<Rightarrow> string \<Rightarrow> string option \<Rightarrow> mg_db \<Rightarrow> messaging_group option" where
  "getMessagingGroupByPlatform channelType platformId inst db =
     (case inst of
        Some i \<Rightarrow> sql_select mg_address (channelType, platformId, i) (md_groups db)
      | None \<Rightarrow> first_by (\<lambda>m. (if mg_instance m = mg_channel_type m then 0 else 1 :: nat, mg_instance m))
                  (filter (\<lambda>m. mg_channel_type m = channelType \<and> mg_platform_id m = platformId) (md_groups db)))"

definition getMessagingGroupForOwnDestination :: "string \<Rightarrow> string \<Rightarrow> string \<Rightarrow> mg_db \<Rightarrow> messaging_group option" where
  "getMessagingGroupForOwnDestination agentGroupId channelType platformId db =
     map_option snd (first_by (\<lambda>(d, m). ad_created_at d)
       (concat (map (\<lambda>d. map (Pair d) (filter (\<lambda>m. mg_id m = ad_target_id d \<and> mg_channel_type m = channelType
             \<and> mg_platform_id m = platformId) (md_groups db)))
          (filter (\<lambda>d. ad_agent_group_id d = agentGroupId \<and> ad_target_type d = ChannelTarget) (ld_destinations (md_links db))))))"

definition wirings_of :: "string \<Rightarrow> mg_db \<Rightarrow> wiring list" where
  "wirings_of mg db = filter (\<lambda>w. ma_messaging_group_id w = mg) (md_wirings db)"

definition getMessagingGroupWithAgentCount :: "string \<Rightarrow> string \<Rightarrow> string \<Rightarrow> mg_db \<Rightarrow> (messaging_group \<times> nat) option" where
  "getMessagingGroupWithAgentCount channelType platformId inst db =
     map_option (\<lambda>m. (m, length (wirings_of (mg_id m) db))) (sql_select mg_address (channelType, platformId, inst) (md_groups db))"

definition getAllMessagingGroups :: "mg_db \<Rightarrow> messaging_group list" where
  "getAllMessagingGroups db = sort_key mg_name (md_groups db)"

definition getMessagingGroupsByChannel :: "string \<Rightarrow> mg_db \<Rightarrow> messaging_group list" where
  "getMessagingGroupsByChannel channelType db = filter (\<lambda>m. mg_channel_type m = channelType) (md_groups db)"

definition set_mg :: "string \<Rightarrow> (messaging_group \<Rightarrow> messaging_group) \<Rightarrow> mg_db \<Rightarrow> mg_db" where
  "set_mg i f db = db\<lparr>md_groups := fst (sql_update mg_id i (\<lambda>_. True) f (md_groups db))\<rparr>"

record mg_updates =
  mu_name :: "string option option"
  mu_is_group :: "int option"
  mu_policy :: "sender_policy option"

definition updateMessagingGroup :: "string \<Rightarrow> mg_updates \<Rightarrow> mg_db \<Rightarrow> mg_db" where
  "updateMessagingGroup i u = set_mg i (\<lambda>m. m\<lparr>mg_name := or_else (mu_name u) (mg_name m),
     mg_is_group := or_else (mu_is_group u) (mg_is_group m), mg_policy := or_else (mu_policy u) (mg_policy m)\<rparr>)"

text \<open>Other tables may refer to the row; whether they do is an argument.\<close>

definition deleteMessagingGroup :: "(string \<Rightarrow> bool) \<Rightarrow> string \<Rightarrow> mg_db \<Rightarrow> unit result \<times> mg_db" where
  "deleteMessagingGroup referenced i db =
     (if getMessagingGroup i db \<noteq> None \<and> (referenced i \<or> wirings_of i db \<noteq> []) then (fk_failed, db)
      else (Inr (), db\<lparr>md_groups := sql_delete mg_id i (md_groups db)\<rparr>))"

definition setMessagingGroupDeniedAt :: "string \<Rightarrow> string option \<Rightarrow> mg_db \<Rightarrow> mg_db" where
  "setMessagingGroupDeniedAt i t = set_mg i (mg_denied_at_update (\<lambda>_. t))"

definition setMessagingGroupDetachedAt :: "string \<Rightarrow> string option \<Rightarrow> mg_db \<Rightarrow> mg_db" where
  "setMessagingGroupDetachedAt i t = set_mg i (mg_detached_at_update (\<lambda>_. t))"

definition isMessagingGroupDetached :: "string \<Rightarrow> mg_db \<Rightarrow> bool" where
  "isMessagingGroupDetached i db = truthy (Option.bind (getMessagingGroup i db) mg_detached_at)"

section \<open>Wirings\<close>

definition wiring_pair :: "wiring \<Rightarrow> string \<times> string" where
  "wiring_pair w = (ma_messaging_group_id w, ma_agent_group_id w)"

text \<open>\<open>normalizeName(mg.name || `${mg.channel_type}-${id.slice(0, 8)}`)\<close>\<close>

definition wiring_name :: "messaging_group \<Rightarrow> string" where
  "wiring_name m = (if truthy (mg_name m) then the (mg_name m) else mg_channel_type m @ CHR ''-'' # take 8 (mg_id m))"

definition wiring_insert_destination :: "wiring \<Rightarrow> mg_db \<Rightarrow> unit result \<times> mg_db" where
  "wiring_insert_destination w db =
     (case getMessagingGroup (ma_messaging_group_id w) db of
        None \<Rightarrow> (Inr (), db)
      | Some m \<Rightarrow> (case ensureAgentDestinationForWiring (ma_agent_group_id w) (ma_messaging_group_id w) (ma_created_at w)
                          (wiring_name m) (md_links db) of
                     (r, links) \<Rightarrow> (r, db\<lparr>md_links := links\<rparr>)))"

definition createMessagingGroupAgent :: "wiring \<Rightarrow> mg_db \<Rightarrow> unit result \<times> mg_db" where
  "createMessagingGroupAgent w db =
     (if list_ex (\<lambda>x. ma_id x = ma_id w \<or> wiring_pair x = wiring_pair w) (md_wirings db) then (unique_failed, db)
      else if getMessagingGroup (ma_messaging_group_id w) db = None
              \<or> ma_agent_group_id w \<notin> set (ld_agent_groups (md_links db)) then (fk_failed, db)
      else wiring_insert_destination w (db\<lparr>md_wirings := md_wirings db @ [w]\<rparr>))"

text \<open>\<open>ORDER BY priority DESC, id\<close>\<close>

definition getMessagingGroupAgents :: "string \<Rightarrow> mg_db \<Rightarrow> wiring list" where
  "getMessagingGroupAgents mg db = sort_key (\<lambda>w. (- ma_priority w, ma_id w)) (wirings_of mg db)"

definition getMessagingGroupAgentByPair :: "string \<Rightarrow> string \<Rightarrow> mg_db \<Rightarrow> wiring option" where
  "getMessagingGroupAgentByPair mg ag db = sql_select wiring_pair (mg, ag) (md_wirings db)"

definition getMessagingGroupAgent :: "string \<Rightarrow> mg_db \<Rightarrow> wiring option" where
  "getMessagingGroupAgent i db = sql_select ma_id i (md_wirings db)"

record wiring_updates =
  wu_engage_mode :: "engage_mode option"
  wu_engage_pattern :: "string option option"
  wu_sender_scope :: "sender_scope option"
  wu_ignored :: "ignored_policy option"
  wu_session_mode :: "session_mode option"
  wu_priority :: "int option"
  wu_threads :: "int option option"

definition updateMessagingGroupAgent :: "string \<Rightarrow> wiring_updates \<Rightarrow> mg_db \<Rightarrow> mg_db" where
  "updateMessagingGroupAgent i u db = db\<lparr>md_wirings := fst (sql_update ma_id i (\<lambda>_. True)
     (\<lambda>w. w\<lparr>ma_engage_mode := or_else (wu_engage_mode u) (ma_engage_mode w),
        ma_engage_pattern := or_else (wu_engage_pattern u) (ma_engage_pattern w),
        ma_sender_scope := or_else (wu_sender_scope u) (ma_sender_scope w),
        ma_ignored := or_else (wu_ignored u) (ma_ignored w),
        ma_session_mode := or_else (wu_session_mode u) (ma_session_mode w),
        ma_priority := or_else (wu_priority u) (ma_priority w),
        ma_threads := or_else (wu_threads u) (ma_threads w)\<rparr>) (md_wirings db))\<rparr>"

definition deleteMessagingGroupAgent :: "string \<Rightarrow> mg_db \<Rightarrow> mg_db" where
  "deleteMessagingGroupAgent i db = db\<lparr>md_wirings := sql_delete ma_id i (md_wirings db)\<rparr>"

definition getMessagingGroupsByAgentGroup :: "string \<Rightarrow> mg_db \<Rightarrow> messaging_group list" where
  "getMessagingGroupsByAgentGroup ag db =
     concat (map (\<lambda>m. map (\<lambda>_. m) (filter (\<lambda>w. ma_messaging_group_id w = mg_id m \<and> ma_agent_group_id w = ag) (md_wirings db)))
       (md_groups db))"

section \<open>Channel adapters and their declarations\<close>

datatype mentions_kind = MentionsPlatform | MentionsDmOnly | MentionsNever

record context_defaults =
  cx_engage_mode :: engage_mode
  cx_engage_pattern :: "string option"
  cx_threads :: bool
  cx_session_mode :: "session_mode option"
  cx_policy :: sender_policy

record channel_defaults =
  df_dm :: context_defaults
  df_group :: context_defaults
  df_mentions :: mentions_kind

text \<open>\<open>openDM\<close> is absent for direct-addressable channels; otherwise it throws or answers an id, possibly null.\<close>

record channel_adapter =
  an_channelType :: string
  an_supportsThreads :: bool
  an_defaults :: "channel_defaults option"
  an_openDM :: "(string \<Rightarrow> string option result) option"
  an_subscribe :: bool

record channel_registry =
  cr_active :: "(string \<times> channel_adapter) list"
  cr_registered :: "(string \<times> channel_defaults option) list"

definition getChannelAdapterExact :: "string \<Rightarrow> channel_registry \<Rightarrow> channel_adapter option" where
  "getChannelAdapterExact k reg = map_of (cr_active reg) k"

definition getChannelAdapter :: "string \<Rightarrow> channel_registry \<Rightarrow> channel_adapter option" where
  "getChannelAdapter k reg =
     (case map_of (cr_active reg) k of
        Some a \<Rightarrow> Some a
      | None \<Rightarrow> map_option snd (find (\<lambda>(_, a). an_channelType a = k) (cr_active reg)))"

definition fallbackChannelDefaults :: "bool \<Rightarrow> channel_defaults" where
  "fallbackChannelDefaults supportsThreads =
     \<lparr>df_dm = \<lparr>cx_engage_mode = EngagePattern, cx_engage_pattern = Some ''.'', cx_threads = supportsThreads,
                cx_session_mode = None, cx_policy = RequestApprovalPolicy\<rparr>,
      df_group = \<lparr>cx_engage_mode = EngageSticky, cx_engage_pattern = None, cx_threads = supportsThreads,
                cx_session_mode = None, cx_policy = RequestApprovalPolicy\<rparr>,
      df_mentions = MentionsPlatform\<rparr>"

definition lookupDeclaredDefaults :: "string \<Rightarrow> string option \<Rightarrow> channel_registry \<Rightarrow> channel_adapter option \<times> channel_defaults option" where
  "lookupDeclaredDefaults k channelType reg =
     (let adapter = getChannelAdapter k reg;
          typeKey = (case adapter of Some a \<Rightarrow> Some (an_channelType a) | None \<Rightarrow> channelType);
          registered = (\<lambda>j. Option.bind (map_of (cr_registered reg) j) id)
      in case Option.bind adapter an_defaults of
           Some d \<Rightarrow> (adapter, Some d)
         | None \<Rightarrow> (adapter, case registered k of Some d \<Rightarrow> Some d | None \<Rightarrow> Option.bind typeKey registered))"

definition getChannelDefaults :: "string \<Rightarrow> string option \<Rightarrow> channel_registry \<Rightarrow> channel_defaults" where
  "getChannelDefaults k channelType reg =
     (case lookupDeclaredDefaults k channelType reg of
        (_, Some d) \<Rightarrow> d
      | (adapter, None) \<Rightarrow> fallbackChannelDefaults (case adapter of None \<Rightarrow> False | Some a \<Rightarrow> an_supportsThreads a))"

definition hasDeclaredChannelDefaults :: "string \<Rightarrow> string option \<Rightarrow> channel_registry \<Rightarrow> bool" where
  "hasDeclaredChannelDefaults k channelType reg = (snd (lookupDeclaredDefaults k channelType reg) \<noteq> None)"

definition context_of :: "bool \<Rightarrow> channel_defaults \<Rightarrow> context_defaults" where
  "context_of isGroup d = (if isGroup then df_group d else df_dm d)"

definition resolveUnknownSenderPolicy :: "string \<Rightarrow> bool \<Rightarrow> string option \<Rightarrow> channel_registry \<Rightarrow> sender_policy" where
  "resolveUnknownSenderPolicy k isGroup channelType reg = cx_policy (context_of isGroup (getChannelDefaults k channelType reg))"

definition resolveThreadPolicy :: "int option \<Rightarrow> channel_defaults \<Rightarrow> bool \<Rightarrow> bool \<Rightarrow> bool" where
  "resolveThreadPolicy wiringThreads decl isGroup supportsThreads =
     (let inherited = cx_threads (context_of isGroup decl);
          wanted = (case wiringThreads of None \<Rightarrow> inherited | Some n \<Rightarrow> n \<noteq> 0)
      in wanted \<and> supportsThreads)"

section \<open>Defaults of a wiring\<close>

definition word_char :: "char \<Rightarrow> bool" where
  "word_char c = (is_alnum c \<or> c = CHR ''_'')"

definition escapeRegex :: "string \<Rightarrow> string" where
  "escapeRegex text = concat (map (\<lambda>c. if c \<in> set (CHR 0x5C # ''.*+?^${}()|[]'') then [CHR 0x5C, c] else [c]) text)"

text \<open>The replacement text of \<open>String.prototype.replaceAll\<close>: \<open>$$\<close>, \<open>$&\<close>, \<open>$`\<close> and \<open>$'\<close> are expanded.\<close>

fun expand_replacement :: "string \<Rightarrow> string \<Rightarrow> string \<Rightarrow> string \<Rightarrow> string" where
  "expand_replacement matched before after (a # b # r) =
     (if a \<noteq> CHR ''$'' then a # expand_replacement matched before after (b # r)
      else if b = CHR ''$'' then CHR ''$'' # expand_replacement matched before after r
      else if b = CHR ''&'' then matched @ expand_replacement matched before after r
      else if b = CHR 0x60 then before @ expand_replacement matched before after r
      else if b = CHR 0x27 then after @ expand_replacement matched before after r
      else a # expand_replacement matched before after (b # r))"
| "expand_replacement matched before after r = r"

function replace_from :: "string \<Rightarrow> string \<Rightarrow> string \<Rightarrow> string \<Rightarrow> string" where
  "replace_from pat repl before s =
     (if pat \<noteq> [] \<and> starts_with pat s
      then expand_replacement pat before (drop (length pat) s) repl
           @ replace_from pat repl (before @ pat) (drop (length pat) s)
      else case s of [] \<Rightarrow> [] | c # r \<Rightarrow> c # replace_from pat repl (before @ [c]) r)"
  by pat_completeness auto
termination
proof (relation "measure (\<lambda>(_, _, _, s). length s)", goal_cases)
  case (2 pat repl before s)
  then have "length pat \<le> length s" "pat \<noteq> []" by (auto simp: starts_with_prefix prefix_length_le)
  then show ?case by (cases pat; cases s) auto
qed auto

definition replaceAll :: "string \<Rightarrow> string \<Rightarrow> string \<Rightarrow> string" where
  "replaceAll pat repl s = replace_from pat repl [] s"

definition NAME_TOKEN :: string where "NAME_TOKEN = ''{name}''"
definition BOUNDARY :: string where "BOUNDARY = [CHR 0x5C, CHR ''b'']"

definition substituteName :: "string \<Rightarrow> string \<Rightarrow> string" where
  "substituteName pattern name =
     (let out = (if name = [] \<or> \<not> word_char (hd name) then replaceAll (BOUNDARY @ NAME_TOKEN) NAME_TOKEN pattern else pattern);
          out = (if name = [] \<or> \<not> word_char (last name) then replaceAll (NAME_TOKEN @ BOUNDARY) NAME_TOKEN out else out)
      in replaceAll NAME_TOKEN (escapeRegex name) out)"

record wiring_defaults =
  wd_engage_mode :: engage_mode
  wd_engage_pattern :: "string option"
  wd_session_mode :: session_mode
  wd_threads :: "int option"

definition resolveWiringDefaults :: "string \<Rightarrow> bool \<Rightarrow> string \<Rightarrow> string option \<Rightarrow> channel_registry \<Rightarrow> wiring_defaults result" where
  "resolveWiringDefaults channelKey isGroup agentGroupName channelType reg =
     (let ctx = context_of isGroup (getChannelDefaults channelKey channelType reg);
          sessionMode = or_else (cx_session_mode ctx) Shared;
          threads = (if cx_session_mode ctx = Some PerThread then Some 1 else None);
          effectiveThreads = (threads \<noteq> None \<or> cx_threads ctx);
          mode = (if cx_engage_mode ctx = EngageSticky \<and> \<not> effectiveThreads then EngageMention else cx_engage_mode ctx)
      in if mode \<noteq> EngagePattern
         then Inr \<lparr>wd_engage_mode = mode, wd_engage_pattern = None, wd_session_mode = sessionMode, wd_threads = threads\<rparr>
         else if \<not> truthy (cx_engage_pattern ctx)
         then Inl (''Channel declares engageMode pattern without an engagePattern'')
         else Inr \<lparr>wd_engage_mode = EngagePattern,
                    wd_engage_pattern = Some (substituteName (the (cx_engage_pattern ctx)) agentGroupName),
                    wd_session_mode = sessionMode, wd_threads = threads\<rparr>)"

text \<open>The four columns of a wiring as a creation surface passes them; \<open>None\<close> is undefined or null.\<close>

record engage_values =
  ev_engage_mode :: "engage_mode option"
  ev_engage_pattern :: "string option"
  ev_threads :: "int option"
  ev_session_mode :: "session_mode option"

definition per_thread_honored :: "engage_values \<Rightarrow> messaging_group \<Rightarrow> channel_registry \<Rightarrow> bool" where
  "per_thread_honored w mg reg =
     (case ev_threads w of
        Some n \<Rightarrow> n \<noteq> 0
      | None \<Rightarrow> \<not> hasDeclaredChannelDefaults (mg_instance mg) (Some (mg_channel_type mg)) reg
                \<or> cx_threads (context_of (mg_is_group mg = 1) (getChannelDefaults (mg_instance mg) (Some (mg_channel_type mg)) reg)))"

definition validateEngageAgainstChannel :: "engage_values \<Rightarrow> messaging_group \<Rightarrow> channel_registry \<Rightarrow> engage_values result" where
  "validateEngageAgainstChannel w mg reg =
     (if ev_engage_mode w = Some EngagePattern \<and> \<not> truthy (ev_engage_pattern w)
      then Inl ''engage_mode pattern requires --engage-pattern''
      else if ev_session_mode w = Some PerThread \<and> \<not> per_thread_honored w mg reg
      then Inl ''session_mode per-thread requires honored thread ids''
      else if ev_engage_mode w \<noteq> Some EngageMention \<and> ev_engage_mode w \<noteq> Some EngageSticky then Inr w
      else if \<not> hasDeclaredChannelDefaults (mg_instance mg) (Some (mg_channel_type mg)) reg then Inr w
      else let decl = getChannelDefaults (mg_instance mg) (Some (mg_channel_type mg)) reg in
        if df_mentions decl = MentionsNever then Inl ''engage_mode can never engage on this channel''
        else if ev_engage_mode w = Some EngageSticky
                \<and> \<not> (case ev_threads w of None \<Rightarrow> cx_threads (context_of (mg_is_group mg = 1) decl) | Some n \<Rightarrow> n \<noteq> 0)
        then Inr (w\<lparr>ev_engage_mode := Some EngageMention\<rparr>)
        else Inr w)"

section \<open>The direct-message chat of a user\<close>

text \<open>\<open>parseUserId\<close>: the channel type and handle of a namespaced id.\<close>

definition parseUserId :: "user \<Rightarrow> channel_registry \<Rightarrow> (string \<times> string) option" where
  "parseUserId u reg =
     (if CHR '':'' \<notin> set (usr_id u) then None
      else let pre = takeWhile (\<lambda>c. c \<noteq> CHR '':'') (usr_id u); handle = drop (length pre + 1) (usr_id u) in
        if pre = [] \<or> handle = [] then None
        else if getChannelAdapter pre reg = None \<and> usr_kind u \<noteq> [] \<and> getChannelAdapter (usr_kind u) reg \<noteq> None
        then Some (usr_kind u, usr_id u)
        else Some (pre, handle))"

definition resolveDmPlatformId :: "string \<Rightarrow> string \<Rightarrow> string option \<Rightarrow> channel_registry \<Rightarrow> string option" where
  "resolveDmPlatformId channelType handle inst reg =
     (case (case inst of None \<Rightarrow> getChannelAdapter channelType reg | Some i \<Rightarrow> getChannelAdapterExact i reg) of
        None \<Rightarrow> None
      | Some a \<Rightarrow> (case an_openDM a of None \<Rightarrow> Some handle | Some f \<Rightarrow> (case f handle of Inl e \<Rightarrow> None | Inr r \<Rightarrow> r)))"

text \<open>The state is the chats and the permission tables; the fresh id and the clock are arguments.
  The ids of the chats are mirrored in the permission tables, which refer to them.\<close>

definition cached_dm :: "string \<Rightarrow> string \<Rightarrow> string option \<Rightarrow> mg_db \<Rightarrow> perm_db \<Rightarrow> messaging_group option" where
  "cached_dm userId channelType inst mdb pdb =
     (case getUserDm userId channelType pdb of
        None \<Rightarrow> None
      | Some d \<Rightarrow> (case getMessagingGroup (dm_messaging_group_id d) mdb of
                    None \<Rightarrow> None
                  | Some m \<Rightarrow> if inst = None \<or> inst = Some (mg_instance m) then Some m else None))"

definition strict_dm_group :: "string \<Rightarrow> string \<Rightarrow> string \<Rightarrow> string \<Rightarrow> string option \<Rightarrow> user \<Rightarrow> messaging_group" where
  "strict_dm_group freshId now channelType platformId inst u =
     \<lparr>mg_id = freshId, mg_channel_type = channelType, mg_platform_id = platformId,
      mg_instance = or_else inst channelType, mg_name = usr_display_name u, mg_is_group = 0,
      mg_policy = StrictPolicy, mg_created_at = now, mg_denied_at = None, mg_detached_at = None\<rparr>"

definition find_or_create_dm :: "messaging_group \<Rightarrow> string option \<Rightarrow> mg_db \<Rightarrow> messaging_group result \<times> mg_db" where
  "find_or_create_dm m inst mdb =
     (case getMessagingGroupByPlatform (mg_channel_type m) (mg_platform_id m) inst mdb of
        Some x \<Rightarrow> (Inr x, mdb)
      | None \<Rightarrow> (case createMessagingGroup m mdb of
                   (Inl e, mdb') \<Rightarrow> (Inl e, mdb')
                 | (Inr _, mdb') \<Rightarrow> (Inr m, mdb')))"

definition ensureUserDm ::
    "string \<Rightarrow> string \<Rightarrow> channel_registry \<Rightarrow> string \<Rightarrow> string option \<Rightarrow> mg_db \<Rightarrow> perm_db
     \<Rightarrow> messaging_group option result \<times> mg_db \<times> perm_db" where
  "ensureUserDm freshId now reg userId inst mdb pdb =
     (case getUser userId pdb of
        None \<Rightarrow> (Inr None, mdb, pdb)
      | Some u \<Rightarrow>
          (case parseUserId u reg of
             None \<Rightarrow> (Inr None, mdb, pdb)
           | Some (channelType, handle) \<Rightarrow>
               (let cacheable = (inst = None \<or> inst = Some channelType);
                    cached = (if cacheable then cached_dm userId channelType inst mdb pdb else None) in
                case cached of
                  Some m \<Rightarrow> (Inr (Some m), mdb, pdb)
                | None \<Rightarrow>
                    if \<not> truthy (resolveDmPlatformId channelType handle inst reg) then (Inr None, mdb, pdb)
                    else case find_or_create_dm
                                (strict_dm_group freshId now channelType (the (resolveDmPlatformId channelType handle inst reg)) inst u)
                                inst mdb of
                           (Inl e, mdb') \<Rightarrow> (Inl e, mdb', pdb)
                         | (Inr m, mdb') \<Rightarrow>
                             (let pdb' = pdb\<lparr>pd_messaging_groups := map mg_id (md_groups mdb')\<rparr> in
                              if \<not> cacheable then (Inr (Some m), mdb', pdb')
                              else case upsertUserDm \<lparr>dm_user_id = userId, dm_channel_type = channelType,
                                          dm_messaging_group_id = mg_id m, dm_resolved_at = now\<rparr> pdb' of
                                     (Inl e, pdb'') \<Rightarrow> (Inl e, mdb', pdb'')
                                   | (Inr _, pdb'') \<Rightarrow> (Inr (Some m), mdb', pdb'')))))"

section \<open>What the tables and lookups guarantee\<close>

lemma thread_capability_bound: "\<not> resolveThreadPolicy t d g False"
  by (simp add: resolveThreadPolicy_def)

definition mg_keys_ok :: "mg_db \<Rightarrow> bool" where
  "mg_keys_ok db = (keys_distinct mg_id (md_groups db) \<and> keys_distinct mg_address (md_groups db))"

lemma fresh_row_keys [simp]: "mg_id (fresh_row m) = mg_id m" "mg_address (fresh_row m) = mg_address m"
  by (simp_all add: fresh_row_def mg_address_def)

lemma mg_keys_append:
  "mg_keys_ok db \<Longrightarrow> \<not> list_ex (\<lambda>x. mg_id x = mg_id m \<or> mg_address x = mg_address m) (md_groups db) \<Longrightarrow>
   mg_keys_ok (db\<lparr>md_groups := md_groups db @ [fresh_row m]\<rparr>)"
  by (auto simp: mg_keys_ok_def keys_distinct_def list_ex_iff)

lemma mg_keys_create: "mg_keys_ok db \<Longrightarrow> mg_keys_ok (snd (createMessagingGroup m db))"
  using mg_keys_append [of db m] by (auto simp: createMessagingGroup_def)

lemma mg_keys_create_absent: "mg_keys_ok db \<Longrightarrow> mg_keys_ok (snd (createMessagingGroupIfAbsent m db))"
  using mg_keys_append [of db m] by (auto simp: createMessagingGroupIfAbsent_def list_ex_iff)

text \<open>The row the router looks up after its insert is there.\<close>

lemma created_or_present:
  assumes "createMessagingGroupIfAbsent m db = (Inr b, db')"
  shows "sql_select mg_address (mg_address m) (md_groups db') \<noteq> None"
  using assms by (auto simp: createMessagingGroupIfAbsent_def sql_select_none list_ex_iff unique_failed_def split: if_splits)

text \<open>A chat that is opened for a user to be asked is strict: no declared policy opens it.\<close>

lemma find_or_create_dm_groups:
  assumes "find_or_create_dm m inst mdb = (r, mdb')"
  shows "md_groups mdb' = md_groups mdb \<or> md_groups mdb' = md_groups mdb @ [fresh_row m]"
  using assms by (auto simp: find_or_create_dm_def createMessagingGroup_def split: option.splits sum.splits if_splits prod.splits)

lemma ensureUserDm_strict:
  assumes "ensureUserDm i now reg userId inst mdb pdb = (r, mdb', pdb')" "x \<in> set (md_groups mdb')" "x \<notin> set (md_groups mdb)"
  shows "mg_policy x = StrictPolicy \<and> mg_is_group x = 0"
  using assms
  by (auto simp: ensureUserDm_def Let_def fresh_row_def strict_dm_group_def
      split: option.splits if_splits prod.splits sum.splits dest!: find_or_create_dm_groups)

text \<open>An agent name is a replacement text: \<open>$&\<close> in it stands for the token again.\<close>

lemma substituteName_expands: "substituteName NAME_TOKEN ''a$&b'' = ''a'' @ [CHR 0x5C] @ ''{name}b''"
  by code_simp

lemma substituteName_plain: "substituteName ''hey {name}'' ''Bo'' = ''hey Bo''"
  by code_simp

end
