(* ===== verification/InboundRouter.thy ===== *)
theory InboundRouter
  imports MessagingGroups Guard
begin

text \<open>
  Inbound routing (\<open>nanoclaw/src/router.ts\<close>) with the hooks of the permissions module
  (\<open>modules/permissions/index.ts\<close>: sender resolution, access gate, sender scope) and the command
  gate (\<open>command-gate.ts\<close>).  What leaves the tables modelled here is recorded in order as effects:
  mailbox writes (whose effect SessionMailbox models), wakes, cards, notices.  Whether a registered
  interceptor claims the message, the fresh ids, the clock and the regular expressions of wirings
  are inputs.
\<close>

section \<open>The command gate\<close>

definition js_space :: "char \<Rightarrow> bool" where
  "js_space c = (of_char c \<in> {9 :: nat, 10, 11, 12, 13, 32, 160})"

definition js_trim :: "string \<Rightarrow> string" where
  "js_trim s = rev (dropWhile js_space (rev (dropWhile js_space s)))"

definition latin1_lower :: "char \<Rightarrow> char" where
  "latin1_lower c = (let n = of_char c :: nat in
     if (65 \<le> n \<and> n \<le> 90) \<or> (192 \<le> n \<and> n \<le> 222 \<and> n \<noteq> 215) then char_of (n + 32) else c)"

text \<open>The commands of the installed provider contract (\<open>provider-contracts/claude.ts\<close>).\<close>

definition FILTERED_COMMANDS :: "string list" where
  "FILTERED_COMMANDS = [''/start'', ''/help'', ''/login'', ''/logout'', ''/doctor'', ''/config'', ''/remote-control'']"

definition ADMIN_COMMANDS :: "string list" where
  "ADMIN_COMMANDS = [''/clear'', ''/upload-trace'', ''/compact'', ''/context'', ''/cost'', ''/files'']"

datatype gate_result = GatePass | GateFilter | GateDeny string

text \<open>\<open>(parsed.text || '').trim()\<close>, or the trimmed content when it is not JSON, parses to null or
  has a text that is neither a string nor falsy (then \<open>trim\<close> is no function).\<close>

definition falsy :: "jsval \<Rightarrow> bool" where
  "falsy v = (v \<in> {Undefined, Null, Bool False, Str [], Num NaN, Num (Fin 0)})"

definition command_text :: "string \<Rightarrow> string" where
  "command_text content =
     (case json_parse content of
        None \<Rightarrow> js_trim content
      | Some v \<Rightarrow> if v = Null then js_trim content
                  else (case get_prop v ''text'' of
                          Str s \<Rightarrow> js_trim s
                        | t \<Rightarrow> if falsy t then [] else js_trim content))"

definition command_admin :: "string option \<Rightarrow> string \<Rightarrow> perm_db \<Rightarrow> bool" where
  "command_admin userId agentGroupId db = (truthy userId \<and> hasAdminPrivilege (the userId) agentGroupId db)"

definition gateCommand :: "string \<Rightarrow> string option \<Rightarrow> string \<Rightarrow> perm_db \<Rightarrow> gate_result" where
  "gateCommand content userId agentGroupId db =
     (let text = command_text content in
      if \<not> starts_with ''/'' text then GatePass
      else let command = map latin1_lower (takeWhile (\<lambda>c. \<not> js_space c) text) in
        if command \<in> set FILTERED_COMMANDS then GateFilter
        else if command \<in> set ADMIN_COMMANDS
        then (if command_admin userId agentGroupId db then GatePass else GateDeny command)
        else GatePass)"

section \<open>Events, effects and the state\<close>

record delivery_addr =
  da_channelType :: string
  da_platformId :: string
  da_threadId :: "string option"

record inbound_event =
  ie_channelType :: string
  ie_platformId :: string
  ie_instance :: "string option"
  ie_threadId :: "string option"
  ie_id :: "string option"
  ie_kind :: string
  ie_content :: string
  ie_isMention :: bool
  ie_isGroup :: "bool option"
  ie_replyTo :: "delivery_addr option"

datatype effect =
    Wrote string string string delivery_addr bool
  | DeniedCommand string string delivery_addr
  | CreatedSession string
  | Woke string
  | Echoed string string
  | Subscribed string string
  | AskedSenderApproval string string string
  | DeclinedSender string string "string option"
  | AskedChannelApproval string

record dropped_sender =
  us_channel_type :: string
  us_platform_id :: string
  us_user_id :: "string option"
  us_sender_name :: jsval
  us_reason :: string
  us_messaging_group_id :: "string option"
  us_agent_group_id :: "string option"
  us_message_count :: nat
  us_first_seen :: string
  us_last_seen :: string

record router_world =
  rw_mg :: mg_db
  rw_perms :: perm_db
  rw_central :: central_db
  rw_dropped :: "dropped_sender list"
  rw_effects :: "effect list"

text \<open>The inputs of one call.  Text of an invalid regular expression is \<open>None\<close>.\<close>

record route_env =
  re_now :: string
  re_mg_id :: string
  re_session_id :: "string \<Rightarrow> string"
  re_message_id :: "string \<Rightarrow> string"
  re_test :: "string \<Rightarrow> string \<Rightarrow> bool option"
  re_string :: "jsval \<Rightarrow> string"
  re_registry :: channel_registry

definition emit :: "effect \<Rightarrow> router_world \<Rightarrow> router_world" where
  "emit e w = w\<lparr>rw_effects := rw_effects w @ [e]\<rparr>"

definition us_key :: "dropped_sender \<Rightarrow> string \<times> string" where
  "us_key u = (us_channel_type u, us_platform_id u)"

definition coalesce_val :: "jsval \<Rightarrow> jsval \<Rightarrow> jsval" where
  "coalesce_val v old = (if v = Null \<or> v = Undefined then old else v)"

definition recordDroppedMessage :: "dropped_sender \<Rightarrow> router_world \<Rightarrow> router_world" where
  "recordDroppedMessage r w = w\<lparr>rw_dropped := sql_upsert us_key r
     (\<lambda>old. old\<lparr>us_user_id := (case us_user_id r of None \<Rightarrow> us_user_id old | Some u \<Rightarrow> Some u),
        us_sender_name := coalesce_val (us_sender_name r) (us_sender_name old), us_reason := us_reason r,
        us_message_count := us_message_count old + 1, us_last_seen := us_last_seen r\<rparr>) (rw_dropped w)\<rparr>"

definition drop_row :: "route_env \<Rightarrow> inbound_event \<Rightarrow> string option \<Rightarrow> jsval \<Rightarrow> string \<Rightarrow> string option \<Rightarrow> string option \<Rightarrow> dropped_sender" where
  "drop_row env e user name reason mg ag =
     \<lparr>us_channel_type = ie_channelType e, us_platform_id = ie_platformId e, us_user_id = user, us_sender_name = name,
      us_reason = reason, us_messaging_group_id = mg, us_agent_group_id = ag, us_message_count = 1,
      us_first_seen = re_now env, us_last_seen = re_now env\<rparr>"

text \<open>\<open>safeParseContent\<close>; a later property access on null throws.\<close>

definition safeParseContent :: "string \<Rightarrow> jsval" where
  "safeParseContent raw = (case json_parse raw of None \<Rightarrow> Obj [(''text'', Str raw)] | Some v \<Rightarrow> v)"

definition no_props :: "jsval \<Rightarrow> bool" where
  "no_props v = (v = Null \<or> v = Undefined)"

section \<open>The hooks of the permissions module\<close>

definition string_prop :: "jsval \<Rightarrow> string \<Rightarrow> string option" where
  "string_prop v k = (case get_prop v k of Str s \<Rightarrow> Some s | _ \<Rightarrow> None)"

definition first_some :: "'a option \<Rightarrow> 'a option \<Rightarrow> 'a option" where
  "first_some x y = (case x of None \<Rightarrow> y | Some v \<Rightarrow> Some v)"

definition namespaced :: "string \<Rightarrow> string \<Rightarrow> string" where
  "namespaced channelType handle = (if CHR '':'' \<in> set handle then handle else channelType @ '':'' @ handle)"

definition sender_id :: "inbound_event \<Rightarrow> string option result" where
  "sender_id e =
     (case json_parse (ie_content e) of
        None \<Rightarrow> Inr None
      | Some content \<Rightarrow>
          if content = Null then Inl ''TypeError''
          else let rawHandle = first_some (string_prop content ''senderId'')
                      (first_some (string_prop content ''sender'') (string_prop (get_prop content ''author'') ''userId''))
               in Inr (if truthy rawHandle then Some (namespaced (ie_channelType e) (the rawHandle)) else None))"

definition sender_display :: "inbound_event \<Rightarrow> string option" where
  "sender_display e = (let content = safeParseContent (ie_content e) in
     first_some (string_prop content ''senderName'')
       (first_some (string_prop (get_prop content ''author'') ''fullName'') (string_prop (get_prop content ''author'') ''userName'')))"

definition extractAndUpsertUser :: "string \<Rightarrow> inbound_event \<Rightarrow> perm_db \<Rightarrow> string option result \<times> perm_db" where
  "extractAndUpsertUser now e db =
     (case sender_id e of
        Inl err \<Rightarrow> (Inl err, db)
      | Inr None \<Rightarrow> (Inr None, db)
      | Inr (Some u) \<Rightarrow>
          (Inr (Some u),
           if getUser u db \<noteq> None then db
           else upsertUser \<lparr>usr_id = u, usr_kind = ie_channelType e, usr_display_name = sender_display e, usr_created_at = now\<rparr> db))"

fun policy_text :: "sender_policy \<Rightarrow> string" where
  "policy_text StrictPolicy = ''strict''"
| "policy_text RequestApprovalPolicy = ''request_approval''"
| "policy_text DeclineNotifyPolicy = ''decline_notify''"
| "policy_text PublicPolicy = ''public''"

definition admit_input :: "messaging_group \<Rightarrow> string option \<Rightarrow> string \<Rightarrow> guard_input" where
  "admit_input mg userId agentGroupId =
     \<lparr>gi_actor = (if truthy userId then HumanActor (the userId) else SystemActor), gi_resource = None,
      gi_payload = [(''messagingGroupId'', Str (mg_id mg)), (''agentGroupId'', Str agentGroupId),
        (''senderIdentity'', case userId of None \<Rightarrow> Null | Some u \<Rightarrow> Str u), (''policy'', Str (policy_text (mg_policy mg)))],
      gi_grant = None\<rparr>"

definition guard_world_of :: "router_world \<Rightarrow> guard_world" where
  "guard_world_of w = \<lparr>gw_links = md_links (rw_mg w), gw_perms = rw_perms w, gw_central = rw_central w,
     gw_agent_groups = ld_agent_groups (md_links (rw_mg w)), gw_cli_scope = (\<lambda>_. None), gw_imageBuild = False\<rparr>"

text \<open>\<open>handleUnknownSender\<close>: the decision of \<open>senders.admit\<close>, the drop record, the notice or the card.\<close>

definition handleUnknownSender :: "route_env \<Rightarrow> messaging_group \<Rightarrow> string option \<Rightarrow> string \<Rightarrow> inbound_event \<Rightarrow> router_world \<Rightarrow> unit result \<times> router_world" where
  "handleUnknownSender env mg userId agentGroupId e w =
     (let parsed = safeParseContent (ie_content e) in
      if no_props parsed then (Inl ''TypeError'', w)
      else let decision = guard catalog (Minted 4) (guard_world_of w) (admit_input mg userId agentGroupId) (rw_central w) in
        if is_allow decision then (Inr (), w)
        else let w' = recordDroppedMessage (drop_row env e userId (get_prop parsed ''sender'')
                        (''unknown_sender_'' @ policy_text (mg_policy mg)) (Some (mg_id mg)) (Some agentGroupId)) w in
          if mg_policy mg = DeclineNotifyPolicy
          then (Inr (), if mg_is_group mg = 1 then w' else emit (DeclinedSender (mg_id mg) agentGroupId userId) w')
          else if is_hold decision \<and> truthy userId
          then (Inr (), emit (AskedSenderApproval (mg_id mg) agentGroupId (the userId)) w')
          else (Inr (), w'))"

definition accessGate :: "route_env \<Rightarrow> inbound_event \<Rightarrow> string option \<Rightarrow> messaging_group \<Rightarrow> string \<Rightarrow> router_world \<Rightarrow> bool result \<times> router_world" where
  "accessGate env e userId mg agentGroupId w =
     (if mg_policy mg = PublicPolicy then (Inr True, w)
      else if truthy userId \<and> access_ok (canAccessAgentGroup (the userId) agentGroupId (rw_perms w)) then (Inr True, w)
      else case handleUnknownSender env mg (if truthy userId then userId else None) agentGroupId e w of
             (Inl err, w') \<Rightarrow> (Inl err, w')
           | (Inr _, w') \<Rightarrow> (Inr False, w'))"

definition senderScopeGate :: "string option \<Rightarrow> wiring \<Rightarrow> router_world \<Rightarrow> bool" where
  "senderScopeGate userId a w =
     (ma_sender_scope a = ScopeAll
      \<or> (truthy userId \<and> access_ok (canAccessAgentGroup (the userId) (ma_agent_group_id a) (rw_perms w))))"

section \<open>Routing\<close>

text \<open>A bad pattern engages; an unknown mode does not.\<close>

definition evaluateEngage :: "route_env \<Rightarrow> wiring \<Rightarrow> string \<Rightarrow> bool \<Rightarrow> messaging_group \<Rightarrow> string option \<Rightarrow> router_world \<Rightarrow> bool" where
  "evaluateEngage env a text isMention mg threadId w =
     (case ma_engage_mode a of
        EngagePattern \<Rightarrow> (let pat = or_else (ma_engage_pattern a) ''.'' in
           if pat = ''.'' then True else or_else (re_test env pat text) True)
      | EngageMention \<Rightarrow> isMention
      | EngageSticky \<Rightarrow> if isMention then True else if mg_is_group mg = 0 then False
                        else findSessionForAgent (ma_agent_group_id a) (mg_id mg) threadId (rw_central w) \<noteq> None
      | EngageOther _ \<Rightarrow> False)"

definition messageIdForAgent :: "route_env \<Rightarrow> string option \<Rightarrow> string \<Rightarrow> string" where
  "messageIdForAgent env baseId agentGroupId =
     (if truthy baseId then the baseId else re_message_id env agentGroupId) @ CHR '':'' # agentGroupId"

definition effective_mode :: "wiring \<Rightarrow> bool \<Rightarrow> messaging_group \<Rightarrow> session_mode" where
  "effective_mode a threadsEnabled mg =
     (if threadsEnabled \<and> ma_session_mode a \<noteq> AgentShared \<and> mg_is_group mg \<noteq> 0 then PerThread else ma_session_mode a)"

definition reply_addr :: "inbound_event \<Rightarrow> string option \<Rightarrow> delivery_addr" where
  "reply_addr e threadId = or_else (ie_replyTo e)
     \<lparr>da_channelType = ie_channelType e, da_platformId = ie_platformId e, da_threadId = threadId\<rparr>"

definition gate_of :: "inbound_event \<Rightarrow> string option \<Rightarrow> string \<Rightarrow> router_world \<Rightarrow> gate_result" where
  "gate_of e userId agentGroupId w =
     (if ie_kind e = ''chat'' \<or> ie_kind e = ''chat-sdk'' then gateCommand (ie_content e) userId agentGroupId (rw_perms w) else GatePass)"

text \<open>\<open>deliverToAgent\<close>; the backfill, typing indicator and container start are outside the model.
  The write stamps \<open>last_active\<close>.\<close>

definition stamp_active :: "string \<Rightarrow> session_updates" where
  "stamp_active now = \<lparr>su_status = None, su_container_status = None, su_last_active = Some (Some now), su_agent_provider = None\<rparr>"

definition write_and_wake :: "route_env \<Rightarrow> inbound_event \<Rightarrow> wiring \<Rightarrow> session \<Rightarrow> bool \<Rightarrow> delivery_addr \<Rightarrow> bool \<Rightarrow> router_world \<Rightarrow> router_world" where
  "write_and_wake env e a s created addr wake w =
     (let mid = messageIdForAgent env (ie_id e) (ma_agent_group_id a);
          w1 = emit (Wrote (se_id s) (se_agent_group_id s) mid addr wake)
                 (w\<lparr>rw_central := updateSession (se_id s) (stamp_active (re_now env)) (rw_central w)\<rparr>)
      in if \<not> wake then w1
         else let w2 = (if created then emit (CreatedSession (se_id s)) w1 else w1);
                  w3 = (if getSession (se_id s) (rw_central w2) \<noteq> None then emit (Woke (se_id s)) w2 else w2)
              in emit (Echoed (se_id s) mid) w3)"

definition deliverToAgent :: "route_env \<Rightarrow> inbound_event \<Rightarrow> wiring \<Rightarrow> messaging_group \<Rightarrow> string option \<Rightarrow> bool \<Rightarrow> string option \<Rightarrow> bool \<Rightarrow> router_world \<Rightarrow> unit result \<times> router_world" where
  "deliverToAgent env e a mg userId threadsEnabled threadId wake w =
     (case resolveSession (re_session_id env (ma_agent_group_id a)) (re_now env) (ma_agent_group_id a) (Some (mg_id mg)) threadId
             (effective_mode a threadsEnabled mg) (rw_central w) of
        (Inl err, db) \<Rightarrow> (Inl err, w\<lparr>rw_central := db\<rparr>)
      | (Inr (s, created), db) \<Rightarrow>
          (let w' = w\<lparr>rw_central := db\<rparr>; addr = reply_addr e threadId in
           case gate_of e userId (ma_agent_group_id a) w' of
             GateFilter \<Rightarrow> (Inr (), w')
           | GateDeny command \<Rightarrow> (Inr (), emit (DeniedCommand (se_id s) command addr) w')
           | GatePass \<Rightarrow> (Inr (), write_and_wake env e a s created addr wake w')))"

text \<open>One wiring of the fan-out: whether the agent engaged or accumulated, and whether the thread
  was subscribed.\<close>

record fan_state =
  fs_reached :: nat
  fs_subscribed :: bool

definition subscribe_now :: "route_env \<Rightarrow> inbound_event \<Rightarrow> wiring \<Rightarrow> messaging_group \<Rightarrow> string option \<Rightarrow> fan_state \<Rightarrow> bool" where
  "subscribe_now env e a mg threadId fs =
     (\<not> fs_subscribed fs \<and> ma_engage_mode a = EngageSticky
      \<and> (case getChannelAdapter (or_else (ie_instance e) (ie_channelType e)) (re_registry env) of None \<Rightarrow> False | Some ad \<Rightarrow> an_subscribe ad)
      \<and> threadId \<noteq> None \<and> mg_is_group mg \<noteq> 0)"

definition fan_one :: "route_env \<Rightarrow> inbound_event \<Rightarrow> messaging_group \<Rightarrow> string option \<Rightarrow> string \<Rightarrow> wiring \<Rightarrow> fan_state \<Rightarrow> router_world
    \<Rightarrow> fan_state result \<times> router_world" where
  "fan_one env e mg userId text a fs w =
     (if ma_agent_group_id a \<notin> set (ld_agent_groups (md_links (rw_mg w))) then (Inr fs, w)
      else let adapter = getChannelAdapter (or_else (ie_instance e) (ie_channelType e)) (re_registry env);
               supports = (case adapter of None \<Rightarrow> False | Some ad \<Rightarrow> an_supportsThreads ad);
               threadsEnabled = resolveThreadPolicy (ma_threads a)
                 (getChannelDefaults (mg_instance mg) (Some (mg_channel_type mg)) (re_registry env)) (mg_is_group mg = 1) supports;
               threadId = (if threadsEnabled then ie_threadId e else None);
               engages = evaluateEngage env a text (ie_isMention e) mg threadId w
           in case (if engages then accessGate env e userId mg (ma_agent_group_id a) w else (Inr False, w)) of
                (Inl err, w1) \<Rightarrow> (Inl err, w1)
              | (Inr accessOk, w1) \<Rightarrow>
                  (let scopeOk = (engages \<and> senderScopeGate userId a w1) in
                   if engages \<and> accessOk \<and> scopeOk then
                     (case deliverToAgent env e a mg userId threadsEnabled threadId True w1 of
                        (Inl err, w2) \<Rightarrow> (Inl err, w2)
                      | (Inr _, w2) \<Rightarrow>
                          if subscribe_now env e a mg threadId fs
                          then (Inr (fs\<lparr>fs_reached := fs_reached fs + 1, fs_subscribed := True\<rparr>),
                                emit (Subscribed (ie_platformId e) (the threadId)) w2)
                          else (Inr (fs\<lparr>fs_reached := fs_reached fs + 1\<rparr>), w2))
                   else if ma_ignored a = AccumulateIgnored \<and> \<not> (engages \<and> (\<not> accessOk \<or> \<not> scopeOk)) then
                     (case deliverToAgent env e a mg userId threadsEnabled threadId False w1 of
                        (Inl err, w2) \<Rightarrow> (Inl err, w2)
                      | (Inr _, w2) \<Rightarrow> (Inr (fs\<lparr>fs_reached := fs_reached fs + 1\<rparr>), w2))
                   else (Inr fs, w1)))"

fun fan_out :: "route_env \<Rightarrow> inbound_event \<Rightarrow> messaging_group \<Rightarrow> string option \<Rightarrow> string \<Rightarrow> wiring list \<Rightarrow> fan_state \<Rightarrow> router_world
    \<Rightarrow> fan_state result \<times> router_world" where
  "fan_out env e mg userId text [] fs w = (Inr fs, w)"
| "fan_out env e mg userId text (a # as) fs w =
     (case fan_one env e mg userId text a fs w of
        (Inl err, w1) \<Rightarrow> (Inl err, w1)
      | (Inr fs1, w1) \<Rightarrow> fan_out env e mg userId text as fs1 w1)"

text \<open>The chat of the event: found, auto-created for a mention, or absent.\<close>

definition new_group :: "route_env \<Rightarrow> inbound_event \<Rightarrow> messaging_group" where
  "new_group env e =
     \<lparr>mg_id = re_mg_id env, mg_channel_type = ie_channelType e, mg_platform_id = ie_platformId e,
      mg_instance = or_else (ie_instance e) (ie_channelType e), mg_name = None,
      mg_is_group = (if ie_isGroup e = Some True then 1 else 0),
      mg_policy = resolveUnknownSenderPolicy (or_else (ie_instance e) (ie_channelType e)) (ie_isGroup e = Some True)
        (Some (ie_channelType e)) (re_registry env),
      mg_created_at = re_now env, mg_denied_at = None, mg_detached_at = None\<rparr>"

definition find_group :: "inbound_event \<Rightarrow> mg_db \<Rightarrow> (messaging_group \<times> nat) option" where
  "find_group e db = getMessagingGroupWithAgentCount (ie_channelType e) (ie_platformId e) (or_else (ie_instance e) (ie_channelType e)) db"

definition group_of_event :: "route_env \<Rightarrow> inbound_event \<Rightarrow> mg_db \<Rightarrow> (messaging_group \<times> nat) option result \<times> mg_db" where
  "group_of_event env e db =
     (case find_group e db of
        Some found \<Rightarrow> (Inr (Some found), db)
      | None \<Rightarrow>
          if \<not> ie_isMention e then (Inr None, db)
          else case createMessagingGroupIfAbsent (new_group env e) db of
                 (Inl err, db') \<Rightarrow> (Inl err, db')
               | (Inr _, db') \<Rightarrow>
                   (case find_group e db' of
                      None \<Rightarrow> (Inl ''Messaging group disappeared after first-message insert'', db')
                    | Some found \<Rightarrow> (Inr (Some found), db')))"

definition route_unwired :: "route_env \<Rightarrow> inbound_event \<Rightarrow> messaging_group \<Rightarrow> router_world \<Rightarrow> unit result \<times> router_world" where
  "route_unwired env e mg w =
     (if \<not> ie_isMention e \<or> truthy (mg_denied_at mg) then (Inr (), w)
      else let parsed = safeParseContent (ie_content e) in
        if no_props parsed then (Inl ''TypeError'', w)
        else (Inr (), emit (AskedChannelApproval (mg_id mg))
               (recordDroppedMessage (drop_row env e None (get_prop parsed ''sender'') ''no_agent_wired'' (Some (mg_id mg)) None) w)))"

text \<open>\<open>parsed.text ?? ''\<close> as the text a pattern is tested on.\<close>

definition message_text :: "route_env \<Rightarrow> jsval \<Rightarrow> string" where
  "message_text env parsed =
     (case get_prop parsed ''text'' of Str s \<Rightarrow> s | Null \<Rightarrow> [] | Undefined \<Rightarrow> [] | v \<Rightarrow> re_string env v)"

definition route_wired :: "route_env \<Rightarrow> inbound_event \<Rightarrow> messaging_group \<Rightarrow> router_world \<Rightarrow> unit result \<times> router_world" where
  "route_wired env e mg w =
     (case extractAndUpsertUser (re_now env) e (rw_perms w) of
        (Inl err, p) \<Rightarrow> (Inl err, w\<lparr>rw_perms := p\<rparr>)
      | (Inr userId, p) \<Rightarrow>
          (let w1 = w\<lparr>rw_perms := p\<rparr>; parsed = safeParseContent (ie_content e) in
           if no_props parsed then (Inl ''TypeError'', w1)
           else case fan_out env e mg userId (message_text env parsed) (getMessagingGroupAgents (mg_id mg) (rw_mg w1))
                       \<lparr>fs_reached = 0, fs_subscribed = False\<rparr> w1 of
                  (Inl err, w2) \<Rightarrow> (Inl err, w2)
                | (Inr fs, w2) \<Rightarrow>
                    (Inr (), if fs_reached fs = 0
                             then recordDroppedMessage (drop_row env e userId (get_prop parsed ''sender'') ''no_agent_engaged''
                                    (Some (mg_id mg)) None) w2
                             else w2)))"

text \<open>A non-threaded adapter collapses threads to the channel before anything else.\<close>

definition collapse_thread :: "route_env \<Rightarrow> inbound_event \<Rightarrow> inbound_event" where
  "collapse_thread env e =
     (case getChannelAdapter (or_else (ie_instance e) (ie_channelType e)) (re_registry env) of
        None \<Rightarrow> e
      | Some ad \<Rightarrow> if an_supportsThreads ad then e else e\<lparr>ie_threadId := None\<rparr>)"

definition routeInbound :: "route_env \<Rightarrow> bool \<Rightarrow> inbound_event \<Rightarrow> router_world \<Rightarrow> unit result \<times> router_world" where
  "routeInbound env intercepted event w =
     (if intercepted then (Inr (), w)
      else let e = collapse_thread env event in
        case group_of_event env e (rw_mg w) of
          (Inl err, db) \<Rightarrow> (Inl err, w\<lparr>rw_mg := db\<rparr>)
        | (Inr None, db) \<Rightarrow> (Inr (), w\<lparr>rw_mg := db\<rparr>)
        | (Inr (Some (mg, agentCount)), db) \<Rightarrow>
            (if agentCount = 0 then route_unwired env e mg (w\<lparr>rw_mg := db\<rparr>)
             else route_wired env e mg (w\<lparr>rw_mg := db\<rparr>)))"

section \<open>Who is admitted\<close>

definition admitted :: "messaging_group \<Rightarrow> string option \<Rightarrow> wiring \<Rightarrow> perm_db \<Rightarrow> bool" where
  "admitted mg userId a pdb =
     ((mg_policy mg = PublicPolicy \<or> (truthy userId \<and> access_ok (canAccessAgentGroup (the userId) (ma_agent_group_id a) pdb)))
      \<and> (ma_sender_scope a = ScopeAll \<or> (truthy userId \<and> access_ok (canAccessAgentGroup (the userId) (ma_agent_group_id a) pdb))))"

text \<open>The mailbox writes among the effects: the agent group and whether the write wakes.\<close>

fun write_of :: "effect \<Rightarrow> (string \<times> bool) option" where
  "write_of (Wrote sid ag mid addr wake) = Some (ag, wake)"
| "write_of _ = None"

definition writes :: "router_world \<Rightarrow> (string \<times> bool) set" where
  "writes w = {x. \<exists>e\<in>set (rw_effects w). write_of e = Some x}"

lemma writes_emit [simp]: "writes (emit e w) = (case write_of e of None \<Rightarrow> writes w | Some x \<Rightarrow> insert x (writes w))"
  by (auto simp: writes_def emit_def split: option.splits)

lemma writes_update [simp]:
  "writes (w\<lparr>rw_central := db\<rparr>) = writes w" "writes (w\<lparr>rw_perms := p\<rparr>) = writes w" "writes (w\<lparr>rw_mg := m\<rparr>) = writes w"
  "writes (recordDroppedMessage r w) = writes w"
  by (simp_all add: writes_def recordDroppedMessage_def)

lemma perms_kept [simp]:
  "rw_perms (emit e w) = rw_perms w" "rw_perms (recordDroppedMessage r w) = rw_perms w"
  "rw_mg (emit e w) = rw_mg w" "rw_mg (recordDroppedMessage r w) = rw_mg w"
  by (simp_all add: emit_def recordDroppedMessage_def)

definition quiet :: "router_world \<Rightarrow> router_world \<Rightarrow> bool" where
  "quiet w w' = (rw_perms w' = rw_perms w \<and> rw_mg w' = rw_mg w \<and> writes w' = writes w)"

lemma quiet_world_refl [simp]: "quiet w w"
  by (simp add: quiet_def)

lemma handleUnknownSender_quiet: "handleUnknownSender env mg u ag e w = (r, w') \<Longrightarrow> quiet w w'"
  by (auto simp: handleUnknownSender_def Let_def quiet_def split: if_splits)

lemma accessGate_cases:
  assumes "accessGate env e u mg ag w = (r, w')"
  shows "quiet w w' \<and> (r = Inr True \<longrightarrow> mg_policy mg = PublicPolicy \<or> (truthy u \<and> access_ok (canAccessAgentGroup (the u) ag (rw_perms w))))"
  using assms
  by (auto simp: accessGate_def quiet_def [of w w] split: if_splits prod.splits sum.splits dest: handleUnknownSender_quiet)

lemma resolveSession_group:
  assumes "resolveSession i now g m t mode db = (Inr (s, c), db')"
  shows "se_agent_group_id s = g"
proof (cases "lookup_route g m t mode db")
  case None
  then show ?thesis
    using assms create_or_adopt_cases lookup_route_serves
    by (fastforce simp: resolveSession_def lookup_raced_eq new_session_def serves_def)
next
  case (Some x)
  then show ?thesis using assms lookup_route_serves [OF Some] by (simp add: resolveSession_def serves_def)
qed

lemma write_and_wake_writes:
  "writes (write_and_wake env e a s c addr wake w) = insert (se_agent_group_id s, wake) (writes w)"
  "rw_perms (write_and_wake env e a s c addr wake w) = rw_perms w"
  "rw_mg (write_and_wake env e a s c addr wake w) = rw_mg w"
  by (simp_all add: write_and_wake_def Let_def)

lemma deliverToAgent_writes:
  assumes "deliverToAgent env e a mg u te t wake w = (r, w')"
  shows "writes w' \<subseteq> insert (ma_agent_group_id a, wake) (writes w) \<and> rw_perms w' = rw_perms w \<and> rw_mg w' = rw_mg w"
  using assms
  by (auto simp: deliverToAgent_def Let_def write_and_wake_writes
      split: prod.splits sum.splits gate_result.splits dest: resolveSession_group)

lemma fan_one_writes:
  assumes "fan_one env e mg u text a fs w = (r, w')"
  shows "rw_perms w' = rw_perms w \<and> rw_mg w' = rw_mg w
    \<and> writes w' \<subseteq> writes w \<union> (if admitted mg u a (rw_perms w) then {(ma_agent_group_id a, True)} else {})
        \<union> (if ma_ignored a = AccumulateIgnored then {(ma_agent_group_id a, False)} else {})"
proof (cases "ma_agent_group_id a \<in> set (ld_agent_groups (md_links (rw_mg w)))")
  case True
  define threadsEnabled where "threadsEnabled = resolveThreadPolicy (ma_threads a)
    (getChannelDefaults (mg_instance mg) (Some (mg_channel_type mg)) (re_registry env)) (mg_is_group mg = 1)
    (case getChannelAdapter (or_else (ie_instance e) (ie_channelType e)) (re_registry env) of None \<Rightarrow> False | Some ad \<Rightarrow> an_supportsThreads ad)"
  define threadId where "threadId = (if threadsEnabled then ie_threadId e else None)"
  define engages where "engages = evaluateEngage env a text (ie_isMention e) mg threadId w"
  obtain g w1 where g: "(if engages then accessGate env e u mg (ma_agent_group_id a) w else (Inr False, w)) = (g, w1)"
    by (cases "(if engages then accessGate env e u mg (ma_agent_group_id a) w else (Inr False, w))") auto
  have q: "quiet w w1" using g accessGate_cases by (auto simp: quiet_def [of w w] split: if_splits)
  show ?thesis
  proof (cases g)
    case (Inl err)
    then show ?thesis using assms True g q
      by (simp add: fan_one_def Let_def flip: threadsEnabled_def threadId_def engages_def) (auto simp: quiet_def)
  next
    case (Inr ok)
    have adm: "admitted mg u a (rw_perms w)" if "engages" "ok" "senderScopeGate u a w1"
      using g Inr that q accessGate_cases [of env e u mg "ma_agent_group_id a" w g w1]
      by (auto simp: admitted_def senderScopeGate_def quiet_def)
    show ?thesis
      using assms True g Inr q adm
      apply (simp add: fan_one_def Let_def flip: threadsEnabled_def threadId_def engages_def)
      apply (simp split: if_splits prod.splits sum.splits)
         apply (auto simp: quiet_def split: if_splits dest!: deliverToAgent_writes)
      done
  qed
qed (use assms in \<open>auto simp: fan_one_def\<close>)

text \<open>A write that a wiring of the chat accounts for.\<close>

definition accounted :: "messaging_group \<Rightarrow> string option \<Rightarrow> wiring set \<Rightarrow> perm_db \<Rightarrow> string \<times> bool \<Rightarrow> bool" where
  "accounted mg u as pdb x =
     (\<exists>a\<in>as. ma_agent_group_id a = fst x \<and> (if snd x then admitted mg u a pdb else ma_ignored a = AccumulateIgnored))"

lemma accounted_mono: "accounted mg u as pdb x \<Longrightarrow> as \<subseteq> bs \<Longrightarrow> accounted mg u bs pdb x"
  by (auto simp: accounted_def)

lemma fan_one_accounted:
  assumes "fan_one env e mg u text a fs w = (r, w')" "x \<in> writes w'" "x \<notin> writes w"
  shows "accounted mg u {a} (rw_perms w) x"
  using fan_one_writes [OF assms(1)] assms(2,3) by (auto simp: accounted_def split: if_splits)

lemma fan_out_writes:
  assumes "fan_out env e mg u text as fs w = (r, w')"
  shows "rw_perms w' = rw_perms w \<and> rw_mg w' = rw_mg w
    \<and> (x \<in> writes w' \<longrightarrow> x \<notin> writes w \<longrightarrow> accounted mg u (set as) (rw_perms w) x)"
  using assms
proof (induction as arbitrary: fs w)
  case (Cons a as)
  obtain g w1 where g: "fan_one env e mg u text a fs w = (g, w1)" by (cases "fan_one env e mg u text a fs w")
  have one: "x \<in> writes w1 \<Longrightarrow> x \<notin> writes w \<Longrightarrow> accounted mg u (set (a # as)) (rw_perms w) x"
    by (rule accounted_mono [OF fan_one_accounted [OF g]]) auto
  have kept: "rw_perms w1 = rw_perms w" "rw_mg w1 = rw_mg w" using fan_one_writes [OF g] by auto
  show ?case
  proof (cases g)
    case (Inl err)
    then show ?thesis using Cons.prems g one kept by auto
  next
    case (Inr fs1)
    then have "fan_out env e mg u text as fs1 w1 = (r, w')" using Cons.prems g by simp
    note ih = Cons.IH [OF this]
    have "accounted mg u (set (a # as)) (rw_perms w) x" if "accounted mg u (set as) (rw_perms w) x"
      using that by (rule accounted_mono) auto
    with ih one kept show ?thesis by metis
  qed
qed simp

lemma route_wired_writes:
  assumes "route_wired env e mg w = (r, w')"
  shows "rw_mg w' = rw_mg w
    \<and> (x \<in> writes w' \<longrightarrow> x \<notin> writes w \<longrightarrow>
        (\<exists>u. sender_id e = Inr u \<and> accounted mg u (set (wirings_of (mg_id mg) (rw_mg w))) (rw_perms w') x))"
proof -
  obtain y p where y: "extractAndUpsertUser (re_now env) e (rw_perms w) = (y, p)" by (cases "extractAndUpsertUser (re_now env) e (rw_perms w)")
  show ?thesis
  proof (cases "\<exists>u. y = Inr u \<and> \<not> no_props (safeParseContent (ie_content e))")
    case False
    then show ?thesis using assms y by (auto simp: route_wired_def Let_def split: sum.splits)
  next
    case True
    then obtain u where u: "y = Inr u" by blast
    have s: "sender_id e = Inr u"
      using y u by (auto simp: extractAndUpsertUser_def split: sum.splits option.splits)
    let ?as = "getMessagingGroupAgents (mg_id mg) (rw_mg w)"
    let ?f = "fan_out env e mg u (message_text env (safeParseContent (ie_content e))) ?as
        \<lparr>fs_reached = 0, fs_subscribed = False\<rparr> (w\<lparr>rw_perms := p\<rparr>)"
    obtain z w2 where z: "?f = (z, w2)" by (cases ?f)
    have same: "rw_mg w' = rw_mg w2 \<and> rw_perms w' = rw_perms w2 \<and> writes w' = writes w2"
      using assms y u True z by (auto simp: route_wired_def Let_def split: sum.splits if_splits)
    have as: "set ?as = set (wirings_of (mg_id mg) (rw_mg w))" by (simp add: getMessagingGroupAgents_def)
    note out = fan_out_writes [OF z, of x, unfolded as]
    show ?thesis using out same s by simp
  qed
qed

lemma group_of_event_in: "group_of_event env e db = (Inr (Some (mg, n)), db') \<Longrightarrow> mg \<in> set (md_groups db') \<and> mg_address mg =
    (ie_channelType e, ie_platformId e, or_else (ie_instance e) (ie_channelType e))"
  by (auto simp: group_of_event_def find_group_def getMessagingGroupWithAgentCount_def
      dest: sql_select_in sql_select_key split: option.splits if_splits prod.splits sum.splits)

lemma sender_id_collapse [simp]: "sender_id (collapse_thread env e) = sender_id e"
  by (auto simp: collapse_thread_def sender_id_def Let_def split: option.split)

lemma collapse_thread_address [simp]:
  "ie_channelType (collapse_thread env e) = ie_channelType e" "ie_platformId (collapse_thread env e) = ie_platformId e"
  "ie_instance (collapse_thread env e) = ie_instance e"
  by (auto simp: collapse_thread_def Let_def split: option.split)

text \<open>Routing never fails for the group it just created.\<close>

lemma group_found: "group_of_event env e db = (Inl err, db') \<Longrightarrow> err = ''UNIQUE constraint failed''"
  using created_or_present [of "new_group env e" db]
  by (auto simp: group_of_event_def find_group_def getMessagingGroupWithAgentCount_def createMessagingGroupIfAbsent_def
      unique_failed_def new_group_def mg_address_def split: option.splits if_splits sum.splits prod.splits)

text \<open>C29: A message is written to a session so as to wake its agent only if both gates admit the
  sender for a wiring of that agent to the chat the event came from, the messaging group of the event's
  channel type, platform id and adapter instance: the chat is public or the resolved sender is a known
  user with access, and likewise for the sender scope of the wiring.  A message written without waking
  is one of a wiring that accumulates what it ignores.\<close>

theorem only_admitted_senders_wake:
  assumes "routeInbound env intercepted event w = (r, w')" "rw_effects w = []"
    and "Wrote sid ag mid addr wake \<in> set (rw_effects w')"
  shows "\<exists>mg u a. mg \<in> set (md_groups (rw_mg w'))
    \<and> mg_address mg = (ie_channelType event, ie_platformId event, or_else (ie_instance event) (ie_channelType event))
    \<and> sender_id event = Inr u
    \<and> a \<in> set (wirings_of (mg_id mg) (rw_mg w')) \<and> ma_agent_group_id a = ag
    \<and> (if wake then admitted mg u a (rw_perms w') else ma_ignored a = AccumulateIgnored)"
proof -
  let ?e = "collapse_thread env event"
  have new: "(ag, wake) \<in> writes w' - writes w"
    using assms(2,3) by (force simp: writes_def)
  obtain g db where g: "group_of_event env ?e (rw_mg w) = (g, db)" by (cases "group_of_event env ?e (rw_mg w)")
  have "\<exists>mg n. g = Inr (Some (mg, n)) \<and> n \<noteq> 0"
    using assms(1) new g
    by (auto simp: routeInbound_def route_unwired_def Let_def split: if_splits sum.splits option.splits prod.splits)
  then obtain mg n where mg: "g = Inr (Some (mg, n))" "n \<noteq> 0" by blast
  then have r: "route_wired env ?e mg (w\<lparr>rw_mg := db\<rparr>) = (r, w')"
    using assms(1) new g by (auto simp: routeInbound_def split: if_splits)
  have "mg \<in> set (md_groups (rw_mg w'))"
    "mg_address mg = (ie_channelType event, ie_platformId event, or_else (ie_instance event) (ie_channelType event))"
    using route_wired_writes [OF r] group_of_event_in [of env ?e "rw_mg w" mg n db] g mg by simp_all
  moreover obtain u where u: "sender_id ?e = Inr u"
      "accounted mg u (set (wirings_of (mg_id mg) (rw_mg (w\<lparr>rw_mg := db\<rparr>)))) (rw_perms w') (ag, wake)"
    using route_wired_writes [OF r, of "(ag, wake)"] new by auto
  moreover obtain a where "a \<in> set (wirings_of (mg_id mg) (rw_mg (w\<lparr>rw_mg := db\<rparr>)))" "ma_agent_group_id a = ag"
      "if wake then admitted mg u a (rw_perms w') else ma_ignored a = AccumulateIgnored"
    using u(2) unfolding accounted_def by auto
  moreover have "rw_mg (w\<lparr>rw_mg := db\<rparr>) = rw_mg w'" using route_wired_writes [OF r] by simp
  ultimately show ?thesis by (intro exI [of _ mg] exI [of _ u] exI [of _ a]) simp
qed

definition demo_world :: router_world where
  "demo_world = \<lparr>rw_mg = \<lparr>md_groups = [\<lparr>mg_id = ''mg'', mg_channel_type = ''tg'', mg_platform_id = ''7'', mg_instance = ''tg'', mg_name = None,
          mg_is_group = 1, mg_policy = StrictPolicy, mg_created_at = ''t'', mg_denied_at = None, mg_detached_at = None\<rparr>],
       md_wirings = [\<lparr>ma_id = ''w'', ma_messaging_group_id = ''mg'', ma_agent_group_id = ''ag'', ma_engage_mode = EngageMention,
          ma_engage_pattern = None, ma_sender_scope = ScopeKnown, ma_ignored = DropIgnored, ma_session_mode = Shared, ma_priority = 0,
          ma_threads = None, ma_created_at = ''t''\<rparr>],
       md_links = \<lparr>ld_destinations = [], ld_policies = [], ld_agent_groups = [''ag'']\<rparr>\<rparr>,
     rw_perms = \<lparr>pd_users = [\<lparr>usr_id = ''tg:1'', usr_kind = ''tg'', usr_display_name = None, usr_created_at = ''t''\<rparr>], pd_roles = [],
       pd_members = [\<lparr>gm_user_id = ''tg:1'', gm_agent_group_id = ''ag'', gm_added_by = None, gm_added_at = ''t''\<rparr>], pd_dms = [],
       pd_agent_groups = [''ag''], pd_messaging_groups = [''mg'']\<rparr>,
     rw_central = no_sessions, rw_dropped = [], rw_effects = []\<rparr>"

definition demo_env :: route_env where
  "demo_env = \<lparr>re_now = ''t1'', re_mg_id = ''m1'', re_session_id = (\<lambda>g. ''s-'' @ g), re_message_id = (\<lambda>g. ''m''),
     re_test = (\<lambda>p s. None), re_string = (\<lambda>v. []), re_registry = \<lparr>cr_active = [], cr_registered = []\<rparr>\<rparr>"

definition demo_event :: "string \<Rightarrow> inbound_event" where
  "demo_event content = \<lparr>ie_channelType = ''tg'', ie_platformId = ''7'', ie_instance = None, ie_threadId = None, ie_id = Some ''1'',
     ie_kind = ''chat'', ie_content = content, ie_isMention = True, ie_isGroup = Some True, ie_replyTo = None\<rparr>"

definition member_text :: string where "member_text = ''{'' @ quote ''sender'' @ '':'' @ quote ''1'' @ ''}''"
definition stranger_text :: string where "stranger_text = ''{'' @ quote ''sender'' @ '':'' @ quote ''2'' @ ''}''"

lemma demo_routes:
  "rw_effects (snd (routeInbound demo_env False (demo_event member_text) demo_world)) =
     [Wrote ''s-ag'' ''ag'' ''1:ag'' \<lparr>da_channelType = ''tg'', da_platformId = ''7'', da_threadId = None\<rparr> True,
      CreatedSession ''s-ag'', Woke ''s-ag'', Echoed ''s-ag'' ''1:ag'']"
  by code_simp

lemma demo_stranger: "rw_effects (snd (routeInbound demo_env False (demo_event stranger_text) demo_world)) = []"
  by code_simp

theorem only_admitted_senders_wake_witness:
  "\<exists>mg u a. mg \<in> set (md_groups (rw_mg (snd (routeInbound demo_env False (demo_event member_text) demo_world))))
     \<and> mg_address mg = (''tg'', ''7'', ''tg'') \<and> sender_id (demo_event member_text) = Inr u
     \<and> admitted mg u a (rw_perms (snd (routeInbound demo_env False (demo_event member_text) demo_world)))"
proof -
  let ?r = "routeInbound demo_env False (demo_event member_text) demo_world"
  have "rw_effects demo_world = []" by (simp add: demo_world_def)
  moreover have "Wrote ''s-ag'' ''ag'' ''1:ag'' \<lparr>da_channelType = ''tg'', da_platformId = ''7'', da_threadId = None\<rparr> True
      \<in> set (rw_effects (snd ?r))" by (simp add: demo_routes)
  ultimately show ?thesis
    using only_admitted_senders_wake [of demo_env False "demo_event member_text" demo_world "fst ?r" "snd ?r"]
    unfolding demo_event_def inbound_event.simps or_else_def by fastforce
qed

end
