(* ===== verification/Approvals.thy ===== *)
theory Approvals
  imports MessagingGroups Guard
begin

text \<open>
  Requesting an approval and judging a click on its card
  (\<open>nanoclaw/src/modules/approvals/primitive.ts\<close>, the authorization part of
  \<open>response-handler.ts\<close>).  The delivery of the card is an input: no adapter, delivered, or refused.
\<close>

section \<open>Cards\<close>

definition REJECT_WITH_REASON_VALUE :: string where "REJECT_WITH_REASON_VALUE = ''reject_with_reason''"

text \<open>The labels keep their text without the emoji and the ellipsis.\<close>

definition APPROVAL_OPTIONS :: "raw_option list" where
  "APPROVAL_OPTIONS =
     [RawOption ''Approve'' (Some ''Approved'') (Some ''approve'') (Some ''primary''),
      RawOption ''Reject'' (Some ''Rejected'') (Some ''reject'') (Some ''danger''),
      RawOption ''Reject with reason...'' (Some ''Rejected (awaiting reason)'') (Some REJECT_WITH_REASON_VALUE) None]"

section \<open>Picking an approver\<close>

definition add_approver :: "string \<Rightarrow> string list \<Rightarrow> string list" where
  "add_approver i approvers = (if i \<in> set approvers then approvers else approvers @ [i])"

definition pickApprover :: "string option \<Rightarrow> perm_db \<Rightarrow> string list" where
  "pickApprover agentGroupId db =
     fold add_approver (map ur_user_id
       ((if truthy agentGroupId then getAdminsOfAgentGroup (the agentGroupId) db else []) @ getGlobalAdmins db @ getOwners db)) []"

definition channelTypeOf :: "string \<Rightarrow> string" where
  "channelTypeOf userId = (if CHR '':'' \<in> set userId then takeWhile (\<lambda>c. c \<noteq> CHR '':'') userId else [])"

record appr_world =
  aw_mg :: mg_db
  aw_perms :: perm_db
  aw_central :: central_db
  aw_notes :: "(string \<times> string) list"
  aw_cards :: "(string \<times> string) list"

datatype card_outcome = NoAdapter | CardDelivered | CardRefused

record appr_env =
  ae_now :: string
  ae_approval_id :: string
  ae_dm_id :: "string \<Rightarrow> string"
  ae_registry :: channel_registry
  ae_card :: card_outcome

definition ensure_dm :: "appr_env \<Rightarrow> string \<Rightarrow> string option \<Rightarrow> appr_world \<Rightarrow> messaging_group option result \<times> appr_world" where
  "ensure_dm env userId inst w =
     (case ensureUserDm (ae_dm_id env userId) (ae_now env) (ae_registry env) userId inst (aw_mg w) (aw_perms w) of
        (r, mdb, pdb) \<Rightarrow> (r, w\<lparr>aw_mg := mdb, aw_perms := pdb\<rparr>))"

fun first_reachable :: "appr_env \<Rightarrow> string option \<Rightarrow> string list \<Rightarrow> appr_world \<Rightarrow> (string \<times> messaging_group) option result \<times> appr_world" where
  "first_reachable env inst [] w = (Inr None, w)"
| "first_reachable env inst (u # us) w =
     (case ensure_dm env u inst w of
        (Inl e, w') \<Rightarrow> (Inl e, w')
      | (Inr (Some m), w') \<Rightarrow> (Inr (Some (u, m)), w')
      | (Inr None, w') \<Rightarrow> first_reachable env inst us w')"

definition pickApprovalDelivery :: "appr_env \<Rightarrow> string list \<Rightarrow> string \<Rightarrow> string option \<Rightarrow> appr_world
    \<Rightarrow> (string \<times> messaging_group) option result \<times> appr_world" where
  "pickApprovalDelivery env approvers originChannelType originInstance w =
     (let here = (\<lambda>u. originChannelType \<noteq> [] \<and> channelTypeOf u = originChannelType) in
      case first_reachable env originInstance (filter here approvers) w of
        (Inr None, w') \<Rightarrow> first_reachable env None (filter (\<lambda>u. \<not> here u) approvers) w'
      | done_ \<Rightarrow> done_)"

section \<open>Requesting\<close>

record approval_request =
  aq_session :: session
  aq_action :: string
  aq_payload :: string
  aq_title :: string
  aq_question :: string
  aq_approver :: "string option"

definition notifyAgent :: "session \<Rightarrow> string \<Rightarrow> appr_world \<Rightarrow> appr_world" where
  "notifyAgent s text w = w\<lparr>aw_notes := aw_notes w @ [(se_id s, text)]\<rparr>"

definition request_row :: "appr_env \<Rightarrow> approval_request \<Rightarrow> string \<Rightarrow> messaging_group \<Rightarrow> pending_approval" where
  "request_row env q target m =
     (approval_defaults (ae_approval_id env) (ae_approval_id env) (aq_action q) (aq_payload q) (ae_now env) (aq_title q)
        (json_print (options_out (normalizeOptions APPROVAL_OPTIONS))))
     \<lparr>pa_session_id := Some (se_id (aq_session q)), pa_channel_type := Some (mg_channel_type m),
      pa_platform_id := Some (mg_platform_id m), pa_instance := Some (mg_instance m), pa_question := aq_question q,
      pa_approver_user_id := Some (or_else (aq_approver q) target)\<rparr>"

definition send_card :: "appr_env \<Rightarrow> approval_request \<Rightarrow> string \<Rightarrow> appr_world \<Rightarrow> appr_world" where
  "send_card env q target w =
     (case ae_card env of
        NoAdapter \<Rightarrow> w
      | CardDelivered \<Rightarrow> w\<lparr>aw_cards := aw_cards w @ [(target, ae_approval_id env)]\<rparr>
      | CardRefused \<Rightarrow> notifyAgent (aq_session q) (aq_action q @ '' failed: could not deliver approval request to '' @ target @ ''.'')
                        (w\<lparr>aw_central := deletePendingApproval (ae_approval_id env) (aw_central w)\<rparr>))"

definition origin_of :: "approval_request \<Rightarrow> appr_world \<Rightarrow> messaging_group option" where
  "origin_of q w = (case se_messaging_group_id (aq_session q) of None \<Rightarrow> None
     | Some i \<Rightarrow> if i = [] then None else getMessagingGroup i (aw_mg w))"

definition requestApproval :: "appr_env \<Rightarrow> approval_request \<Rightarrow> appr_world \<Rightarrow> unit result \<times> appr_world" where
  "requestApproval env q w =
     (let approvers = (if truthy (aq_approver q) then [the (aq_approver q)]
                       else pickApprover (Some (se_agent_group_id (aq_session q))) (aw_perms w)) in
      if approvers = []
      then (Inr (), notifyAgent (aq_session q) (aq_action q @ '' failed: no owner or admin configured to approve.'') w)
      else let origin = origin_of q w in
        case pickApprovalDelivery env approvers (case origin of None \<Rightarrow> [] | Some m \<Rightarrow> mg_channel_type m)
               (map_option mg_instance origin) w of
          (Inl e, w') \<Rightarrow> (Inl e, w')
        | (Inr None, w') \<Rightarrow>
            (Inr (), notifyAgent (aq_session q) (aq_action q @ '' failed: no DM channel found for any eligible approver.'') w')
        | (Inr (Some (target, m)), w') \<Rightarrow>
            (case createPendingApproval (request_row env q target m) (aw_central w') of
               (Inl e, db) \<Rightarrow> (Inl e, w'\<lparr>aw_central := db\<rparr>)
             | (Inr _, db) \<Rightarrow> (Inr (), send_card env q target (w'\<lparr>aw_central := db\<rparr>))))"

section \<open>Judging a click\<close>

record response_payload =
  rp_questionId :: string
  rp_value :: string
  rp_userId :: "string option"
  rp_channelType :: string

definition namespacedUserId :: "response_payload \<Rightarrow> string option" where
  "namespacedUserId p =
     (if \<not> truthy (rp_userId p) then None
      else let u = the (rp_userId p) in Some (if CHR '':'' \<in> set u then u else rp_channelType p @ '':'' @ u))"

definition approval_group :: "pending_approval \<Rightarrow> central_db \<Rightarrow> string option" where
  "approval_group a db =
     (case pa_agent_group_id a of
        Some g \<Rightarrow> Some g
      | None \<Rightarrow> if truthy (pa_session_id a) then map_option se_agent_group_id (getSession (the (pa_session_id a)) db) else None)"

definition isAuthorizedApprovalClick :: "pending_approval \<Rightarrow> response_payload \<Rightarrow> perm_db \<Rightarrow> central_db \<Rightarrow> bool" where
  "isAuthorizedApprovalClick a p perms db =
     (case namespacedUserId p of
        None \<Rightarrow> False
      | Some userId \<Rightarrow>
          if truthy (pa_approver_user_id a) then Some userId = pa_approver_user_id a
          else if \<not> truthy (approval_group a db) then isOwner userId perms \<or> isGlobalAdmin userId perms
          else hasAdminPrivilege userId (the (approval_group a db)) perms)"

section \<open>Approvers are the privileged users\<close>

lemma fold_add_approver:
  "set (fold add_approver us acc) = set us \<union> set acc"
  "distinct acc \<Longrightarrow> distinct (fold add_approver us acc)"
  by (induction us arbitrary: acc) (auto simp: add_approver_def)

lemma pickApprover_set:
  "set (pickApprover g db) = {u. isOwner u db \<or> isGlobalAdmin u db \<or> (truthy g \<and> isAdminOfAgentGroup u (the g) db)}"
  unfolding pickApprover_def fold_add_approver(1)
  using role_lists(1) [of db] role_lists(2) [of db] role_lists(3) [of "the g" db] by auto

lemma pickApprover_distinct: "distinct (pickApprover g db)"
  by (simp add: pickApprover_def fold_add_approver)

text \<open>Without a named approver, the users whose click on an approval is accepted are exactly
  the ones the request would have been offered to, each listed once.\<close>

theorem clicks_of_approvers:
  assumes "\<not> truthy (pa_approver_user_id a)"
  shows "(isAuthorizedApprovalClick a p perms db \<longleftrightarrow>
      (\<exists>u. namespacedUserId p = Some u \<and> u \<in> set (pickApprover (approval_group a db) perms)))
    \<and> distinct (pickApprover (approval_group a db) perms)"
  using assms
  by (auto simp: isAuthorizedApprovalClick_def pickApprover_set pickApprover_distinct hasAdminPrivilege_def
      split: option.split)

section \<open>A request is answerable by the user it was sent to, and by no one else\<close>

lemma ensure_dm_frame:
  assumes "ensure_dm env u inst w = (r, w')"
  shows "aw_central w' = aw_central w \<and> aw_notes w' = aw_notes w \<and> (r = Inr (Some m) \<longrightarrow> u \<noteq> [])"
proof -
  have "u \<noteq> []" if "r = Inr (Some m)"
    using assms that getUser_def sql_select_key
    by (fastforce simp: ensure_dm_def ensureUserDm_def parseUserId_def getUser_def
        split: prod.splits option.splits if_splits)
  then show ?thesis using assms by (auto simp: ensure_dm_def split: prod.splits)
qed

lemma first_reachable_frame:
  assumes "first_reachable env inst us w = (r, w')"
  shows "aw_central w' = aw_central w \<and> aw_notes w' = aw_notes w
    \<and> (r = Inr (Some (u, m)) \<longrightarrow> u \<in> set us \<and> u \<noteq> [])"
  using assms
proof (induction us arbitrary: w)
  case (Cons v us)
  obtain x w1 where x: "ensure_dm env v inst w = (x, w1)" by (cases "ensure_dm env v inst w")
  show ?case
    using Cons x ensure_dm_frame [OF x, of m]
    by (cases x; cases "projr x") (auto split: sum.splits option.splits)
qed auto

lemma pickApprovalDelivery_frame:
  assumes "pickApprovalDelivery env us ch inst w = (r, w')"
  shows "aw_central w' = aw_central w \<and> aw_notes w' = aw_notes w
    \<and> (r = Inr (Some (u, m)) \<longrightarrow> u \<in> set us \<and> u \<noteq> [])"
proof -
  let ?here = "\<lambda>u. ch \<noteq> [] \<and> channelTypeOf u = ch"
  obtain x w1 where x: "first_reachable env inst (filter ?here us) w = (x, w1)"
    by (cases "first_reachable env inst (filter ?here us) w")
  note one = first_reachable_frame [OF x]
  show ?thesis
  proof (cases "x = Inr None")
    case True
    then have "first_reachable env None (filter (\<lambda>u. \<not> ?here u) us) w1 = (r, w')"
      using assms x by (simp add: pickApprovalDelivery_def Let_def)
    from first_reachable_frame [OF this, of u m] one [of u m] show ?thesis by auto
  next
    case False
    then have "x = r" "w1 = w'" using assms x by (auto simp: pickApprovalDelivery_def Let_def split: sum.splits option.splits)
    then show ?thesis using one [of u m] by auto
  qed
qed

lemma created_row: "createPendingApproval a db = (Inr b, db') \<Longrightarrow> getPendingApproval (pa_approval_id a) db = None \<Longrightarrow>
    getPendingApproval (pa_approval_id a) db' = Some a"
  by (auto simp: createPendingApproval_def getPendingApproval_def sql_select_append sql_select_Cons fk_failed_def split: if_splits)

definition sole_judge :: "pending_approval \<Rightarrow> string \<Rightarrow> bool" where
  "sole_judge row u \<longleftrightarrow> (\<forall>p perms db. isAuthorizedApprovalClick row p perms db \<longleftrightarrow> namespacedUserId p = Some u)"

lemma named_judge: "pa_approver_user_id row = Some u \<Longrightarrow> u \<noteq> [] \<Longrightarrow> sole_judge row u"
  by (auto simp: sole_judge_def isAuthorizedApprovalClick_def split: option.split)

text \<open>C30: A request that ends normally either leaves no row and tells the agent why, or a pending
  row that exactly one user may decide: the approver named by the request, else the privileged user
  to whose chat the card went.\<close>

theorem request_has_one_judge:
  assumes "requestApproval env q w = (Inr (), w')" "getPendingApproval (ae_approval_id env) (aw_central w) = None"
    and "aq_approver q \<noteq> Some []"
  shows "case getPendingApproval (ae_approval_id env) (aw_central w') of
      None \<Rightarrow> aw_notes w' \<noteq> aw_notes w
    | Some row \<Rightarrow> pa_status row = ApPending \<and> pa_action row = aq_action q \<and>
        (\<exists>u. sole_judge row u \<and> (if aq_approver q = None then u \<in> set (pickApprover (Some (se_agent_group_id (aq_session q))) (aw_perms w))
              else aq_approver q = Some u))"
proof -
  let ?us = "if truthy (aq_approver q) then [the (aq_approver q)] else pickApprover (Some (se_agent_group_id (aq_session q))) (aw_perms w)"
  let ?ch = "case origin_of q w of None \<Rightarrow> [] | Some m \<Rightarrow> mg_channel_type m"
  obtain r w1 where r: "pickApprovalDelivery env ?us ?ch (map_option mg_instance (origin_of q w)) w = (r, w1)"
    by (cases "pickApprovalDelivery env ?us ?ch (map_option mg_instance (origin_of q w)) w")
  note frame = pickApprovalDelivery_frame [OF r]
  show ?thesis
  proof (cases "?us = [] \<or> r = Inr None")
    case True
    then show ?thesis
      using assms r frame by (auto simp: requestApproval_def Let_def notifyAgent_def split: if_splits)
  next
    case False
    then obtain u m db b where um: "r = Inr (Some (u, m))" and
      c: "createPendingApproval (request_row env q u m) (aw_central w1) = (Inr b, db)" and
      w': "w' = send_card env q u (w1\<lparr>aw_central := db\<rparr>)"
      using assms(1) r by (auto simp: requestApproval_def Let_def split: sum.splits option.splits prod.splits)
    have u: "u \<in> set ?us" "u \<noteq> []" using frame [of u m] um by auto
    have row: "getPendingApproval (ae_approval_id env) db = Some (request_row env q u m)"
      using created_row [OF c] assms(2) frame [of u m]
      by (simp add: request_row_def approval_defaults_def)
    have judge: "sole_judge (request_row env q u m) u"
      using u assms(3) by (intro named_judge)
        (cases "aq_approver q"; auto simp: request_row_def approval_defaults_def or_else_def)
    have "if aq_approver q = None then u \<in> set (pickApprover (Some (se_agent_group_id (aq_session q))) (aw_perms w)) else aq_approver q = Some u"
      using u assms(3) by (cases "aq_approver q") auto
    then have "pa_status (request_row env q u m) = ApPending \<and> pa_action (request_row env q u m) = aq_action q \<and>
        (\<exists>u'. sole_judge (request_row env q u m) u' \<and>
          (if aq_approver q = None then u' \<in> set (pickApprover (Some (se_agent_group_id (aq_session q))) (aw_perms w)) else aq_approver q = Some u'))"
      using judge by (auto simp: request_row_def approval_defaults_def)
    then show ?thesis
      using row frame [of u m] unfolding w'
      by (cases "ae_card env") (auto simp: send_card_def notifyAgent_def deletePendingApproval_def getPendingApproval_def sql_select_delete)
  qed
qed

definition owner_world :: appr_world where
  "owner_world = \<lparr>aw_mg = \<lparr>md_groups = [], md_wirings = [], md_links = \<lparr>ld_destinations = [], ld_policies = [], ld_agent_groups = [''ag'']\<rparr>\<rparr>,
     aw_perms = \<lparr>pd_users = [\<lparr>usr_id = ''tg:1'', usr_kind = ''tg'', usr_display_name = None, usr_created_at = ''t''\<rparr>],
       pd_roles = [\<lparr>ur_user_id = ''tg:1'', ur_role = OwnerRole, ur_agent_group_id = None, ur_granted_by = None, ur_granted_at = ''t''\<rparr>],
       pd_members = [], pd_dms = [], pd_agent_groups = [''ag''], pd_messaging_groups = []\<rparr>,
     aw_central = no_sessions\<lparr>cd_sessions := [new_session ''s1'' ''t'' ''ag'' None None]\<rparr>, aw_notes = [], aw_cards = []\<rparr>"

definition owner_env :: appr_env where
  "owner_env = \<lparr>ae_now = ''t1'', ae_approval_id = ''a1'', ae_dm_id = (\<lambda>u. ''mg-'' @ u),
     ae_registry = \<lparr>cr_active = [(''tg'', \<lparr>an_channelType = ''tg'', an_supportsThreads = False, an_defaults = None, an_openDM = None,
        an_subscribe = False\<rparr>)], cr_registered = []\<rparr>, ae_card = CardDelivered\<rparr>"

definition owner_request :: approval_request where
  "owner_request = \<lparr>aq_session = new_session ''s1'' ''t'' ''ag'' None None, aq_action = ''create_agent'', aq_payload = ''{}'',
     aq_title = ''T'', aq_question = ''Q'', aq_approver = None\<rparr>"

lemma owner_requested:
  "requestApproval owner_env owner_request owner_world = (Inr (), snd (requestApproval owner_env owner_request owner_world))"
  "map_option pa_approver_user_id (getPendingApproval ''a1'' (aw_central (snd (requestApproval owner_env owner_request owner_world)))) = Some (Some ''tg:1'')"
  "getPendingApproval ''a1'' (aw_central owner_world) = None"
  by code_simp+

theorem request_has_one_judge_witness:
  "\<exists>row u. getPendingApproval ''a1'' (aw_central (snd (requestApproval owner_env owner_request owner_world))) = Some row
     \<and> pa_status row = ApPending \<and> sole_judge row u"
  using request_has_one_judge [OF owner_requested(1)] owner_requested(2,3)
  by (auto simp: owner_env_def owner_request_def split: option.splits)

theorem clicks_of_approvers_witness:
  "(isAuthorizedApprovalClick (approval_defaults ''a1'' ''a1'' ''x'' ''{}'' ''t'' ''T'' ''[]'')
       \<lparr>rp_questionId = ''a1'', rp_value = ''approve'', rp_userId = Some ''1'', rp_channelType = ''tg''\<rparr> (aw_perms owner_world) no_sessions
     \<longleftrightarrow> ''tg:1'' \<in> set (pickApprover None (aw_perms owner_world)))
   \<and> ''tg:1'' \<in> set (pickApprover None (aw_perms owner_world))"
proof -
  have "''tg:1'' \<in> set (pickApprover None (aw_perms owner_world))" by code_simp
  moreover have "\<not> truthy (pa_approver_user_id (approval_defaults ''a1'' ''a1'' ''x'' ''{}'' ''t'' ''T'' ''[]''))"
    by (simp add: approval_defaults_def)
  ultimately show ?thesis
    using clicks_of_approvers [of "approval_defaults ''a1'' ''a1'' ''x'' ''{}'' ''t'' ''T'' ''[]''"
        "\<lparr>rp_questionId = ''a1'', rp_value = ''approve'', rp_userId = Some ''1'', rp_channelType = ''tg''\<rparr>" "aw_perms owner_world" no_sessions]
    by (simp add: namespacedUserId_def approval_group_def approval_defaults_def)
qed

end
