(* ===== verification/ApprovalSystem.thy ===== *)
theory ApprovalSystem
  imports Approvals InboundRouter
begin

text \<open>
  The resolution of approvals as a system of interleaved tasks: clicks on cards, replies with a
  reason, the sweep of expired holds (\<open>response-handler.ts\<close>, \<open>finalize.ts\<close>,
  \<open>reason-capture.ts\<close> of \<open>nanoclaw/src/modules/approvals\<close>).  One step of a task is what runs
  between two awaits on the database; tasks interleave freely, may be cut short by an exception or a
  crash, and a restart of the host loses all of them and the armed captures.  The outside (delivery,
  handlers, roles, sessions, clock) acts through the choices of the steps.
\<close>

section \<open>Tasks\<close>

definition REASON_CAPTURE_WINDOW_MS :: int where "REASON_CAPTURE_WINDOW_MS = 5 * 60 * 1000"
definition MAX_REASON_LEN :: nat where "MAX_REASON_LEN = 280"

text \<open>A relayed reason, and whether it was cut and ends in an ellipsis.\<close>

datatype relayed = Relayed string bool

definition clampReason :: "string \<Rightarrow> relayed" where
  "clampReason raw =
     (let trimmed = js_trim raw in
      if length trimmed \<le> MAX_REASON_LEN then Relayed trimmed False else Relayed (take (MAX_REASON_LEN - 1) trimmed) True)"

definition extractText :: "string \<Rightarrow> string" where
  "extractText content = (case json_parse content of None \<Rightarrow> []
     | Some v \<Rightarrow> (case get_prop v ''text'' of Str s \<Rightarrow> s | _ \<Rightarrow> []))"

definition reason_of :: "string \<Rightarrow> relayed option" where
  "reason_of content = (let r = clampReason (extractText content) in if r = Relayed [] False then None else Some r)"

datatype task =
    ClickStart response_payload
  | ClickJudge pending_approval response_payload
  | ClickDecide pending_approval string string
  | DropRow pending_approval
  | MarkAwaiting pending_approval session string
  | AskReason pending_approval session string
  | ArmReason pending_approval string
  | RejectClaim pending_approval session string "relayed option" bool
  | RejectTell pending_approval session string "relayed option"
  | RejectDelete pending_approval session string
  | ApproveClaim pending_approval session string
  | ApproveApply pending_approval session string
  | ApproveDelete pending_approval session string
  | ResolveTell pending_approval session bool string
  | ReplyStart string string
  | ReplyCheck string string string
  | ReplyFinal pending_approval string string
  | SweepStart
  | SweepRow pending_approval

datatype appr_event =
    Claimed string bool
  | Applied string string
  | ApplyFailed string
  | NoHandler string
  | Told string string "relayed option"
  | Resolved string bool string
  | WokeSession string
  | Prompted string

text \<open>The log also records, as \<open>Claimed\<close>, which status transition won the row.\<close>

text \<open>A task with the rows the sweep it belongs to has still to visit; \<open>None\<close> is a finished slot.\<close>

type_synonym proc = "(task \<times> pending_approval list) option"

record appr_sys =
  as_central :: central_db
  as_perms :: perm_db
  as_arming :: "(string \<times> (string \<times> string)) list"
  as_handlers :: "string list"
  as_procs :: "proc list"
  as_log :: "appr_event list"
  as_used :: "string list"

datatype choice = Ok | Bad | Missing

fun continue_sweep :: "pending_approval list \<Rightarrow> proc" where
  "continue_sweep [] = None"
| "continue_sweep (a # as) = Some (SweepRow a, as)"

definition logged :: "appr_event list \<Rightarrow> appr_sys \<Rightarrow> appr_sys" where
  "logged es s = s\<lparr>as_log := as_log s @ es\<rparr>"

definition with_central :: "central_db \<Rightarrow> appr_sys \<Rightarrow> appr_sys" where
  "with_central db s = s\<lparr>as_central := db\<rparr>"

text \<open>The expected status of \<open>finalizeReject\<close>, which has two values only: is the row held for a reason?\<close>

definition held :: "pending_approval \<Rightarrow> bool" where
  "held a = (pa_status a = ApAwaitingReason)"

definition expected_status :: "bool \<Rightarrow> approval_status" where
  "expected_status h = (if h then ApAwaitingReason else ApPending)"

definition session_of :: "pending_approval \<Rightarrow> central_db \<Rightarrow> session option" where
  "session_of a db = (if truthy (pa_session_id a) then getSession (the (pa_session_id a)) db else None)"

definition dmKey :: "pending_approval \<Rightarrow> string" where
  "dmKey a = or_else (pa_instance a) (or_else (pa_channel_type a) []) @ CHR '':'' # or_else (pa_platform_id a) []"

text \<open>\<open>handleRegisteredApproval\<close> from the session lookup to the branch on the selected option.\<close>

definition decide_click :: "pending_approval \<Rightarrow> string \<Rightarrow> string \<Rightarrow> central_db \<Rightarrow> task" where
  "decide_click a v u db =
     (case session_of a db of
        None \<Rightarrow> DropRow a
      | Some s \<Rightarrow> if v = REJECT_WITH_REASON_VALUE then MarkAwaiting a s u
                  else if v \<noteq> ''approve'' then RejectClaim a s u None (held a)
                  else ApproveClaim a s u)"

text \<open>One definition for each stretch of code between two awaits.\<close>

definition find_click :: "response_payload \<Rightarrow> pending_approval list \<Rightarrow> appr_sys \<Rightarrow> proc \<times> appr_sys" where
  "find_click p rest s =
     (case getPendingApproval (rp_questionId p) (as_central s) of
        None \<Rightarrow> (None, s) | Some a \<Rightarrow> (Some (ClickJudge a p, rest), s))"

definition judge_click :: "pending_approval \<Rightarrow> response_payload \<Rightarrow> pending_approval list \<Rightarrow> appr_sys \<Rightarrow> proc \<times> appr_sys" where
  "judge_click a p rest s =
     (if isAuthorizedApprovalClick a p (as_perms s) (as_central s)
      then (Some (ClickDecide a (rp_value p) (or_else (namespacedUserId p) []), rest), s) else (None, s))"

definition drop_row_step :: "pending_approval \<Rightarrow> pending_approval list \<Rightarrow> appr_sys \<Rightarrow> proc \<times> appr_sys" where
  "drop_row_step a rest s =
     (continue_sweep rest, with_central (deletePendingApproval (pa_approval_id a) (as_central s)) s)"

definition arm_hold :: "int \<Rightarrow> pending_approval \<Rightarrow> session \<Rightarrow> string \<Rightarrow> pending_approval list \<Rightarrow> appr_sys \<Rightarrow> proc \<times> appr_sys" where
  "arm_hold now a se u rest s =
     (case markApprovalAwaitingReason (pa_approval_id a) (to_iso (now + REASON_CAPTURE_WINDOW_MS)) (as_central s) of
        (ok, db) \<Rightarrow> (if ok then Some (AskReason a se u, rest) else None, with_central db s))"

definition arm_prompt :: "choice \<Rightarrow> pending_approval \<Rightarrow> session \<Rightarrow> string \<Rightarrow> pending_approval list \<Rightarrow> appr_sys \<Rightarrow> proc \<times> appr_sys" where
  "arm_prompt c a se u rest s =
     (if u = [] \<or> \<not> truthy (pa_channel_type a) \<or> \<not> truthy (pa_platform_id a) \<or> c = Missing \<or> c = Bad
      then (Some (RejectClaim a se u None True, rest), s)
      else (Some (ArmReason a u, rest), logged [Prompted (pa_approval_id a)] s))"

definition arm_capture :: "pending_approval \<Rightarrow> string \<Rightarrow> pending_approval list \<Rightarrow> appr_sys \<Rightarrow> proc \<times> appr_sys" where
  "arm_capture a u rest s =
     (None, s\<lparr>as_arming := AList.update (dmKey a) (pa_approval_id a, u) (as_arming s)\<rparr>)"

definition reject_claim :: "pending_approval \<Rightarrow> session \<Rightarrow> string \<Rightarrow> relayed option \<Rightarrow> bool \<Rightarrow> pending_approval list \<Rightarrow> appr_sys \<Rightarrow> proc \<times> appr_sys" where
  "reject_claim a se u reason h rest s =
     (case transitionPendingApprovalStatus (pa_approval_id a) (expected_status h) ApRejected (as_central s) of
        (ok, db) \<Rightarrow> if ok then (Some (RejectTell a se u reason, rest), logged [Claimed (pa_approval_id a) False] (with_central db s))
                    else (continue_sweep rest, with_central db s))"

definition reject_tell :: "pending_approval \<Rightarrow> session \<Rightarrow> string \<Rightarrow> relayed option \<Rightarrow> pending_approval list \<Rightarrow> appr_sys \<Rightarrow> proc \<times> appr_sys" where
  "reject_tell a se u reason rest s =
     (Some (RejectDelete a se u, rest), logged [Told (pa_approval_id a) (se_id se) reason] s)"

definition reject_delete :: "pending_approval \<Rightarrow> session \<Rightarrow> string \<Rightarrow> pending_approval list \<Rightarrow> appr_sys \<Rightarrow> proc \<times> appr_sys" where
  "reject_delete a se u rest s =
     (Some (ResolveTell a se False u, rest), with_central (deletePendingApproval (pa_approval_id a) (as_central s)) s)"

definition approve_claim :: "pending_approval \<Rightarrow> session \<Rightarrow> string \<Rightarrow> pending_approval list \<Rightarrow> appr_sys \<Rightarrow> proc \<times> appr_sys" where
  "approve_claim a se u rest s =
     (case transitionPendingApprovalStatus (pa_approval_id a) ApPending ApApproved (as_central s) of
        (ok, db) \<Rightarrow> if ok then (Some (ApproveApply a se u, rest), logged [Claimed (pa_approval_id a) True] (with_central db s))
                    else (None, with_central db s))"

definition approve_apply :: "choice \<Rightarrow> pending_approval \<Rightarrow> session \<Rightarrow> string \<Rightarrow> pending_approval list \<Rightarrow> appr_sys \<Rightarrow> proc \<times> appr_sys" where
  "approve_apply c a se u rest s =
     (if pa_action a \<notin> set (as_handlers s) then (Some (ApproveDelete a se u, rest), logged [NoHandler (pa_approval_id a)] s)
      else if json_parse (pa_payload a) = None then (None, s)
      else (Some (ApproveDelete a se u, rest),
            logged (Applied (pa_approval_id a) u # (if c = Ok then [] else [ApplyFailed (pa_approval_id a)])) s))"

definition approve_delete :: "pending_approval \<Rightarrow> session \<Rightarrow> string \<Rightarrow> pending_approval list \<Rightarrow> appr_sys \<Rightarrow> proc \<times> appr_sys" where
  "approve_delete a se u rest s =
     (Some (ResolveTell a se True u, rest), with_central (deletePendingApproval (pa_approval_id a) (as_central s)) s)"

definition resolve_tell :: "pending_approval \<Rightarrow> session \<Rightarrow> bool \<Rightarrow> string \<Rightarrow> pending_approval list \<Rightarrow> appr_sys \<Rightarrow> proc \<times> appr_sys" where
  "resolve_tell a se approved u rest s =
     (continue_sweep rest, logged [Resolved (pa_approval_id a) approved u, WokeSession (se_id se)] s)"

definition reply_take :: "string \<Rightarrow> string \<Rightarrow> pending_approval list \<Rightarrow> appr_sys \<Rightarrow> proc \<times> appr_sys" where
  "reply_take k content rest s =
     (case map_of (as_arming s) k of
        None \<Rightarrow> (None, s)
      | Some (i, u) \<Rightarrow> (Some (ReplyCheck i u content, rest), s\<lparr>as_arming := AList.delete k (as_arming s)\<rparr>))"

definition reply_check :: "string \<Rightarrow> string \<Rightarrow> string \<Rightarrow> pending_approval list \<Rightarrow> appr_sys \<Rightarrow> proc \<times> appr_sys" where
  "reply_check i u content rest s =
     (case getPendingApproval i (as_central s) of
        None \<Rightarrow> (None, s)
      | Some a \<Rightarrow> if pa_status a \<noteq> ApAwaitingReason then (None, s) else (Some (ReplyFinal a u content, rest), s))"

definition reply_finish :: "pending_approval \<Rightarrow> string \<Rightarrow> string \<Rightarrow> pending_approval list \<Rightarrow> appr_sys \<Rightarrow> proc \<times> appr_sys" where
  "reply_finish a u content rest s =
     (case session_of a (as_central s) of
        None \<Rightarrow> (Some (DropRow a, rest), s)
      | Some se \<Rightarrow> (Some (RejectClaim a se u (reason_of content) (held a), rest), s))"

definition sweep_start :: "int \<Rightarrow> pending_approval list \<Rightarrow> appr_sys \<Rightarrow> proc \<times> appr_sys" where
  "sweep_start now rest s =
     (continue_sweep (getExpiredAwaitingReasonApprovals (to_iso now) (as_central s)), s)"

definition sweep_row :: "pending_approval \<Rightarrow> pending_approval list \<Rightarrow> appr_sys \<Rightarrow> proc \<times> appr_sys" where
  "sweep_row a rest s =
     (case session_of a (as_central s) of
        None \<Rightarrow> (Some (DropRow a, rest), s)
      | Some se \<Rightarrow> (Some (RejectClaim a se [] None (held a), rest), s))"

lemmas step_defs [simp] = judge_click_def drop_row_step_def arm_hold_def arm_prompt_def arm_capture_def reject_claim_def reject_tell_def reject_delete_def approve_claim_def approve_apply_def approve_delete_def resolve_tell_def reply_take_def reply_check_def reply_finish_def sweep_start_def sweep_row_def find_click_def

fun task_step :: "choice \<Rightarrow> int \<Rightarrow> task \<Rightarrow> pending_approval list \<Rightarrow> appr_sys \<Rightarrow> proc \<times> appr_sys" where
  "task_step c now (ClickStart p) rest s = find_click p rest s"
| "task_step c now (ClickJudge a p) rest s = judge_click a p rest s"
| "task_step c now (ClickDecide a v u) rest s = (Some (decide_click a v u (as_central s), rest), s)"
| "task_step c now (DropRow a) rest s = drop_row_step a rest s"
| "task_step c now (MarkAwaiting a se u) rest s = arm_hold now a se u rest s"
| "task_step c now (AskReason a se u) rest s = arm_prompt c a se u rest s"
| "task_step c now (ArmReason a u) rest s = arm_capture a u rest s"
| "task_step c now (RejectClaim a se u reason h) rest s = reject_claim a se u reason h rest s"
| "task_step c now (RejectTell a se u reason) rest s = reject_tell a se u reason rest s"
| "task_step c now (RejectDelete a se u) rest s = reject_delete a se u rest s"
| "task_step c now (ApproveClaim a se u) rest s = approve_claim a se u rest s"
| "task_step c now (ApproveApply a se u) rest s = approve_apply c a se u rest s"
| "task_step c now (ApproveDelete a se u) rest s = approve_delete a se u rest s"
| "task_step c now (ResolveTell a se approved u) rest s = resolve_tell a se approved u rest s"
| "task_step c now (ReplyStart k content) rest s = reply_take k content rest s"
| "task_step c now (ReplyCheck i u content) rest s = reply_check i u content rest s"
| "task_step c now (ReplyFinal a u content) rest s = reply_finish a u content rest s"
| "task_step c now SweepStart rest s = sweep_start now rest s"
| "task_step c now (SweepRow a) rest s = sweep_row a rest s"

section \<open>The system\<close>

text \<open>Requests carry ids never used before (random in the code).  \<open>Crash\<close> ends one task, by an
  exception; \<open>Restart\<close> all of them.\<close>

datatype sys_act =
    Request pending_approval
  | Click response_payload
  | Reply string string
  | Sweep
  | Step nat choice int
  | Crash nat
  | Restart
  | SetRoles perm_db
  | SetSessions "session list"

definition spawn :: "task \<Rightarrow> appr_sys \<Rightarrow> appr_sys" where
  "spawn t s = s\<lparr>as_procs := as_procs s @ [Some (t, [])]\<rparr>"

definition run_task :: "nat \<Rightarrow> choice \<Rightarrow> int \<Rightarrow> appr_sys \<Rightarrow> appr_sys" where
  "run_task n c now s =
     (if n < length (as_procs s) then
        (case as_procs s ! n of
           None \<Rightarrow> s
         | Some (t, rest) \<Rightarrow> (case task_step c now t rest s of (p, s') \<Rightarrow> s'\<lparr>as_procs := (as_procs s)[n := p]\<rparr>))
      else s)"

fun sys_step :: "sys_act \<Rightarrow> appr_sys \<Rightarrow> appr_sys" where
  "sys_step (Request a) s =
     (if pa_approval_id a \<in> set (as_used s) \<or> pa_status a \<noteq> ApPending then s
      else case createPendingApproval a (as_central s) of
             (Inr True, db) \<Rightarrow> s\<lparr>as_central := db, as_used := pa_approval_id a # as_used s\<rparr>
           | _ \<Rightarrow> s)"
| "sys_step (Click p) s = spawn (ClickStart p) s"
| "sys_step (Reply k content) s = spawn (ReplyStart k content) s"
| "sys_step Sweep s = spawn SweepStart s"
| "sys_step (Step n c now) s = run_task n c now s"
| "sys_step (Crash n) s = s\<lparr>as_procs := (as_procs s)[n := None]\<rparr>"
| "sys_step Restart s = s\<lparr>as_procs := [], as_arming := []\<rparr>"
| "sys_step (SetRoles p) s = s\<lparr>as_perms := p\<rparr>"
| "sys_step (SetSessions ss) s = s\<lparr>as_central := (as_central s)\<lparr>cd_sessions := ss\<rparr>\<rparr>"

definition appr_start :: "central_db \<Rightarrow> perm_db \<Rightarrow> string list \<Rightarrow> appr_sys" where
  "appr_start db perms handlers =
     \<lparr>as_central = db\<lparr>cd_approvals := []\<rparr>, as_perms = perms, as_arming = [], as_handlers = handlers, as_procs = [],
      as_log = [], as_used = []\<rparr>"

definition appr_run :: "sys_act list \<Rightarrow> appr_sys \<Rightarrow> appr_sys" where
  "appr_run acts s = fold sys_step acts s"

section \<open>The specification: an approval is a one-shot decision\<close>

text \<open>What one approval may go through: it is decided once, the decision is acted on at most once (a
  handler runs, or the agent is told), and then announced.\<close>

datatype verdict = Undecided | Decided bool | Acted bool | Closed bool

fun verdict_next :: "verdict \<Rightarrow> verdict \<Rightarrow> bool" where
  "verdict_next Undecided (Decided b) = True"
| "verdict_next (Decided b) (Acted c) = (b = c)"
| "verdict_next (Acted b) (Closed c) = (b = c)"
| "verdict_next v w = False"

fun judge :: "string \<Rightarrow> appr_event \<Rightarrow> verdict \<Rightarrow> verdict option" where
  "judge i (Claimed j b) v = (if j = i then (if v = Undecided then Some (Decided b) else None) else Some v)"
| "judge i (Applied j u) v = (if j = i then (if v = Decided True then Some (Acted True) else None) else Some v)"
| "judge i (NoHandler j) v = (if j = i then (if v = Decided True then Some (Acted True) else None) else Some v)"
| "judge i (ApplyFailed j) v = (if j = i then (if v = Acted True then Some v else None) else Some v)"
| "judge i (Told j se r) v = (if j = i then (if v = Decided False then Some (Acted False) else None) else Some v)"
| "judge i (Resolved j b u) v = (if j = i then (if v = Acted b then Some (Closed b) else None) else Some v)"
| "judge i (WokeSession se) v = Some v"
| "judge i (Prompted j) v = Some v"

text \<open>The verdict a log has reached on an approval; \<open>None\<close> when the log breaks the specification.\<close>

fun verdict_of :: "string \<Rightarrow> appr_event list \<Rightarrow> verdict \<Rightarrow> verdict option" where
  "verdict_of i [] v = Some v"
| "verdict_of i (e # es) v = Option.bind (judge i e v) (verdict_of i es)"

lemma verdict_of_append:
  "verdict_of i (es @ fs) v = Option.bind (verdict_of i es v) (verdict_of i fs)"
proof (induction es arbitrary: v)
  case (Cons e es)
  then show ?case by (cases "judge i e v") simp_all
qed simp

definition acts_on :: "string \<Rightarrow> appr_event \<Rightarrow> bool" where
  "acts_on i e = (case e of Applied j u \<Rightarrow> j = i | NoHandler j \<Rightarrow> j = i | Told j se r \<Rightarrow> j = i | _ \<Rightarrow> False)"

definition yet_to_act :: "verdict \<Rightarrow> nat" where
  "yet_to_act v = (case v of Undecided \<Rightarrow> 1 | Decided b \<Rightarrow> 1 | Acted b \<Rightarrow> 0 | Closed b \<Rightarrow> 0)"

lemma judge_acts: "judge i e v = Some w \<Longrightarrow> of_bool (acts_on i e) + yet_to_act w = yet_to_act v"
  by (cases e) (auto simp: acts_on_def yet_to_act_def split: if_splits verdict.splits)

lemma verdict_acts:
  "verdict_of i es v = Some w \<Longrightarrow> length (filter (acts_on i) es) + yet_to_act w = yet_to_act v"
proof (induction es arbitrary: v)
  case (Cons e es)
  then obtain x where x: "judge i e v = Some x" "verdict_of i es x = Some w" by (cases "judge i e v") auto
  show ?case using judge_acts [OF x(1)] Cons.IH [OF x(2)] by (cases "acts_on i e") simp_all
qed simp

section \<open>The status of a row under the operations of the table\<close>

definition row_status :: "string \<Rightarrow> central_db \<Rightarrow> approval_status option" where
  "row_status i db = map_option pa_status (getPendingApproval i db)"

definition ids_distinct :: "central_db \<Rightarrow> bool" where
  "ids_distinct db = keys_distinct pa_approval_id (cd_approvals db)"

named_theorems row_simps

lemma row_status_delete [row_simps]:
  "row_status i (deletePendingApproval j db) = (if i = j then None else row_status i db)"
  by (simp add: row_status_def getPendingApproval_def deletePendingApproval_def approvals.select_delete)

lemma ids_distinct_delete [row_simps]: "ids_distinct db \<Longrightarrow> ids_distinct (deletePendingApproval j db)"
  by (simp add: ids_distinct_def deletePendingApproval_def approvals.wf_delete)

lemma transition_result:
  assumes "ids_distinct db" "transitionPendingApprovalStatus j e st db = (ok, db')"
  shows "ok \<longleftrightarrow> row_status j db = Some e"
    and "row_status i db' = (if i = j \<and> ok then Some st else row_status i db)"
    and "ids_distinct db'"
  using assms approvals.update_changes [of "cd_approvals db" j "\<lambda>a. pa_status a = e" "\<lambda>a. a\<lparr>pa_status := st\<rparr>"]
    approvals.select_update [of "cd_approvals db" "\<lambda>a. a\<lparr>pa_status := st\<rparr>" i j "\<lambda>a. pa_status a = e"]
    approvals.wf_update [of "cd_approvals db" "\<lambda>a. a\<lparr>pa_status := st\<rparr>" j "\<lambda>a. pa_status a = e"]
  by (auto simp: ids_distinct_def transitionPendingApprovalStatus_def row_status_def getPendingApproval_def
      split: prod.splits option.splits if_splits)

lemma mark_result:
  assumes "ids_distinct db" "markApprovalAwaitingReason j x db = (ok, db')"
  shows "ok \<longleftrightarrow> row_status j db = Some ApPending"
    and "row_status i db' = (if i = j \<and> ok then Some ApAwaitingReason else row_status i db)"
    and "ids_distinct db'"
  using assms approvals.update_changes [of "cd_approvals db" j "\<lambda>a. pa_status a = ApPending"
      "\<lambda>a. a\<lparr>pa_status := ApAwaitingReason, pa_expires_at := Some x\<rparr>"]
    approvals.select_update [of "cd_approvals db" "\<lambda>a. a\<lparr>pa_status := ApAwaitingReason, pa_expires_at := Some x\<rparr>" i j
      "\<lambda>a. pa_status a = ApPending"]
    approvals.wf_update [of "cd_approvals db" "\<lambda>a. a\<lparr>pa_status := ApAwaitingReason, pa_expires_at := Some x\<rparr>" j
      "\<lambda>a. pa_status a = ApPending"]
  by (auto simp: ids_distinct_def markApprovalAwaitingReason_def row_status_def getPendingApproval_def
      split: prod.splits option.splits if_splits)

lemma create_result:
  assumes "createPendingApproval a db = (Inr True, db')"
  shows "row_status (pa_approval_id a) db = None"
    and "row_status i db' = (if i = pa_approval_id a then Some (pa_status a) else row_status i db)"
    and "ids_distinct db \<Longrightarrow> ids_distinct db'"
  using assms approvals.select_insert [of i a "cd_approvals db"] approvals.wf_insert [of "cd_approvals db" a]
  by (auto simp: createPendingApproval_def row_status_def getPendingApproval_def ids_distinct_def sql_insert_def
      fk_failed_def split: if_splits)

section \<open>Who holds a decision\<close>

text \<open>The verdict a task is about to act on, or to announce, for the approval \<open>i\<close>.\<close>

definition for_id :: "string \<Rightarrow> pending_approval \<Rightarrow> verdict \<Rightarrow> verdict option" where
  "for_id i a v = (if pa_approval_id a = i then Some v else None)"

fun stage :: "string \<Rightarrow> task \<Rightarrow> verdict option" where
  "stage i (RejectTell a se u r) = for_id i a (Decided False)"
| "stage i (RejectDelete a se u) = for_id i a (Acted False)"
| "stage i (ApproveApply a se u) = for_id i a (Decided True)"
| "stage i (ApproveDelete a se u) = for_id i a (Acted True)"
| "stage i (ResolveTell a se b u) = for_id i a (Acted b)"
| "stage i t = None"

definition proc_stage :: "string \<Rightarrow> proc \<Rightarrow> verdict option" where
  "proc_stage i p = (case p of None \<Rightarrow> None | Some (t, rest) \<Rightarrow> stage i t)"

lemma proc_stage_simps [simp]:
  "proc_stage i None = None" "proc_stage i (Some (t, rest)) = stage i t" "proc_stage i (continue_sweep rest) = None"
  by (cases rest; simp add: proc_stage_def)+

definition stages :: "string \<Rightarrow> appr_sys \<Rightarrow> verdict option list" where
  "stages i s = map (proc_stage i) (as_procs s)"

text \<open>At most one task holds the decision, and it is at the verdict of the log.\<close>

definition holders :: "verdict option list \<Rightarrow> verdict option list" where
  "holders sts = filter (\<lambda>x. x \<noteq> None) sts"

definition one_holder :: "verdict \<Rightarrow> verdict option list \<Rightarrow> bool" where
  "one_holder v sts \<longleftrightarrow> holders sts = [] \<or> holders sts = [Some v] \<and> v \<noteq> Undecided"

lemma list_split_at:
  assumes "n < length xs"
  obtains ys zs where "xs = ys @ xs ! n # zs" "\<And>y. xs[n := y] = ys @ y # zs"
  using that [of "take n xs" "drop (Suc n) xs"] id_take_nth_drop [OF assms] upd_conv_take_nth_drop [OF assms] by blast

lemma holders_simps [simp]:
  "holders [] = []" "holders (xs @ ys) = holders xs @ holders ys" "holders (None # xs) = holders xs"
  "holders (Some v # xs) = Some v # holders xs"
  by (simp_all add: holders_def)

lemma holder_quiet:
  assumes "one_holder v sts" "st = None \<or> n < length sts \<and> st = sts ! n"
  shows "one_holder v (sts[n := st])"
proof (cases "n < length sts \<and> st \<noteq> sts ! n")
  case True
  then have n: "n < length sts" "st = None" using assms(2) by auto
  obtain ys zs where s: "sts = ys @ sts ! n # zs" "\<And>y. sts[n := y] = ys @ y # zs" using n(1) by (rule list_split_at) blast
  have "holders sts = holders (ys @ sts ! n # zs)" using s(1) by simp
  then show ?thesis using assms(1) s(2) n(2)
    by (cases "sts ! n") (auto simp: one_holder_def append_eq_Cons_conv)
next
  case False
  then show ?thesis using assms(1) by (cases "n < length sts") (simp_all add: list_update_beyond)
qed

lemma holder_append: "one_holder v sts \<Longrightarrow> one_holder v (sts @ [None])"
  by (simp add: one_holder_def)

lemma holder_claim:
  assumes "one_holder Undecided sts" "w \<noteq> Undecided" "n < length sts"
  shows "one_holder w (sts[n := Some w])"
proof -
  obtain ys zs where s: "sts = ys @ sts ! n # zs" "\<And>y. sts[n := y] = ys @ y # zs" using assms(3) by (rule list_split_at) blast
  have "holders (ys @ sts ! n # zs) = []" using s(1) assms(1) by (simp add: one_holder_def)
  then have "holders ys = []" "holders zs = []" by (cases "sts ! n"; simp)+
  then show ?thesis using s(2) assms(2) by (simp add: one_holder_def)
qed

lemma holder_move:
  assumes "one_holder v sts" "n < length sts" "sts ! n = Some v" "w \<noteq> Undecided" "st = None \<or> st = Some w"
  shows "one_holder w (sts[n := st])"
proof -
  obtain ys zs where s: "sts = ys @ sts ! n # zs" "\<And>y. sts[n := y] = ys @ y # zs" using assms(2) by (rule list_split_at) blast
  have "holders (ys @ Some v # zs) = [Some v]" using s(1) assms(1,3) by (auto simp: one_holder_def)
  then have "holders ys = []" "holders zs = []" by (auto simp: append_eq_Cons_conv)
  then show ?thesis using s(2) assms(4,5) by (auto simp: one_holder_def)
qed

lemma holder_here:
  assumes "one_holder v sts" "n < length sts" "sts ! n = Some w"
  shows "w = v"
proof -
  have "Some w \<in> set (holders sts)" using assms(2,3) by (auto simp: holders_def in_set_conv_nth)
  then show ?thesis using assms(1) by (auto simp: one_holder_def)
qed

section \<open>One step of a task, seen from one approval\<close>

definition undecided_row :: "approval_status option \<Rightarrow> bool" where
  "undecided_row st \<longleftrightarrow> st = Some ApPending \<or> st = Some ApAwaitingReason"

definition decided_row :: "bool \<Rightarrow> approval_status" where
  "decided_row b = (if b then ApApproved else ApRejected)"

definition quiet_log :: "string \<Rightarrow> appr_event list \<Rightarrow> bool" where
  "quiet_log i es \<longleftrightarrow> (\<forall>v. verdict_of i es v = Some v)"

text \<open>The row, the log and the holder's stage before and after: nothing happens to \<open>i\<close> (its row may be
  dropped or put on hold), it is decided, its decision is acted on, or it is announced.\<close>

definition id_effect where
  "id_effect i st row es st' row' \<longleftrightarrow>
     quiet_log i es \<and> (st' = None \<or> st' = st) \<and> (row' = row \<or> row' = None \<or> undecided_row row \<and> undecided_row row')
   \<or> (\<exists>b. es = [Claimed i b] \<and> undecided_row row \<and> row' = Some (decided_row b) \<and> st' = Some (Decided b))
   \<or> (\<exists>b. st = Some (Decided b) \<and> verdict_of i es (Decided b) = Some (Acted b) \<and> row' = row \<and> st' = Some (Acted b))
   \<or> (\<exists>b. st = Some (Acted b) \<and> verdict_of i es (Acted b) = Some (Closed b) \<and> row' = row \<and> st' = None)"

lemma quiet_log_simps [simp]: "quiet_log i []" "quiet_log i [Claimed j b] \<longleftrightarrow> j \<noteq> i" "quiet_log i [Prompted j]"
  "j \<noteq> i \<Longrightarrow> quiet_log i [Told j se r]" "j \<noteq> i \<Longrightarrow> quiet_log i [NoHandler j]"
  "j \<noteq> i \<Longrightarrow> quiet_log i [Applied j u]" "j \<noteq> i \<Longrightarrow> quiet_log i [Applied j u, ApplyFailed j]"
  "j \<noteq> i \<Longrightarrow> quiet_log i [Resolved j b u, WokeSession se]"
  unfolding quiet_log_def by (auto dest: spec [of _ "Decided b"])

definition task_effect where
  "task_effect t s p s' \<longleftrightarrow> ids_distinct (as_central s') \<and> as_used s' = as_used s \<and> as_procs s' = as_procs s \<and>
     (\<exists>es. as_log s' = as_log s @ es \<and>
        (\<forall>i. id_effect i (stage i t) (row_status i (as_central s)) es (proc_stage i p) (row_status i (as_central s'))))"

lemma effect_quiet:
  assumes "ids_distinct (as_central s')" "as_used s' = as_used s" "as_procs s' = as_procs s" "as_log s' = as_log s @ es"
    and "\<And>i. quiet_log i es"
    and "\<And>i. proc_stage i p = None \<or> proc_stage i p = stage i t"
    and "\<And>i. row_status i (as_central s') = row_status i (as_central s) \<or> row_status i (as_central s') = None
      \<or> undecided_row (row_status i (as_central s)) \<and> undecided_row (row_status i (as_central s'))"
  shows "task_effect t s p s'"
proof -
  have "id_effect i (stage i t) (row_status i (as_central s)) es (proc_stage i p) (row_status i (as_central s'))" for i
    unfolding id_effect_def using assms(5) [of i] assms(6) [of i] assms(7) [of i] by blast
  then show ?thesis unfolding task_effect_def using assms(1-4) by blast
qed

lemma effect_still:
  assumes "ids_distinct (as_central s)" "\<And>i. proc_stage i p = None \<or> proc_stage i p = stage i t"
  shows "task_effect t s p s"
  by (rule effect_quiet [where es = "[]"]) (simp_all add: assms)

lemma effect_drop:
  assumes "ids_distinct (as_central s)" "\<And>i. proc_stage i p = None \<or> proc_stage i p = stage i t"
  shows "task_effect t s p (with_central (deletePendingApproval j (as_central s)) s)"
  by (rule effect_quiet [where es = "[]"]) (simp_all add: assms with_central_def row_simps)

text \<open>A claim is a status transition of an undecided row.\<close>

lemma effect_claim:
  assumes "ids_distinct (as_central s)" "undecided_row (Some e)"
    and "transitionPendingApprovalStatus j e (decided_row b) (as_central s) = (ok, db)"
    and "\<And>i. stage i t = None" "\<And>i. proc_stage i p = (if ok \<and> i = j then Some (Decided b) else None)"
  shows "task_effect t s p (if ok then logged [Claimed j b] (with_central db s) else with_central db s)"
proof -
  note r = transition_result [OF assms(1,3)]
  let ?s = "if ok then logged [Claimed j b] (with_central db s) else with_central db s"
  let ?es = "if ok then [Claimed j b] else []"
  have "id_effect i (stage i t) (row_status i (as_central s)) ?es (proc_stage i p) (row_status i db)" for i
  proof (cases "ok \<and> i = j")
    case True
    then show ?thesis unfolding id_effect_def using r(1) r(2) [of i] assms(2) assms(5) [of i] by auto
  next
    case False
    then show ?thesis unfolding id_effect_def using r(2) [of i] assms(5) [of i] by auto
  qed
  then show ?thesis unfolding task_effect_def using r(3) assms(4)
    by (intro conjI exI [of _ ?es]) (auto simp: logged_def with_central_def)
qed

lemma effect_act:
  assumes "ids_distinct (as_central s)" "\<And>i. stage i t = for_id i a (Decided b)" "\<And>i. proc_stage i p = for_id i a (Acted b)"
    and "verdict_of (pa_approval_id a) es (Decided b) = Some (Acted b)" "\<And>i. i \<noteq> pa_approval_id a \<Longrightarrow> quiet_log i es"
  shows "task_effect t s p (logged es s)"
proof -
  have "id_effect i (stage i t) (row_status i (as_central s)) es (proc_stage i p) (row_status i (as_central s))" for i
    by (cases "i = pa_approval_id a") (simp_all add: id_effect_def for_id_def assms(2-5))
  then show ?thesis unfolding task_effect_def using assms(1)
    by (intro conjI exI [of _ es]) (auto simp: logged_def)
qed

lemma effect_announce:
  assumes "ids_distinct (as_central s)"
  shows "task_effect (ResolveTell a se b u) s (continue_sweep rest) (logged [Resolved (pa_approval_id a) b u, WokeSession (se_id se)] s)"
proof -
  have "id_effect i (stage i (ResolveTell a se b u)) r [Resolved (pa_approval_id a) b u, WokeSession (se_id se)]
      (proc_stage i (continue_sweep rest)) r" for i r
    by (cases "i = pa_approval_id a") (simp_all add: id_effect_def for_id_def)
  then show ?thesis unfolding task_effect_def using assms
    by (intro conjI exI [of _ "[Resolved (pa_approval_id a) b u, WokeSession (se_id se)]"]) (auto simp: logged_def)
qed

lemmas effect_rules = effect_still effect_drop effect_announce

lemma stage_decide_click: "stage i (decide_click a v u db) = None"
  by (simp add: decide_click_def split: option.split)

lemma task_step_effect:
  assumes "ids_distinct (as_central s)"
  shows "task_effect t s (fst (task_step c now t rest s)) (snd (task_step c now t rest s))"
proof (cases t)
  case (MarkAwaiting a se u)
  obtain ok db where m: "markApprovalAwaitingReason (pa_approval_id a) (to_iso (now + REASON_CAPTURE_WINDOW_MS)) (as_central s) = (ok, db)"
    by (meson surj_pair)
  note r = mark_result [OF assms m]
  show ?thesis unfolding MarkAwaiting
    by (rule effect_quiet [where es = "[]"])
      (use r in \<open>auto simp: m with_central_def undecided_row_def\<close>)
next
  case (AskReason a se u)
  show ?thesis
    using effect_still [OF assms, of "Some (RejectClaim a se u None True, rest)" t]
      effect_quiet [of "logged [Prompted (pa_approval_id a)] s" s "[Prompted (pa_approval_id a)]" "Some (ArmReason a u, rest)" t] assms
    by (simp add: AskReason logged_def)
next
  case (ArmReason a u)
  show ?thesis unfolding ArmReason by (rule effect_quiet [where es = "[]"]) (simp_all add: assms)
next
  case (RejectClaim a se u r h)
  obtain ok db where m: "transitionPendingApprovalStatus (pa_approval_id a) (expected_status h) ApRejected (as_central s) = (ok, db)"
    by (meson surj_pair)
  have e: "undecided_row (Some (expected_status h))" by (simp add: undecided_row_def expected_status_def)
  show ?thesis
    using effect_claim [OF assms e, of "pa_approval_id a" False ok db t
        "if ok then Some (RejectTell a se u r, rest) else continue_sweep rest"] m
    by (cases ok) (auto simp: RejectClaim decided_row_def for_id_def)
next
  case (ApproveClaim a se u)
  obtain ok db where m: "transitionPendingApprovalStatus (pa_approval_id a) ApPending ApApproved (as_central s) = (ok, db)"
    by (meson surj_pair)
  have e: "undecided_row (Some ApPending)" by (simp add: undecided_row_def)
  show ?thesis
    using effect_claim [OF assms e, of "pa_approval_id a" True ok db t "if ok then Some (ApproveApply a se u, rest) else None"] m
    by (cases ok) (auto simp: ApproveClaim decided_row_def for_id_def)
next
  case (ApproveApply a se u)
  show ?thesis
    using effect_still [OF assms, of None t]
      effect_act [OF assms, of t a True "Some (ApproveDelete a se u, rest)" "[NoHandler (pa_approval_id a)]"]
      effect_act [OF assms, of t a True "Some (ApproveDelete a se u, rest)" "[Applied (pa_approval_id a) u]"]
      effect_act [OF assms, of t a True "Some (ApproveDelete a se u, rest)" "[Applied (pa_approval_id a) u, ApplyFailed (pa_approval_id a)]"]
    by (simp add: ApproveApply)
next
  case (RejectTell a se u r)
  show ?thesis using effect_act [OF assms, of t a False "Some (RejectDelete a se u, rest)" "[Told (pa_approval_id a) (se_id se) r]"]
    by (simp add: RejectTell)
next
  case (ReplyStart k content)
  show ?thesis unfolding ReplyStart
    by (rule effect_quiet [where es = "[]"]) (simp_all add: assms split: option.split)
next
  case (ClickDecide a v u)
  show ?thesis using effect_still [OF assms, of "fst (task_step c now t rest s)" t]
    by (simp add: ClickDecide stage_decide_click)
qed (auto intro!: effect_rules assms split: option.split)

section \<open>The system implements the specification\<close>

fun row_agrees :: "verdict \<Rightarrow> approval_status option \<Rightarrow> bool" where
  "row_agrees v None = True"
| "row_agrees Undecided (Some st) = undecided_row (Some st)"
| "row_agrees (Decided b) (Some st) = (st = decided_row b)"
| "row_agrees (Acted b) (Some st) = (st = decided_row b)"
| "row_agrees (Closed b) (Some st) = (st = decided_row b)"

lemma undecided_row_agrees: "undecided_row row \<Longrightarrow> row_agrees v row \<longleftrightarrow> v = Undecided"
  by (cases v) (auto simp: undecided_row_def decided_row_def split: if_splits)

lemma row_agrees_same: "row_agrees v row \<Longrightarrow> verdict_next v w \<Longrightarrow> v \<noteq> Undecided \<Longrightarrow> row_agrees w row"
  by (cases v; cases w; cases row) auto

text \<open>The abstraction: the approval \<open>i\<close> stands at the verdict \<open>v\<close>.\<close>

definition judged :: "string \<Rightarrow> verdict \<Rightarrow> appr_sys \<Rightarrow> bool" where
  "judged i v s \<longleftrightarrow> verdict_of i (as_log s) Undecided = Some v \<and> one_holder v (stages i s) \<and>
     row_agrees v (row_status i (as_central s)) \<and>
     (i \<notin> set (as_used s) \<longrightarrow> v = Undecided \<and> row_status i (as_central s) = None)"

definition idle :: "string \<Rightarrow> appr_sys \<Rightarrow> bool" where
  "idle i s \<longleftrightarrow> holders (stages i s) = []"

text \<open>What one step does to an approval: the verdict stays or moves on, and an idle decided one stays
  as it is.\<close>

definition simulated where
  "simulated i v s s' \<longleftrightarrow> (\<exists>w. judged i w s' \<and> (w = v \<or> verdict_next v w) \<and> (idle i s \<and> v \<noteq> Undecided \<longrightarrow> w = v \<and> idle i s'))"

lemma simulatedI: "judged i w s' \<Longrightarrow> w = v \<or> verdict_next v w \<Longrightarrow> (idle i s \<Longrightarrow> v \<noteq> Undecided \<Longrightarrow> w = v \<and> idle i s') \<Longrightarrow> simulated i v s s'"
  unfolding simulated_def by blast

lemma stage_idle: "n < length (stages i s) \<Longrightarrow> stages i s ! n = Some w \<Longrightarrow> \<not> idle i s"
  by (force simp: idle_def holders_def filter_empty_conv dest: nth_mem)

lemma idle_update: "holders sts = [] \<Longrightarrow> holders (sts[n := None]) = []"
  by (auto simp: holders_def filter_empty_conv dest!: subsetD [OF set_update_subset_insert])

lemma idle_none: "holders sts = [] \<Longrightarrow> n < length sts \<Longrightarrow> sts ! n = None"
  by (auto simp: holders_def filter_empty_conv)

lemma run_task_simulates:
  assumes j: "judged i v s" and ids: "ids_distinct (as_central s)"
  shows "simulated i v s (run_task n c now s)"
proof (cases "n < length (as_procs s) \<and> as_procs s ! n \<noteq> None")
  case True
  then obtain t rest where n: "n < length (as_procs s)" "as_procs s ! n = Some (t, rest)" by auto
  obtain p s1 where st: "task_step c now t rest s = (p, s1)" by (meson surj_pair)
  have eff: "task_effect t s p s1" using task_step_effect [OF ids, of t c now rest] st by simp
  let ?s = "s1\<lparr>as_procs := (as_procs s)[n := p]\<rparr>"
  have run: "run_task n c now s = ?s" using n st by (simp add: run_task_def)
  have len: "n < length (stages i s)" and here: "stages i s ! n = stage i t" using n by (simp_all add: stages_def)
  have sts: "stages i ?s = (stages i s)[n := proc_stage i p]" by (simp add: stages_def map_update)
  obtain es where es: "as_log s1 = as_log s @ es"
    and e: "id_effect i (stage i t) (row_status i (as_central s)) es (proc_stage i p) (row_status i (as_central s1))"
    using eff unfolding task_effect_def by blast
  have used: "as_used s1 = as_used s" using eff by (simp add: task_effect_def)
  have log: "verdict_of i (as_log ?s) Undecided = verdict_of i es v"
    using j by (simp add: judged_def es verdict_of_append)
  have vj: "one_holder v (stages i s)" "row_agrees v (row_status i (as_central s))"
      "i \<notin> set (as_used s) \<longrightarrow> v = Undecided \<and> row_status i (as_central s) = None"
    using j by (simp_all add: judged_def)
  consider (quiet) "quiet_log i es" "proc_stage i p = None \<or> proc_stage i p = stage i t"
      "row_status i (as_central s1) = row_status i (as_central s) \<or> row_status i (as_central s1) = None
        \<or> undecided_row (row_status i (as_central s)) \<and> undecided_row (row_status i (as_central s1))"
    | (claim) b where "es = [Claimed i b]" "undecided_row (row_status i (as_central s))"
        "row_status i (as_central s1) = Some (decided_row b)" "proc_stage i p = Some (Decided b)"
    | (act) b where "stage i t = Some (Decided b)" "verdict_of i es (Decided b) = Some (Acted b)"
        "row_status i (as_central s1) = row_status i (as_central s)" "proc_stage i p = Some (Acted b)"
    | (close) b where "stage i t = Some (Acted b)" "verdict_of i es (Acted b) = Some (Closed b)"
        "row_status i (as_central s1) = row_status i (as_central s)" "proc_stage i p = None"
    using e unfolding id_effect_def by blast
  then show ?thesis
  proof cases
    case quiet
    have h: "one_holder v (stages i ?s)" unfolding sts using holder_quiet [OF vj(1)] quiet(2) len here by metis
    have r: "row_agrees v (row_status i (as_central s1))" using quiet(3) vj(2) by (metis row_agrees.simps(1) undecided_row_agrees)
    have u: "i \<notin> set (as_used s1) \<longrightarrow> v = Undecided \<and> row_status i (as_central s1) = None"
      using vj(3) quiet(3) used by (metis option.distinct(1) undecided_row_def)
    have "judged i v ?s" unfolding judged_def using h r u log quiet(1) by (simp add: quiet_log_def)
    moreover have "idle i ?s" if "idle i s"
    proof -
      have "proc_stage i p = None" using that quiet(2) here idle_none [OF _ len] by (auto simp: idle_def)
      then show ?thesis using that by (simp add: idle_def sts idle_update)
    qed
    ultimately show ?thesis unfolding run by (intro simulatedI) blast+
  next
    case claim
    have v: "v = Undecided" using undecided_row_agrees [OF claim(2)] vj(2) by blast
    have h: "one_holder (Decided b) (stages i ?s)" unfolding sts claim(4) using holder_claim [OF _ _ len, of "Decided b"] vj(1) v by simp
    have u: "i \<in> set (as_used s1)" using claim(2) vj(3) used by (auto simp: undecided_row_def)
    have "judged i (Decided b) ?s" unfolding judged_def using h u log claim v by simp
    then show ?thesis unfolding run by (rule simulatedI) (simp_all add: v)
  next
    case act
    have v: "v = Decided b" using holder_here [OF vj(1) len] here act(1) by simp
    have h: "one_holder (Acted b) (stages i ?s)" unfolding sts using holder_move [OF vj(1) len, of "Acted b"] here act(1,4) v by simp
    have "row_agrees (Acted b) (row_status i (as_central s1))" unfolding act(3) by (rule row_agrees_same [OF vj(2)]) (simp_all add: v)
    then have "judged i (Acted b) ?s" unfolding judged_def using h log act v used vj(3) by simp
    then show ?thesis unfolding run by (rule simulatedI) (use stage_idle [OF len] here act(1) v in simp_all)
  next
    case close
    have v: "v = Acted b" using holder_here [OF vj(1) len] here close(1) by simp
    have h: "one_holder (Closed b) (stages i ?s)" unfolding sts using holder_move [OF vj(1) len, of "Closed b"] here close(1,4) v by simp
    have "row_agrees (Closed b) (row_status i (as_central s1))" unfolding close(3) by (rule row_agrees_same [OF vj(2)]) (simp_all add: v)
    then have "judged i (Closed b) ?s" unfolding judged_def using h log close v used vj(3) by simp
    then show ?thesis unfolding run by (rule simulatedI) (use stage_idle [OF len] here close(1) v in simp_all)
  qed
next
  case False
  then have "run_task n c now s = s" by (cases "as_procs s ! n") (auto simp: run_task_def)
  then show ?thesis using j by (intro simulatedI) simp_all
qed

lemma run_task_ids: "ids_distinct (as_central s) \<Longrightarrow> ids_distinct (as_central (run_task n c now s))"
proof (cases "n < length (as_procs s) \<and> as_procs s ! n \<noteq> None")
  case True
  assume ids: "ids_distinct (as_central s)"
  obtain t rest where n: "n < length (as_procs s)" "as_procs s ! n = Some (t, rest)" using True by auto
  then show ?thesis using task_step_effect [OF ids, of t c now rest]
    by (cases "task_step c now t rest s") (simp add: run_task_def task_effect_def)
next
  case False
  assume ids: "ids_distinct (as_central s)"
  have "run_task n c now s = s" using False by (cases "as_procs s ! n") (auto simp: run_task_def)
  then show ?thesis using ids by simp
qed

lemma request_effect:
  obtains "sys_step (Request a) s = s"
  | db where "pa_approval_id a \<notin> set (as_used s)" "pa_status a = ApPending" "createPendingApproval a (as_central s) = (Inr True, db)"
      "sys_step (Request a) s = s\<lparr>as_central := db, as_used := pa_approval_id a # as_used s\<rparr>"
proof (cases "pa_approval_id a \<in> set (as_used s) \<or> pa_status a \<noteq> ApPending \<or> fst (createPendingApproval a (as_central s)) \<noteq> Inr True")
  case True
  then have "sys_step (Request a) s = s"
    by (cases "createPendingApproval a (as_central s)") (auto split: sum.splits bool.splits)
  then show ?thesis by (rule that(1))
next
  case False
  then obtain db where db: "createPendingApproval a (as_central s) = (Inr True, db)"
    by (cases "createPendingApproval a (as_central s)") auto
  show ?thesis by (rule that(2) [OF _ _ db]) (use False db in simp_all)
qed

lemma row_status_sessions [row_simps]: "row_status i (db\<lparr>cd_sessions := ss\<rparr>) = row_status i db"
  by (simp add: row_status_def getPendingApproval_def)

lemma sys_step_ids: "ids_distinct (as_central s) \<Longrightarrow> ids_distinct (as_central (sys_step x s))"
proof (cases x)
  case (Request a)
  assume "ids_distinct (as_central s)"
  then show ?thesis unfolding Request by (cases rule: request_effect [of a s]) (simp_all add: create_result(3))
next
  case (Step n c now)
  then show "ids_distinct (as_central s) \<Longrightarrow> ?thesis" by (simp add: run_task_ids)
qed (simp_all add: spawn_def ids_distinct_def)

lemma spawn_simulates: "judged i v s \<Longrightarrow> (\<And>i. stage i t = None) \<Longrightarrow> simulated i v s (spawn t s)"
  by (rule simulatedI [of i v]) (simp_all add: judged_def spawn_def stages_def idle_def holder_append)

lemma sys_step_simulates:
  assumes j: "judged i v s" and ids: "ids_distinct (as_central s)"
  shows "simulated i v s (sys_step x s)"
proof (cases x)
  case (Request a)
  show ?thesis unfolding Request
  proof (cases rule: request_effect [of a s])
    case 1
    then show "simulated i v s (sys_step (Request a) s)" using j by (intro simulatedI) simp_all
  next
    case (2 db)
    have "judged i v (s\<lparr>as_central := db, as_used := pa_approval_id a # as_used s\<rparr>)"
      using j 2(1,2) create_result(2) [OF 2(3), of i]
      by (auto simp: judged_def stages_def undecided_row_def)
    then show "simulated i v s (sys_step (Request a) s)" unfolding 2(4)
      by (rule simulatedI) (simp_all add: idle_def stages_def)
  qed
next
  case (Crash n)
  have "stages i (sys_step x s) = (stages i s)[n := None]" by (simp add: Crash stages_def map_update)
  then show ?thesis using j unfolding Crash
    by (intro simulatedI [of i v]) (simp_all add: judged_def holder_quiet idle_def idle_update)
next
  case Restart
  show ?thesis using j unfolding Restart
    by (intro simulatedI [of i v]) (simp_all add: judged_def stages_def idle_def one_holder_def)
next
  case (SetSessions ss)
  show ?thesis using j unfolding SetSessions
    by (intro simulatedI [of i v]) (simp_all add: judged_def stages_def idle_def row_simps)
next
  case (SetRoles p)
  show ?thesis using j unfolding SetRoles
    by (intro simulatedI [of i v]) (simp_all add: judged_def stages_def idle_def)
qed (simp_all add: spawn_simulates [OF j] run_task_simulates [OF j ids])

lemma start_judged: "judged i Undecided (appr_start db perms hs)" "ids_distinct (as_central (appr_start db perms hs))"
  by (simp_all add: judged_def appr_start_def stages_def one_holder_def row_status_def getPendingApproval_def
      ids_distinct_def keys_distinct_def)

lemma appr_run_snoc: "appr_run (acts @ [x]) s = sys_step x (appr_run acts s)"
  by (simp add: appr_run_def)

lemma run_judged:
  "(\<exists>v. judged i v (appr_run acts (appr_start db perms hs))) \<and> ids_distinct (as_central (appr_run acts (appr_start db perms hs)))"
proof (induction acts rule: rev_induct)
  case Nil
  show ?case using start_judged(1) [of i] start_judged(2) by (simp add: appr_run_def) blast
next
  case (snoc x acts)
  then obtain v where v: "judged i v (appr_run acts (appr_start db perms hs))" by blast
  show ?case using sys_step_simulates [OF v, of x] sys_step_ids [of _ x] snoc
    unfolding appr_run_snoc simulated_def by blast
qed

section \<open>A sweep left alone\<close>

lemma run_task_at:
  "n < length (as_procs s) \<Longrightarrow> as_procs s ! n = Some (t, rest) \<Longrightarrow>
   run_task n c now s = (snd (task_step c now t rest s))\<lparr>as_procs := (as_procs s)[n := fst (task_step c now t rest s)]\<rparr>"
  by (simp add: run_task_def split_beta)

lemma run_task_done: "as_procs s ! n = None \<Longrightarrow> run_task n c now s = s"
  by (simp add: run_task_def)

lemma sessions_delete: "cd_sessions (deletePendingApproval i db) = cd_sessions db"
  by (simp add: deletePendingApproval_def)

text \<open>What the sweep does to one row it visits.\<close>

definition swept where
  "swept n a rest s s' \<longleftrightarrow> as_procs s' ! n = continue_sweep rest \<and> length (as_procs s') = length (as_procs s)
     \<and> cd_sessions (as_central s') = cd_sessions (as_central s) \<and> ids_distinct (as_central s')
     \<and> (\<forall>j. row_status j (as_central s') = (if j = pa_approval_id a then None else row_status j (as_central s)))
     \<and> (\<exists>es. as_log s' = as_log s @ es \<and> (session_of a (as_central s) \<noteq> None \<longrightarrow> Told (pa_approval_id a) (the (pa_session_id a)) None \<in> set es))"

lemma sweep_one:
  assumes n: "n < length (as_procs s)" "as_procs s ! n = continue_sweep (a # rest)"
    and ids: "ids_distinct (as_central s)" and row: "row_status (pa_approval_id a) (as_central s) = Some ApAwaitingReason" and h: "held a"
  shows "\<exists>k\<le>5. swept n a rest s ((run_task n Ok now ^^ k) s)"
proof (cases "session_of a (as_central s)")
  case None
  have "swept n a rest s (run_task n Ok now (run_task n Ok now s))"
    using n ids None by (simp add: run_task_at swept_def with_central_def row_simps sessions_delete)
  then show ?thesis by (intro exI [of _ 2]) (simp add: numeral_2_eq_2)
next
  case (Some se)
  then have se: "se_id se = the (pa_session_id a)"
    by (auto simp: session_of_def getSession_def dest: sql_select_key split: if_splits)
  obtain ok db where m: "transitionPendingApprovalStatus (pa_approval_id a) ApAwaitingReason ApRejected (as_central s) = (ok, db)"
    by (meson surj_pair)
  note r = transition_result [OF ids m]
  have ok: ok using r(1) row by simp
  have ss: "cd_sessions db = cd_sessions (as_central s)"
    using m by (auto simp: transitionPendingApprovalStatus_def split: prod.splits)
  have h': "expected_status (held a) = ApAwaitingReason" using h by (simp add: expected_status_def)
  have s2: "run_task n Ok now (run_task n Ok now s) = s\<lparr>as_central := db, as_log := as_log s @ [Claimed (pa_approval_id a) False],
      as_procs := (as_procs s)[n := Some (RejectTell a se [] None, rest)]\<rparr>"
    using n Some m ok h' by (simp add: run_task_at logged_def with_central_def)
  have s5: "run_task n Ok now (run_task n Ok now (run_task n Ok now (run_task n Ok now (run_task n Ok now s)))) =
      s\<lparr>as_central := deletePendingApproval (pa_approval_id a) db,
        as_log := as_log s @ [Claimed (pa_approval_id a) False, Told (pa_approval_id a) (se_id se) None,
          Resolved (pa_approval_id a) False [], WokeSession (se_id se)],
        as_procs := (as_procs s)[n := continue_sweep rest]\<rparr>"
    unfolding s2 using n(1) by (simp add: run_task_at logged_def with_central_def)
  have "swept n a rest s (run_task n Ok now (run_task n Ok now (run_task n Ok now (run_task n Ok now (run_task n Ok now s)))))"
    unfolding s5 using n(1) r(2,3) ok ss se by (simp add: swept_def row_simps sessions_delete)
  then show ?thesis by (intro exI [of _ 5]) (simp add: numeral_eq_Suc)
qed

definition expired_hold :: "central_db \<Rightarrow> pending_approval \<Rightarrow> bool" where
  "expired_hold db a \<longleftrightarrow> row_status (pa_approval_id a) db = Some ApAwaitingReason \<and> held a"

lemma approvals_in_table: "a \<in> set (cd_approvals db) \<Longrightarrow> ids_distinct db \<Longrightarrow> getPendingApproval (pa_approval_id a) db = Some a"
  by (simp add: getPendingApproval_def ids_distinct_def sql_select_iff)

lemma id_effect_none: "id_effect i st None es st' row' \<Longrightarrow> row' = None"
  by (auto simp: id_effect_def undecided_row_def)

lemma run_task_mono:
  assumes "ids_distinct (as_central s)"
  shows "ids_distinct (as_central ((run_task n c now ^^ m) s)) \<and> set (as_log s) \<subseteq> set (as_log ((run_task n c now ^^ m) s)) \<and>
    (row_status i (as_central s) = None \<longrightarrow> row_status i (as_central ((run_task n c now ^^ m) s)) = None)"
proof (induction m)
  case (Suc m)
  let ?s = "(run_task n c now ^^ m) s"
  show ?case
  proof (cases "n < length (as_procs ?s) \<and> as_procs ?s ! n \<noteq> None")
    case True
    then obtain t rest where t: "n < length (as_procs ?s)" "as_procs ?s ! n = Some (t, rest)" by auto
    let ?s1 = "snd (task_step c now t rest ?s)"
    have "task_effect t ?s (fst (task_step c now t rest ?s)) ?s1"
      using task_step_effect Suc.IH by blast
    then obtain es where es: "ids_distinct (as_central ?s1)" "as_log ?s1 = as_log ?s @ es"
        "id_effect i (stage i t) (row_status i (as_central ?s)) es (proc_stage i (fst (task_step c now t rest ?s))) (row_status i (as_central ?s1))"
      unfolding task_effect_def by blast
    have "row_status i (as_central ?s) = None \<Longrightarrow> row_status i (as_central ?s1) = None"
      using es(3) by (metis id_effect_none)
    then show ?thesis using Suc.IH es(1,2) by (simp add: run_task_at [OF t]) blast
  next
    case False
    then have "run_task n c now ?s = ?s" by (cases "as_procs ?s ! n") (auto simp: run_task_def)
    then show ?thesis using Suc.IH by simp
  qed
qed (simp add: assms)

lemma sweep_all:
  assumes "n < length (as_procs s)" "as_procs s ! n = continue_sweep rows" "ids_distinct (as_central s)"
    and "distinct (map pa_approval_id rows)" "\<forall>a\<in>set rows. expired_hold (as_central s) a" "a \<in> set rows"
    and "5 * length rows \<le> m"
  shows "row_status (pa_approval_id a) (as_central ((run_task n Ok now ^^ m) s)) = None \<and>
    (session_of a (as_central s) \<noteq> None \<longrightarrow> Told (pa_approval_id a) (the (pa_session_id a)) None \<in> set (as_log ((run_task n Ok now ^^ m) s)))"
  using assms
proof (induction rows arbitrary: s m)
  case (Cons b rows)
  obtain k where k: "k \<le> 5" "swept n b rows s ((run_task n Ok now ^^ k) s)"
    using sweep_one [OF Cons.prems(1,2,3), of now] Cons.prems(5) by (auto simp: expired_hold_def)
  let ?s = "(run_task n Ok now ^^ k) s"
  have m: "(run_task n Ok now ^^ m) s = (run_task n Ok now ^^ (m - k)) ?s"
    using Cons.prems(7) k(1) by (simp flip: funpow_add comp_apply [of "run_task n Ok now ^^ (m - k)"])
  show ?case
  proof (cases "a = b")
    case True
    then show ?thesis
      using run_task_mono [of ?s "m - k" n Ok now "pa_approval_id a"] k(2) unfolding m swept_def by auto
  next
    case False
    then have "a \<in> set rows" using Cons.prems(6) by simp
    have "row_status (pa_approval_id a) (as_central ((run_task n Ok now ^^ (m - k)) ?s)) = None \<and>
      (session_of a (as_central ?s) \<noteq> None \<longrightarrow> Told (pa_approval_id a) (the (pa_session_id a)) None \<in> set (as_log ((run_task n Ok now ^^ (m - k)) ?s)))"
    proof (rule Cons.IH)
      show "\<forall>c\<in>set rows. expired_hold (as_central ?s) c"
        using k(2) Cons.prems(4,5) by (auto simp: swept_def expired_hold_def image_iff)
    qed (use k Cons.prems \<open>a \<in> set rows\<close> in \<open>simp_all add: swept_def\<close>)
    moreover have "session_of a (as_central ?s) = session_of a (as_central s)"
      using k(2) by (simp add: swept_def session_of_def getSession_def)
    ultimately show ?thesis unfolding m by simp
  qed
qed simp

section \<open>Properties\<close>

definition sweep_now :: "int \<Rightarrow> appr_sys \<Rightarrow> appr_sys" where
  "sweep_now now s = (run_task (length (as_procs s)) Ok now ^^ (1 + 5 * length (cd_approvals (as_central s)))) (sys_step Sweep s)"

text \<open>C28: A hold for a reason does not strand the agent: when its window has passed, one sweep that runs to
  its end drops the row and, where the session that the row names as the requesting one still exists, tells
  that session of the rejection, at whatever state the host has reached.\<close>

theorem expired_hold_resolved:
  assumes "s = appr_run acts (appr_start db perms hs)"
    and "a \<in> set (getExpiredAwaitingReasonApprovals (to_iso now) (as_central s))"
  shows "getPendingApproval (pa_approval_id a) (as_central (sweep_now now s)) = None \<and>
    (session_of a (as_central s) = None \<or> Told (pa_approval_id a) (the (pa_session_id a)) None \<in> set (as_log (sweep_now now s)))"
proof -
  let ?n = "length (as_procs s)" and ?rows = "getExpiredAwaitingReasonApprovals (to_iso now) (as_central s)"
  let ?s = "s\<lparr>as_procs := as_procs s @ [continue_sweep ?rows]\<rparr>"
  have ids: "ids_distinct (as_central s)" using run_judged assms(1) by blast
  have start: "run_task ?n Ok now (sys_step Sweep s) = ?s" by (simp add: run_task_at spawn_def)
  have hold: "expired_hold (as_central s) b" if "b \<in> set ?rows" for b
    using that ids approvals_in_table [of b "as_central s"]
    by (auto simp: getExpiredAwaitingReasonApprovals_def expired_hold_def held_def row_status_def)
  have dist: "distinct (map pa_approval_id ?rows)"
    using ids by (simp add: getExpiredAwaitingReasonApprovals_def ids_distinct_def keys_distinct_def distinct_map_filter)
  have len: "5 * length ?rows \<le> 5 * length (cd_approvals (as_central s))"
    by (simp add: getExpiredAwaitingReasonApprovals_def)
  have "sweep_now now s = (run_task ?n Ok now ^^ (5 * length (cd_approvals (as_central s)))) ?s"
    unfolding sweep_now_def by (simp add: funpow_swap1 start del: sys_step.simps)
  then show ?thesis
    using sweep_all [of ?n ?s ?rows a "5 * length (cd_approvals (as_central s))" now] ids hold dist len assms(2)
    by (auto simp: row_status_def)
qed

text \<open>C26: Every step of the running host, whatever its tasks, their interleaving, crashes and
  restarts, refines the one-shot decision: each approval's log stands at a verdict before and after the
  step, the verdict stays or takes one step of the specification (undecided, decided, acted on,
  announced), and the stored row, while it exists, carries the status of that verdict.\<close>

theorem approvals_refine_one_decision:
  "let s = appr_run acts (appr_start db perms hs); s' = sys_step x s in
   \<exists>v w. verdict_of i (as_log s) Undecided = Some v \<and> verdict_of i (as_log s') Undecided = Some w \<and>
     (w = v \<or> verdict_next v w) \<and> row_agrees v (row_status i (as_central s)) \<and> row_agrees w (row_status i (as_central s'))"
proof -
  obtain v where v: "judged i v (appr_run acts (appr_start db perms hs))" using run_judged by blast
  obtain w where w: "judged i w (sys_step x (appr_run acts (appr_start db perms hs)))" "w = v \<or> verdict_next v w"
    using sys_step_simulates [OF v, of x] run_judged unfolding simulated_def by blast
  show ?thesis unfolding Let_def using v w by (intro exI [of _ v] exI [of _ w]) (simp add: judged_def)
qed

text \<open>C27: Whatever clicks, replies, sweeps, crashes and restarts happen and however they interleave, an
  approval is acted on at most once: over the whole run its handler is applied, it is found without a
  handler, or the agent is told of the rejection, in total at most one time.\<close>

theorem approval_acted_on_once:
  "length (filter (acts_on i) (as_log (appr_run acts (appr_start db perms hs)))) \<le> 1"
proof -
  obtain v where v: "judged i v (appr_run acts (appr_start db perms hs))" using run_judged by blast
  then show ?thesis using verdict_acts [of i _ Undecided v] by (force simp: judged_def yet_to_act_def)
qed

text \<open>A decision that is taken but whose task is lost, by an exception or a restart between the status
  transition and the agent's note, is never made good: the approval stays decided and unannounced under
  every further click, reply, sweep, crash and restart.\<close>

theorem interrupted_decision_lost:
  assumes "s = appr_run acts (appr_start db perms hs)" "verdict_of i (as_log s) Undecided = Some (Decided b)" "idle i s"
  shows "verdict_of i (as_log (appr_run acts2 s)) Undecided = Some (Decided b)"
proof -
  have "judged i (Decided b) (appr_run acts2 s) \<and> idle i (appr_run acts2 s) \<and> ids_distinct (as_central (appr_run acts2 s))"
  proof (induction acts2 rule: rev_induct)
    case Nil
    obtain v where "judged i v s" using run_judged assms(1) by blast
    then show ?case using assms run_judged by (auto simp: appr_run_def judged_def)
  next
    case (snoc x acts2)
    then show ?case
      using sys_step_simulates [of i "Decided b" "appr_run acts2 s" x] sys_step_ids [of "appr_run acts2 s" x]
      unfolding appr_run_snoc simulated_def by blast
  qed
  then show ?thesis by (simp add: judged_def)
qed

section \<open>Two runs of one owner's request\<close>

definition owner_row :: pending_approval where
  "owner_row = (approval_defaults ''a1'' ''a1'' ''x'' ''{}'' ''t'' ''T'' ''[]'')\<lparr>pa_session_id := Some ''s1''\<rparr>"

definition owner_click :: "string \<Rightarrow> response_payload" where
  "owner_click v = \<lparr>rp_questionId = ''a1'', rp_value = v, rp_userId = Some ''1'', rp_channelType = ''tg''\<rparr>"

definition owner_start :: appr_sys where
  "owner_start = appr_start (aw_central owner_world) (aw_perms owner_world) [''x'']"

definition approve_cut :: "sys_act list" where
  "approve_cut = [Request owner_row, Click (owner_click ''approve''), Step 0 Ok 0, Step 0 Ok 0, Step 0 Ok 0, Step 0 Ok 0, Restart]"

definition hold_run :: "sys_act list" where
  "hold_run = [Request owner_row, Click (owner_click REJECT_WITH_REASON_VALUE), Step 0 Ok 0, Step 0 Ok 0, Step 0 Ok 0, Step 0 Ok 0, Restart]"

lemma approve_cut_facts:
  "verdict_of ''a1'' (as_log (appr_run approve_cut owner_start)) Undecided = Some (Decided True)"
  "idle ''a1'' (appr_run approve_cut owner_start)"
  by code_simp+


definition hold_row :: pending_approval where
  "hold_row = owner_row\<lparr>pa_status := ApAwaitingReason, pa_expires_at := Some (to_iso (0 + REASON_CAPTURE_WINDOW_MS))\<rparr>"

lemma clicked:
  "appr_run (take 5 hold_run) owner_start = owner_start\<lparr>as_central := (as_central owner_start)\<lparr>cd_approvals := [owner_row]\<rparr>,
     as_used := [''a1''], as_procs := [Some (MarkAwaiting owner_row (new_session ''s1'' ''t'' ''ag'' None None) ''tg:1'', [])]\<rparr>"
  by code_simp

lemma held_state:
  "cd_approvals (as_central (appr_run hold_run owner_start)) = [hold_row]"
  "cd_sessions (as_central (appr_run hold_run owner_start)) = [new_session ''s1'' ''t'' ''ag'' None None]"
proof -
  have r: "hold_run = take 5 hold_run @ [Step 0 Ok 0, Restart]" by (simp add: hold_run_def)
  have n: "pa_approval_id owner_row = ''a1''" "pa_status owner_row = ApPending" by (simp_all add: owner_row_def approval_defaults_def)
  have c: "cd_sessions (as_central owner_start) = [new_session ''s1'' ''t'' ''ag'' None None]"
    by (simp add: owner_start_def appr_start_def owner_world_def)
  have s: "appr_run hold_run owner_start = sys_step Restart (sys_step (Step 0 Ok 0) (appr_run (take 5 hold_run) owner_start))"
    by (subst r) (simp add: appr_run_def del: take_Suc)
  show "cd_approvals (as_central (appr_run hold_run owner_start)) = [hold_row]"
    and "cd_sessions (as_central (appr_run hold_run owner_start)) = [new_session ''s1'' ''t'' ''ag'' None None]"
    unfolding s clicked using n c
    by (simp_all add: run_task_def markApprovalAwaitingReason_def sql_update_def with_central_def hold_row_def)
qed

lemma hold_facts:
  "hold_row \<in> set (getExpiredAwaitingReasonApprovals (to_iso (0 + REASON_CAPTURE_WINDOW_MS)) (as_central (appr_run hold_run owner_start)))"
  "session_of hold_row (as_central (appr_run hold_run owner_start)) \<noteq> None" "pa_approval_id hold_row = ''a1''"
  "pa_session_id hold_row = Some ''s1''"
  unfolding getExpiredAwaitingReasonApprovals_def session_of_def getSession_def held_state
  by (simp_all add: hold_row_def owner_row_def approval_defaults_def sql_select_def new_session_def)

theorem expired_hold_resolved_witness:
  "getPendingApproval ''a1'' (as_central (sweep_now (0 + REASON_CAPTURE_WINDOW_MS) (appr_run hold_run owner_start))) = None \<and>
   Told ''a1'' ''s1'' None \<in> set (as_log (sweep_now (0 + REASON_CAPTURE_WINDOW_MS) (appr_run hold_run owner_start)))"
  using expired_hold_resolved [OF refl [of "appr_run hold_run owner_start", unfolded owner_start_def] hold_facts(1) [unfolded owner_start_def]]
    hold_facts(2-4) unfolding owner_start_def by auto

theorem interrupted_decision_lost_witness:
  "verdict_of ''a1'' (as_log (appr_run [Sweep, Step 0 Ok 1, Click (owner_click ''approve''), Step 0 Ok 2] (appr_run approve_cut owner_start))) Undecided
     = Some (Decided True)"
  by (rule interrupted_decision_lost [OF _ approve_cut_facts]) (simp add: owner_start_def)

end
