(* ===== verification/AgentRoute.thy ===== *)
theory AgentRoute
  imports Approvals Coordination
begin

text \<open>
  Routing of messages between agents (\<open>nanoclaw/src/modules/agent-to-agent/agent-route.ts\<close>,
  \<open>message-gate.ts\<close>).  The content rewritten for attached files is an argument (the theory
  \<open>FileTransfer\<close> models their copying); fresh ids and the clock are inputs.  The write into the target's mailbox and the wake are
  recorded in the state.
\<close>

section \<open>Messages and state\<close>

record agent_msg =
  am_id :: string
  am_target :: "string option"
  am_content :: string
  am_in_reply_to :: "string option"

record agent_write =
  wr_group :: string
  wr_session :: string
  wr_id :: string
  wr_source_group :: string
  wr_source_session :: string
  wr_content :: string

text \<open>\<open>rt_boxes\<close> are the inbound databases of the sessions that have a mailbox.\<close>

record agent_world =
  rt_appr :: appr_world
  rt_boxes :: "string \<Rightarrow> inbound_db option"
  rt_writes :: "agent_write list"
  rt_woken :: "string list"

record agent_env =
  ge_appr :: appr_env
  ge_name :: "string \<Rightarrow> string option"
  ge_session_id :: string
  ge_message_id :: string
  ge_replay_id :: string
  ge_forward :: "agent_msg \<Rightarrow> string \<Rightarrow> string result"

text \<open>\<open>ge_forward\<close> is \<open>forwardFileAttachments\<close>, modelled over a file system in \<open>FileTransfer\<close>: content that parses to null,
  or an inbox directory that cannot be made, throws before anything is written.\<close>

text \<open>A denial by the guard is an error of its own class.\<close>

datatype route_error = GuardDenied string | RouteFailed string

section \<open>The target session\<close>

definition origin_session :: "agent_msg \<Rightarrow> string \<Rightarrow> inbound_db \<Rightarrow> string option" where
  "origin_session m target box =
     (let origin = (if truthy (am_in_reply_to m) then getInboundSourceSessionId (the (am_in_reply_to m)) box else None)
      in if truthy origin then origin else getMostRecentPeerSourceSessionId target box)"

definition candidate_session :: "agent_msg \<Rightarrow> string \<Rightarrow> string \<Rightarrow> agent_world \<Rightarrow> session option" where
  "candidate_session m sourceSession target w =
     (let origin = Option.bind (rt_boxes w sourceSession) (origin_session m target)
      in if truthy origin
         then (case getSession (the origin) (aw_central (rt_appr w)) of
                 Some c \<Rightarrow> if se_agent_group_id c = target \<and> se_status c = Active then Some c else None
               | None \<Rightarrow> None)
         else None)"

definition resolveTargetSession :: "agent_env \<Rightarrow> agent_msg \<Rightarrow> session \<Rightarrow> string \<Rightarrow> agent_world \<Rightarrow> session result \<times> agent_world" where
  "resolveTargetSession env m source target w =
     (case candidate_session m (se_id source) target w of
        Some c \<Rightarrow> (Inr c, w)
      | None \<Rightarrow> (case resolveSession (ge_session_id env) (ae_now (ge_appr env)) target None None AgentShared (aw_central (rt_appr w)) of
                   (r, db) \<Rightarrow> (map_sum id fst r, w\<lparr>rt_appr := (rt_appr w)\<lparr>aw_central := db\<rparr>\<rparr>)))"

section \<open>The route\<close>

definition performAgentRoute :: "agent_env \<Rightarrow> agent_msg \<Rightarrow> session \<Rightarrow> string \<Rightarrow> agent_world \<Rightarrow> (route_error + unit) \<times> agent_world" where
  "performAgentRoute env m source target w =
     (case resolveTargetSession env m source target w of
        (Inl e, w') \<Rightarrow> (Inl (RouteFailed e), w')
      | (Inr t, w') \<Rightarrow>
          (case ge_forward env m (se_id t) of
             Inl e \<Rightarrow> (Inl (RouteFailed e), w')
           | Inr content \<Rightarrow>
               (Inr (), w'\<lparr>rt_writes := rt_writes w' @ [\<lparr>wr_group = target, wr_session = se_id t, wr_id = ge_message_id env,
                    wr_source_group = se_agent_group_id source, wr_source_session = se_id source, wr_content = content\<rparr>],
                  rt_woken := rt_woken w' @ (if getSession (se_id t) (aw_central (rt_appr w')) = None then [] else [se_id t])\<rparr>)))"

section \<open>The gate\<close>

definition GATE_CARD_BODY_MAX :: nat where "GATE_CARD_BODY_MAX = 1500"

fun strings_of :: "jsval list \<Rightarrow> string list" where
  "strings_of [] = []"
| "strings_of (Str s # vs) = s # strings_of vs"
| "strings_of (v # vs) = strings_of vs"

definition parseMessageContent :: "string \<Rightarrow> string \<times> string list" where
  "parseMessageContent content =
     (case json_parse content of
        None \<Rightarrow> (content, [])
      | Some v \<Rightarrow> if v = Null then (content, [])
                  else (case get_prop v ''text'' of Str s \<Rightarrow> s | _ \<Rightarrow> [],
                        case get_prop v ''files'' of Arr fs \<Rightarrow> strings_of fs | _ \<Rightarrow> []))"

fun joined :: "string \<Rightarrow> string list \<Rightarrow> string" where
  "joined sep [] = []"
| "joined sep [s] = s"
| "joined sep (s # ss) = s @ sep @ joined sep ss"

text \<open>The ellipsis is written as three dots.\<close>

definition buildGateQuestion :: "string \<Rightarrow> string \<Rightarrow> string \<Rightarrow> string" where
  "buildGateQuestion sourceName targetName content =
     (case parseMessageContent content of (text, files) \<Rightarrow>
        let body = (if length text > GATE_CARD_BODY_MAX then take GATE_CARD_BODY_MAX text @ ''... (truncated)'' else text)
        in joined [CHR 0x0A]
             ([''Agent \"'' @ sourceName @ ''\" wants to send a message to \"'' @ targetName @ ''\":'', [], body]
              @ (if files = [] then [] else [[], ''Attachments: '' @ joined '', '' files])
              @ [[], ''Approve, Reject, or \"Reject with reason...\" to decline and then type a short reason I'' @ [CHR 0x27]
                      @ ''ll relay to \"'' @ sourceName @ ''\".'']))"

definition hold_payload :: "agent_msg \<Rightarrow> string \<Rightarrow> jout" where
  "hold_payload m target =
     OObj [(''id'', OStr (am_id m)), (''platform_id'', OStr target), (''content'', OStr (am_content m)),
           (''in_reply_to'', case am_in_reply_to m of None \<Rightarrow> ONull | Some s \<Rightarrow> OStr s)]"

definition hold_request :: "agent_env \<Rightarrow> agent_msg \<Rightarrow> session \<Rightarrow> string \<Rightarrow> string option \<Rightarrow> approval_request" where
  "hold_request env m source target who =
     \<lparr>aq_session = source, aq_action = A2A_MESSAGE_GATE_ACTION, aq_payload = json_print (hold_payload m target),
      aq_title = ''Message approval'',
      aq_question = buildGateQuestion (or_else (ge_name env (se_agent_group_id source)) (se_agent_group_id source))
        (or_else (ge_name env target) target) (am_content m),
      aq_approver = who\<rparr>"

definition send_input :: "agent_msg \<Rightarrow> session \<Rightarrow> string \<Rightarrow> pending_approval option \<Rightarrow> guard_input" where
  "send_input m source target grant =
     \<lparr>gi_actor = AgentActor (se_agent_group_id source) (Some (se_id source)),
      gi_resource = Some [(''from'', se_agent_group_id source), (''to'', target)],
      gi_payload = [(''id'', Str (am_id m)), (''platform_id'', Str target), (''content'', Str (am_content m)),
        (''in_reply_to'', case am_in_reply_to m of None \<Rightarrow> Null | Some s \<Rightarrow> Str s)],
      gi_grant = grant\<rparr>"

definition appr_guard_world :: "appr_world \<Rightarrow> guard_world" where
  "appr_guard_world a = \<lparr>gw_links = md_links (aw_mg a), gw_perms = aw_perms a, gw_central = aw_central a,
     gw_agent_groups = ld_agent_groups (md_links (aw_mg a)), gw_cli_scope = (\<lambda>_. None), gw_imageBuild = False\<rparr>"

definition routeAgentMessage :: "agent_env \<Rightarrow> agent_msg \<Rightarrow> session \<Rightarrow> pending_approval option \<Rightarrow> agent_world
    \<Rightarrow> (route_error + unit) \<times> agent_world" where
  "routeAgentMessage env m source grant w =
     (if \<not> truthy (am_target m)
      then (Inl (RouteFailed (''agent-to-agent message '' @ am_id m @ '' is missing a target agent group id'')), w)
      else let target = the (am_target m) in
        case guard catalog (Minted 1) (appr_guard_world (rt_appr w)) (send_input m source target grant) (aw_central (rt_appr w)) of
          DENY reason \<Rightarrow> (Inl (GuardDenied reason), w)
        | HOLD _ who \<Rightarrow>
            (case requestApproval (ge_appr env) (hold_request env m source target who) (rt_appr w) of
               (Inl e, a) \<Rightarrow> (Inl (RouteFailed e), w\<lparr>rt_appr := a\<rparr>)
             | (Inr _, a) \<Rightarrow> (Inr (), w\<lparr>rt_appr := a\<rparr>))
        | ALLOW _ \<Rightarrow> performAgentRoute env m source target w)"

section \<open>The approved replay\<close>

text \<open>The message of an approved payload; \<open>None\<close> without a target.\<close>

definition gate_message :: "agent_env \<Rightarrow> jsval \<Rightarrow> agent_msg option" where
  "gate_message env payload =
     (case get_prop payload ''platform_id'' of
        Str target \<Rightarrow>
          if target = [] then None
          else Some \<lparr>am_id = (case get_prop payload ''id'' of Str s \<Rightarrow> s | _ \<Rightarrow> ge_replay_id env), am_target = Some target,
                 am_content = (case get_prop payload ''content'' of Str s \<Rightarrow> s | _ \<Rightarrow> []),
                 am_in_reply_to = (case get_prop payload ''in_reply_to'' of Str s \<Rightarrow> Some s | _ \<Rightarrow> None)\<rparr>
      | _ \<Rightarrow> None)"

definition notify_source :: "session \<Rightarrow> string \<Rightarrow> agent_world \<Rightarrow> agent_world" where
  "notify_source s text w = w\<lparr>rt_appr := notifyAgent s text (rt_appr w)\<rparr>"

definition applyA2aMessageGate :: "agent_env \<Rightarrow> session \<Rightarrow> jsval \<Rightarrow> pending_approval \<Rightarrow> agent_world \<Rightarrow> (route_error + unit) \<times> agent_world" where
  "applyA2aMessageGate env source payload approval w =
     (case gate_message env payload of
        None \<Rightarrow> (Inr (), notify_source source ''Message approved but the target agent group was missing from the request.'' w)
      | Some m \<Rightarrow>
          (case routeAgentMessage env m source (Some approval) w of
             (Inl (GuardDenied reason), w') \<Rightarrow>
               (Inr (), notify_source source (''Message approved, but not delivered - no longer authorized: '' @ reason) w')
           | r \<Rightarrow> r))"

section \<open>Lemmas\<close>

lemma resolveTargetSession_active:
  assumes "resolveTargetSession env m source target w = (Inr t, w')"
  shows "se_agent_group_id t = target \<and> se_status t = Active \<and> rt_writes w' = rt_writes w
    \<and> t \<in> set (cd_sessions (aw_central (rt_appr w')))"
proof (cases "candidate_session m (se_id source) target w")
  case (Some c)
  then show ?thesis using assms
    by (auto simp: resolveTargetSession_def candidate_session_def Let_def getSession_def
        dest: sql_select_in split: if_splits option.splits)
next
  case None
  let ?db = "aw_central (rt_appr w)"
  obtain q db where q: "resolveSession (ge_session_id env) (ae_now (ge_appr env)) target None None AgentShared ?db = (q, db)"
    by (meson surj_pair)
  then have e: "map_sum id fst q = Inr t" and w': "w' = w\<lparr>rt_appr := (rt_appr w)\<lparr>aw_central := db\<rparr>\<rparr>"
    using assms None by (simp_all add: resolveTargetSession_def)
  obtain b where "q = Inr (t, b)" using e by (cases q) auto
  then have r: "resolveSession (ge_session_id env) (ae_now (ge_appr env)) target None None AgentShared ?db = (Inr (t, b), db)"
    using q by simp
  have l: "lookup_route target None None AgentShared db = Some t" using resolveSession_lookup [OF r] by simp
  then have "serves target None None AgentShared t" "t \<in> set (cd_sessions db)"
    using lookup_route_serves lookup_route_in by blast+
  then show ?thesis using w' by (simp add: serves_def)
qed

lemma performAgentRoute_writes:
  assumes "performAgentRoute env m source target w = (r, w')" "x \<in> set (rt_writes w')" "x \<notin> set (rt_writes w)"
  shows "wr_group x = target \<and> wr_source_group x = se_agent_group_id source \<and> wr_source_session x = se_id source
    \<and> (\<exists>t\<in>set (cd_sessions (aw_central (rt_appr w'))). se_id t = wr_session x \<and> se_agent_group_id t = target \<and> se_status t = Active)"
proof -
  obtain q w1 where q: "resolveTargetSession env m source target w = (q, w1)"
    by (cases "resolveTargetSession env m source target w")
  show ?thesis
  proof (cases q)
    case (Inl e)
    have "rt_writes w1 = rt_writes w"
      using q by (auto simp: resolveTargetSession_def split: option.splits prod.splits)
    then show ?thesis using assms q Inl by (simp add: performAgentRoute_def)
  next
    case (Inr t)
    note a = resolveTargetSession_active [OF q [unfolded Inr]]
    then show ?thesis using assms q Inr by (auto simp: performAgentRoute_def split: sum.splits)
  qed
qed

lemma gate_message_again:
  assumes "am_target m = Some target" "target \<noteq> []"
  shows "gate_message env (embed (hold_payload m target)) = Some m"
  using assms by (cases m; cases "am_in_reply_to m") (simp_all add: gate_message_def hold_payload_def prop_of_def)

lemma strict_equals_Str: "strict_equals v (Str s) \<longleftrightarrow> v = Str s"
  by (cases v) auto

section \<open>Properties\<close>

text \<open>C33: A message of an agent reaches only a session of the group it is addressed to, an active one, and
  only if the sender is that group itself or has a live destination row for it, and either no policy
  gates the pair or the call replays a live approval given for this very target.\<close>

theorem agent_messages_authorized:
  assumes "routeAgentMessage env m source grant w = (r, w')" "rt_writes w = []" "x \<in> set (rt_writes w')"
  shows "am_target m = Some (wr_group x) \<and> wr_source_session x = se_id source
    \<and> (\<exists>t\<in>set (cd_sessions (aw_central (rt_appr w'))). se_id t = wr_session x \<and> se_agent_group_id t = wr_group x \<and> se_status t = Active)
    \<and> (let links = md_links (aw_mg (rt_appr w)) in
       wr_group x = se_agent_group_id source
       \<or> hasDestination (se_agent_group_id source) AgentTarget (wr_group x) links
         \<and> (getMessagePolicy (se_agent_group_id source) (wr_group x) links = None
            \<or> (\<exists>g row. grant = Some g \<and> getPendingApproval (pa_approval_id g) (aw_central (rt_appr w)) = Some row
                \<and> pa_action row = A2A_MESSAGE_GATE_ACTION \<and> payload_prop g ''platform_id'' = Some (Str (wr_group x)))))"
proof -
  let ?gw = "appr_guard_world (rt_appr w)" and ?db = "aw_central (rt_appr w)"
  have tm: "truthy (am_target m)" using assms by (auto simp: routeAgentMessage_def split: if_splits)
  then obtain target where target: "am_target m = Some target" by (cases "am_target m") auto
  let ?i = "send_input m source target grant"
  have allow: "is_allow (guard catalog (Minted 1) ?gw ?i ?db)" and p: "performAgentRoute env m source target w = (r, w')"
    using assms tm target
    by (auto simp: routeAgentMessage_def split: guard_decision.splits prod.splits sum.splits)
  note wr = performAgentRoute_writes [OF p assms(3)]
  have x: "wr_group x = target" using wr assms(2) by simp
  have "a2a_authorized ?gw ?i ?db" using allow a2a_allow by blast
  then have "target = se_agent_group_id source
       \<or> hasDestination (se_agent_group_id source) AgentTarget target (md_links (aw_mg (rt_appr w)))
         \<and> (getMessagePolicy (se_agent_group_id source) target (md_links (aw_mg (rt_appr w))) = None
            \<or> (\<exists>g row. grant = Some g \<and> getPendingApproval (pa_approval_id g) ?db = Some row
                \<and> pa_action row = A2A_MESSAGE_GATE_ACTION \<and> payload_prop g ''platform_id'' = Some (Str target)))"
    by (auto simp: a2a_authorized_def Let_def send_input_def appr_guard_world_def resource_to_def a2a_covers_def or_else_def
        strict_equals_Str split: option.splits)
  then show ?thesis using wr assms(2) target x unfolding Let_def by auto
qed

definition linked_agents :: agent_world where
  "linked_agents = \<lparr>rt_appr = owner_world\<lparr>
       aw_mg := \<lparr>md_groups = [], md_wirings = [], md_links =
          \<lparr>ld_destinations = [\<lparr>ad_agent_group_id = ''a'', ad_local_name = ''bob'', ad_target_type = AgentTarget, ad_target_id = ''b'', ad_created_at = ''t''\<rparr>],
           ld_policies = [\<lparr>mp_from = ''a'', mp_to = ''b'', mp_approver = ''tg:1'', mp_created_at = ''t''\<rparr>], ld_agent_groups = [''a'', ''b'']\<rparr>\<rparr>,
       aw_central := no_sessions\<lparr>cd_sessions := [new_session ''s1'' ''t'' ''a'' None None, new_session ''s2'' ''t'' ''b'' None None],
          cd_approvals := [approval_defaults ''ap1'' ''ap1'' A2A_MESSAGE_GATE_ACTION ''{\"platform_id\":\"b\"}'' ''t'' ''T'' ''[]'']\<rparr>\<rparr>,
     rt_boxes = (\<lambda>_. None), rt_writes = [], rt_woken = []\<rparr>"

definition route_env :: agent_env where
  "route_env = \<lparr>ge_appr = owner_env, ge_name = (\<lambda>_. None), ge_session_id = ''s3'', ge_message_id = ''m2'', ge_replay_id = ''r'',
     ge_forward = (\<lambda>m _. Inr (am_content m))\<rparr>"

definition note_to_b :: agent_msg where
  "note_to_b = \<lparr>am_id = ''m1'', am_target = Some ''b'', am_content = ''hi'', am_in_reply_to = None\<rparr>"

definition replayed :: "(route_error + unit) \<times> agent_world" where
  "replayed = routeAgentMessage route_env note_to_b (new_session ''s1'' ''t'' ''a'' None None)
     (getPendingApproval ''ap1'' (aw_central (rt_appr linked_agents))) linked_agents"

lemma replayed_writes: "map wr_group (rt_writes (snd replayed)) = [''b'']" "rt_writes linked_agents = []"
  by code_simp+

theorem agent_messages_authorized_witness:
  "\<exists>x\<in>set (rt_writes (snd replayed)). am_target note_to_b = Some (wr_group x) \<and> wr_source_session x = ''s1''"
proof -
  obtain x where x: "x \<in> set (rt_writes (snd replayed))" using replayed_writes(1) by (cases "rt_writes (snd replayed)") auto
  have "routeAgentMessage route_env note_to_b (new_session ''s1'' ''t'' ''a'' None None)
     (getPendingApproval ''ap1'' (aw_central (rt_appr linked_agents))) linked_agents = (fst replayed, snd replayed)"
    by (simp add: replayed_def)
  from agent_messages_authorized [OF this replayed_writes(2) x] show ?thesis
    using x by (auto simp: new_session_def)
qed

text \<open>The message a policy holds comes back unchanged from the approval's payload, so the approved
  replay routes what was asked for.\<close>

theorem held_message_again:
  assumes "am_target m = Some target" "target \<noteq> []"
  shows "Option.bind (json_parse (aq_payload (hold_request env m source target who))) (gate_message env) = Some m"
proof -
  have "jout_ok (hold_payload m target)"
    by (cases "am_in_reply_to m") (simp_all add: hold_payload_def)
  then have "json_parse (json_print (hold_payload m target)) = Some (embed (hold_payload m target))"
    by (rule json_parse_print)
  then show ?thesis using gate_message_again [OF assms] by (simp add: hold_request_def)
qed

theorem held_message_again_witness:
  "Option.bind (json_parse (aq_payload (hold_request route_env note_to_b (new_session ''s1'' ''t'' ''a'' None None) ''b'' None)))
     (gate_message route_env) = Some note_to_b"
  by (rule held_message_again) (simp_all add: note_to_b_def)

end
