(* ===== verification/Delivery.thy ===== *)
theory Delivery
  imports AgentRoute ReconcileSession
begin

text \<open>
  Outbound delivery of one message (\<open>nanoclaw/src/delivery.ts\<close>, \<open>delivery-guard.ts\<close>): the registry of
  system actions and its guarded entries, and \<open>deliverMessage\<close> with the permission check of channel
  sends.  The handlers are arguments that change the central state; the adapter, the binding of values
  that are not text by the database driver and the clock are inputs; the files of a message are read
  and removed by the adapter's side of the call.
\<close>

section \<open>Registered actions\<close>

type_synonym action_handler = "jsval \<Rightarrow> session \<Rightarrow> appr_world \<Rightarrow> unit result \<times> appr_world"

record delivery_guard_spec =
  dg_guardAction :: "guard_world action_value"
  dg_precheck :: "(jsval \<Rightarrow> session \<Rightarrow> appr_world \<Rightarrow> bool result \<times> appr_world) option"
  dg_requestHold :: action_handler
  dg_onDeny :: "(string \<Rightarrow> action_handler) option"

text \<open>An entry declares why it runs unguarded, or how it is guarded.\<close>

datatype delivery_entry = UnguardedEntry string action_handler | GuardedEntry delivery_guard_spec action_handler

type_synonym delivery_actions = "string \<rightharpoonup> delivery_entry"

fun isUnguardedEntry :: "delivery_entry \<Rightarrow> bool" where
  "isUnguardedEntry (UnguardedEntry _ _) = True"
| "isUnguardedEntry (GuardedEntry _ _) = False"

definition registerDeliveryAction :: "string \<Rightarrow> delivery_entry \<Rightarrow> delivery_actions \<Rightarrow> unit result \<times> delivery_actions" where
  "registerDeliveryAction action entry actions =
     (case actions action of
        Some existing \<Rightarrow>
          if isUnguardedEntry entry \<and> \<not> isUnguardedEntry existing
          then (Inl (''delivery action \"'' @ action @ ''\" is guard-wrapped; re-registering it without a guard spec would disarm the guard''), actions)
          else (Inr (), actions(action \<mapsto> entry))
      | None \<Rightarrow> (Inr (), actions(action \<mapsto> entry)))"

record guard_env =
  ug_cli_scope :: "string \<Rightarrow> string option"
  ug_imageBuild :: bool

definition action_guard_world :: "guard_env \<Rightarrow> appr_world \<Rightarrow> guard_world" where
  "action_guard_world env w = (appr_guard_world w)\<lparr>gw_cli_scope := ug_cli_scope env, gw_imageBuild := ug_imageBuild env\<rparr>"

fun members :: "jsval \<Rightarrow> (string \<times> jsval) list" where
  "members (Obj ps) = ps"
| "members _ = []"

definition action_input :: "jsval \<Rightarrow> session \<Rightarrow> pending_approval option \<Rightarrow> guard_input" where
  "action_input content s grant =
     \<lparr>gi_actor = AgentActor (se_agent_group_id s) (Some (se_id s)), gi_resource = None, gi_payload = members content, gi_grant = grant\<rparr>"

definition consult :: "guard_env \<Rightarrow> delivery_guard_spec \<Rightarrow> jsval \<Rightarrow> session \<Rightarrow> pending_approval option \<Rightarrow> appr_world \<Rightarrow> guard_decision" where
  "consult env spec content s grant w =
     guard catalog (dg_guardAction spec) (action_guard_world env w) (action_input content s grant) (aw_central w)"

definition decided :: "guard_env \<Rightarrow> delivery_guard_spec \<Rightarrow> action_handler \<Rightarrow> pending_approval option \<Rightarrow> action_handler" where
  "decided env spec handler grant content s w =
     (case consult env spec content s grant w of
        DENY reason \<Rightarrow> (case dg_onDeny spec of None \<Rightarrow> (Inr (), w) | Some f \<Rightarrow> f reason content s w)
      | HOLD _ _ \<Rightarrow> dg_requestHold spec content s w
      | ALLOW _ \<Rightarrow> handler content s w)"

definition runGuarded :: "guard_env \<Rightarrow> delivery_guard_spec \<Rightarrow> action_handler \<Rightarrow> pending_approval option \<Rightarrow> action_handler" where
  "runGuarded env spec handler grant content s w =
     (case dg_precheck spec of
        None \<Rightarrow> decided env spec handler grant content s w
      | Some precheck \<Rightarrow>
          (case precheck content s w of
             (Inl e, w') \<Rightarrow> (Inl e, w')
           | (Inr proceed, w') \<Rightarrow> if \<not> proceed then (Inr (), w') else decided env spec handler grant content s w'))"

definition reenterGuardedDeliveryAction :: "guard_env \<Rightarrow> delivery_actions \<Rightarrow> string \<Rightarrow> pending_approval \<Rightarrow> action_handler" where
  "reenterGuardedDeliveryAction env actions action approval content s w =
     (case actions action of
        Some (GuardedEntry spec handler) \<Rightarrow> runGuarded env spec handler (Some approval) content s w
      | _ \<Rightarrow> (Inr (), w))"

definition getDeliveryAction :: "guard_env \<Rightarrow> delivery_actions \<Rightarrow> string \<Rightarrow> action_handler option" where
  "getDeliveryAction env actions action =
     (case actions action of
        None \<Rightarrow> None
      | Some (UnguardedEntry _ handler) \<Rightarrow> Some handler
      | Some (GuardedEntry spec handler) \<Rightarrow> Some (runGuarded env spec handler None))"

text \<open>Reading a property of null throws; only text is the key of an action.\<close>

definition handleSystemAction :: "guard_env \<Rightarrow> delivery_actions \<Rightarrow> action_handler" where
  "handleSystemAction env actions content s w =
     (if content = Null then (Inl ''TypeError'', w)
      else case get_prop content ''action'' of
             Str action \<Rightarrow> (case getDeliveryAction env actions action of
                              Some registered \<Rightarrow> registered content s w
                            | None \<Rightarrow> (Inr (), w))
           | _ \<Rightarrow> (Inr (), w))"

section \<open>Messages and state\<close>

record out_msg =
  om_id :: string
  om_kind :: string
  om_platform_id :: "string option"
  om_channel_type :: "string option"
  om_thread_id :: "string option"
  om_content :: string
  om_in_reply_to :: "string option"

text \<open>One call of the adapter and whether it returned.\<close>

record sent_message =
  sn_session :: string
  sn_message :: string
  sn_channel_type :: string
  sn_platform_id :: string
  sn_thread_id :: "string option"
  sn_content :: string
  sn_instance :: string
  sn_returned :: bool

record deliver_world =
  dv_route :: agent_world
  dv_sent :: "sent_message list"
  dv_run_log :: "(string \<times> string \<times> string) list"

text \<open>\<open>de_adapter\<close> is \<open>None\<close> before an adapter is set.\<close>

record delivery_env =
  de_route :: agent_env
  de_guard :: guard_env
  de_actions :: delivery_actions
  de_adapter :: "(out_msg \<Rightarrow> string option result) option"
  de_tables :: "string list"
  de_bind :: "jsval \<Rightarrow> string result"

definition hasTable :: "delivery_env \<Rightarrow> string \<Rightarrow> bool" where
  "hasTable env t = (t \<in> set (de_tables env))"

section \<open>The task log\<close>

definition series_char :: "char \<Rightarrow> bool" where
  "series_char c = (is_lower c \<or> is_digit c \<or> c = CHR ''-'')"

text \<open>The line is recorded without the stamp and path; a failing file system is the same branch as an
  invalid id, the caller catches both.\<close>

definition appendRunLog :: "string \<Rightarrow> string \<Rightarrow> string \<Rightarrow> deliver_world \<Rightarrow> unit result \<times> deliver_world" where
  "appendRunLog agentGroupId series msg w =
     (if series = [] \<or> \<not> list_all series_char series then (Inl (''invalid task id: '' @ series), w)
      else if agentGroupId \<notin> set (ld_agent_groups (md_links (aw_mg (rt_appr (dv_route w)))))
      then (Inl (''agent group not found: '' @ agentGroupId), w)
      else (Inr (), w\<lparr>dv_run_log := dv_run_log w @ [(agentGroupId, series, msg)]\<rparr>))"

definition deliver_task_log :: "jsval \<Rightarrow> session \<Rightarrow> deliver_world \<Rightarrow> deliver_world" where
  "deliver_task_log content s w =
     (if se_messaging_group_id s = None \<and> isTaskThread (se_thread_id s) \<and> truthy (se_thread_id s)
      then if content = Null then w
           else snd (appendRunLog (se_agent_group_id s) (drop (length (TASKS_SYSTEM_THREAD_ID @ '':'')) (the (se_thread_id s)))
                  (case get_prop content ''text'' of Str t \<Rightarrow> t | _ \<Rightarrow> []) w)
      else w)"

section \<open>Channel sends\<close>

definition send_target :: "out_msg \<Rightarrow> session \<Rightarrow> mg_db \<Rightarrow> messaging_group option" where
  "send_target m s db =
     (let channel = the (om_channel_type m); platform = the (om_platform_id m);
          originMg = (if truthy (se_messaging_group_id s) then getMessagingGroup (the (se_messaging_group_id s)) db else None);
          other = (case getMessagingGroupForOwnDestination (se_agent_group_id s) channel platform db of
                     Some mg \<Rightarrow> Some mg | None \<Rightarrow> getMessagingGroupByPlatform channel platform None db)
      in case originMg of
           Some mg \<Rightarrow> if mg_channel_type mg = channel \<and> mg_platform_id mg = platform then Some mg else other
         | None \<Rightarrow> other)"

definition may_send :: "delivery_env \<Rightarrow> session \<Rightarrow> messaging_group \<Rightarrow> mg_db \<Rightarrow> bool" where
  "may_send env s mg db =
     (se_messaging_group_id s = Some (mg_id mg) \<or> \<not> hasTable env ''agent_destinations''
      \<or> hasDestination (se_agent_group_id s) ChannelTarget (mg_id mg) (md_links db))"

definition has_routing :: "out_msg \<Rightarrow> bool" where
  "has_routing m = (truthy (om_channel_type m) \<and> truthy (om_platform_id m))"

definition resolve_send :: "delivery_env \<Rightarrow> out_msg \<Rightarrow> session \<Rightarrow> mg_db \<Rightarrow> string option result" where
  "resolve_send env m s db =
     (if \<not> has_routing m then Inr None
      else case send_target m s db of
             None \<Rightarrow> Inl (''unknown messaging group for '' @ the (om_channel_type m) @ ''/'' @ the (om_platform_id m) @ '' (message '' @ om_id m @ '')'')
           | Some mg \<Rightarrow>
               if truthy (mg_detached_at mg)
               then Inl (''messaging group '' @ mg_id mg @ '' is detached (bot removed from '' @ mg_channel_type mg @ ''/'' @ mg_platform_id mg
                          @ '' at '' @ the (mg_detached_at mg) @ '')'')
               else if \<not> may_send env s mg db
               then Inl (''unauthorized channel destination: '' @ se_agent_group_id s @ '' cannot send to '' @ mg_channel_type mg @ ''/'' @ mg_platform_id mg)
               else Inr (Some (mg_instance mg)))"

section \<open>Questions\<close>

fun js_truthy :: "jsval \<Rightarrow> bool" where
  "js_truthy Undefined = False"
| "js_truthy Null = False"
| "js_truthy (Bool b) = b"
| "js_truthy (Num n) = (n \<noteq> Fin 0 \<and> n \<noteq> NaN)"
| "js_truthy (Str s) = (s \<noteq> [])"
| "js_truthy (Arr _) = True"
| "js_truthy (Obj _) = True"

text \<open>Options have the declared types: a label that is not text reads as the empty text.\<close>

fun raw_option_of :: "jsval \<Rightarrow> raw_option result" where
  "raw_option_of Null = Inl ''TypeError''"
| "raw_option_of (Str s) = Inr (RawText s)"
| "raw_option_of v = Inr (RawOption (js_text (get_prop v ''label'')) (js_opt (get_prop v ''selectedLabel''))
     (js_opt (get_prop v ''value'')) (js_opt (get_prop v ''style'')))"

definition bind_value :: "delivery_env \<Rightarrow> jsval \<Rightarrow> string result" where
  "bind_value env v = (case v of Str s \<Rightarrow> Inr s | _ \<Rightarrow> de_bind env v)"

definition question_row :: "delivery_env \<Rightarrow> out_msg \<Rightarrow> session \<Rightarrow> string \<Rightarrow> string \<Rightarrow> pending_question" where
  "question_row env m s questionId title =
     \<lparr>pq_question_id = questionId, pq_session_id = se_id s, pq_message_out_id = om_id m, pq_platform_id = om_platform_id m,
      pq_channel_type = om_channel_type m, pq_thread_id = om_thread_id m, pq_title = title, pq_options_json = [],
      pq_created_at = ae_now (ge_appr (de_route env))\<rparr>"

definition persist_question :: "delivery_env \<Rightarrow> out_msg \<Rightarrow> session \<Rightarrow> jsval \<Rightarrow> central_db \<Rightarrow> unit result \<times> central_db" where
  "persist_question env m s content db =
     (if get_prop content ''type'' = Str ''ask_question'' \<and> js_truthy (get_prop content ''questionId'') \<and> hasTable env ''pending_questions''
      then if \<not> js_truthy (get_prop content ''title'') then (Inr (), db)
           else case get_prop content ''options'' of
                  Arr rawOptions \<Rightarrow>
                    (case bind_result (traverse raw_option_of rawOptions) (\<lambda>raws.
                            bind_result (bind_value env (get_prop content ''questionId'')) (\<lambda>questionId.
                            bind_result (bind_value env (get_prop content ''title'')) (\<lambda>title.
                              Inr (raws, question_row env m s questionId title)))) of
                       Inl e \<Rightarrow> (Inl e, db)
                     | Inr (raws, row) \<Rightarrow>
                         (case createPendingQuestion row (normalizeOptions raws) db of (r, db') \<Rightarrow> (map_sum id (\<lambda>_. ()) r, db')))
                | _ \<Rightarrow> (Inr (), db)
      else (Inr (), db))"

section \<open>Delivery of a message\<close>

definition with_appr :: "appr_world \<Rightarrow> deliver_world \<Rightarrow> deliver_world" where
  "with_appr a w = w\<lparr>dv_route := (dv_route w)\<lparr>rt_appr := a\<rparr>\<rparr>"

definition deliver_channel :: "delivery_env \<Rightarrow> (out_msg \<Rightarrow> string option result) \<Rightarrow> out_msg \<Rightarrow> jsval \<Rightarrow> session \<Rightarrow> deliver_world
    \<Rightarrow> string option result \<times> deliver_world" where
  "deliver_channel env adapter m content s w =
     (let a = rt_appr (dv_route w) in
      case resolve_send env m s (aw_mg a) of
        Inl e \<Rightarrow> (Inl e, w)
      | Inr inst \<Rightarrow>
          if content = Null then (Inl ''TypeError'', w)
          else case persist_question env m s content (aw_central a) of
            (Inl e, db) \<Rightarrow> (Inl e, with_appr (a\<lparr>aw_central := db\<rparr>) w)
          | (Inr _, db) \<Rightarrow>
              (let w' = with_appr (a\<lparr>aw_central := db\<rparr>) w in
               case inst of
                 None \<Rightarrow> (Inr None, w')
               | Some i \<Rightarrow>
                   (adapter m, w'\<lparr>dv_sent := dv_sent w' @ [\<lparr>sn_session = se_id s, sn_message = om_id m,
                      sn_channel_type = the (om_channel_type m), sn_platform_id = the (om_platform_id m), sn_thread_id = om_thread_id m,
                      sn_content = om_content m, sn_instance = i, sn_returned = (case adapter m of Inr _ \<Rightarrow> True | Inl _ \<Rightarrow> False)\<rparr>]\<rparr>)))"

definition deliver_agent :: "delivery_env \<Rightarrow> out_msg \<Rightarrow> session \<Rightarrow> deliver_world \<Rightarrow> string option result \<times> deliver_world" where
  "deliver_agent env m s w =
     (if \<not> hasTable env ''agent_destinations''
      then (Inl (''agent-to-agent module not installed - cannot route message '' @ om_id m), w)
      else case routeAgentMessage (de_route env) \<lparr>am_id = om_id m, am_target = om_platform_id m, am_content = om_content m,
                  am_in_reply_to = om_in_reply_to m\<rparr> s None (dv_route w) of
             (Inl (GuardDenied e), r) \<Rightarrow> (Inl e, w\<lparr>dv_route := r\<rparr>)
           | (Inl (RouteFailed e), r) \<Rightarrow> (Inl e, w\<lparr>dv_route := r\<rparr>)
           | (Inr _, r) \<Rightarrow> (Inr None, w\<lparr>dv_route := r\<rparr>))"

definition deliver_system :: "delivery_env \<Rightarrow> jsval \<Rightarrow> session \<Rightarrow> deliver_world \<Rightarrow> string option result \<times> deliver_world" where
  "deliver_system env content s w =
     (case handleSystemAction (de_guard env) (de_actions env) content s (rt_appr (dv_route w)) of
        (r, a) \<Rightarrow> (map_sum id (\<lambda>_. None) r, with_appr a w))"

definition deliverMessage :: "delivery_env \<Rightarrow> out_msg \<Rightarrow> session \<Rightarrow> deliver_world \<Rightarrow> string option result \<times> deliver_world" where
  "deliverMessage env m s w =
     (case de_adapter env of
        None \<Rightarrow> (Inr None, w)
      | Some adapter \<Rightarrow>
          (case json_parse (om_content m) of
             None \<Rightarrow> (Inl ''SyntaxError'', w)
           | Some content \<Rightarrow>
               if om_kind m = ''system'' then deliver_system env content s w
               else if om_kind m = ''task_log'' then (Inr None, deliver_task_log content s w)
               else if om_channel_type m = Some ''agent'' then deliver_agent env m s w
               else deliver_channel env adapter m content s w))"

section \<open>Lemmas\<close>

lemma first_by_in: "first_by k rows = Some r \<Longrightarrow> r \<in> set rows"
  by (metis first_by_def list.case_eq_if list.set_sel(1) option.distinct(1) option.inject set_sort)

lemma own_destination_in:
  assumes "getMessagingGroupForOwnDestination g c p db = Some mg"
  shows "mg \<in> set (md_groups db) \<and> mg_channel_type mg = c \<and> mg_platform_id mg = p"
  using assms by (auto simp: getMessagingGroupForOwnDestination_def dest!: first_by_in)

lemma by_platform_in:
  assumes "getMessagingGroupByPlatform c p None db = Some mg"
  shows "mg \<in> set (md_groups db) \<and> mg_channel_type mg = c \<and> mg_platform_id mg = p"
  using assms by (auto simp: getMessagingGroupByPlatform_def dest!: first_by_in)

lemma send_target_in:
  assumes "send_target m s db = Some mg"
  shows "mg \<in> set (md_groups db) \<and> mg_channel_type mg = the (om_channel_type m) \<and> mg_platform_id mg = the (om_platform_id m)"
  using assms
  by (auto simp: send_target_def Let_def getMessagingGroup_def dest: own_destination_in by_platform_in sql_select_in
      split: option.splits if_splits)

lemma send_target_origin:
  assumes "se_messaging_group_id s = Some i" "i \<noteq> []" "getMessagingGroup i db = Some mg"
    and "mg_channel_type mg = the (om_channel_type m)" "mg_platform_id mg = the (om_platform_id m)"
  shows "send_target m s db = Some mg"
  using assms by (simp add: send_target_def)

lemma resolve_send_some:
  assumes "resolve_send env m s db = Inr (Some i)"
  obtains mg where "send_target m s db = Some mg" "i = mg_instance mg" "\<not> truthy (mg_detached_at mg)"
    "may_send env s mg db" "has_routing m"
  using assms by (auto simp: resolve_send_def split: if_splits option.splits)

lemma deliver_channel_sends:
  assumes "deliver_channel env adapter m content s w = (r, w')"
  shows "dv_sent w' = dv_sent w \<or>
    (\<exists>i. resolve_send env m s (aw_mg (rt_appr (dv_route w))) = Inr (Some i) \<and> r = adapter m \<and>
      dv_sent w' = dv_sent w @ [\<lparr>sn_session = se_id s, sn_message = om_id m,
         sn_channel_type = the (om_channel_type m), sn_platform_id = the (om_platform_id m), sn_thread_id = om_thread_id m,
         sn_content = om_content m, sn_instance = i, sn_returned = (case adapter m of Inr _ \<Rightarrow> True | Inl _ \<Rightarrow> False)\<rparr>])"
  using assms
  by (cases "resolve_send env m s (aw_mg (rt_appr (dv_route w)))")
    (auto simp: deliver_channel_def Let_def with_appr_def split: if_splits prod.splits sum.splits option.splits)

lemma deliver_other_sends:
  "dv_sent (snd (deliver_system env content s w)) = dv_sent w"
  "dv_sent (snd (deliver_agent env m s w)) = dv_sent w"
  "dv_sent (deliver_task_log content s w) = dv_sent w"
  by (auto simp: deliver_system_def with_appr_def deliver_agent_def deliver_task_log_def appendRunLog_def
      split: prod.splits sum.splits route_error.splits)

lemma deliverMessage_sends:
  assumes "deliverMessage env m s w = (r, w')"
  shows "dv_sent w' = dv_sent w \<or>
    (\<exists>i adapter. de_adapter env = Some adapter \<and> r = adapter m \<and>
      resolve_send env m s (aw_mg (rt_appr (dv_route w))) = Inr (Some i) \<and>
      dv_sent w' = dv_sent w @ [\<lparr>sn_session = se_id s, sn_message = om_id m,
         sn_channel_type = the (om_channel_type m), sn_platform_id = the (om_platform_id m), sn_thread_id = om_thread_id m,
         sn_content = om_content m, sn_instance = i, sn_returned = (case adapter m of Inr _ \<Rightarrow> True | Inl _ \<Rightarrow> False)\<rparr>])"
proof -
  have o: "dv_sent w' = dv_sent w"
    if "deliver_system env c s w = (r, w') \<or> deliver_agent env m s w = (r, w') \<or> deliver_task_log c s w = w'" for c
    using that deliver_other_sends(1) [of env c s w] deliver_other_sends(2) [of env m s w] deliver_other_sends(3) [of c s w]
    by auto
  show ?thesis
    using assms o unfolding deliverMessage_def
    by (auto dest!: deliver_channel_sends split: option.splits if_splits)
qed

definition registrations :: "(string \<times> delivery_entry) list \<Rightarrow> delivery_actions \<Rightarrow> delivery_actions" where
  "registrations = fold (\<lambda>(n, e) actions. snd (registerDeliveryAction n e actions))"

lemma register_keeps_guard:
  assumes "actions name = Some e" "\<not> isUnguardedEntry e"
  shows "\<exists>e'. snd (registerDeliveryAction n d actions) name = Some e' \<and> \<not> isUnguardedEntry e'"
  using assms by (auto simp: registerDeliveryAction_def split: option.splits)

lemma registrations_keep_guard:
  "actions name = Some e \<Longrightarrow> \<not> isUnguardedEntry e \<Longrightarrow>
   \<exists>e'. registrations regs actions name = Some e' \<and> \<not> isUnguardedEntry e'"
proof (induction regs arbitrary: actions e)
  case (Cons r regs)
  obtain n d where r: "r = (n, d)" by (cases r)
  obtain e' where "snd (registerDeliveryAction n d actions) name = Some e'" "\<not> isUnguardedEntry e'"
    using register_keeps_guard [of actions name e n d, OF Cons.prems] by blast
  then show ?case using Cons.IH [of "snd (registerDeliveryAction n d actions)" e'] by (simp add: registrations_def r)
qed (simp add: registrations_def)

text \<open>The result of a guarded run is the handler's after an allow; otherwise it is the same for every
  handler, so the handler was not called.\<close>

lemma runGuarded_allowed:
  "(\<exists>w1. is_allow (consult env spec content s grant w1) \<and> runGuarded env spec h grant content s w = h content s w1)
   \<or> (\<forall>h2. runGuarded env spec h2 grant content s w = runGuarded env spec h grant content s w)"
proof -
  have d: "(is_allow (consult env spec content s grant w1) \<and> decided env spec h grant content s w1 = h content s w1)
     \<or> (\<forall>h2. decided env spec h2 grant content s w1 = decided env spec h grant content s w1)" for w1
    by (cases "consult env spec content s grant w1") (simp_all add: decided_def)
  show ?thesis
  proof (cases "dg_precheck spec")
    case None
    then show ?thesis using d [of w] by (auto simp: runGuarded_def)
  next
    case (Some p)
    obtain q w1 where q: "p content s w = (q, w1)" by (cases "p content s w")
    show ?thesis using d [of w1] Some q by (cases q) (auto simp: runGuarded_def)
  qed
qed

section \<open>Properties\<close>

text \<open>C34: A message goes to the adapter only for a registered chat of the message's own address that the
  bot has not been removed from, which is the session's own chat or one the agent has a live
  destination row for; the session's own chat wins over other instances of the same address.\<close>

theorem channel_sends_authorized:
  assumes "deliverMessage env m s w = (r, w')"
  shows "dv_sent w' = dv_sent w \<or>
    (let db = aw_mg (rt_appr (dv_route w)) in
     \<exists>x mg. dv_sent w' = dv_sent w @ [x] \<and> mg \<in> set (md_groups db)
      \<and> om_channel_type m = Some (sn_channel_type x) \<and> om_platform_id m = Some (sn_platform_id x)
      \<and> sn_channel_type x = mg_channel_type mg \<and> sn_platform_id x = mg_platform_id mg \<and> sn_instance x = mg_instance mg
      \<and> \<not> truthy (mg_detached_at mg)
      \<and> (se_messaging_group_id s = Some (mg_id mg) \<or> \<not> hasTable env ''agent_destinations''
          \<or> hasDestination (se_agent_group_id s) ChannelTarget (mg_id mg) (md_links db))
      \<and> (\<forall>own. truthy (se_messaging_group_id s) \<and> getMessagingGroup (the (se_messaging_group_id s)) db = Some own
          \<and> mg_channel_type own = sn_channel_type x \<and> mg_platform_id own = sn_platform_id x \<longrightarrow> mg = own))"
  using deliverMessage_sends [OF assms]
proof (elim disjE exE conjE)
  fix i adapter
  let ?db = "aw_mg (rt_appr (dv_route w))"
  assume "resolve_send env m s ?db = Inr (Some i)" and sent: "dv_sent w' = dv_sent w @ [\<lparr>sn_session = se_id s, sn_message = om_id m,
         sn_channel_type = the (om_channel_type m), sn_platform_id = the (om_platform_id m), sn_thread_id = om_thread_id m,
         sn_content = om_content m, sn_instance = i, sn_returned = (case adapter m of Inr _ \<Rightarrow> True | Inl _ \<Rightarrow> False)\<rparr>]"
    (is "_ = _ @ [?x]")
  then obtain mg where mg: "send_target m s ?db = Some mg" "i = mg_instance mg" "\<not> truthy (mg_detached_at mg)"
    "may_send env s mg ?db" "has_routing m" by (elim resolve_send_some) blast
  have own: "mg = own" if "truthy (se_messaging_group_id s)" "getMessagingGroup (the (se_messaging_group_id s)) ?db = Some own"
    "mg_channel_type own = the (om_channel_type m)" "mg_platform_id own = the (om_platform_id m)" for own
    using that send_target_origin [of s _ ?db own m] mg(1) by (cases "se_messaging_group_id s") auto
  have "om_channel_type m = Some (the (om_channel_type m))" "om_platform_id m = Some (the (om_platform_id m))"
    using mg(5) by (cases "om_channel_type m"; cases "om_platform_id m"; simp add: has_routing_def)+
  then show ?thesis
    unfolding Let_def
    using sent mg(2-4) send_target_in [OF mg(1)] own
    by (intro disjI2 exI [of _ ?x] exI [of _ mg]) (simp add: may_send_def)
qed simp

definition slack_chat :: "string \<Rightarrow> string \<Rightarrow> messaging_group" where
  "slack_chat i inst = \<lparr>mg_id = i, mg_channel_type = ''slack'', mg_platform_id = ''C1'', mg_instance = inst, mg_name = None, mg_is_group = 1,
     mg_policy = PublicPolicy, mg_created_at = ''t'', mg_denied_at = None, mg_detached_at = None\<rparr>"

definition two_bots :: deliver_world where
  "two_bots = \<lparr>dv_route = linked_agents\<lparr>rt_appr := owner_world\<lparr>aw_mg :=
       \<lparr>md_groups = [slack_chat ''mg1'' ''slack'', slack_chat ''mg2'' ''slack-b''], md_wirings = [],
        md_links = \<lparr>ld_destinations = [], ld_policies = [], ld_agent_groups = [''ag'']\<rparr>\<rparr>\<rparr>\<rparr>, dv_sent = [], dv_run_log = []\<rparr>"

definition plain_env :: delivery_env where
  "plain_env = \<lparr>de_route = route_env, de_guard = \<lparr>ug_cli_scope = (\<lambda>_. None), ug_imageBuild = True\<rparr>, de_actions = Map.empty,
     de_adapter = Some (\<lambda>_. Inr (Some ''ts1'')), de_tables = [''agent_destinations''], de_bind = (\<lambda>_. Inl ''bind'')\<rparr>"

definition reply_out :: out_msg where
  "reply_out = \<lparr>om_id = ''o1'', om_kind = ''chat'', om_platform_id = Some ''C1'', om_channel_type = Some ''slack'', om_thread_id = None,
     om_content = ''{\"text\":\"hi\"}'', om_in_reply_to = None\<rparr>"

lemma reply_sent: "map sn_returned (dv_sent (snd (deliverMessage plain_env reply_out (new_session ''s1'' ''t'' ''ag'' (Some ''mg2'') None) two_bots))) = [True]"
  by code_simp

theorem channel_sends_authorized_witness:
  "\<exists>x. dv_sent (snd (deliverMessage plain_env reply_out (new_session ''s1'' ''t'' ''ag'' (Some ''mg2'') None) two_bots)) = [x]
     \<and> sn_instance x = ''slack-b''"
proof -
  let ?r = "deliverMessage plain_env reply_out (new_session ''s1'' ''t'' ''ag'' (Some ''mg2'') None) two_bots"
  have d: "?r = (fst ?r, snd ?r)" by simp
  have e: "dv_sent two_bots = []" by (simp add: two_bots_def)
  have o: "getMessagingGroup ''mg2'' (aw_mg (rt_appr (dv_route two_bots))) = Some (slack_chat ''mg2'' ''slack-b'')" by code_simp
  show ?thesis
    using channel_sends_authorized [OF d] reply_sent o
    by (auto simp: e Let_def new_session_def slack_chat_def reply_out_def)
qed

text \<open>C35: Once an action is registered with a guard, no later registration disarms it: on the agent's
  request its handler runs only after the guard allows the request, and on an approved replay only
  after the guard allows the replay that carries the approval.\<close>

theorem guarded_action_stays_guarded:
  assumes "actions name = Some (GuardedEntry spec0 h0)"
  shows "\<exists>spec h. registrations regs actions name = Some (GuardedEntry spec h) \<and>
    (\<forall>env content s w. get_prop content ''action'' = Str name \<longrightarrow>
       (\<exists>w1. is_allow (consult env spec content s None w1) \<and> handleSystemAction env (registrations regs actions) content s w = h content s w1)
       \<or> (\<forall>h2. handleSystemAction env ((registrations regs actions)(name \<mapsto> GuardedEntry spec h2)) content s w
             = handleSystemAction env (registrations regs actions) content s w)) \<and>
    (\<forall>env grant content s w.
       (\<exists>w1. is_allow (consult env spec content s (Some grant) w1)
          \<and> reenterGuardedDeliveryAction env (registrations regs actions) name grant content s w = h content s w1)
       \<or> (\<forall>h2. reenterGuardedDeliveryAction env ((registrations regs actions)(name \<mapsto> GuardedEntry spec h2)) name grant content s w
             = reenterGuardedDeliveryAction env (registrations regs actions) name grant content s w))"
proof -
  obtain spec h where e: "registrations regs actions name = Some (GuardedEntry spec h)"
    using registrations_keep_guard [of actions name "GuardedEntry spec0 h0" regs] assms by (metis isUnguardedEntry.elims(3) isUnguardedEntry.simps(2))
  have "handleSystemAction env (acts(name \<mapsto> GuardedEntry spec h2)) content s w = runGuarded env spec h2 None content s w"
    if "get_prop content ''action'' = Str name" for env acts h2 content s w
    using that by (cases "content = Null") (simp_all add: handleSystemAction_def getDeliveryAction_def)
  moreover have "reenterGuardedDeliveryAction env (acts(name \<mapsto> GuardedEntry spec h2)) name grant content s w
      = runGuarded env spec h2 (Some grant) content s w" for env acts h2 grant content s w
    by (simp add: reenterGuardedDeliveryAction_def)
  moreover have "registrations regs actions = (registrations regs actions)(name \<mapsto> GuardedEntry spec h)"
    using e by (simp add: map_upd_triv)
  ultimately show ?thesis
    using e runGuarded_allowed by (intro exI [of _ spec] exI [of _ h] conjI allI impI) metis+
qed

definition refusing :: action_handler where
  "refusing content s w = (Inl ''no'', w)"

definition create_spec :: delivery_guard_spec where
  "create_spec = \<lparr>dg_guardAction = Minted 0, dg_precheck = None, dg_requestHold = refusing, dg_onDeny = None\<rparr>"

definition guarded_create :: delivery_actions where
  "guarded_create = [''create_agent'' \<mapsto> GuardedEntry create_spec refusing]"

theorem guarded_action_stays_guarded_witness:
  "\<exists>spec h. registrations [(''create_agent'', UnguardedEntry ''replaced'' refusing)] guarded_create ''create_agent''
     = Some (GuardedEntry spec h)"
  using guarded_action_stays_guarded [of guarded_create "''create_agent''" create_spec refusing
      "[(''create_agent'', UnguardedEntry ''replaced'' refusing)]"]
  by (auto simp: guarded_create_def)

end
