(* ===== verification/DeliverySystem.thy ===== *)
theory DeliverySystem
  imports Delivery
begin

text \<open>
  The delivery loops of \<open>nanoclaw/src/delivery.ts\<close>: each poll starts a drain of a session's queue unless
  one is under way, the drain reads the queue once and delivers its messages one by one, and failures
  are counted in the central database until the message is given up.  Drains of several sessions
  interleave at their awaits; a crash loses the drains and the set of sessions under way.
\<close>

section \<open>State\<close>

text \<open>A drain before it reads, after it read (what remains, and the ids delivered so far), and one
  whose first message's delivery has ended.\<close>

datatype drain_phase = Reading | Drained "out_msg list" "string set" | Settling out_msg "string option result" "out_msg list" "string set"

record drain =
  dr_session :: session
  dr_phase :: drain_phase

text \<open>The last four fields are records of what happened, which the code does not keep: \<open>ds_hooks\<close> the calls
  of post-delivery hooks; by session and message, \<open>ds_unmarked\<close> the returned sends whose mark in the
  mailbox was lost, \<open>ds_failed\<close> the failures (a delivery that threw, or a mark after one that returned),
  and \<open>ds_uncounted\<close> the failures that a crash came before the code could count.\<close>

record delivery_state =
  ds_world :: deliver_world
  ds_out :: "string \<Rightarrow> outbound_db option"
  ds_coord :: coord_db
  ds_inflight :: "string set"
  ds_drains :: "drain list"
  ds_hooks :: "(string \<times> string \<times> bool) list"
  ds_unmarked :: "(string \<times> string) list"
  ds_failed :: "(string \<times> string) list"
  ds_uncounted :: "(string \<times> string) list"

text \<open>The inputs of one step; the flags say whether reading the queue or marking a message delivered,
  marking it failed, recording an attempt, and clearing its row succeed.\<close>

record step_env =
  te_delivery :: delivery_env
  te_host :: host_env
  te_mailbox_ok :: bool
  te_giveup_ok :: bool
  te_attempts_ok :: bool
  te_clear_ok :: bool

abbreviation boxes :: "delivery_state \<Rightarrow> string \<Rightarrow> inbound_db option" where
  "boxes st \<equiv> rt_boxes (dv_route (ds_world st))"

definition MAX_DELIVERY_ATTEMPTS :: int where "MAX_DELIVERY_ATTEMPTS = 3"

section \<open>Reading the queue\<close>

definition outbound_message :: "jsval \<Rightarrow> out_msg" where
  "outbound_message v = \<lparr>om_id = js_text (get_prop v ''id''), om_kind = js_text (get_prop v ''kind''),
     om_platform_id = js_opt (get_prop v ''platformId''), om_channel_type = js_opt (get_prop v ''channelType''),
     om_thread_id = js_opt (get_prop v ''threadId''), om_content = js_text (get_prop v ''content''),
     om_in_reply_to = js_opt (get_prop v ''inReplyTo'')\<rparr>"

text \<open>\<open>None\<close> when the agent group or the mailbox is gone.\<close>

definition read_queue :: "host_env \<Rightarrow> session \<Rightarrow> delivery_state \<Rightarrow> (out_msg list \<times> string set) option" where
  "read_queue env s st =
     (if se_agent_group_id s \<notin> set (ld_agent_groups (md_links (aw_mg (rt_appr (dv_route (ds_world st)))))) then None
      else case (boxes st (se_id s), ds_out st (se_id s)) of
             (Some inb, Some outb) \<Rightarrow>
               (let done = getDeliveredIds inb
                in Some (filter (\<lambda>m. om_id m \<notin> done) (map outbound_message (getDueMessages env done outb)), done))
           | _ \<Rightarrow> None)"

section \<open>Bookkeeping of attempts\<close>

text \<open>\<open>None\<close> when the write failed.\<close>

definition recordAttemptRow :: "step_env \<Rightarrow> string \<Rightarrow> string \<Rightarrow> string \<Rightarrow> coord_db \<Rightarrow> int option \<times> coord_db" where
  "recordAttemptRow env messageId sessionId err db =
     (if \<not> te_attempts_ok env then (None, db)
      else case recordDeliveryAttempt messageId sessionId (to_iso (now_ms (te_host env))) None (Some err) db of (n, db') \<Rightarrow> (Some n, db'))"

definition clearAttemptRow :: "step_env \<Rightarrow> string \<Rightarrow> coord_db \<Rightarrow> coord_db" where
  "clearAttemptRow env messageId db = (if te_clear_ok env then clearDeliveryAttempt messageId db else db)"

definition set_box :: "string \<Rightarrow> inbound_db \<Rightarrow> delivery_state \<Rightarrow> delivery_state" where
  "set_box i b st = st\<lparr>ds_world := (ds_world st)\<lparr>dv_route := (dv_route (ds_world st))\<lparr>rt_boxes := (boxes st)(i \<mapsto> b)\<rparr>\<rparr>\<rparr>"

text \<open>A write to a mailbox that is gone does nothing.\<close>

definition mailbox_write :: "string \<Rightarrow> (inbound_db \<Rightarrow> inbound_db) \<Rightarrow> delivery_state \<Rightarrow> delivery_state" where
  "mailbox_write i f st = (case boxes st i of None \<Rightarrow> st | Some b \<Rightarrow> set_box i (f b) st)"

definition attempt_failed :: "step_env \<Rightarrow> session \<Rightarrow> out_msg \<Rightarrow> string \<Rightarrow> delivery_state \<Rightarrow> delivery_state" where
  "attempt_failed env s m err st =
     (case recordAttemptRow env (om_id m) (se_id s) err (ds_coord st) of
        (attempts, db) \<Rightarrow>
          (let st' = st\<lparr>ds_coord := db\<rparr> in
           case attempts of
             None \<Rightarrow> st'
           | Some n \<Rightarrow>
               if n < MAX_DELIVERY_ATTEMPTS \<or> \<not> te_giveup_ok env then st'
               else let st'' = mailbox_write (se_id s) (markDeliveryFailed (now_ms (te_host env)) (om_id m)) st'
                    in st''\<lparr>ds_coord := clearAttemptRow env (om_id m) (ds_coord st'')\<rparr>))"

section \<open>The steps of a drain\<close>

definition user_facing :: "out_msg \<Rightarrow> bool" where
  "user_facing m = (om_kind m \<noteq> ''system'' \<and> om_channel_type m \<noteq> Some ''agent'' \<and> om_kind m \<noteq> ''task_log'')"

definition delivered_ok :: "step_env \<Rightarrow> session \<Rightarrow> out_msg \<Rightarrow> string option \<Rightarrow> string set \<Rightarrow> delivery_state \<Rightarrow> delivery_state" where
  "delivered_ok env s m platformMsgId done st =
     (let st' = mailbox_write (se_id s) (markDelivered (now_ms (te_host env)) (om_id m) platformMsgId) st
      in st'\<lparr>ds_coord := clearAttemptRow env (om_id m) (ds_coord st'),
             ds_hooks := ds_hooks st' @ (if user_facing m then [(se_id s, om_id m, done = {})] else [])\<rparr>)"

definition lost_mark :: "session \<Rightarrow> out_msg \<Rightarrow> delivery_state \<Rightarrow> delivery_state" where
  "lost_mark s m st = st\<lparr>ds_unmarked := (se_id s, om_id m) # ds_unmarked st\<rparr>"

definition note_failure :: "session \<Rightarrow> out_msg \<Rightarrow> delivery_state \<Rightarrow> delivery_state" where
  "note_failure s m st = st\<lparr>ds_failed := (se_id s, om_id m) # ds_failed st\<rparr>"

definition set_drain :: "nat \<Rightarrow> drain_phase \<Rightarrow> delivery_state \<Rightarrow> delivery_state" where
  "set_drain i p st = st\<lparr>ds_drains := (ds_drains st)[i := (ds_drains st ! i)\<lparr>dr_phase := p\<rparr>]\<rparr>"

text \<open>\<open>finally\<close> of \<open>deliverSessionMessages\<close>.\<close>

definition end_drain :: "nat \<Rightarrow> delivery_state \<Rightarrow> delivery_state" where
  "end_drain i st = st\<lparr>ds_inflight := ds_inflight st - {se_id (dr_session (ds_drains st ! i))},
     ds_drains := take i (ds_drains st) @ drop (Suc i) (ds_drains st)\<rparr>"

definition deliverSessionMessages :: "session \<Rightarrow> delivery_state \<Rightarrow> delivery_state" where
  "deliverSessionMessages s st =
     (if se_id s \<in> ds_inflight st then st
      else st\<lparr>ds_inflight := insert (se_id s) (ds_inflight st),
              ds_drains := ds_drains st @ [\<lparr>dr_session = s, dr_phase = Reading\<rparr>]\<rparr>)"

text \<open>After a delivery that returned, the mark may fail: the error is then recorded like one of the
  delivery.\<close>

definition settle :: "step_env \<Rightarrow> session \<Rightarrow> out_msg \<Rightarrow> string option result \<Rightarrow> string set \<Rightarrow> delivery_state \<Rightarrow> string set \<times> delivery_state" where
  "settle env s m r done st =
     (case r of
        Inl e \<Rightarrow> (done, attempt_failed env s m e st)
      | Inr p \<Rightarrow>
          if te_mailbox_ok env
          then (insert (om_id m) done, (if boxes st (se_id s) = None then lost_mark s m else id) (delivered_ok env s m p done st))
          else (done, note_failure s m (lost_mark s m (attempt_failed env s m ''mailbox'' st))))"

definition drain_step :: "step_env \<Rightarrow> nat \<Rightarrow> delivery_state \<Rightarrow> delivery_state" where
  "drain_step env i st =
     (let d = ds_drains st ! i; s = dr_session d in
      case dr_phase d of
        Reading \<Rightarrow>
          (case if te_mailbox_ok env then read_queue (te_host env) s st else None of
             None \<Rightarrow> end_drain i st
           | Some (pending, done) \<Rightarrow> set_drain i (Drained pending done) st)
      | Drained [] done \<Rightarrow> end_drain i st
      | Drained (m # ms) done \<Rightarrow>
          (case deliverMessage (te_delivery env) m s (ds_world st) of
             (r, w) \<Rightarrow> set_drain i (Settling m r ms done)
                         ((case r of Inl _ \<Rightarrow> note_failure s m | Inr _ \<Rightarrow> id) (st\<lparr>ds_world := w\<rparr>)))
      | Settling m r ms done \<Rightarrow>
          (case settle env s m r done st of (done', st') \<Rightarrow> set_drain i (Drained ms done') st'))"

section \<open>Interleaving\<close>

definition returned_send :: "drain \<Rightarrow> (string \<times> string) list" where
  "returned_send d = (case dr_phase d of Settling m (Inr _) _ _ \<Rightarrow> [(se_id (dr_session d), om_id m)] | _ \<Rightarrow> [])"

definition pending_failure :: "drain \<Rightarrow> (string \<times> string) list" where
  "pending_failure d = (case dr_phase d of Settling m (Inl _) _ _ \<Rightarrow> [(se_id (dr_session d), om_id m)] | _ \<Rightarrow> [])"

definition crash :: "delivery_state \<Rightarrow> delivery_state" where
  "crash st = st\<lparr>ds_inflight := {}, ds_drains := [],
     ds_unmarked := concat (map returned_send (ds_drains st)) @ ds_unmarked st,
     ds_uncounted := concat (map pending_failure (ds_drains st)) @ ds_uncounted st\<rparr>"

text \<open>The rest of the host and the containers change everything but what the loops keep: no one else
  calls the adapter or writes delivery marks, a mailbox is not removed, and the ids of a queue are
  its primary key.\<close>

definition marks :: "delivery_state \<Rightarrow> string \<Rightarrow> string set option" where
  "marks st i = map_option getDeliveredIds (boxes st i)"

definition outside :: "delivery_state \<Rightarrow> delivery_state \<Rightarrow> bool" where
  "outside st st' \<longleftrightarrow>
     dv_sent (ds_world st') = dv_sent (ds_world st) \<and> ds_inflight st' = ds_inflight st \<and> ds_drains st' = ds_drains st
     \<and> ds_unmarked st' = ds_unmarked st \<and> ds_failed st' = ds_failed st \<and> ds_uncounted st' = ds_uncounted st
     \<and> (\<forall>i D. marks st i = Some D \<longrightarrow> marks st' i = Some D)
     \<and> (\<forall>i q. ds_out st' i = Some q \<longrightarrow> distinct (map mo_id (messages_out q)))"

inductive delivery_step :: "delivery_state \<Rightarrow> delivery_state \<Rightarrow> bool" where
  Poll: "delivery_step st (deliverSessionMessages s st)"
| Advance: "i < length (ds_drains st) \<Longrightarrow> delivery_step st (drain_step env i st)"
| Crash: "delivery_step st (crash st)"
| Outside: "outside st st' \<Longrightarrow> delivery_step st st'"

definition quiet_start :: "delivery_state \<Rightarrow> bool" where
  "quiet_start st \<longleftrightarrow> ds_inflight st = {} \<and> ds_drains st = [] \<and> dv_sent (ds_world st) = [] \<and> ds_unmarked st = []
     \<and> (\<forall>i q. ds_out st i = Some q \<longrightarrow> distinct (map mo_id (messages_out q)))"

definition returned :: "string \<Rightarrow> string \<Rightarrow> sent_message list \<Rightarrow> nat" where
  "returned s i sent = length (filter (\<lambda>x. sn_session x = s \<and> sn_message x = i \<and> sn_returned x) sent)"

section \<open>The invariant of the loops\<close>

definition sid :: "drain \<Rightarrow> string" where "sid d = se_id (dr_session d)"

fun remaining :: "drain_phase \<Rightarrow> string list" where
  "remaining Reading = []"
| "remaining (Drained ms _) = map om_id ms"
| "remaining (Settling m _ ms _) = om_id m # map om_id ms"

definition drain_ok :: "(string \<Rightarrow> string set option) \<Rightarrow> drain \<Rightarrow> bool" where
  "drain_ok D d \<longleftrightarrow> dr_phase d = Reading \<or>
     (distinct (remaining (dr_phase d)) \<and> (\<exists>M. D (sid d) = Some M \<and> set (remaining (dr_phase d)) \<inter> M = {}))"

definition sends_ok :: "sent_message list \<Rightarrow> (string \<times> string) list \<Rightarrow> (string \<Rightarrow> string \<Rightarrow> bool) \<Rightarrow> bool" where
  "sends_ok sent unmarked P \<longleftrightarrow> (\<forall>s i. returned s i sent \<le> count_list unmarked (s, i) + (if P s i then 1 else 0))"

text \<open>A message is marked, or its send has returned and waits for the mark.\<close>

definition marked_or_awaited :: "(string \<Rightarrow> string set option) \<Rightarrow> drain list \<Rightarrow> string \<Rightarrow> string \<Rightarrow> bool" where
  "marked_or_awaited D ds s i \<longleftrightarrow> (\<exists>M. D s = Some M \<and> i \<in> M) \<or> (\<exists>d\<in>set ds. (s, i) \<in> set (returned_send d))"

definition loops_ok :: "sent_message list \<Rightarrow> (string \<Rightarrow> string set option) \<Rightarrow> drain list \<Rightarrow> string set \<Rightarrow> (string \<times> string) list \<Rightarrow> bool" where
  "loops_ok sent D ds inflight unmarked \<longleftrightarrow>
     distinct (map sid ds) \<and> sid ` set ds = inflight \<and> (\<forall>d\<in>set ds. drain_ok D d)
     \<and> sends_ok sent unmarked (marked_or_awaited D ds)"

definition delivery_inv :: "delivery_state \<Rightarrow> bool" where
  "delivery_inv st \<longleftrightarrow>
     loops_ok (dv_sent (ds_world st)) (marks st) (ds_drains st) (ds_inflight st) (ds_unmarked st)
     \<and> (\<forall>i q. ds_out st i = Some q \<longrightarrow> distinct (map mo_id (messages_out q)))"

lemma returned_send_simps [simp]:
  "returned_send \<lparr>dr_session = s, dr_phase = Reading\<rparr> = []"
  "returned_send \<lparr>dr_session = s, dr_phase = Drained ms M\<rparr> = []"
  "returned_send \<lparr>dr_session = s, dr_phase = Settling m (Inl e) ms M\<rparr> = []"
  "returned_send \<lparr>dr_session = s, dr_phase = Settling m (Inr p) ms M\<rparr> = [(se_id s, om_id m)]"
  "sid \<lparr>dr_session = s, dr_phase = ph\<rparr> = se_id s"
  by (simp_all add: returned_send_def sid_def)

lemma returned_send_sid: "(s, i) \<in> set (returned_send d) \<Longrightarrow> s = sid d"
  by (cases d; cases "dr_phase d") (auto simp: returned_send_def sid_def split: sum.splits)

lemma sends_ok_mono:
  assumes "sends_ok sent un P" "\<And>s i. P s i \<Longrightarrow> Q s i \<or> (s, i) \<in> set new"
  shows "sends_ok sent (new @ un) Q"
  unfolding sends_ok_def
proof (intro allI)
  fix s i
  have "returned s i sent \<le> count_list un (s, i) + (if P s i then 1 else 0)" using assms(1) by (simp add: sends_ok_def)
  moreover have "1 \<le> count_list new (s, i)" if "(s, i) \<in> set new"
    using that count_list_0_iff [of new "(s, i)"] by linarith
  ultimately show "returned s i sent \<le> count_list (new @ un) (s, i) + (if Q s i then 1 else 0)"
    using assms(2) [of s i] by (cases "P s i"; cases "Q s i") auto
qed

lemma sends_ok_send:
  assumes "sends_ok sent un P" "\<not> P (sn_session x) (sn_message x)" "\<And>s i. P s i \<Longrightarrow> Q s i"
    "sn_returned x \<Longrightarrow> Q (sn_session x) (sn_message x)"
  shows "sends_ok (sent @ [x]) un Q"
  unfolding sends_ok_def
proof (intro allI)
  fix s i
  have "returned s i sent \<le> count_list un (s, i) + (if P s i then 1 else 0)" using assms(1) by (simp add: sends_ok_def)
  then show "returned s i (sent @ [x]) \<le> count_list un (s, i) + (if Q s i then 1 else 0)"
    using assms(2-4) [of ] assms(3) [of s i] by (auto simp: returned_def split: if_splits)
qed

lemma sends_ok_weaken:
  "sends_ok sent un P \<Longrightarrow> (\<And>s i. P s i \<Longrightarrow> Q s i) \<Longrightarrow> sends_ok sent un Q"
  using sends_ok_mono [of sent un P Q "[]"] by simp

text \<open>Starting and ending drains.\<close>

lemma loops_start:
  assumes "loops_ok sent D ds infl un" "se_id s \<notin> infl"
  shows "loops_ok sent D (ds @ [\<lparr>dr_session = s, dr_phase = Reading\<rparr>]) (insert (se_id s) infl) un"
proof -
  have "marked_or_awaited D (ds @ [\<lparr>dr_session = s, dr_phase = Reading\<rparr>]) = marked_or_awaited D ds"
    by (simp add: marked_or_awaited_def fun_eq_iff)
  then show ?thesis using assms by (auto simp: loops_ok_def drain_ok_def)
qed

lemma loops_end:
  assumes "loops_ok sent D (ds1 @ d # ds2) infl un" "returned_send d = []"
  shows "loops_ok sent D (ds1 @ ds2) (infl - {sid d}) un"
proof -
  have "marked_or_awaited D (ds1 @ d # ds2) = marked_or_awaited D (ds1 @ ds2)"
    using assms(2) by (auto simp: marked_or_awaited_def fun_eq_iff)
  then show ?thesis using assms(1) by (auto simp: loops_ok_def image_iff)
qed

lemma loops_crash:
  assumes "loops_ok sent D ds infl un"
  shows "loops_ok sent D [] {} (concat (map returned_send ds) @ un)"
  using assms by (auto simp: loops_ok_def marked_or_awaited_def intro: sends_ok_mono)

lemma loops_outside:
  assumes "loops_ok sent D ds infl un" "\<And>i M. D i = Some M \<Longrightarrow> D' i = Some M"
  shows "loops_ok sent D' ds infl un"
proof -
  have "sends_ok sent un (marked_or_awaited D' ds)"
    by (rule sends_ok_weaken [of _ _ "marked_or_awaited D ds"])
      (use assms in \<open>auto simp: loops_ok_def marked_or_awaited_def\<close>)
  then show ?thesis using assms by (fastforce simp: loops_ok_def drain_ok_def)
qed

text \<open>A drain changes its phase: it reads, sends, settles.\<close>

lemma loops_change:
  assumes "loops_ok sent D (ds1 @ d # ds2) infl un" "sid d' = sid d" "drain_ok D' d'"
    "\<And>i. i \<noteq> sid d \<Longrightarrow> D' i = D i" "sends_ok sent' un' (marked_or_awaited D' (ds1 @ d' # ds2))"
  shows "loops_ok sent' D' (ds1 @ d' # ds2) infl un'"
proof -
  have "drain_ok D' x" if "x \<in> set ds1 \<union> set ds2" for x
  proof -
    have "drain_ok D x" "sid x \<noteq> sid d" using that assms(1) by (auto simp: loops_ok_def image_iff)
    then show ?thesis using assms(4) by (simp add: drain_ok_def)
  qed
  then show ?thesis using assms by (auto simp: loops_ok_def)
qed

lemma loops_quiet_change:
  assumes "loops_ok sent D (ds1 @ d # ds2) infl un" "sid d' = sid d" "drain_ok D d'" "returned_send d' = returned_send d"
  shows "loops_ok sent D (ds1 @ d' # ds2) infl un"
proof (rule loops_change [OF assms(1-3)])
  have "marked_or_awaited D (ds1 @ d' # ds2) = marked_or_awaited D (ds1 @ d # ds2)"
    using assms(4) by (simp add: marked_or_awaited_def fun_eq_iff)
  then show "sends_ok sent un (marked_or_awaited D (ds1 @ d' # ds2))" using assms(1) by (simp add: loops_ok_def)
qed simp

section \<open>What the steps change\<close>

lemma set_box_simps [simp]:
  "boxes (set_box i b st) = (boxes st)(i \<mapsto> b)" "dv_sent (ds_world (set_box i b st)) = dv_sent (ds_world st)"
  "ds_out (set_box i b st) = ds_out st" "ds_coord (set_box i b st) = ds_coord st" "ds_inflight (set_box i b st) = ds_inflight st"
  "ds_drains (set_box i b st) = ds_drains st" "ds_hooks (set_box i b st) = ds_hooks st" "ds_unmarked (set_box i b st) = ds_unmarked st" "ds_failed (set_box i b st) = ds_failed st" "ds_uncounted (set_box i b st) = ds_uncounted st"
  by (simp_all add: set_box_def)

lemma mailbox_write_simps [simp]:
  "dv_sent (ds_world (mailbox_write i f st)) = dv_sent (ds_world st)"
  "ds_out (mailbox_write i f st) = ds_out st" "ds_coord (mailbox_write i f st) = ds_coord st" "ds_inflight (mailbox_write i f st) = ds_inflight st"
  "ds_drains (mailbox_write i f st) = ds_drains st" "ds_hooks (mailbox_write i f st) = ds_hooks st" "ds_unmarked (mailbox_write i f st) = ds_unmarked st" "ds_failed (mailbox_write i f st) = ds_failed st" "ds_uncounted (mailbox_write i f st) = ds_uncounted st"
  "boxes (mailbox_write i f st) = (case boxes st i of None \<Rightarrow> boxes st | Some b \<Rightarrow> (boxes st)(i \<mapsto> f b))"
  by (simp_all add: mailbox_write_def split: option.splits)

lemma sql_select_key_in: "sql_select key k rows = Some r \<Longrightarrow> k \<in> key ` set rows"
  by (metis image_eqI sql_select_in sql_select_key)

lemma delivered_ids_mark [simp]:
  "getDeliveredIds (markDelivered t i p b) = insert i (getDeliveredIds b)"
  "getDeliveredIds (markDeliveryFailed t i b) = insert i (getDeliveredIds b)"
  by (auto simp: getDeliveredIds_def markDelivered_def markDeliveryFailed_def sql_insert_def dest: sql_select_key_in)

lemma attempt_failed_simps [simp]:
  "dv_sent (ds_world (attempt_failed env s m e st)) = dv_sent (ds_world st)"
  "ds_out (attempt_failed env s m e st) = ds_out st" "ds_inflight (attempt_failed env s m e st) = ds_inflight st"
  "ds_drains (attempt_failed env s m e st) = ds_drains st" "ds_hooks (attempt_failed env s m e st) = ds_hooks st"
  "ds_unmarked (attempt_failed env s m e st) = ds_unmarked st" "ds_failed (attempt_failed env s m e st) = ds_failed st" "ds_uncounted (attempt_failed env s m e st) = ds_uncounted st"
  by (simp_all add: attempt_failed_def Let_def split: prod.splits option.splits)

lemma attempt_failed_marks:
  "marks (attempt_failed env s m e st) =
     (if boxes (attempt_failed env s m e st) = boxes st then marks st
      else (marks st)(se_id s := map_option (insert (om_id m)) (marks st (se_id s))))"
  by (auto simp: attempt_failed_def Let_def marks_def fun_eq_iff split: prod.splits option.splits)

lemma settle_effect:
  assumes "settle env s m r done st = (done', st')" "marks st (se_id s) = Some M"
  shows "dv_sent (ds_world st') = dv_sent (ds_world st) \<and> ds_out st' = ds_out st \<and> ds_inflight st' = ds_inflight st
    \<and> ds_drains st' = ds_drains st
    \<and> (marks st' = (marks st)(se_id s \<mapsto> insert (om_id m) M) \<and> ds_unmarked st' = ds_unmarked st
       \<or> (marks st' = marks st \<or> marks st' = (marks st)(se_id s \<mapsto> insert (om_id m) M))
           \<and> ds_unmarked st' = (case r of Inl _ \<Rightarrow> [] | Inr _ \<Rightarrow> [(se_id s, om_id m)]) @ ds_unmarked st)"
proof (cases r)
  case (Inl e)
  then have "st' = attempt_failed env s m e st" using assms(1) by (simp add: settle_def)
  then show ?thesis using Inl attempt_failed_marks [of env s m e st] assms(2) by (auto split: if_splits)
next
  case (Inr p)
  obtain b where b: "boxes st (se_id s) = Some b" "M = getDeliveredIds b" using assms(2) by (auto simp: marks_def)
  show ?thesis
  proof (cases "te_mailbox_ok env")
    case True
    then have "st' = delivered_ok env s m p done st" using assms(1) Inr b by (simp add: settle_def)
    then show ?thesis using b by (auto simp: delivered_ok_def Let_def marks_def fun_eq_iff)
  next
    case False
    then have st': "st' = note_failure s m (lost_mark s m (attempt_failed env s m ''mailbox'' st))"
      using assms(1) Inr by (simp add: settle_def)
    have "marks st' = marks (attempt_failed env s m ''mailbox'' st)"
      by (simp add: st' note_failure_def lost_mark_def marks_def fun_eq_iff)
    then show ?thesis using Inr attempt_failed_marks [of env s m "''mailbox''" st] assms(2)
      by (auto simp: st' note_failure_def lost_mark_def split: if_splits)
  qed
qed

lemma routeAgentMessage_boxes: "rt_boxes (snd (routeAgentMessage env m s g w)) = rt_boxes w"
proof -
  have "rt_boxes (snd (resolveTargetSession env m s t w)) = rt_boxes w" for t
    by (simp add: resolveTargetSession_def split: option.splits prod.splits)
  then have "rt_boxes (snd (performAgentRoute env m s t w)) = rt_boxes w" for t
    by (simp add: performAgentRoute_def split_beta split: sum.splits)
  then show ?thesis by (simp add: routeAgentMessage_def Let_def split: guard_decision.splits prod.splits sum.splits)
qed

lemma deliverMessage_boxes:
  assumes "deliverMessage env m s w = (r, w')"
  shows "rt_boxes (dv_route w') = rt_boxes (dv_route w)"
proof -
  have "rt_boxes (dv_route (snd (deliver_agent env m s w))) = rt_boxes (dv_route w)"
    using routeAgentMessage_boxes [of "de_route env" "\<lparr>am_id = om_id m, am_target = om_platform_id m, am_content = om_content m,
                  am_in_reply_to = om_in_reply_to m\<rparr>" s None "dv_route w"]
    by (auto simp: deliver_agent_def split: prod.splits sum.splits route_error.splits)
  moreover have "rt_boxes (dv_route (snd (deliver_system env c s w))) = rt_boxes (dv_route w)"
    "rt_boxes (dv_route (deliver_task_log c s w)) = rt_boxes (dv_route w)"
    "rt_boxes (dv_route (snd (deliver_channel env a m c s w))) = rt_boxes (dv_route w)" for c a
    by (auto simp: deliver_system_def with_appr_def deliver_task_log_def appendRunLog_def deliver_channel_def Let_def
        split: prod.splits sum.splits option.splits)
  moreover have "w' = snd (deliverMessage env m s w)" using assms by simp
  ultimately show ?thesis by (simp add: deliverMessage_def split: option.splits)
qed

lemma read_queue_ok:
  assumes "read_queue env s st = Some (pending, done)" "\<And>i q. ds_out st i = Some q \<Longrightarrow> distinct (map mo_id (messages_out q))"
  shows "distinct (map om_id pending) \<and> marks st (se_id s) = Some done \<and> set (map om_id pending) \<inter> done = {}"
proof -
  obtain inb outb where b: "boxes st (se_id s) = Some inb" "ds_out st (se_id s) = Some outb" "done = getDeliveredIds inb"
    "pending = filter (\<lambda>m. om_id m \<notin> done) (map outbound_message (getDueMessages env done outb))"
    using assms(1) by (auto simp: read_queue_def Let_def split: if_splits option.splits)
  let ?rows = "filter (\<lambda>r. mo_id r \<notin> done) (getDueOutboundMessages env outb)"
  have "distinct (map mo_id ?rows)"
    using assms(2) [OF b(2)] by (simp add: getDueOutboundMessages_def distinct_map inj_on_def)
  moreover have "map om_id (map outbound_message (getDueMessages env done outb)) = map mo_id ?rows"
    by (simp add: getDueMessages_def outbound_message_def delivery_of_id)
  ultimately have "distinct (map om_id (map outbound_message (getDueMessages env done outb)))" by simp
  then have "distinct (map om_id pending)" unfolding b(4) by (rule distinct_map_filter)
  then show ?thesis using b by (auto simp: marks_def)
qed

section \<open>The invariant is preserved\<close>

lemma marks_simps [simp]:
  "marks (st\<lparr>ds_drains := x\<rparr>) = marks st" "marks (st\<lparr>ds_inflight := y\<rparr>) = marks st" "marks (st\<lparr>ds_unmarked := z\<rparr>) = marks st"
  "marks (st\<lparr>ds_failed := z\<rparr>) = marks st" "marks (st\<lparr>ds_uncounted := z\<rparr>) = marks st"
  by (simp_all add: marks_def fun_eq_iff)

lemma set_drain_list:
  assumes "ds_drains st = ds1 @ d # ds2" "i = length ds1"
  shows "set_drain i ph st = st\<lparr>ds_drains := ds1 @ d\<lparr>dr_phase := ph\<rparr> # ds2\<rparr>"
  using assms by (simp add: set_drain_def)

lemma end_drain_list:
  assumes "ds_drains st = ds1 @ d # ds2" "i = length ds1"
  shows "end_drain i st = st\<lparr>ds_inflight := ds_inflight st - {sid d}, ds_drains := ds1 @ ds2\<rparr>"
  using assms by (simp add: end_drain_def sid_def)

lemma inv_end:
  assumes "delivery_inv st" "ds_drains st = ds1 @ d # ds2" "returned_send d = []"
  shows "delivery_inv (st\<lparr>ds_inflight := ds_inflight st - {sid d}, ds_drains := ds1 @ ds2\<rparr>)"
  using assms loops_end [of _ "marks st" ds1 d ds2]
  by (simp add: delivery_inv_def)

lemma inv_send:
  assumes "delivery_inv st" "ds_drains st = ds1 @ d # ds2" "dr_phase d = Drained (m # ms) M"
    and "deliverMessage env m (dr_session d) (ds_world st) = (r, w)"
  shows "delivery_inv (st\<lparr>ds_world := w, ds_failed := fl, ds_drains := ds1 @ d\<lparr>dr_phase := Settling m r ms M\<rparr> # ds2\<rparr>)"
proof -
  let ?d = "d\<lparr>dr_phase := Settling m r ms M\<rparr>" and ?D = "marks st"
  have l: "loops_ok (dv_sent (ds_world st)) ?D (ds1 @ d # ds2) (ds_inflight st) (ds_unmarked st)"
    using assms(1,2) by (simp add: delivery_inv_def)
  have D: "marks (st\<lparr>ds_world := w, ds_failed := fl, ds_drains := ds1 @ ?d # ds2\<rparr>) = ?D"
    using deliverMessage_boxes [OF assms(4)] by (simp add: marks_def fun_eq_iff)
  have ok: "drain_ok ?D d" "sid ?d = sid d" "drain_ok ?D ?d" "returned_send d = []"
    using l assms(3) by (auto simp: loops_ok_def drain_ok_def sid_def returned_send_def)
  then have fresh: "\<not> marked_or_awaited ?D (ds1 @ d # ds2) (sid d) (om_id m)"
    using l assms(3) returned_send_sid by (fastforce simp: loops_ok_def marked_or_awaited_def drain_ok_def image_iff)
  have more: "marked_or_awaited ?D (ds1 @ d # ds2) s i \<Longrightarrow> marked_or_awaited ?D (ds1 @ ?d # ds2) s i" for s i
    using ok(4) by (auto simp: marked_or_awaited_def)
  have awaited: "marked_or_awaited ?D (ds1 @ ?d # ds2) (sid d) (om_id m)" if "r = Inr p" for p
    using that by (simp add: marked_or_awaited_def returned_send_def sid_def)
  have s0: "sends_ok (dv_sent (ds_world st)) (ds_unmarked st) (marked_or_awaited ?D (ds1 @ d # ds2))"
    using l by (simp add: loops_ok_def)
  have "sends_ok (dv_sent w) (ds_unmarked st) (marked_or_awaited ?D (ds1 @ ?d # ds2))"
    using deliverMessage_sends [OF assms(4)]
  proof (elim disjE exE conjE)
    assume "dv_sent w = dv_sent (ds_world st)"
    then show ?thesis using sends_ok_weaken [OF s0] more by simp
  next
    fix i adapter assume "r = adapter m" and sent: "dv_sent w = dv_sent (ds_world st) @
      [\<lparr>sn_session = se_id (dr_session d), sn_message = om_id m,
         sn_channel_type = the (om_channel_type m), sn_platform_id = the (om_platform_id m), sn_thread_id = om_thread_id m,
         sn_content = om_content m, sn_instance = i, sn_returned = (case adapter m of Inr _ \<Rightarrow> True | Inl _ \<Rightarrow> False)\<rparr>]"
    then show ?thesis unfolding sent
      using fresh more awaited by (intro sends_ok_send [OF s0]) (auto simp: sid_def split: sum.splits)
  qed
  then have "loops_ok (dv_sent w) ?D (ds1 @ ?d # ds2) (ds_inflight st) (ds_unmarked st)"
    by (intro loops_change [OF l ok(2,3)]) simp_all
  then show ?thesis using D assms(1) by (simp add: delivery_inv_def)
qed

lemma inv_settle:
  assumes "delivery_inv st" "ds_drains st = ds1 @ d # ds2" "dr_phase d = Settling m r ms M"
    and "settle env (dr_session d) m r M st = (M', st')"
  shows "delivery_inv (st'\<lparr>ds_drains := ds1 @ d\<lparr>dr_phase := Drained ms M'\<rparr> # ds2\<rparr>)"
proof -
  let ?d = "d\<lparr>dr_phase := Drained ms M'\<rparr>" and ?D = "marks st" and ?D' = "marks st'"
  have l: "loops_ok (dv_sent (ds_world st)) ?D (ds1 @ d # ds2) (ds_inflight st) (ds_unmarked st)"
    using assms(1,2) by (simp add: delivery_inv_def)
  then obtain N where N: "?D (sid d) = Some N" "distinct (om_id m # map om_id ms)" "set (om_id m # map om_id ms) \<inter> N = {}"
    using assms(3) by (auto simp: loops_ok_def drain_ok_def)
  then have N1: "?D (se_id (dr_session d)) = Some N" by (simp add: sid_def)
  note e = settle_effect [OF assms(4) N1]
  have D': "?D' i = ?D i" if "i \<noteq> sid d" for i using e that by (auto simp: sid_def)
  have "?D' (sid d) = Some N \<or> ?D' (sid d) = Some (insert (om_id m) N)" using e N1 by (auto simp: sid_def)
  then have ok: "sid ?d = sid d" "drain_ok ?D' ?d" using N by (auto simp: drain_ok_def sid_def)
  have s0: "sends_ok (dv_sent (ds_world st)) (ds_unmarked st) (marked_or_awaited ?D (ds1 @ d # ds2))"
    using l by (simp add: loops_ok_def)
  let ?new = "case r of Inl _ \<Rightarrow> [] | Inr _ \<Rightarrow> [(se_id (dr_session d), om_id m)]"
  have rs: "returned_send d = ?new" using assms(3) by (simp add: returned_send_def split: sum.splits)
  have "sends_ok (dv_sent (ds_world st')) (ds_unmarked st') (marked_or_awaited ?D' (ds1 @ ?d # ds2))"
    using e
  proof (elim conjE disjE)
    assume m: "?D' = ?D(se_id (dr_session d) \<mapsto> insert (om_id m) N)" "ds_unmarked st' = ds_unmarked st"
      and sent: "dv_sent (ds_world st') = dv_sent (ds_world st)"
    have "marked_or_awaited ?D' (ds1 @ ?d # ds2) s i" if "marked_or_awaited ?D (ds1 @ d # ds2) s i" for s i
      using that N1 by (auto simp: marked_or_awaited_def m(1) rs split: sum.splits if_splits)
    then show ?thesis using sends_ok_weaken [OF s0] m(2) sent by simp
  next
    assume m: "?D' = ?D" "ds_unmarked st' = ?new @ ds_unmarked st" and sent: "dv_sent (ds_world st') = dv_sent (ds_world st)"
    show ?thesis unfolding m sent
      by (rule sends_ok_mono [OF s0]) (auto simp: marked_or_awaited_def rs)
  next
    assume m: "?D' = ?D(se_id (dr_session d) \<mapsto> insert (om_id m) N)" "ds_unmarked st' = ?new @ ds_unmarked st"
      and sent: "dv_sent (ds_world st') = dv_sent (ds_world st)"
    show ?thesis unfolding m(2) sent
      by (rule sends_ok_mono [OF s0]) (use N1 in \<open>auto simp: marked_or_awaited_def m(1) rs split: if_splits\<close>)
  qed
  then have "loops_ok (dv_sent (ds_world st')) ?D' (ds1 @ ?d # ds2) (ds_inflight st) (ds_unmarked st')"
    by (intro loops_change [OF l ok D']) simp_all
  then show ?thesis using e assms(1) by (simp add: delivery_inv_def)
qed

lemma inv_read:
  assumes "delivery_inv st" "ds_drains st = ds1 @ d # ds2" "dr_phase d = Reading"
    and "read_queue env (dr_session d) st = Some (pending, M)"
  shows "delivery_inv (st\<lparr>ds_drains := ds1 @ d\<lparr>dr_phase := Drained pending M\<rparr> # ds2\<rparr>)"
proof -
  let ?d = "d\<lparr>dr_phase := Drained pending M\<rparr>"
  have "drain_ok (marks st) ?d" "returned_send ?d = returned_send d" "sid ?d = sid d"
    using read_queue_ok [OF assms(4)] assms(1,3) by (auto simp: drain_ok_def sid_def returned_send_def delivery_inv_def)
  then show ?thesis
    using assms(1,2) loops_quiet_change [of _ "marks st" ds1 d ds2 _ _ ?d] by (simp add: delivery_inv_def)
qed

lemma inv_advance:
  assumes "delivery_inv st" "i < length (ds_drains st)"
  shows "delivery_inv (drain_step env i st)"
proof -
  obtain ds1 d ds2 where ds: "ds_drains st = ds1 @ d # ds2" "i = length ds1"
    using id_take_nth_drop [OF assms(2)] assms(2) by (metis length_take min.absorb4)
  then have d: "ds_drains st ! i = d" by simp
  note en = end_drain_list [OF ds] inv_end [OF assms(1) ds(1)]
  show ?thesis
  proof (cases "dr_phase d")
    case Reading
    then show ?thesis
      using en inv_read [OF assms(1) ds(1) Reading] set_drain_list [OF ds]
      by (auto simp: drain_step_def d returned_send_def split: option.splits)
  next
    case (Drained ms M)
    show ?thesis
    proof (cases ms)
      case Nil
      then show ?thesis using en Drained by (simp add: drain_step_def d returned_send_def)
    next
      case (Cons m ms')
      obtain r w where rw: "deliverMessage (te_delivery env) m (dr_session d) (ds_world st) = (r, w)" by fastforce
      let ?st = "(case r of Inl _ \<Rightarrow> note_failure (dr_session d) m | Inr _ \<Rightarrow> id) (st\<lparr>ds_world := w\<rparr>)"
      have "drain_step env i st = ?st\<lparr>ds_drains := ds1 @ d\<lparr>dr_phase := Settling m r ms' M\<rparr> # ds2\<rparr>"
        using Drained Cons rw set_drain_list [of ?st ds1 d ds2 i] ds
        by (simp add: drain_step_def d note_failure_def split: sum.splits)
      then show ?thesis
        using inv_send [OF assms(1) ds(1) Drained [unfolded Cons] rw, of "ds_failed ?st"]
        by (cases r) (simp_all add: note_failure_def)
    qed
  next
    case (Settling m r ms M)
    obtain M' st' where rw: "settle env (dr_session d) m r M st = (M', st')" by fastforce
    then have "ds_drains st' = ds_drains st"
      using settle_effect [OF rw] assms(1) ds(1) Settling by (auto simp: delivery_inv_def loops_ok_def drain_ok_def sid_def)
    then show ?thesis
      using inv_settle [OF assms(1) ds(1) Settling rw] Settling rw set_drain_list [of st' ds1 d ds2 i] ds
      by (simp add: drain_step_def d)
  qed
qed

lemma inv_step:
  assumes "delivery_step st st'" "delivery_inv st"
  shows "delivery_inv st'"
  using assms
proof (induction rule: delivery_step.induct)
  case (Poll st s)
  then show ?case
    using loops_start [of _ "marks st" "ds_drains st"]
    by (simp add: deliverSessionMessages_def delivery_inv_def)
next
  case (Advance i st env)
  then show ?case by (simp add: inv_advance)
next
  case (Crash st)
  then show ?case
    using loops_crash [of "dv_sent (ds_world st)" "marks st" "ds_drains st" "ds_inflight st"] by (simp add: crash_def delivery_inv_def)
next
  case (Outside st st')
  then show ?case
    using loops_outside [of _ "marks st" "ds_drains st" _ _ "marks st'"] by (simp add: delivery_inv_def outside_def)
qed

lemma inv_start: "quiet_start st \<Longrightarrow> delivery_inv st"
  by (simp add: quiet_start_def delivery_inv_def loops_ok_def sends_ok_def returned_def)

lemma inv_reachable: "delivery_step\<^sup>*\<^sup>* st st' \<Longrightarrow> delivery_inv st \<Longrightarrow> delivery_inv st'"
  by (induction rule: rtranclp_induct) (auto intro: inv_step)

section \<open>Failures\<close>

definition attempts_of :: "string \<Rightarrow> delivery_state \<Rightarrow> int option" where
  "attempts_of i st = map_option da_attempts (getDeliveryAttempt i (ds_coord st))"

text \<open>A message is marked as failed for good.\<close>

definition given_up :: "string \<Rightarrow> inbound_db \<Rightarrow> bool" where
  "given_up i b = (\<exists>r\<in>set (delivered b). dl_message_out_id r = i \<and> dl_status r = ''failed'')"

lemma given_up_marked: "given_up i b \<Longrightarrow> i \<in> getDeliveredIds b"
  by (auto simp: given_up_def getDeliveredIds_def)

lemma given_up_mark [simp]:
  "given_up i (markDelivered t j p b) = given_up i b"
  "given_up i (markDeliveryFailed t j b) = (given_up i b \<or> i = j \<and> j \<notin> getDeliveredIds b)"
  by (auto simp: given_up_def markDelivered_def markDeliveryFailed_def sql_insert_def getDeliveredIds_def sql_select_none
      dest: sql_select_key_in)

text \<open>\<open>R\<close> counted failures of a message, what its mailbox says and what the attempts table says.\<close>

definition tally :: "nat \<Rightarrow> string \<Rightarrow> inbound_db \<Rightarrow> int option \<Rightarrow> bool" where
  "tally R i b a =
     (if i \<in> getDeliveredIds b then R \<le> 3 \<and> (given_up i b \<longleftrightarrow> R = 3)
      else R < 3 \<and> a = (if R = 0 then None else Some (int R)))"

lemma tally_mark [simp]:
  "j \<noteq> i \<Longrightarrow> tally R i (markDelivered t j p b) a = tally R i b a"
  "j \<noteq> i \<Longrightarrow> tally R i (markDeliveryFailed t j b) a = tally R i b a"
  by (simp_all add: tally_def)

lemma tally_delivered: "tally R i b a \<Longrightarrow> i \<notin> getDeliveredIds b \<Longrightarrow> tally R i (markDelivered t i p b) a'"
  using given_up_marked [of i b] by (auto simp: tally_def)

lemma record_row:
  assumes "wf_coord db"
  shows "wf_coord (snd (recordAttemptRow env i s e db))"
    "j \<noteq> i \<Longrightarrow> getDeliveryAttempt j (snd (recordAttemptRow env i s e db)) = getDeliveryAttempt j db"
    "te_attempts_ok env \<Longrightarrow> n = or_else (map_option da_attempts (getDeliveryAttempt i db)) 0 + 1 \<Longrightarrow>
       fst (recordAttemptRow env i s e db) = Some n \<and>
       map_option da_attempts (getDeliveryAttempt i (snd (recordAttemptRow env i s e db))) = Some n"
  using assms recordDeliveryAttempt_counts [OF assms, of i s "to_iso (now_ms (te_host env))" None "Some e"]
  by (auto simp: recordAttemptRow_def split_beta recordDeliveryAttempt_def getDeliveryAttempt_def das.select_upsert das.wf_upsert
      wf_coord_def Let_def or_else_def split: option.splits)

lemma clear_row:
  assumes "wf_coord db"
  shows "wf_coord (clearAttemptRow env i db)" "j \<noteq> i \<Longrightarrow> getDeliveryAttempt j (clearAttemptRow env i db) = getDeliveryAttempt j db"
  using assms
  by (simp_all add: clearAttemptRow_def clearDeliveryAttempt_def getDeliveryAttempt_def das.select_delete das.wf_delete wf_coord_def)

text \<open>The give-up decision, as one equation.\<close>

lemma attempt_failed_eq:
  "attempt_failed env s m err st =
     (let rec = recordAttemptRow env (om_id m) (se_id s) err (ds_coord st); st' = st\<lparr>ds_coord := snd rec\<rparr> in
      case fst rec of
        None \<Rightarrow> st'
      | Some n \<Rightarrow> if n < MAX_DELIVERY_ATTEMPTS \<or> \<not> te_giveup_ok env then st'
                  else (mailbox_write (se_id s) (markDeliveryFailed (now_ms (te_host env)) (om_id m)) st')
                    \<lparr>ds_coord := clearAttemptRow env (om_id m) (snd rec)\<rparr>)"
  by (simp add: attempt_failed_def split_beta Let_def split: option.split)

lemma attempt_failed_frame:
  assumes "wf_coord (ds_coord st)"
  shows "wf_coord (ds_coord (attempt_failed env s m e st))"
    "j \<noteq> om_id m \<Longrightarrow> attempts_of j (attempt_failed env s m e st) = attempts_of j st"
    "boxes (attempt_failed env s m e st) = boxes st \<or>
       boxes (attempt_failed env s m e st) =
         (boxes st)(se_id s := map_option (markDeliveryFailed (now_ms (te_host env)) (om_id m)) (boxes st (se_id s)))"
proof -
  note rec = record_row [OF assms, where env = env and i = "om_id m" and s = "se_id s" and e = e]
  note cl = clear_row [OF rec(1), where env = env and i = "om_id m"]
  show "wf_coord (ds_coord (attempt_failed env s m e st))"
    using rec(1) cl(1) by (simp add: attempt_failed_eq Let_def split: option.split)
  show "j \<noteq> om_id m \<Longrightarrow> attempts_of j (attempt_failed env s m e st) = attempts_of j st"
    using rec(2) cl(2) by (simp add: attempt_failed_eq attempts_of_def Let_def split: option.split)
  show "boxes (attempt_failed env s m e st) = boxes st \<or>
       boxes (attempt_failed env s m e st) =
         (boxes st)(se_id s := map_option (markDeliveryFailed (now_ms (te_host env)) (om_id m)) (boxes st (se_id s)))"
    by (auto simp: attempt_failed_eq Let_def fun_eq_iff split: option.split)
qed

lemma attempt_failed_counts:
  assumes "wf_coord (ds_coord st)" "te_giveup_ok env" "te_attempts_ok env" "boxes st (se_id s) = Some b"
    and t: "tally R (om_id m) b (attempts_of (om_id m) st)" "om_id m \<notin> getDeliveredIds b"
  shows "\<exists>b'. boxes (attempt_failed env s m e st) (se_id s) = Some b'
    \<and> tally (Suc R) (om_id m) b' (attempts_of (om_id m) (attempt_failed env s m e st))"
proof -
  have a: "attempts_of (om_id m) st = (if R = 0 then None else Some (int R))" "R < 3" using t by (simp_all add: tally_def)
  then have "int (Suc R) = or_else (attempts_of (om_id m) st) 0 + 1" by (simp add: or_else_def)
  note rec = record_row(3) [OF assms(1,3) this [unfolded attempts_of_def], of "se_id s" e]
  show ?thesis
  proof (cases "int (Suc R) < MAX_DELIVERY_ATTEMPTS")
    case True
    with rec assms(4) t a(2) show ?thesis by (simp add: attempt_failed_eq Let_def attempts_of_def tally_def MAX_DELIVERY_ATTEMPTS_def)
  next
    case False
    with a(2) have "Suc R = 3" by (simp add: MAX_DELIVERY_ATTEMPTS_def)
    with False rec assms(2,4) t show ?thesis by (simp add: attempt_failed_eq Let_def tally_def)
  qed
qed

lemma settle_frame:
  assumes "settle env s m r done st = (done', st')" "wf_coord (ds_coord st)"
  shows "wf_coord (ds_coord st')" "ds_uncounted st' = ds_uncounted st"
    "ds_failed st' = (case r of Inr _ \<Rightarrow> if te_mailbox_ok env then [] else [(se_id s, om_id m)] | Inl _ \<Rightarrow> []) @ ds_failed st"
    "j \<noteq> om_id m \<Longrightarrow> attempts_of j st' = attempts_of j st"
    "\<exists>f. boxes st' = (boxes st)(se_id s := map_option f (boxes st (se_id s)))
       \<and> (\<forall>j b R a. j \<noteq> om_id m \<longrightarrow> tally R j (f b) a = tally R j b a)"
proof -
  have keep: "\<exists>f. boxes (attempt_failed env s m e st) = (boxes st)(se_id s := map_option f (boxes st (se_id s)))
       \<and> (\<forall>j b R a. j \<noteq> om_id m \<longrightarrow> tally R j (f b) a = tally R j b a)" for e
    using attempt_failed_frame(3) [OF assms(2), of env s m e]
  proof
    assume "boxes (attempt_failed env s m e st) = boxes st"
    then show ?thesis by (intro exI [of _ id]) (simp add: option.map_id)
  next
    assume "boxes (attempt_failed env s m e st) =
         (boxes st)(se_id s := map_option (markDeliveryFailed (now_ms (te_host env)) (om_id m)) (boxes st (se_id s)))"
    then show ?thesis by (intro exI [of _ "markDeliveryFailed (now_ms (te_host env)) (om_id m)"]) simp
  qed
  have "wf_coord (ds_coord st') \<and> ds_uncounted st' = ds_uncounted st
    \<and> ds_failed st' = (case r of Inr _ \<Rightarrow> if te_mailbox_ok env then [] else [(se_id s, om_id m)] | Inl _ \<Rightarrow> []) @ ds_failed st
    \<and> (\<forall>j. j \<noteq> om_id m \<longrightarrow> attempts_of j st' = attempts_of j st)
    \<and> (\<exists>f. boxes st' = (boxes st)(se_id s := map_option f (boxes st (se_id s)))
       \<and> (\<forall>j b R a. j \<noteq> om_id m \<longrightarrow> tally R j (f b) a = tally R j b a))"
  proof (cases r)
    case (Inl e)
    then have "st' = attempt_failed env s m e st" using assms(1) by (simp add: settle_def)
    then show ?thesis using keep [of e] attempt_failed_frame(1,2) [OF assms(2), where env = env and s = s and m = m and e = e] Inl by simp
  next
    case (Inr p)
    show ?thesis
    proof (cases "te_mailbox_ok env")
      case True
      let ?f = "markDelivered (now_ms (te_host env)) (om_id m) p"
      have b: "boxes st' = (boxes st)(se_id s := map_option ?f (boxes st (se_id s)))"
        using assms(1) Inr True
        by (auto simp: settle_def delivered_ok_def lost_mark_def Let_def fun_eq_iff split: option.splits)
      have c: "ds_coord st' = clearAttemptRow env (om_id m) (ds_coord st)" "ds_uncounted st' = ds_uncounted st"
        "ds_failed st' = ds_failed st"
        using assms(1) Inr True by (auto simp: settle_def delivered_ok_def lost_mark_def Let_def)
      have "\<forall>j b R a. j \<noteq> om_id m \<longrightarrow> tally R j (?f b) a = tally R j b a" by simp
      with b c clear_row [OF assms(2), where env = env and i = "om_id m"] Inr True show ?thesis
        by (auto simp: attempts_of_def)
    next
      case False
      then have "st' = note_failure s m (lost_mark s m (attempt_failed env s m ''mailbox'' st))"
        using assms(1) Inr by (simp add: settle_def)
      then show ?thesis
        using keep [of "''mailbox''"] attempt_failed_frame(1,2) [OF assms(2), where env = env and s = s and m = m and e = "''mailbox''"] Inr False
        by (simp add: note_failure_def lost_mark_def attempts_of_def)
    qed
  qed
  then show "wf_coord (ds_coord st')" "ds_uncounted st' = ds_uncounted st"
    "ds_failed st' = (case r of Inr _ \<Rightarrow> if te_mailbox_ok env then [] else [(se_id s, om_id m)] | Inl _ \<Rightarrow> []) @ ds_failed st"
    "j \<noteq> om_id m \<Longrightarrow> attempts_of j st' = attempts_of j st"
    "\<exists>f. boxes st' = (boxes st)(se_id s := map_option f (boxes st (se_id s)))
       \<and> (\<forall>j b R a. j \<noteq> om_id m \<longrightarrow> tally R j (f b) a = tally R j b a)" by blast+
qed

text \<open>The runs in which failures of message \<open>i\<close> of session \<open>s\<close> are counted: when the drain settles that
  message, the writes to the attempts table and of the give-up mark succeed; its id is no other
  session's; and the rest of the host leaves its row of the attempts table and the session's delivery
  marks alone.  All else may happen: failed reads, failed marks of delivered messages, failed
  bookkeeping of other messages, restarts.\<close>

definition own_id :: "string \<Rightarrow> string \<Rightarrow> delivery_state \<Rightarrow> bool" where
  "own_id s i st \<longleftrightarrow> (\<forall>s' q. s' \<noteq> s \<and> ds_out st s' = Some q \<longrightarrow> i \<notin> mo_id ` set (messages_out q))"

fun settles :: "string \<Rightarrow> drain_phase \<Rightarrow> bool" where
  "settles i (Settling m r ms M) = (om_id m = i)"
| "settles i _ = False"

inductive counting_step :: "string \<Rightarrow> string \<Rightarrow> delivery_state \<Rightarrow> delivery_state \<Rightarrow> bool" for s i where
  CountPoll: "counting_step s i st (deliverSessionMessages t st)"
| CountAdvance: "k < length (ds_drains st) \<Longrightarrow>
    settles i (dr_phase (ds_drains st ! k)) \<longrightarrow> te_attempts_ok env \<and> te_giveup_ok env \<Longrightarrow>
    counting_step s i st (drain_step env k st)"
| CountCrash: "counting_step s i st (crash st)"
| CountOutside: "outside st st' \<Longrightarrow> own_id s i st' \<Longrightarrow> wf_coord (ds_coord st') \<Longrightarrow>
    getDeliveryAttempt i (ds_coord st') = getDeliveryAttempt i (ds_coord st) \<Longrightarrow>
    map_option delivered (boxes st' s) = map_option delivered (boxes st s) \<Longrightarrow> counting_step s i st st'"

lemma counting_delivery_step: "counting_step s i st st' \<Longrightarrow> delivery_step st st'"
  by (induction rule: counting_step.induct) (auto intro: delivery_step.intros)

definition pending_failures :: "delivery_state \<Rightarrow> (string \<times> string) list" where
  "pending_failures st = concat (map pending_failure (ds_drains st))"

definition counted :: "string \<Rightarrow> string \<Rightarrow> delivery_state \<Rightarrow> bool" where
  "counted s i st \<longleftrightarrow> (\<exists>R b. boxes st s = Some b \<and> tally R i b (attempts_of i st)
     \<and> count_list (ds_failed st) (s, i) = R + count_list (ds_uncounted st) (s, i) + count_list (pending_failures st) (s, i))"

definition count_inv :: "string \<Rightarrow> string \<Rightarrow> delivery_state \<Rightarrow> bool" where
  "count_inv s i st \<longleftrightarrow> delivery_inv st \<and> wf_coord (ds_coord st) \<and> own_id s i st \<and> counted s i st
     \<and> (\<forall>d\<in>set (ds_drains st). sid d \<noteq> s \<longrightarrow> i \<notin> set (remaining (dr_phase d)))"

lemma pending_failure_simps [simp]:
  "pending_failure (d\<lparr>dr_phase := Reading\<rparr>) = []" "pending_failure (d\<lparr>dr_phase := Drained ms M\<rparr>) = []"
  "pending_failure (d\<lparr>dr_phase := Settling m (Inl e) ms M\<rparr>) = [(sid d, om_id m)]"
  "pending_failure (d\<lparr>dr_phase := Settling m (Inr p) ms M\<rparr>) = []"
  "pending_failure \<lparr>dr_session = t, dr_phase = Reading\<rparr> = []"
  by (simp_all add: pending_failure_def sid_def)

lemma pending_failure_phase:
  "dr_phase d = Reading \<Longrightarrow> pending_failure d = []" "dr_phase d = Drained ms M \<Longrightarrow> pending_failure d = []"
  "dr_phase d = Settling m r ms M \<Longrightarrow> pending_failure d = (case r of Inl _ \<Rightarrow> [(sid d, om_id m)] | Inr _ \<Rightarrow> [])"
  by (simp_all add: pending_failure_def sid_def split: sum.split)

lemma sid_phase [simp]: "sid (d\<lparr>dr_phase := p\<rparr>) = sid d"
  by (simp add: sid_def)

text \<open>What the count depends on.\<close>

lemma counted_cong:
  assumes "counted s i st" "map_option delivered (boxes st' s) = map_option delivered (boxes st s)" "attempts_of i st' = attempts_of i st"
    and "count_list (ds_failed st') (s, i) + count_list (ds_uncounted st) (s, i) + count_list (pending_failures st) (s, i) =
      count_list (ds_failed st) (s, i) + count_list (ds_uncounted st') (s, i) + count_list (pending_failures st') (s, i)"
  shows "counted s i st'"
proof -
  obtain R b where R: "boxes st s = Some b" "tally R i b (attempts_of i st)"
    "count_list (ds_failed st) (s, i) = R + count_list (ds_uncounted st) (s, i) + count_list (pending_failures st) (s, i)"
    using assms(1) by (auto simp: counted_def)
  obtain b' where b': "boxes st' s = Some b'" "delivered b' = delivered b" using assms(2) R(1) by auto
  then have "getDeliveredIds b' = getDeliveredIds b" "given_up i b' = given_up i b" by (simp_all add: given_up_def getDeliveredIds_def)
  then have "tally R i b' (attempts_of i st')" using R(2) assms(3) by (simp add: tally_def)
  then show ?thesis unfolding counted_def using b' R(3) assms(4) by (intro exI [of _ R] exI [of _ b']) simp
qed

lemma counted_end:
  assumes "counted s i st" "ds_drains st = ds1 @ d # ds2" "pending_failure d = []"
  shows "counted s i (st\<lparr>ds_inflight := x, ds_drains := ds1 @ ds2\<rparr>)"
  by (rule counted_cong [OF assms(1)]) (use assms(2,3) in \<open>simp_all add: pending_failures_def attempts_of_def\<close>)

lemma counted_read:
  assumes "counted s i st" "ds_drains st = ds1 @ d # ds2" "dr_phase d = Reading"
  shows "counted s i (st\<lparr>ds_drains := ds1 @ d\<lparr>dr_phase := Drained ms M\<rparr> # ds2\<rparr>)"
  by (rule counted_cong [OF assms(1)])
    (use assms(2,3) in \<open>simp_all add: pending_failures_def pending_failure_phase attempts_of_def\<close>)

lemma counted_send:
  assumes "counted s i st" "ds_drains st = ds1 @ d # ds2" "dr_phase d = Drained (m # ms) M"
    and "deliverMessage env m (dr_session d) (ds_world st) = (r, w)"
    and "fl = (case r of Inl _ \<Rightarrow> [(sid d, om_id m)] | Inr _ \<Rightarrow> []) @ ds_failed st"
  shows "counted s i (st\<lparr>ds_world := w, ds_failed := fl, ds_drains := ds1 @ d\<lparr>dr_phase := Settling m r ms M\<rparr> # ds2\<rparr>)"
  by (rule counted_cong [OF assms(1)])
    (use assms(2,3,5) deliverMessage_boxes [OF assms(4)] in
      \<open>auto simp: pending_failures_def pending_failure_phase attempts_of_def split: sum.splits\<close>)

lemma counted_settle:
  assumes inv: "count_inv s i st" and ds: "ds_drains st = ds1 @ d # ds2" and d: "dr_phase d = Settling m r ms M"
    and set: "settle env (dr_session d) m r M st = (M', st')"
    and ok: "om_id m = i \<longrightarrow> te_attempts_ok env \<and> te_giveup_ok env"
  shows "counted s i (st'\<lparr>ds_drains := ds1 @ d\<lparr>dr_phase := Drained ms M'\<rparr> # ds2\<rparr>)"
proof -
  have wf: "wf_coord (ds_coord st)" and c: "counted s i st" using inv by (simp_all add: count_inv_def)
  obtain R b where R: "boxes st s = Some b" "tally R i b (attempts_of i st)"
    "count_list (ds_failed st) (s, i) = R + count_list (ds_uncounted st) (s, i) + count_list (pending_failures st) (s, i)"
    using c by (auto simp: counted_def)
  note f = settle_frame [OF set wf]
  let ?new = "case r of Inr _ \<Rightarrow> if te_mailbox_ok env then [] else [(se_id (dr_session d), om_id m)] | Inl _ \<Rightarrow> []"
  have p: "pending_failures st = concat (map pending_failure ds1) @ (case r of Inl _ \<Rightarrow> [(sid d, om_id m)] | Inr _ \<Rightarrow> [])
      @ concat (map pending_failure ds2)"
    "pending_failures (st'\<lparr>ds_drains := ds1 @ d\<lparr>dr_phase := Drained ms M'\<rparr> # ds2\<rparr>) =
      concat (map pending_failure ds1) @ concat (map pending_failure ds2)"
    using ds d by (simp_all add: pending_failures_def pending_failure_phase)
  show ?thesis
  proof (cases "om_id m = i")
    case False
    obtain g where g: "boxes st' = (boxes st)(se_id (dr_session d) := map_option g (boxes st (se_id (dr_session d))))"
      "\<And>j b R a. j \<noteq> om_id m \<Longrightarrow> tally R j (g b) a = tally R j b a" using f(5) by blast
    let ?b = "if se_id (dr_session d) = s then g b else b"
    have "boxes st' s = Some ?b" using g(1) R(1) by auto
    moreover have "tally R i ?b (attempts_of i st')" using g(2) [of i R b] f(4) [of i] R(2) False by auto
    ultimately show ?thesis
      unfolding counted_def using R(3) f(2,3) p False
      by (intro exI [of _ R] exI [of _ ?b]) (auto simp: attempts_of_def split: sum.splits)
  next
    case True
    have here: "sid d = s"
      using inv ds d True by (auto simp: count_inv_def)
    then have s: "se_id (dr_session d) = s" by (simp add: sid_def)
    have fresh: "i \<notin> getDeliveredIds b"
      using inv ds d True here R(1) by (auto simp: count_inv_def delivery_inv_def loops_ok_def drain_ok_def marks_def)
    note more = attempt_failed_counts [OF wf _ _ R(1) [folded s] R(2) [folded True], of env]
    show ?thesis
    proof (cases "\<exists>p. r = Inr p \<and> te_mailbox_ok env")
      case ok: True
      then obtain p0 where p0: "r = Inr p0" by blast
      have "boxes st' s = Some (markDelivered (now_ms (te_host env)) i p0 b)"
        using set ok p0 R(1) True s by (auto simp: settle_def delivered_ok_def lost_mark_def Let_def split: if_splits)
      then show ?thesis
        unfolding counted_def using R(3) f(2,3) p p0 ok tally_delivered [OF R(2) fresh]
        by (intro exI [of _ R] exI [of _ "markDelivered (now_ms (te_host env)) i p0 b"]) auto
    next
      case bad: False
      obtain e where e: "boxes st' = boxes (attempt_failed env (dr_session d) m e st)"
        "attempts_of i st' = attempts_of i (attempt_failed env (dr_session d) m e st)"
        using set bad
        by (cases r) (auto simp: settle_def note_failure_def lost_mark_def attempts_of_def)
      obtain b' where b': "boxes st' s = Some b'" "tally (Suc R) i b' (attempts_of i st')"
        using more [where e = e] \<open>om_id m = i \<longrightarrow> te_attempts_ok env \<and> te_giveup_ok env\<close> fresh True s by (auto simp: e)
      have "count_list (ds_failed st') (s, i) = Suc R + count_list (ds_uncounted st') (s, i)
          + count_list (concat (map pending_failure ds1) @ concat (map pending_failure ds2)) (s, i)"
        using R(3) f(2,3) p(1) bad True here s by (auto split: sum.splits)
      with b' show ?thesis
        unfolding counted_def using p(2) by (intro exI [of _ "Suc R"] exI [of _ b']) (simp add: attempts_of_def)
    qed
  qed
qed

lemma settle_out: "settle env s m r done st = (done', st') \<Longrightarrow> ds_out st' = ds_out st \<and> ds_drains st' = ds_drains st"
  by (auto simp: settle_def delivered_ok_def lost_mark_def note_failure_def Let_def split: sum.splits if_splits)

lemma read_queue_ids:
  "read_queue env t st = Some (pending, M) \<Longrightarrow> \<exists>q. ds_out st (se_id t) = Some q \<and> set (map om_id pending) \<subseteq> mo_id ` set (messages_out q)"
  by (force simp: read_queue_def Let_def getDueMessages_def outbound_message_def delivery_of_id getDueOutboundMessages_def
      split: if_splits option.splits)

lemma count_advance:
  assumes inv: "count_inv s i st" and k: "k < length (ds_drains st)"
    and ok: "settles i (dr_phase (ds_drains st ! k)) \<longrightarrow> te_attempts_ok env \<and> te_giveup_ok env"
  shows "count_inv s i (drain_step env k st)"
proof -
  have dinv: "delivery_inv st" and wf: "wf_coord (ds_coord st)" and own: "own_id s i st" and c: "counted s i st"
    and others: "\<forall>d\<in>set (ds_drains st). sid d \<noteq> s \<longrightarrow> i \<notin> set (remaining (dr_phase d))"
    using inv by (simp_all add: count_inv_def)
  obtain ds1 d ds2 where ds: "ds_drains st = ds1 @ d # ds2" "k = length ds1"
    using id_take_nth_drop [OF k] k by (metis length_take min.absorb4)
  then have d: "ds_drains st ! k = d" by simp
  have rest: "count_inv s i (drain_step env k st)"
    if "wf_coord (ds_coord (drain_step env k st))" "ds_out (drain_step env k st) = ds_out st" "counted s i (drain_step env k st)"
      "set (ds_drains (drain_step env k st)) \<subseteq> set ds1 \<union> set ds2 \<union> X"
      "\<And>x. x \<in> X \<Longrightarrow> sid x \<noteq> s \<Longrightarrow> i \<notin> set (remaining (dr_phase x))" for X
  proof -
    have "\<forall>x\<in>set (ds_drains (drain_step env k st)). sid x \<noteq> s \<longrightarrow> i \<notin> set (remaining (dr_phase x))"
      using that(4,5) others ds(1) by fastforce
    with that own inv_advance [OF dinv k, of env] show ?thesis by (simp add: count_inv_def own_id_def)
  qed
  have ended: ?thesis if "drain_step env k st = end_drain k st" "pending_failure d = []"
  proof (rule rest [of "{}"])
    show "counted s i (drain_step env k st)"
      unfolding that(1) end_drain_list [OF ds] by (rule counted_end [OF c ds(1) that(2)])
  qed (use wf in \<open>simp_all add: that(1) end_drain_list [OF ds]\<close>)
  show ?thesis
  proof (cases "dr_phase d")
    case Reading
    show ?thesis
    proof (cases "if te_mailbox_ok env then read_queue (te_host env) (dr_session d) st else None")
      case None
      then have "drain_step env k st = end_drain k st" using Reading by (simp add: drain_step_def d)
      with Reading show ?thesis by (intro ended) (simp_all add: pending_failure_phase)
    next
      case (Some qm)
      obtain ms M where qm: "qm = (ms, M)" by (cases qm)
      then have st: "drain_step env k st = st\<lparr>ds_drains := ds1 @ d\<lparr>dr_phase := Drained ms M\<rparr> # ds2\<rparr>"
        using Some Reading set_drain_list [OF ds] by (simp add: drain_step_def d)
      have "read_queue (te_host env) (dr_session d) st = Some (ms, M)" using Some qm by (simp split: if_splits)
      from read_queue_ids [OF this] obtain q where "ds_out st (sid d) = Some q" "set (map om_id ms) \<subseteq> mo_id ` set (messages_out q)"
        by (auto simp: sid_def)
      with own have ids: "sid d \<noteq> s \<Longrightarrow> i \<notin> set (map om_id ms)" unfolding own_id_def by blast
      show ?thesis
        by (rule rest [of "{d\<lparr>dr_phase := Drained ms M\<rparr>}"])
          (use wf ids counted_read [OF c ds(1) Reading] in \<open>auto simp: st\<close>)
    qed
  next
    case (Drained ms M)
    show ?thesis
    proof (cases ms)
      case Nil
      then have "drain_step env k st = end_drain k st" using Drained by (simp add: drain_step_def d)
      with Drained show ?thesis by (intro ended) (simp_all add: pending_failure_phase)
    next
      case (Cons m ms')
      obtain r w where rw: "deliverMessage (te_delivery env) m (dr_session d) (ds_world st) = (r, w)" by fastforce
      let ?fl = "(case r of Inl _ \<Rightarrow> [(sid d, om_id m)] | Inr _ \<Rightarrow> []) @ ds_failed st"
      have st: "drain_step env k st = st\<lparr>ds_world := w, ds_failed := ?fl, ds_drains := ds1 @ d\<lparr>dr_phase := Settling m r ms' M\<rparr> # ds2\<rparr>"
        using Drained Cons rw ds by (simp add: drain_step_def d set_drain_def note_failure_def sid_def split: sum.split)
      have "i \<notin> set (remaining (dr_phase d))" if "sid d \<noteq> s" using others ds(1) that by simp
      then have ids: "sid d \<noteq> s \<Longrightarrow> i \<notin> set (remaining (Settling m r ms' M))" using Drained Cons by simp
      show ?thesis
        by (rule rest [of "{d\<lparr>dr_phase := Settling m r ms' M\<rparr>}"])
          (use wf ids counted_send [OF c ds(1) Drained [unfolded Cons] rw refl] in \<open>auto simp: st\<close>)
    qed
  next
    case (Settling m r ms M)
    obtain M' st' where rw: "settle env (dr_session d) m r M st = (M', st')" by fastforce
    note same = settle_out [OF rw]
    have st: "drain_step env k st = st'\<lparr>ds_drains := ds1 @ d\<lparr>dr_phase := Drained ms M'\<rparr> # ds2\<rparr>"
      using Settling rw set_drain_list [of st' ds1 d ds2 k] ds same by (simp add: drain_step_def d)
    have "i \<notin> set (remaining (dr_phase d))" if "sid d \<noteq> s" using others ds(1) that by simp
    then have ids: "sid d \<noteq> s \<Longrightarrow> i \<notin> set (map om_id ms)" using Settling by simp
    have set: "counted s i (st'\<lparr>ds_drains := ds1 @ d\<lparr>dr_phase := Drained ms M'\<rparr> # ds2\<rparr>)"
      by (rule counted_settle [OF inv ds(1) Settling rw]) (use ok d Settling in simp)
    show ?thesis
      by (rule rest [of "{d\<lparr>dr_phase := Drained ms M'\<rparr>}"])
        (use ids set same settle_frame(1) [OF rw wf] in \<open>auto simp: st\<close>)
  qed
qed

lemma count_step:
  assumes "counting_step s i st st'" "count_inv s i st"
  shows "count_inv s i st'"
proof -
  have d: "delivery_inv st'" using assms inv_step [OF counting_delivery_step] by (simp add: count_inv_def)
  from assms show ?thesis
  proof (induction rule: counting_step.induct)
    case (CountPoll st t)
    have "counted s i (deliverSessionMessages t st)"
      by (rule counted_cong [of s i st])
        (use CountPoll in \<open>simp_all add: count_inv_def deliverSessionMessages_def pending_failures_def attempts_of_def\<close>)
    with CountPoll inv_step [OF Poll] show ?case
      by (auto simp: count_inv_def deliverSessionMessages_def own_id_def)
  next
    case (CountAdvance k st env)
    then show ?case by (intro count_advance)
  next
    case (CountCrash st)
    have "counted s i (crash st)"
      by (rule counted_cong [of s i st]) (use CountCrash in \<open>simp_all add: count_inv_def crash_def pending_failures_def attempts_of_def\<close>)
    with CountCrash inv_step [OF Crash] show ?case by (simp add: count_inv_def own_id_def) (simp add: crash_def)
  next
    case (CountOutside st st')
    have "counted s i st'"
      by (rule counted_cong [of s i st])
        (use CountOutside in \<open>simp_all add: count_inv_def outside_def pending_failures_def attempts_of_def\<close>)
    moreover have "delivery_inv st'" using CountOutside inv_step [OF Outside [OF CountOutside(1)]] by (simp add: count_inv_def)
    ultimately show ?case using CountOutside by (simp add: count_inv_def outside_def)
  qed
qed

lemma count_reachable: "(counting_step s i)\<^sup>*\<^sup>* st st' \<Longrightarrow> count_inv s i st \<Longrightarrow> count_inv s i st'"
  by (induction rule: rtranclp_induct) (auto intro: count_step)

text \<open>A failure of the message has happened and waits to be counted.\<close>

definition awaits_count :: "string \<Rightarrow> string \<Rightarrow> delivery_state \<Rightarrow> bool" where
  "awaits_count s i st = ((s, i) \<in> set (pending_failures st))"

lemma pending_failure_in: "(s, i) \<in> set (pending_failure d) \<Longrightarrow> s = sid d \<and> i \<in> set (remaining (dr_phase d))"
  by (cases "dr_phase d") (auto simp: pending_failure_def sid_def split: sum.splits)

lemma pending_once:
  "distinct (map sid ds) \<Longrightarrow> count_list (concat (map pending_failure ds)) (s, i) \<le> 1"
proof (induction ds)
  case (Cons d ds)
  show ?case
  proof (cases "(s, i) \<in> set (pending_failure d)")
    case True
    then have "(s, i) \<notin> set (concat (map pending_failure ds))"
      using Cons.prems pending_failure_in by (fastforce simp: image_iff)
    moreover have "count_list (pending_failure d) (s, i) \<le> 1"
      by (auto simp: pending_failure_def split: drain_phase.splits sum.splits)
    ultimately show ?thesis by (simp add: count_list_0_iff)
  next
    case False
    then show ?thesis using Cons by (simp add: count_list_0_iff)
  qed
qed simp

lemma read_queue_has:
  assumes "read_queue env t st = Some (q, M)"
  shows "\<exists>b outb. boxes st (se_id t) = Some b \<and> ds_out st (se_id t) = Some outb \<and>
    (i \<in> set (map om_id q) \<longleftrightarrow> i \<notin> getDeliveredIds b \<and> (\<exists>r\<in>set (messages_out outb). mo_id r = i \<and> due env (mo_deliver_after r)))"
  using assms
  by (force simp: read_queue_def Let_def getDueMessages_def outbound_message_def delivery_of_id getDueOutboundMessages_def
      split: if_splits option.splits)

section \<open>Properties\<close>

text \<open>C36: However polls, steps of the drains, restarts and the rest of the host interleave, no session is
  drained twice at a time and a message reaches the user at most once, plus once for each time a
  delivery returned and its mark in the mailbox was lost to a crash or a failed write.\<close>

theorem delivered_at_most_once:
  assumes "quiet_start st" "delivery_step\<^sup>*\<^sup>* st st'"
  shows "distinct (map (\<lambda>d. se_id (dr_session d)) (ds_drains st'))
    \<and> returned s i (dv_sent (ds_world st')) \<le> 1 + count_list (ds_unmarked st') (s, i)"
proof -
  have l: "loops_ok (dv_sent (ds_world st')) (marks st') (ds_drains st') (ds_inflight st') (ds_unmarked st')"
    using inv_reachable [OF assms(2) inv_start [OF assms(1)]] by (simp add: delivery_inv_def)
  then have "returned s i (dv_sent (ds_world st')) \<le> count_list (ds_unmarked st') (s, i)
      + (if marked_or_awaited (marks st') (ds_drains st') s i then 1 else 0)"
    by (simp add: loops_ok_def sends_ok_def)
  then have "returned s i (dv_sent (ds_world st')) \<le> 1 + count_list (ds_unmarked st') (s, i)"
    by (auto split: if_splits)
  moreover have "distinct (map (\<lambda>d. se_id (dr_session d)) (ds_drains st'))"
    using l by (simp add: loops_ok_def sid_def [abs_def])
  ultimately show ?thesis by blast
qed

text \<open>The row's timestamp is not an ISO text, so its bare fields are delivered.\<close>

definition one_reply :: delivery_state where
  "one_reply = \<lparr>ds_world = two_bots\<lparr>dv_route := (dv_route two_bots)\<lparr>rt_boxes := [''s1'' \<mapsto> empty_inbound]\<rparr>\<rparr>,
     ds_out = [''s1'' \<mapsto> \<lparr>messages_out = [\<lparr>mo_id = ''o1'', mo_seq = Some 1, mo_in_reply_to = None, mo_timestamp = ''t'',
         mo_deliver_after = None, mo_recurrence = None, mo_kind = ''chat'', mo_platform_id = Some ''C1'', mo_channel_type = Some ''slack'',
         mo_thread_id = None, mo_content = ''{}''\<rparr>], processing_ack = [], container_state = None\<rparr>],
     ds_coord = \<lparr>host_instances = [], session_claims = [], delivery_attempts = [], wake_signals = []\<rparr>,
     ds_inflight = {}, ds_drains = [], ds_hooks = [], ds_unmarked = [], ds_failed = [], ds_uncounted = []\<rparr>"

definition step_ok :: step_env where
  "step_ok = \<lparr>te_delivery = plain_env, te_host = sample_env, te_mailbox_ok = True,
     te_giveup_ok = True, te_attempts_ok = True, te_clear_ok = True\<rparr>"

definition reply_session :: session where "reply_session = new_session ''s1'' ''t'' ''ag'' (Some ''mg2'') None"

text \<open>Polled, read, sent, and the host crashes before the mark.\<close>

definition sent_then_crashed :: delivery_state where
  "sent_then_crashed = crash (drain_step step_ok 0 (drain_step step_ok 0 (deliverSessionMessages reply_session one_reply)))"

lemma sent_then_crashed_values:
  "map sn_returned (dv_sent (ds_world sent_then_crashed)) = [True]" "ds_unmarked sent_then_crashed = [(''s1'', ''o1'')]"
  "length (ds_drains (deliverSessionMessages reply_session one_reply)) = 1"
  "length (ds_drains (drain_step step_ok 0 (deliverSessionMessages reply_session one_reply))) = 1"
  by (code_simp, code_simp, code_simp, code_simp)

lemma sent_then_crashed_reached: "delivery_step\<^sup>*\<^sup>* one_reply sent_then_crashed"
proof -
  let ?a = "deliverSessionMessages reply_session one_reply"
  have "delivery_step one_reply ?a" by (rule Poll)
  moreover have "delivery_step ?a (drain_step step_ok 0 ?a)" by (rule Advance) (simp add: sent_then_crashed_values)
  moreover have "delivery_step (drain_step step_ok 0 ?a) (drain_step step_ok 0 (drain_step step_ok 0 ?a))"
    by (rule Advance) (simp add: sent_then_crashed_values)
  moreover have "delivery_step (drain_step step_ok 0 (drain_step step_ok 0 ?a)) sent_then_crashed"
    unfolding sent_then_crashed_def by (rule Crash)
  ultimately show ?thesis by (meson rtranclp.rtrancl_into_rtrancl rtranclp.rtrancl_refl)
qed

theorem delivered_at_most_once_witness:
  "returned ''s1'' ''o1'' (dv_sent (ds_world sent_then_crashed)) \<le> 1 + count_list (ds_unmarked sent_then_crashed) (''s1'', ''o1'')
   \<and> ds_unmarked sent_then_crashed = [(''s1'', ''o1'')] \<and> map sn_returned (dv_sent (ds_world sent_then_crashed)) = [True]"
proof -
  have "quiet_start one_reply" by (simp add: quiet_start_def one_reply_def two_bots_def)
  from delivered_at_most_once [OF this sent_then_crashed_reached, of "''s1''" "''o1''"] show ?thesis
    using sent_then_crashed_values by simp
qed

text \<open>C37: Under every interleaving of polls, drain steps and restarts in which the bookkeeping of the message
  succeeds (its attempts are recorded and its give-up mark is written), a message's failures are bounded
  by three, plus one for each failure that a crash came before the code could count; failures counted
  before a restart still count after it.  The message is marked failed exactly when that bound is
  reached and counted, never before.  Until then, unless it was delivered, the attempts table holds the
  number of its counted failures, and every read of the queue has the message when it is due; once it
  is marked, no read has it again.  (The message's id is no other session's, as the attempts table is
  keyed by the message id alone, and only the loops write its marks and its row.)\<close>

theorem third_failure_gives_up:
  assumes "quiet_start st" "ds_failed st = []" "ds_uncounted st = []" "wf_coord (ds_coord st)" "own_id s i st"
    and "getDeliveryAttempt i (ds_coord st) = None" "boxes st s = Some b" "i \<notin> getDeliveredIds b"
    and "(counting_step s i)\<^sup>*\<^sup>* st st'"
  shows "let n = count_list (ds_failed st') (s, i); lost = count_list (ds_uncounted st') (s, i) in
    \<exists>b'. boxes st' s = Some b' \<and> n \<le> 3 + lost
      \<and> (given_up i b' \<longleftrightarrow> n = 3 + lost \<and> \<not> awaits_count s i st')
      \<and> (i \<notin> getDeliveredIds b' \<and> \<not> awaits_count s i st' \<longrightarrow>
           n < 3 + lost \<and> attempts_of i st' = (if n = lost then None else Some (int n - int lost)))
      \<and> (\<forall>env t q M. se_id t = s \<and> read_queue env t st' = Some (q, M) \<longrightarrow>
           (i \<in> set (map om_id q) \<longleftrightarrow> i \<notin> getDeliveredIds b'
              \<and> (\<exists>r\<in>set (messages_out (the (ds_out st' s))). mo_id r = i \<and> due env (mo_deliver_after r))))"
proof -
  have "counted s i st"
    using assms(1-8) given_up_marked [of i b]
    by (auto simp: counted_def quiet_start_def pending_failures_def tally_def attempts_of_def)
  then have "count_inv s i st"
    using assms(1,4,5) inv_start [OF assms(1)] by (simp add: count_inv_def quiet_start_def)
  from count_reachable [OF assms(9) this] have inv: "count_inv s i st'" .
  let ?n = "count_list (ds_failed st') (s, i)" and ?lost = "count_list (ds_uncounted st') (s, i)"
    and ?P = "count_list (pending_failures st') (s, i)"
  obtain R b' where R: "boxes st' s = Some b'" "tally R i b' (attempts_of i st')" "?n = R + ?lost + ?P"
    using inv by (auto simp: count_inv_def counted_def)
  have loops: "distinct (map sid (ds_drains st'))" "\<forall>d\<in>set (ds_drains st'). drain_ok (marks st') d"
    using inv by (simp_all add: count_inv_def delivery_inv_def loops_ok_def)
  have P: "?P \<le> 1" "awaits_count s i st' \<longleftrightarrow> ?P \<noteq> 0"
    using pending_once [OF loops(1), of s i] by (simp_all add: pending_failures_def awaits_count_def count_list_0_iff)
  have free: "?P = 0" if "i \<in> getDeliveredIds b'"
  proof (rule ccontr)
    assume "?P \<noteq> 0"
    then obtain d where d: "d \<in> set (ds_drains st')" "(s, i) \<in> set (pending_failure d)"
      by (auto simp: pending_failures_def count_list_0_iff)
    with pending_failure_in [OF d(2)] loops(2) R(1) that show False
      by (force simp: drain_ok_def marks_def)
  qed
  have reads: "i \<in> set (map om_id q) \<longleftrightarrow> i \<notin> getDeliveredIds b'
      \<and> (\<exists>r\<in>set (messages_out (the (ds_out st' s))). mo_id r = i \<and> due env (mo_deliver_after r))"
    if "se_id t = s" "read_queue env t st' = Some (q, M)" for env t q M
    using read_queue_has [OF that(2), of i] that(1) R(1) by auto
  have "given_up i b' \<longleftrightarrow> ?n = 3 + ?lost \<and> ?P = 0"
    using R(2,3) free given_up_marked [of i b'] by (auto simp: tally_def split: if_splits)
  moreover have "?n \<le> 3 + ?lost" using R(2,3) P(1) free by (auto simp: tally_def split: if_splits)
  moreover have "i \<notin> getDeliveredIds b' \<and> ?P = 0 \<longrightarrow>
      ?n < 3 + ?lost \<and> attempts_of i st' = (if ?n = ?lost then None else Some (int ?n - int ?lost))"
    using R(2,3) by (simp add: tally_def)
  ultimately show ?thesis unfolding Let_def P(2) using R(1) reads by blast
qed

text \<open>A reply whose content is not JSON fails in every delivery; the host restarts after each.\<close>

definition broken_out :: out_msg where
  "broken_out = \<lparr>om_id = ''o1'', om_kind = ''chat'', om_platform_id = Some ''C1'', om_channel_type = Some ''slack'',
     om_thread_id = None, om_content = ''{'', om_in_reply_to = None\<rparr>"

definition broken_reply :: delivery_state where
  "broken_reply = one_reply\<lparr>ds_out := [''s1'' \<mapsto> \<lparr>messages_out = [\<lparr>mo_id = ''o1'', mo_seq = Some 1, mo_in_reply_to = None,
     mo_timestamp = ''t'', mo_deliver_after = None, mo_recurrence = None, mo_kind = ''chat'', mo_platform_id = Some ''C1'',
     mo_channel_type = Some ''slack'', mo_thread_id = None, mo_content = ''{''\<rparr>], processing_ack = [], container_state = None\<rparr>]\<rparr>"

definition failed_round :: "delivery_state \<Rightarrow> delivery_state" where
  "failed_round st = crash (drain_step step_ok 0 (drain_step step_ok 0 (drain_step step_ok 0 (deliverSessionMessages reply_session st))))"

definition queued :: "nat \<Rightarrow> delivery_state \<Rightarrow> bool" where
  "queued n st \<longleftrightarrow> ds_world st = ds_world broken_reply \<and> ds_out st = ds_out broken_reply \<and> ds_inflight st = {} \<and> ds_drains st = []
     \<and> ds_failed st = replicate n (''s1'', ''o1'') \<and> ds_uncounted st = [] \<and> wf_coord (ds_coord st)
     \<and> attempts_of ''o1'' st = (if n = 0 then None else Some (int n))"

lemma broken_read: "read_queue (te_host step_ok) reply_session broken_reply = Some ([broken_out], {})"
  by code_simp

lemma broken_fails: "deliverMessage (te_delivery step_ok) broken_out reply_session w = (Inl ''SyntaxError'', w)"
proof -
  have "json_parse ''{'' = None" by code_simp
  then show ?thesis by (simp add: deliverMessage_def step_ok_def plain_env_def broken_out_def)
qed

lemma queued_read: "queued n st \<Longrightarrow> read_queue (te_host step_ok) reply_session (st\<lparr>ds_inflight := I, ds_drains := D\<rparr>) = Some ([broken_out], {})"
  unfolding broken_read [symmetric] by (simp add: read_queue_def queued_def)

abbreviation settling_state :: "delivery_state \<Rightarrow> delivery_state" where
  "settling_state st \<equiv> st\<lparr>ds_inflight := {''s1''}, ds_failed := (''s1'', ''o1'') # ds_failed st,
     ds_drains := [\<lparr>dr_session = reply_session, dr_phase = Settling broken_out (Inl ''SyntaxError'') [] {}\<rparr>]\<rparr>"

lemma broken_ids [simp]: "se_id reply_session = ''s1''" "om_id broken_out = ''o1''"
  by (simp_all add: reply_session_def new_session_def broken_out_def)

lemma queued_settling:
  assumes "queued n st"
  shows "drain_step step_ok 0 (drain_step step_ok 0 (deliverSessionMessages reply_session st)) = settling_state st"
proof -
  have "deliverSessionMessages reply_session st = st\<lparr>ds_inflight := {''s1''}, ds_drains := [\<lparr>dr_session = reply_session, dr_phase = Reading\<rparr>]\<rparr>"
    using assms by (simp add: deliverSessionMessages_def queued_def)
  moreover have "drain_step step_ok 0 (st\<lparr>ds_inflight := {''s1''}, ds_drains := [\<lparr>dr_session = reply_session, dr_phase = Reading\<rparr>]\<rparr>)
      = st\<lparr>ds_inflight := {''s1''}, ds_drains := [\<lparr>dr_session = reply_session, dr_phase = Drained [broken_out] {}\<rparr>]\<rparr>"
    using queued_read [OF assms] by (simp add: drain_step_def set_drain_def step_ok_def)
  ultimately show ?thesis
    using broken_fails by (simp add: drain_step_def set_drain_def note_failure_def)
qed

lemma queued_round:
  assumes "queued n st"
  shows "ds_failed (failed_round st) = (''s1'', ''o1'') # ds_failed st" "ds_uncounted (failed_round st) = []" "ds_drains (failed_round st) = []"
    "n < 2 \<Longrightarrow> queued (Suc n) (failed_round st)"
proof -
  let ?s = "settling_state st"
  let ?a = "attempt_failed step_ok reply_session broken_out ''SyntaxError'' ?s"
  have r: "failed_round st = ?a\<lparr>ds_inflight := {}, ds_drains := []\<rparr>"
    unfolding failed_round_def queued_settling [OF assms]
    by (simp add: drain_step_def settle_def set_drain_def crash_def returned_send_def pending_failure_def)
  show "ds_failed (failed_round st) = (''s1'', ''o1'') # ds_failed st" "ds_uncounted (failed_round st) = []" "ds_drains (failed_round st) = []"
    using assms by (simp_all add: r queued_def)
  have wf: "wf_coord (ds_coord ?s)" and a: "attempts_of ''o1'' st = (if n = 0 then None else Some (int n))"
    using assms by (simp_all add: queued_def)
  from a have "int (Suc n) = or_else (attempts_of ''o1'' ?s) 0 + 1" by (simp add: or_else_def attempts_of_def)
  note rec = record_row(3) [OF wf _ this [unfolded attempts_of_def], of step_ok "''s1''" "''SyntaxError''"]
  show "queued (Suc n) (failed_round st)" if "n < 2"
    using that assms rec attempt_failed_frame(1) [OF wf, where env = step_ok and s = reply_session and m = broken_out and e = "''SyntaxError''"]
    by (simp add: r queued_def attempt_failed_eq Let_def attempts_of_def MAX_DELIVERY_ATTEMPTS_def step_ok_def)
qed

definition three_rounds :: delivery_state where
  "three_rounds = failed_round (failed_round (failed_round broken_reply))"

lemma failed_round_counting:
  assumes "queued n st"
  shows "(counting_step ''s1'' ''o1'')\<^sup>*\<^sup>* st (failed_round st)"
proof -
  let ?a = "deliverSessionMessages reply_session st"
  let ?b = "drain_step step_ok 0 ?a"
  have ok: "te_attempts_ok step_ok" "te_giveup_ok step_ok" by (simp_all add: step_ok_def)
  have "0 < length (ds_drains ?a)" "0 < length (ds_drains ?b)"
    using assms queued_read [OF assms] by (simp_all add: deliverSessionMessages_def drain_step_def queued_def set_drain_def step_ok_def)
  then have "counting_step ''s1'' ''o1'' st ?a" "counting_step ''s1'' ''o1'' ?a ?b" "counting_step ''s1'' ''o1'' ?b (settling_state st)"
    using CountPoll CountAdvance ok queued_settling [OF assms] by metis+
  moreover have "counting_step ''s1'' ''o1'' (settling_state st) (drain_step step_ok 0 (settling_state st))"
    by (rule CountAdvance) (simp_all add: ok)
  moreover have "counting_step ''s1'' ''o1'' (drain_step step_ok 0 (settling_state st)) (failed_round st)"
    unfolding failed_round_def queued_settling [OF assms] by (rule CountCrash)
  ultimately show ?thesis by (meson rtranclp.rtrancl_into_rtrancl rtranclp.rtrancl_refl)
qed

theorem third_failure_gives_up_witness: "\<exists>b'. boxes three_rounds ''s1'' = Some b' \<and> given_up ''o1'' b'"
proof -
  have start: "quiet_start broken_reply" "wf_coord (ds_coord broken_reply)" "own_id ''s1'' ''o1'' broken_reply"
    "getDeliveryAttempt ''o1'' (ds_coord broken_reply) = None" "boxes broken_reply ''s1'' = Some empty_inbound"
    "''o1'' \<notin> getDeliveredIds empty_inbound" "ds_failed broken_reply = []" "ds_uncounted broken_reply = []"
    by (simp_all add: quiet_start_def broken_reply_def one_reply_def two_bots_def wf_coord_def keys_distinct_def own_id_def
        getDeliveryAttempt_def sql_select_none getDeliveredIds_def empty_inbound_def)
  then have q: "queued 0 broken_reply"
    by (simp add: queued_def attempts_of_def) (simp add: broken_reply_def one_reply_def)
  note q1 = queued_round(4) [OF q]
  note q2 = queued_round(4) [OF q1]
  have "(counting_step ''s1'' ''o1'')\<^sup>*\<^sup>* broken_reply three_rounds"
    unfolding three_rounds_def
    using failed_round_counting [OF q] failed_round_counting [OF q1] failed_round_counting [OF q2] by auto
  moreover have "ds_failed three_rounds = replicate 3 (''s1'', ''o1'')" "ds_uncounted three_rounds = []" "ds_drains three_rounds = []"
    using queued_round [OF q2] q2 unfolding three_rounds_def by (simp_all add: queued_def numeral_3_eq_3)
  moreover from this have "\<not> awaits_count ''s1'' ''o1'' three_rounds" by (simp add: awaits_count_def pending_failures_def)
  ultimately show ?thesis
    using third_failure_gives_up [OF start(1,7,8,2-6), of three_rounds] by (auto simp: Let_def numeral_3_eq_3)
qed

end
