(* ===== verification/FileTransfer.thy ===== *)
theory FileTransfer
  imports AgentRoute NodePath
begin

text \<open>
  Files that cross the boundary of a session directory (\<open>attachment-safety.ts\<close>, \<open>inbox-safety.ts\<close>,
  \<open>attachment-naming.ts\<close>, the file parts of \<open>session-manager.ts\<close> and \<open>agent-route.ts\<close> under
  \<open>nanoclaw/src\<close>).  The file system is a map from real absolute paths, as lists of segments, to nodes;
  symbolic links are followed by \<open>walk\<close> up to a bound of the environment.  No container changes the
  file system during one of these synchronous functions.
\<close>

section \<open>The file system\<close>

datatype fs_node = DirNode | FileNode string | LinkNode string

type_synonym file_system = "string list \<rightharpoonup> fs_node"

text \<open>\<open>fe_io\<close> says whether creating a file at a path succeeds when its name is free.\<close>

record file_env =
  fe_hops :: nat
  fe_io :: "string list \<Rightarrow> bool"
  fe_now :: string
  fe_base64 :: "string \<Rightarrow> string"

fun walk :: "nat \<Rightarrow> file_system \<Rightarrow> string list \<Rightarrow> string list \<Rightarrow> string list option" where
  "walk n fs cur [] = Some cur"
| "walk 0 fs cur (s # ss) = None"
| "walk (Suc n) fs cur (s # ss) =
     (if s = [] \<or> s = ''.'' then walk n fs cur ss
      else if s = ''..'' then walk n fs (butlast cur) ss
      else case fs (cur @ [s]) of
             None \<Rightarrow> None
           | Some DirNode \<Rightarrow> walk n fs (cur @ [s]) ss
           | Some (FileNode _) \<Rightarrow> if ss = [] then Some (cur @ [s]) else None
           | Some (LinkNode t) \<Rightarrow> walk n fs (if isAbsolute t then [] else cur) (split_on slash t @ ss))"

definition realpathSync :: "file_env \<Rightarrow> file_system \<Rightarrow> string list \<Rightarrow> string list option" where
  "realpathSync env fs p = walk (fe_hops env) fs [] p"

definition lstatSync :: "file_env \<Rightarrow> file_system \<Rightarrow> string list \<Rightarrow> fs_node option" where
  "lstatSync env fs p =
     (if p = [] then Some DirNode
      else case realpathSync env fs (butlast p) of None \<Rightarrow> None | Some d \<Rightarrow> fs (d @ [last p]))"

definition existsSync :: "file_env \<Rightarrow> file_system \<Rightarrow> string list \<Rightarrow> bool" where
  "existsSync env fs p = (realpathSync env fs p \<noteq> None)"

text \<open>\<open>mkdirSync\<close> with \<open>recursive\<close>; \<open>None\<close> when it throws.\<close>

fun mkdir_from :: "file_env \<Rightarrow> file_system \<Rightarrow> string list \<Rightarrow> string list \<Rightarrow> file_system option" where
  "mkdir_from env fs cur [] = Some fs"
| "mkdir_from env fs cur (s # ss) =
     (case fs (cur @ [s]) of
        None \<Rightarrow> mkdir_from env (fs(cur @ [s] \<mapsto> DirNode)) (cur @ [s]) ss
      | Some DirNode \<Rightarrow> mkdir_from env fs (cur @ [s]) ss
      | Some (FileNode _) \<Rightarrow> None
      | Some (LinkNode _) \<Rightarrow>
          (case walk (fe_hops env) fs cur [s] of
             None \<Rightarrow> None
           | Some d \<Rightarrow> if d = [] \<or> fs d = Some DirNode then mkdir_from env fs d ss else None))"

text \<open>Exclusive creation: an existing name, a link included, is refused.\<close>

datatype create_result = Created file_system | Exists | CreateFailed

definition create_exclusive :: "file_env \<Rightarrow> file_system \<Rightarrow> string list \<Rightarrow> string \<Rightarrow> create_result" where
  "create_exclusive env fs p content =
     (case realpathSync env fs (butlast p) of
        None \<Rightarrow> CreateFailed
      | Some d \<Rightarrow> if fs (d @ [last p]) \<noteq> None then Exists
                  else if fe_io env (d @ [last p]) then Created (fs(d @ [last p] \<mapsto> FileNode content)) else CreateFailed)"

text \<open>\<open>path.join(dir, name)\<close> on an absolute normalized directory.\<close>

definition join_segs :: "string list \<Rightarrow> string \<Rightarrow> string list" where
  "join_segs dir name = norm_segs False (rev dir) (split_on slash name)"

section \<open>Names and containment\<close>

definition isSafeAttachmentName :: "string \<Rightarrow> bool" where
  "isSafeAttachmentName name =
     (if name = [] then False
      else if name = ''.'' \<or> name = ''..'' then False
      else if list_ex (\<lambda>c. c = CHR 0x5C \<or> c = slash \<or> c = CHR 0x00) name then False
      else basename name = name)"

definition isPathInside :: "string list \<Rightarrow> string list \<Rightarrow> bool" where
  "isPathInside parent child =
     (case drop_common parent child of
        (up, down) \<Rightarrow> let relative = join_with slash (map (\<lambda>_. ''..'') up @ down)
                      in relative = [] \<or> \<not> starts_with ''..'' relative \<and> \<not> isAbsolute relative)"

definition ensureContainedInboxDir :: "file_env \<Rightarrow> string list \<Rightarrow> string \<Rightarrow> file_system \<Rightarrow> string list option result \<times> file_system" where
  "ensureContainedInboxDir env inboxRoot messageId fs =
     (let inboxDir = join_segs inboxRoot messageId in
      if list_ex (\<lambda>dir. lstatSync env fs dir \<noteq> None \<and> lstatSync env fs dir \<noteq> Some DirNode) [inboxRoot, inboxDir] then (Inr None, fs)
      else case mkdir_from env fs [] inboxDir of
             None \<Rightarrow> (Inl ''mkdir'', fs)
           | Some fs' \<Rightarrow>
               (case (realpathSync env fs' inboxDir, realpathSync env fs' inboxRoot) of
                  (Some realInboxDir, Some realInboxRoot) \<Rightarrow>
                    if isPathInside realInboxRoot realInboxDir then (Inr (Some realInboxDir), fs') else (Inr None, fs')
                | _ \<Rightarrow> (Inr None, fs')))"

section \<open>From one agent to another\<close>

record forwarded_attachment =
  fa_name :: string
  fa_localPath :: string

text \<open>One file of the loop: copied, with its attachment, or skipped.\<close>

definition forward_one :: "file_env \<Rightarrow> string list \<Rightarrow> string list \<Rightarrow> string list \<Rightarrow> string \<Rightarrow> string \<Rightarrow> file_system
    \<Rightarrow> forwarded_attachment list \<times> file_system" where
  "forward_one env sourceDir realSourceDir targetInboxDir messageId filename fs =
     (if \<not> isSafeAttachmentName filename then ([], fs)
      else let src = join_segs sourceDir filename in
        case (lstatSync env fs src, realpathSync env fs src) of
          (Some (FileNode _), Some realSrc) \<Rightarrow>
            if \<not> isPathInside realSourceDir realSrc then ([], fs)
            else (case fs realSrc of
                    Some (FileNode content) \<Rightarrow>
                      (case create_exclusive env fs (join_segs targetInboxDir filename) content of
                         Created fs' \<Rightarrow> ([\<lparr>fa_name = filename, fa_localPath = ''inbox/'' @ messageId @ ''/'' @ filename\<rparr>], fs')
                       | _ \<Rightarrow> ([], fs))
                  | _ \<Rightarrow> ([], fs))
        | _ \<Rightarrow> ([], fs))"

fun forward_all :: "file_env \<Rightarrow> string list \<Rightarrow> string list \<Rightarrow> string list \<Rightarrow> string \<Rightarrow> string list \<Rightarrow> file_system
    \<Rightarrow> forwarded_attachment list \<times> file_system" where
  "forward_all env sourceDir realSourceDir targetInboxDir messageId [] fs = ([], fs)"
| "forward_all env sourceDir realSourceDir targetInboxDir messageId (f # names) fs =
     (case forward_one env sourceDir realSourceDir targetInboxDir messageId f fs of
        (a, fs1) \<Rightarrow> (case forward_all env sourceDir realSourceDir targetInboxDir messageId names fs1 of (b, fs2) \<Rightarrow> (a @ b, fs2)))"

text \<open>The session directories of the source and the target are given as paths.\<close>

definition forwardAttachedFiles :: "file_env \<Rightarrow> string list \<Rightarrow> string \<Rightarrow> string list \<Rightarrow> string list \<Rightarrow> string \<Rightarrow> file_system
    \<Rightarrow> forwarded_attachment list result \<times> file_system" where
  "forwardAttachedFiles env sourceSession sourceMessage filenames targetSession targetMessage fs =
     (if filenames = [] then (Inr [], fs)
      else if \<not> isSafeAttachmentName sourceMessage then (Inr [], fs)
      else let sourceDir = join_segs (join_segs sourceSession ''outbox'') sourceMessage in
        if \<not> existsSync env fs sourceDir \<or> lstatSync env fs sourceDir \<noteq> Some DirNode then (Inr [], fs)
        else case realpathSync env fs sourceDir of
               None \<Rightarrow> (Inr [], fs)
             | Some realSourceDir \<Rightarrow>
                 (case ensureContainedInboxDir env (join_segs targetSession ''inbox'') targetMessage fs of
                    (Inl e, fs') \<Rightarrow> (Inl e, fs')
                  | (Inr None, fs') \<Rightarrow> (Inr [], fs')
                  | (Inr (Some dir), fs') \<Rightarrow>
                      (case forward_all env sourceDir realSourceDir dir targetMessage filenames fs' of (a, fs'') \<Rightarrow> (Inr a, fs''))))"

text \<open>The rewritten message as the value that is printed.\<close>

datatype message_content = SameText string | Rewritten jsval

fun set_prop :: "string \<Rightarrow> jsval \<Rightarrow> (string \<times> jsval) list \<Rightarrow> (string \<times> jsval) list" where
  "set_prop k v [] = [(k, v)]"
| "set_prop k v ((k', v') # ps) = (if k = k' then (k, v) # ps else (k', v') # set_prop k v ps)"

fun with_prop :: "string \<Rightarrow> jsval \<Rightarrow> jsval \<Rightarrow> jsval" where
  "with_prop k v (Obj ps) = Obj (set_prop k v ps)"
| "with_prop k v x = x"

definition attachment_js :: "forwarded_attachment \<Rightarrow> jsval" where
  "attachment_js a = Obj [(''name'', Str (fa_name a)), (''filename'', Str (fa_name a)), (''type'', Str ''file''),
     (''localPath'', Str (fa_localPath a))]"

text \<open>Text that parses to null throws at the first property.\<close>

definition forwardFileAttachments :: "file_env \<Rightarrow> agent_msg \<Rightarrow> string \<Rightarrow> string list \<Rightarrow> string list \<Rightarrow> file_system
    \<Rightarrow> message_content result \<times> file_system" where
  "forwardFileAttachments env m a2aMsgId sourceSession targetSession fs =
     (case json_parse (am_content m) of
        None \<Rightarrow> (Inr (SameText (am_content m)), fs)
      | Some parsed \<Rightarrow>
          if parsed = Null then (Inl ''TypeError'', fs)
          else (case get_prop parsed ''files'' of
                  Arr files \<Rightarrow>
                    if strings_of files = [] then (Inr (SameText (am_content m)), fs)
                    else (case forwardAttachedFiles env sourceSession (am_id m) (strings_of files) targetSession a2aMsgId fs of
                            (Inl e, fs') \<Rightarrow> (Inl e, fs')
                          | (Inr attachments, fs') \<Rightarrow>
                              (let existing = (case get_prop parsed ''attachments'' of Arr xs \<Rightarrow> xs | _ \<Rightarrow> [])
                               in (Inr (Rewritten (with_prop ''attachments'' (Arr (existing @ map attachment_js attachments)) parsed)), fs')))
                | _ \<Rightarrow> (Inr (SameText (am_content m)), fs)))"

definition countForwardedFiles :: "string \<Rightarrow> nat" where
  "countForwardedFiles content =
     (case json_parse content of
        None \<Rightarrow> 0
      | Some parsed \<Rightarrow> (case get_prop parsed ''attachments'' of Arr xs \<Rightarrow> length xs | _ \<Rightarrow> 0))"

section \<open>To the channel\<close>

definition read_one :: "file_env \<Rightarrow> string list \<Rightarrow> string list \<Rightarrow> jsval \<Rightarrow> file_system \<Rightarrow> (string \<times> string) list" where
  "read_one env outboxDir realOutboxDir name fs =
     (case name of
        Str filename \<Rightarrow>
          if \<not> isSafeAttachmentName filename then []
          else let filePath = join_segs outboxDir filename in
            (case (lstatSync env fs filePath, realpathSync env fs filePath) of
               (Some (FileNode _), Some realFilePath) \<Rightarrow>
                 if \<not> isPathInside realOutboxDir realFilePath then []
                 else (case fs realFilePath of Some (FileNode data) \<Rightarrow> [(filename, data)] | _ \<Rightarrow> [])
             | _ \<Rightarrow> [])
      | _ \<Rightarrow> [])"

text \<open>\<open>undefined\<close> and a list without files are the same to the caller: both are the empty list here.\<close>

definition readOutboxFiles :: "file_env \<Rightarrow> string list \<Rightarrow> string \<Rightarrow> jsval list \<Rightarrow> file_system \<Rightarrow> (string \<times> string) list" where
  "readOutboxFiles env session messageId filenames fs =
     (if \<not> isSafeAttachmentName messageId then []
      else let outboxDir = join_segs (join_segs session ''outbox'') messageId in
        if \<not> existsSync env fs outboxDir \<or> lstatSync env fs outboxDir \<noteq> Some DirNode then []
        else case realpathSync env fs outboxDir of
               None \<Rightarrow> []
             | Some realOutboxDir \<Rightarrow> concat (map (\<lambda>f. read_one env outboxDir realOutboxDir f fs) filenames))"

definition clearOutbox :: "file_env \<Rightarrow> string list \<Rightarrow> string \<Rightarrow> file_system \<Rightarrow> file_system" where
  "clearOutbox env session messageId fs =
     (if \<not> isSafeAttachmentName messageId then fs
      else let outboxDir = join_segs (join_segs session ''outbox'') messageId in
        if \<not> existsSync env fs outboxDir \<or> lstatSync env fs outboxDir \<noteq> Some DirNode then fs
        else case (realpathSync env fs (join_segs session ''outbox''), realpathSync env fs outboxDir) of
               (Some realOutboxBase, Some realOutboxDir) \<Rightarrow>
                 if isPathInside realOutboxBase realOutboxDir then (\<lambda>q. if prefix realOutboxDir q then None else fs q) else fs
             | _ \<Rightarrow> fs)"

section \<open>From a channel\<close>

definition trim :: "string \<Rightarrow> string" where
  "trim s = (let sp = (\<lambda>c. of_char c \<in> {9, 10, 11, 12, 13, 32, 160 :: nat})
             in rev (dropWhile sp (rev (dropWhile sp s))))"

text \<open>The two properties every object inherits under a lower-case name read as their texts.\<close>

definition inherited_ext :: "(string \<times> string) list" where
  "inherited_ext = [(''constructor'', ''function Object() { [native code] }''), (''__proto__'', ''[object Object]'')]"

definition MIME_TO_EXT :: "(string \<times> string) list" where
  "MIME_TO_EXT =
     [(''image/jpeg'', ''jpg''), (''image/png'', ''png''), (''image/webp'', ''webp''), (''image/gif'', ''gif''), (''image/heic'', ''heic''),
      (''audio/ogg'', ''ogg''), (''audio/mpeg'', ''mp3''), (''audio/wav'', ''wav''), (''audio/mp4'', ''m4a''), (''video/mp4'', ''mp4''),
      (''video/webm'', ''webm''), (''video/quicktime'', ''mov''), (''application/pdf'', ''pdf''), (''text/plain'', ''txt''),
      (''application/json'', ''json''), (''application/zip'', ''zip'')]"

definition TYPE_TO_EXT :: "(string \<times> string) list" where
  "TYPE_TO_EXT = [(''image'', ''jpg''), (''photo'', ''jpg''), (''sticker'', ''webp''), (''voice'', ''ogg''), (''audio'', ''mp3''),
     (''video'', ''mp4''), (''animation'', ''mp4'')]"

definition ext_of :: "(string \<times> string) list \<Rightarrow> string \<Rightarrow> string" where
  "ext_of table k = or_else (map_of (table @ inherited_ext) k) []"

definition extForMime :: "jsval \<Rightarrow> string" where
  "extForMime mime = (case mime of
       Str m \<Rightarrow> if m = [] then [] else ext_of MIME_TO_EXT (map ascii_lower (trim (hd (split_on CHR '';'' m))))
     | _ \<Rightarrow> [])"

definition deriveAttachmentName :: "file_env \<Rightarrow> jsval \<Rightarrow> string" where
  "deriveAttachmentName env att =
     (let explicit = js_text (get_prop att ''name'') in
      if explicit \<noteq> [] then explicit
      else let mime = extForMime (get_prop att ''mimeType'');
               ext = (if mime = [] then (case get_prop att ''type'' of Str t \<Rightarrow> ext_of TYPE_TO_EXT (map ascii_lower t) | _ \<Rightarrow> []) else mime)
           in ''attachment-'' @ fe_now env @ (if ext = [] then [] else CHR ''.'' # ext))"

definition safe_filename :: "file_env \<Rightarrow> jsval \<Rightarrow> string" where
  "safe_filename env att =
     (let rawName = deriveAttachmentName env att in if isSafeAttachmentName rawName then rawName else ''attachment-'' @ fe_now env)"

fun without_prop :: "string \<Rightarrow> jsval \<Rightarrow> jsval" where
  "without_prop k (Obj ps) = Obj (filter (\<lambda>(k', _). k' \<noteq> k) ps)"
| "without_prop k v = v"

definition saved_attachment :: "string \<Rightarrow> string \<Rightarrow> jsval \<Rightarrow> jsval" where
  "saved_attachment messageId filename att =
     without_prop ''data'' (with_prop ''localPath'' (Str (''inbox/'' @ messageId @ ''/'' @ filename)) (with_prop ''name'' (Str filename) att))"

text \<open>The loop; \<open>dir\<close> is \<open>None\<close> until the inbox is resolved, then the result.\<close>

fun extract_loop :: "file_env \<Rightarrow> string list \<Rightarrow> string \<Rightarrow> string list option option \<Rightarrow> jsval list \<Rightarrow> file_system
    \<Rightarrow> (jsval list \<times> bool) result \<times> file_system" where
  "extract_loop env inboxRoot messageId dir [] fs = (Inr ([], False), fs)"
| "extract_loop env inboxRoot messageId dir (att # atts) fs =
     (if att = Null then (Inl ''TypeError'', fs)
      else case get_prop att ''data'' of
        Str data \<Rightarrow>
          (case (case dir of Some d \<Rightarrow> (Inr d, fs) | None \<Rightarrow> ensureContainedInboxDir env inboxRoot messageId fs) of
             (Inl e, fs1) \<Rightarrow> (Inl e, fs1)
           | (Inr None, fs1) \<Rightarrow> (Inr (att # atts, False), fs1)
           | (Inr (Some d), fs1) \<Rightarrow>
               (let filename = safe_filename env att in
                case create_exclusive env fs1 (join_segs d filename) (fe_base64 env data) of
                  CreateFailed \<Rightarrow> (Inl ''write failed'', fs1)
                | Exists \<Rightarrow>
                    (case extract_loop env inboxRoot messageId (Some (Some d)) atts fs1 of
                       (Inl e, fs2) \<Rightarrow> (Inl e, fs2)
                     | (Inr (rest, changed), fs2) \<Rightarrow> (Inr (att # rest, changed), fs2))
                | Created fs2 \<Rightarrow>
                    (case extract_loop env inboxRoot messageId (Some (Some d)) atts fs2 of
                       (Inl e, fs3) \<Rightarrow> (Inl e, fs3)
                     | (Inr (rest, _), fs3) \<Rightarrow> (Inr (saved_attachment messageId filename att # rest, True), fs3))))
      | _ \<Rightarrow>
          (case extract_loop env inboxRoot messageId dir atts fs of
             (Inl e, fs1) \<Rightarrow> (Inl e, fs1)
           | (Inr (rest, changed), fs1) \<Rightarrow> (Inr (att # rest, changed), fs1)))"

definition extractAttachmentFiles :: "file_env \<Rightarrow> string list \<Rightarrow> string \<Rightarrow> string \<Rightarrow> file_system \<Rightarrow> message_content result \<times> file_system" where
  "extractAttachmentFiles env session messageId contentStr fs =
     (case json_parse contentStr of
        None \<Rightarrow> (Inr (SameText contentStr), fs)
      | Some parsed \<Rightarrow>
          if parsed = Null then (Inl ''TypeError'', fs)
          else (case get_prop parsed ''attachments'' of
                  Arr attachments \<Rightarrow>
                    if \<not> isSafeAttachmentName messageId then (Inr (SameText contentStr), fs)
                    else (case extract_loop env (join_segs session ''inbox'') messageId None attachments fs of
                            (Inl e, fs') \<Rightarrow> (Inl e, fs')
                          | (Inr (atts, changed), fs') \<Rightarrow>
                              (Inr (if changed then Rewritten (with_prop ''attachments'' (Arr atts) parsed) else SameText contentStr), fs'))
                | _ \<Rightarrow> (Inr (SameText contentStr), fs)))"

section \<open>Names and paths\<close>

definition plain_seg :: "string \<Rightarrow> bool" where
  "plain_seg s \<longleftrightarrow> s \<noteq> [] \<and> s \<noteq> ''.'' \<and> s \<noteq> ''..''"

lemma safe_plain:
  assumes "isSafeAttachmentName n"
  shows "plain_seg n \<and> slash \<notin> set n"
  using assms by (auto simp: isSafeAttachmentName_def plain_seg_def list_ex_iff split: if_splits)

lemma join_segs_plain: "plain_seg n \<Longrightarrow> slash \<notin> set n \<Longrightarrow> join_segs dir n = dir @ [n]"
  by (simp add: join_segs_def split_on_plain plain_seg_def)

lemma join_segs_safe: "isSafeAttachmentName n \<Longrightarrow> join_segs dir n = dir @ [n]"
  using safe_plain join_segs_plain by blast

lemma join_segs_boxes [simp]: "join_segs dir ''inbox'' = dir @ [''inbox'']" "join_segs dir ''outbox'' = dir @ [''outbox'']"
  by (simp_all add: join_segs_plain plain_seg_def)

lemma inside_prefix:
  assumes "isPathInside parent child"
  shows "prefix parent child"
proof -
  obtain u v where d: "drop_common parent child = (u, v)" by fastforce
  have "u = []"
  proof (rule ccontr)
    assume "u \<noteq> []"
    then obtain a u' where "u = a # u'" by (cases u) auto
    then have "starts_with ''..'' (join_with slash (map (\<lambda>_. ''..'') u @ v))" "join_with slash (map (\<lambda>_. ''..'') u @ v) \<noteq> []"
      by (cases "map (\<lambda>_. ''..'') u' @ v"; simp add: starts_with_def)+
    then show False using assms by (simp add: isPathInside_def d Let_def)
  qed
  with d drop_common_prefix [of parent child] show ?thesis by simp
qed

section \<open>Walking\<close>

text \<open>Parents are directories, and a node's name is a proper segment.\<close>

definition wf_fs :: "file_system \<Rightarrow> bool" where
  "wf_fs fs \<longleftrightarrow> fs [] = None \<and> (\<forall>p s. fs (p @ [s]) \<noteq> None \<longrightarrow> (p = [] \<or> fs p = Some DirNode) \<and> plain_seg s)"

definition is_dir :: "file_system \<Rightarrow> string list \<Rightarrow> bool" where
  "is_dir fs d \<longleftrightarrow> d = [] \<or> fs d = Some DirNode"

lemma wf_fs_parent: "wf_fs fs \<Longrightarrow> fs (p @ [s]) \<noteq> None \<Longrightarrow> is_dir fs p \<and> plain_seg s"
  by (simp add: wf_fs_def is_dir_def)

lemma wf_fs_above: "wf_fs fs \<Longrightarrow> fs (p @ s # q) \<noteq> None \<Longrightarrow> is_dir fs p \<and> plain_seg s"
proof (induction q rule: rev_induct)
  case (snoc x q)
  then have "is_dir fs (p @ s # q)" using wf_fs_parent [of fs "p @ s # q" x] by simp
  then show ?case using snoc by (auto simp: is_dir_def)
qed (use wf_fs_parent in blast)

lemma wf_fs_create:
  assumes "wf_fs fs" "is_dir fs p" "plain_seg s" "fs (p @ [s]) = None"
  shows "wf_fs (fs(p @ [s] \<mapsto> n))"
proof -
  have "fs ((p @ [s]) @ [x]) = None" for x
    using assms wf_fs_parent [of fs "p @ [s]" x] by (cases "fs ((p @ [s]) @ [x])") (simp_all add: is_dir_def)
  then show ?thesis using assms by (auto simp: wf_fs_def is_dir_def)
qed

text \<open>One step that goes on, with what then remains.\<close>

definition go :: "file_system \<Rightarrow> string list \<Rightarrow> string \<Rightarrow> string list \<Rightarrow> (string list \<times> string list) option" where
  "go fs cur s ss =
     (if s = [] \<or> s = ''.'' then Some (cur, ss)
      else if s = ''..'' then Some (butlast cur, ss)
      else case fs (cur @ [s]) of
             Some DirNode \<Rightarrow> Some (cur @ [s], ss)
           | Some (LinkNode t) \<Rightarrow> Some (if isAbsolute t then [] else cur, split_on slash t @ ss)
           | _ \<Rightarrow> None)"

lemma walk_Suc:
  "walk (Suc n) fs cur (s # ss) = Some r \<longleftrightarrow>
     (\<exists>cur' ss'. go fs cur s ss = Some (cur', ss') \<and> walk n fs cur' ss' = Some r)
     \<or> (plain_seg s \<and> (\<exists>c. fs (cur @ [s]) = Some (FileNode c)) \<and> ss = [] \<and> r = cur @ [s])"
  by (auto simp: go_def plain_seg_def split: option.splits fs_node.splits)

lemma walk_zero: "walk 0 fs cur ss = Some r \<longleftrightarrow> ss = [] \<and> r = cur"
  by (cases ss) auto

lemma go_append: "go fs cur s (xs @ ys) = map_option (\<lambda>(c, zs). (c, zs @ ys)) (go fs cur s xs)"
  by (simp add: go_def split: option.splits fs_node.splits)

declare walk.simps(3) [simp del]

lemma walk_more: "walk n fs cur ss = Some r \<Longrightarrow> n \<le> m \<Longrightarrow> walk m fs cur ss = Some r"
proof (induction n arbitrary: m cur ss)
  case (Suc n)
  then obtain k where k: "m = Suc k" "n \<le> k" by (cases m) auto
  show ?case
  proof (cases ss)
    case (Cons s ss')
    have "walk k fs c zs = Some r" if "walk n fs c zs = Some r" for c zs using Suc.IH that k(2) by blast
    then show ?thesis using Suc.prems(1) by (auto simp: Cons k(1) walk_Suc)
  qed (use Suc.prems in simp)
qed (simp add: walk_zero)

lemma walk_split:
  "walk n fs cur (xs @ ys) = Some r \<Longrightarrow> \<exists>d. walk n fs cur xs = Some d \<and> walk n fs d ys = Some r"
proof (induction n arbitrary: cur xs)
  case (Suc n)
  show ?case
  proof (cases xs)
    case (Cons s xs')
    have up: "\<exists>d. walk n fs c zs = Some d \<and> walk (Suc n) fs d ys = Some r" if "walk n fs c (zs @ ys) = Some r" for c zs
      using Suc.IH [OF that] walk_more [of n fs _ ys r "Suc n"] by auto
    consider c zs where "go fs cur s xs' = Some (c, zs)" "walk n fs c (zs @ ys) = Some r"
      | "plain_seg s" "\<exists>c. fs (cur @ [s]) = Some (FileNode c)" "xs' = []" "ys = []" "r = cur @ [s]"
      using Suc.prems by (auto simp: Cons walk_Suc go_append)
    then show ?thesis
    proof cases
      case 1
      with up [OF 1(2)] show ?thesis by (auto simp: Cons walk_Suc)
    next
      case 2
      then show ?thesis by (auto simp: Cons walk_Suc)
    qed
  qed (use Suc.prems in simp)
qed (simp add: walk_zero)

lemma walk_join:
  "walk n fs cur xs = Some d \<Longrightarrow> is_dir fs d \<Longrightarrow> walk m fs d ys = Some r \<Longrightarrow> walk (n + m) fs cur (xs @ ys) = Some r"
proof (induction n arbitrary: cur xs)
  case (Suc n)
  show ?case
  proof (cases xs)
    case Nil
    then show ?thesis using Suc.prems walk_more [of m fs d ys r "Suc n + m"] by simp
  next
    case (Cons s xs')
    have "\<not> (\<exists>c. fs (cur @ [s]) = Some (FileNode c)) \<or> d \<noteq> cur @ [s]" using Suc.prems(2) by (auto simp: is_dir_def)
    then obtain c zs where "go fs cur s xs' = Some (c, zs)" "walk n fs c zs = Some d"
      using Suc.prems(1) by (auto simp: Cons walk_Suc)
    with Suc.IH [OF this(2) Suc.prems(2,3)] show ?thesis by (auto simp: Cons walk_Suc go_append)
  qed
qed (simp add: walk_zero)

lemma walk_mono:
  assumes "fs \<subseteq>\<^sub>m fs'"
  shows "walk n fs cur ss = Some r \<Longrightarrow> walk n fs' cur ss = Some r"
proof (induction n arbitrary: cur ss)
  case (Suc n)
  have m: "fs' p = Some x" if "fs p = Some x" for p x using that assms by (metis domI map_le_def)
  then have g: "go fs' c s zs = Some y" if "go fs c s zs = Some y" for c s zs y
    using that by (auto simp: go_def split: if_splits option.splits fs_node.splits)
  show ?case
  proof (cases ss)
    case (Cons s zs)
    consider c ws where "go fs cur s zs = Some (c, ws)" "walk n fs c ws = Some r"
      | x where "plain_seg s" "fs (cur @ [s]) = Some (FileNode x)" "zs = []" "r = cur @ [s]"
      using Suc.prems by (auto simp: Cons walk_Suc)
    then show ?thesis
    proof cases
      case 1
      then show ?thesis using g [OF 1(1)] Suc.IH [OF 1(2)] by (auto simp: Cons walk_Suc)
    next
      case 2
      then show ?thesis using m [OF 2(2)] by (auto simp: Cons walk_Suc)
    qed
  qed (use Suc.prems in simp)
qed (simp add: walk_zero)

text \<open>Walking down directories goes nowhere else.\<close>

lemma walk_down:
  assumes "wf_fs fs" "ys \<noteq> [] \<Longrightarrow> is_dir fs (cur @ ys) \<or> (\<exists>c. fs (cur @ ys) = Some (FileNode c))"
  shows "walk n fs cur ys = Some r \<Longrightarrow> r = cur @ ys" "length ys \<le> n \<Longrightarrow> walk n fs cur ys = Some (cur @ ys)"
proof -
  have g: "go fs c s zs = Some (c @ [s], zs)"
    if "zs \<noteq> [] \<or> is_dir fs (c @ s # zs)" "fs (c @ s # zs) \<noteq> None" for c s zs
  proof -
    have "is_dir fs (c @ [s])" using that wf_fs_above [OF assms(1), of "c @ [s]"] by (cases zs) auto
    moreover have "plain_seg s" using wf_fs_above [OF assms(1), of c s zs] that(2) by simp
    ultimately show ?thesis by (simp add: go_def plain_seg_def is_dir_def)
  qed
  have w: "walk (Suc k) fs c (s # zs) = walk k fs (c @ [s]) zs"
    if "zs \<noteq> [] \<or> is_dir fs (c @ s # zs)" "fs (c @ s # zs) \<noteq> None" for k c s zs
    using g [OF that] that by (simp add: walk.simps(3) go_def split: if_splits option.splits fs_node.splits)
  show "r = cur @ ys" if "walk n fs cur ys = Some r"
    using that assms(2)
  proof (induction ys arbitrary: n cur)
    case (Cons s zs)
    then obtain k where k: "n = Suc k" by (cases n) auto
    have nn: "fs (cur @ s # zs) \<noteq> None" using Cons.prems(2) by (auto simp: is_dir_def)
    show ?case
    proof (cases "zs \<noteq> [] \<or> is_dir fs (cur @ s # zs)")
      case True
      then show ?thesis using Cons.IH [of k "cur @ [s]"] Cons.prems w [OF True nn, of k] by (simp add: k)
    next
      case False
      then show ?thesis using Cons.prems wf_fs_above [OF assms(1), of cur s zs] nn by (auto simp: k walk_Suc go_def plain_seg_def)
    qed
  qed simp
  show "walk n fs cur ys = Some (cur @ ys)" if "length ys \<le> n"
    using that assms(2)
  proof (induction ys arbitrary: n cur)
    case (Cons s zs)
    then obtain k where k: "n = Suc k" "length zs \<le> k" by (cases n) auto
    have nn: "fs (cur @ s # zs) \<noteq> None" using Cons.prems(2) by (auto simp: is_dir_def)
    show ?case
    proof (cases "zs \<noteq> [] \<or> is_dir fs (cur @ s # zs)")
      case True
      then show ?thesis using Cons.IH [of k "cur @ [s]"] Cons.prems w [OF True nn, of k] k by simp
    next
      case False
      then show ?thesis using Cons.prems wf_fs_above [OF assms(1), of cur s zs] nn by (auto simp: k walk_Suc)
    qed
  qed simp
qed

section \<open>What the host writes\<close>

lemma mkdir_through:
  assumes "wf_fs fs" "is_dir fs R"
  shows "walk n fs cur ss = Some R \<Longrightarrow> n \<le> fe_hops env \<Longrightarrow> \<forall>s\<in>set ss. plain_seg s \<Longrightarrow>
    mkdir_from env fs cur (ss @ zs) = mkdir_from env fs R zs"
proof (induction ss arbitrary: n cur)
  case (Cons s ss)
  then obtain k where k: "n = Suc k" by (cases n) auto
  have s: "plain_seg s" using Cons.prems by simp
  obtain c ws where g: "go fs cur s ss = Some (c, ws)" "walk k fs c ws = Some R"
    using Cons.prems(1) assms(2) by (auto simp: k walk_Suc is_dir_def)
  show ?case
  proof (cases "fs (cur @ [s])")
    case None
    then show ?thesis using g s by (simp add: go_def plain_seg_def)
  next
    case (Some x)
    show ?thesis
    proof (cases x)
      case DirNode
      then have "c = cur @ [s]" "ws = ss" using g(1) Some s by (simp_all add: go_def plain_seg_def)
      then show ?thesis using Cons.IH [of k "cur @ [s]"] g(2) Cons.prems DirNode Some by (simp add: k)
    next
      case (FileNode y)
      then show ?thesis using g(1) Some s by (simp add: go_def plain_seg_def)
    next
      case (LinkNode t)
      obtain d where d: "walk n fs cur [s] = Some d" "walk n fs d ss = Some R"
        using walk_split [of n fs cur "[s]" ss R] Cons.prems(1) by auto
      have "is_dir fs d"
      proof (cases ss)
        case Nil
        then show ?thesis using d(2) assms(2) by simp
      next
        case (Cons s' ss')
        then have "plain_seg s'" using Cons.prems(3) by simp
        then have "fs (d @ [s']) \<noteq> None"
          using d(2) by (auto simp: Cons k walk_Suc go_def plain_seg_def split: option.splits)
        then show ?thesis using wf_fs_parent [OF assms(1)] by blast
      qed
      moreover have "walk (fe_hops env) fs cur [s] = Some d" using walk_more [OF d(1) Cons.prems(2)] .
      ultimately show ?thesis using Cons.IH [OF d(2) Cons.prems(2)] Cons.prems(3) Some LinkNode by (simp add: is_dir_def)
    qed
  qed
qed simp

text \<open>Only the inbox of the session, the directory of the message and new files in it come to exist;
  nothing that was there changes.\<close>

definition inbox_only :: "file_system \<Rightarrow> file_system \<Rightarrow> string list \<Rightarrow> string \<Rightarrow> bool" where
  "inbox_only fs fs' R messageId \<longleftrightarrow>
     (\<forall>q. fs' q \<noteq> fs q \<longrightarrow> fs q = None \<and>
        ((q = R @ [''inbox''] \<or> q = R @ [''inbox'', messageId]) \<and> fs' q = Some DirNode
         \<or> (\<exists>f c. isSafeAttachmentName f \<and> q = R @ [''inbox'', messageId, f] \<and> fs' q = Some (FileNode c))))"

lemma inbox_only_refl [simp]: "inbox_only fs fs R m"
  by (simp add: inbox_only_def)

lemma inbox_only_le: "inbox_only fs g R m \<Longrightarrow> fs \<subseteq>\<^sub>m g"
  by (metis domIff inbox_only_def map_le_def)

lemma inbox_only_trans:
  assumes "inbox_only fs fs1 R m" "inbox_only fs1 fs2 R m"
  shows "inbox_only fs fs2 R m"
  unfolding inbox_only_def
proof (intro allI impI)
  fix q assume "fs2 q \<noteq> fs q"
  then show "fs q = None \<and> ((q = R @ [''inbox''] \<or> q = R @ [''inbox'', m]) \<and> fs2 q = Some DirNode
         \<or> (\<exists>f c. isSafeAttachmentName f \<and> q = R @ [''inbox'', m, f] \<and> fs2 q = Some (FileNode c)))"
    using assms unfolding inbox_only_def by (cases "fs1 q = fs q") (metis, metis option.distinct(1))
qed

lemma ensure_contained:
  assumes "wf_fs fs" "walk n fs [] sd = Some R" "n + 2 \<le> fe_hops env" "is_dir fs R" "\<forall>s\<in>set sd. plain_seg s"
    and "isSafeAttachmentName m" "ensureContainedInboxDir env (sd @ [''inbox'']) m fs = (r, fs')"
  shows "inbox_only fs fs' R m \<and> wf_fs fs' \<and> (\<forall>d. r = Inr (Some d) \<longrightarrow> d = R @ [''inbox'', m] \<and> is_dir fs' d)"
proof -
  let ?root = "sd @ [''inbox'']" and ?dir = "sd @ [''inbox'', m]" and ?I = "R @ [''inbox'']" and ?M = "R @ [''inbox'', m]"
  have j: "join_segs ?root m = ?dir" using join_segs_safe [OF assms(6)] by simp
  have pl: "plain_seg ''inbox''" "plain_seg m" using safe_plain [OF assms(6)] by (simp_all add: plain_seg_def)
  have R: "realpathSync env fs sd = Some R" using walk_more [OF assms(2)] assms(3) by (simp add: realpathSync_def)
  then have lr: "lstatSync env fs ?root = fs ?I" by (simp add: lstatSync_def)
  have mk: "mkdir_from env fs [] ?dir = mkdir_from env fs R [''inbox'', m]"
    using mkdir_through [OF assms(1,4,2), of env "[''inbox'', m]"] assms(3,5) by simp
  show ?thesis
  proof (cases "list_ex (\<lambda>dir. lstatSync env fs dir \<noteq> None \<and> lstatSync env fs dir \<noteq> Some DirNode) [?root, ?dir]")
    case True
    then have "r = Inr None \<and> fs' = fs" using assms(7) unfolding ensureContainedInboxDir_def Let_def j by simp
    then show ?thesis using assms(1) by simp
  next
    case False
    then have root: "fs ?I = None \<or> fs ?I = Some DirNode" using lr by auto
    have sub: "fs ?M = None \<or> fs ?M = Some DirNode"
    proof (cases "fs ?I = Some DirNode")
      case True
      have "walk 1 fs R [''inbox''] = Some ?I" using walk_down(2) [OF assms(1), of "[''inbox'']" R 1] True by (simp add: is_dir_def)
      then have "walk (n + 1) fs [] ?root = Some ?I" by (rule walk_join [OF assms(2,4)])
      then have "realpathSync env fs ?root = Some ?I"
        using walk_more [of "n + 1" fs "[]" ?root ?I "fe_hops env"] assms(3) by (simp add: realpathSync_def)
      then have "lstatSync env fs ?dir = fs ?M" by (simp add: lstatSync_def butlast_append)
      then show ?thesis using False by auto
    next
      case False
      then have "fs ?I = None" using root by simp
      then have "fs (?I @ [m]) = None"
        using wf_fs_parent [OF assms(1), of ?I m] by (cases "fs (?I @ [m])") (simp_all add: is_dir_def)
      then show ?thesis by simp
    qed
    define fs1 where "fs1 = (if fs ?I = None then fs(?I \<mapsto> DirNode) else fs)"
    define fs2 where "fs2 = (if fs ?M = None then fs1(?M \<mapsto> DirNode) else fs1)"
    have f1: "fs1 ?I = Some DirNode" "wf_fs fs1" "fs1 ?M = fs ?M"
      using root wf_fs_create [OF assms(1,4) pl(1)] assms(1) by (auto simp: fs1_def)
    then have f2: "fs2 ?I = Some DirNode" "fs2 ?M = Some DirNode" "wf_fs fs2"
      using sub wf_fs_create [OF f1(2), of ?I m DirNode] pl(2) by (auto simp: fs2_def is_dir_def)
    have io: "inbox_only fs fs2 R m" by (auto simp: inbox_only_def fs2_def fs1_def)
    have mm: "mkdir_from env fs [] ?dir = Some fs2"
      using root sub f1 by (auto simp: mk fs2_def fs1_def split: option.splits)
    have le: "fs \<subseteq>\<^sub>m fs2" using io by (rule inbox_only_le)
    have d: "x = ?M" if rx: "realpathSync env fs2 ?dir = Some x" for x
    proof -
      obtain y where y: "walk (fe_hops env) fs2 [] sd = Some y" "walk (fe_hops env) fs2 y [''inbox'', m] = Some x"
        using walk_split [of "fe_hops env" fs2 "[]" sd "[''inbox'', m]" x] rx by (auto simp: realpathSync_def)
      have "walk (fe_hops env) fs2 [] sd = Some R" using walk_mono [OF le] R by (simp add: realpathSync_def)
      then have "y = R" using y(1) by simp
      then show ?thesis using walk_down(1) [OF f2(3) _ y(2)] f2(2) by (simp add: is_dir_def)
    qed
    have "fs' = fs2 \<and> (\<forall>x. r = Inr (Some x) \<longrightarrow> realpathSync env fs2 ?dir = Some x)"
      using False assms(7) by (auto simp: ensureContainedInboxDir_def Let_def j mm split: option.splits if_splits)
    then show ?thesis using io f2 d by (auto simp: is_dir_def)
  qed
qed

lemma create_in_inbox:
  assumes "create_exclusive env fs (join_segs d f) c = Created fs'" "wf_fs fs" "d = R @ [''inbox'', m]" "is_dir fs d" "isSafeAttachmentName f"
  shows "inbox_only fs fs' R m \<and> wf_fs fs' \<and> is_dir fs' d"
proof -
  obtain x where x: "realpathSync env fs d = Some x" "fs (x @ [f]) = None" "fs' = fs(x @ [f] \<mapsto> FileNode c)"
    using assms(1) join_segs_safe [OF assms(5)]
    by (auto simp: create_exclusive_def split: option.splits if_splits)
  have "x = d" using walk_down(1) [OF assms(2), of d "[]" "fe_hops env" x] assms(4) x(1) by (simp add: realpathSync_def)
  then show ?thesis
    using x(2,3) assms(3-5) wf_fs_create [OF assms(2,4), of f "FileNode c"] safe_plain [OF assms(5)]
    by (auto simp: inbox_only_def is_dir_def)
qed

lemma forward_one_contained:
  assumes "forward_one env src rsrc d m f fs = (a, fs')" "wf_fs fs" "d = R @ [''inbox'', m]" "is_dir fs d"
  shows "inbox_only fs fs' R m \<and> wf_fs fs' \<and> is_dir fs' d"
  using assms create_in_inbox [OF _ assms(2-4)]
  by (auto simp: forward_one_def Let_def split: if_splits option.splits fs_node.splits create_result.splits)

lemma forward_all_contained:
  "forward_all env src rsrc d m names fs = (a, fs') \<Longrightarrow> wf_fs fs \<Longrightarrow> d = R @ [''inbox'', m] \<Longrightarrow> is_dir fs d
    \<Longrightarrow> inbox_only fs fs' R m"
proof (induction names arbitrary: fs a fs')
  case (Cons f names)
  obtain x fs1 where x: "forward_one env src rsrc d m f fs = (x, fs1)" by fastforce
  obtain y fs2 where y: "forward_all env src rsrc d m names fs1 = (y, fs2)" by fastforce
  note c = forward_one_contained [OF x Cons.prems(2-4)]
  then have "inbox_only fs1 fs2 R m" using Cons.IH [OF y] Cons.prems(3) by blast
  then show ?case using c inbox_only_trans Cons.prems(1) x y by fastforce
qed simp

lemma plain_basename: "slash \<notin> set n \<Longrightarrow> basename n = n"
proof -
  assume "slash \<notin> set n"
  then have a: "\<forall>c\<in>set (rev n). c \<noteq> slash" by auto
  then have "dropWhile (\<lambda>c. c = slash) (rev n) = rev n" by (cases "rev n") auto
  moreover have "takeWhile (\<lambda>c. c \<noteq> slash) (rev n) = rev n" using a by (simp add: takeWhile_eq_all_conv)
  ultimately show ?thesis unfolding basename_def by (simp only: rev_rev_ident)
qed

lemma fallback_safe: "list_all is_digit (fe_now env) \<Longrightarrow> isSafeAttachmentName (''attachment-'' @ fe_now env)"
proof -
  assume d: "list_all is_digit (fe_now env)"
  have "\<not> is_digit CHR 0x5C" "\<not> is_digit slash" "\<not> is_digit CHR 0x00" by (simp_all add: char_class_defs)
  then have n: "CHR 0x5C \<notin> set (fe_now env)" "slash \<notin> set (fe_now env)" "CHR 0x00 \<notin> set (fe_now env)"
    using d by (auto simp: list_all_iff)
  then have "basename (''attachment-'' @ fe_now env) = ''attachment-'' @ fe_now env" by (intro plain_basename) simp
  then show ?thesis using n by (auto simp: isSafeAttachmentName_def list_ex_iff)
qed

lemma safe_filename_safe: "list_all is_digit (fe_now env) \<Longrightarrow> isSafeAttachmentName (safe_filename env att)"
  using fallback_safe [of env] by (auto simp: safe_filename_def Let_def)

text \<open>A resolved inbox is the message's directory, or none.\<close>

definition resolved_ok :: "file_system \<Rightarrow> string list \<Rightarrow> string \<Rightarrow> string list option option \<Rightarrow> bool" where
  "resolved_ok fs R m dir \<longleftrightarrow> (\<forall>d. dir = Some (Some d) \<longrightarrow> d = R @ [''inbox'', m] \<and> is_dir fs d)"

lemma extract_loop_contained:
  assumes "n + 2 \<le> fe_hops env" "\<forall>s\<in>set sd. plain_seg s" "isSafeAttachmentName m" "list_all is_digit (fe_now env)"
  shows "extract_loop env (sd @ [''inbox'']) m dir atts fs = (r, fs') \<Longrightarrow> wf_fs fs \<Longrightarrow> walk n fs [] sd = Some R \<Longrightarrow> is_dir fs R
    \<Longrightarrow> resolved_ok fs R m dir \<Longrightarrow> inbox_only fs fs' R m"
proof (induction atts arbitrary: dir fs r fs')
  case (Cons att atts)
  note loop = Cons.IH
  show ?case
  proof (cases "att \<noteq> Null \<and> (\<exists>data. get_prop att ''data'' = Str data)")
    case False
    then obtain r1 where "att = Null \<and> fs' = fs \<or> extract_loop env (sd @ [''inbox'']) m dir atts fs = (r1, fs')"
      using Cons.prems(1) by (auto split: jsval.splits prod.splits sum.splits if_splits)
    then show ?thesis using loop [OF _ Cons.prems(2-5)] by auto
  next
    case True
    then obtain data where data: "att \<noteq> Null" "get_prop att ''data'' = Str data" by blast
    obtain q fs1 where q: "(case dir of Some d \<Rightarrow> (Inr d, fs) | None \<Rightarrow> ensureContainedInboxDir env (sd @ [''inbox'']) m fs) = (q, fs1)"
      by fastforce
    have q1: "inbox_only fs fs1 R m \<and> wf_fs fs1 \<and> (\<forall>d. q = Inr (Some d) \<longrightarrow> d = R @ [''inbox'', m] \<and> is_dir fs1 d)"
      using q ensure_contained [OF Cons.prems(2,3) assms(1) Cons.prems(4) assms(2,3)] Cons.prems(2,5)
      by (auto simp: resolved_ok_def split: option.splits)
    have keep: "walk n g [] sd = Some R \<and> is_dir g R" if "inbox_only fs g R m" for g
    proof -
      have "fs \<subseteq>\<^sub>m g" using that by (rule inbox_only_le)
      then show ?thesis using walk_mono Cons.prems(3,4) by (auto simp: is_dir_def map_le_def dom_def)
    qed
    have more: "inbox_only fs g' R m"
      if "inbox_only fs g R m" "wf_fs g" "is_dir g (R @ [''inbox'', m])" "extract_loop env (sd @ [''inbox'']) m (Some (Some (R @ [''inbox'', m]))) atts g = (r2, g')"
      for g g' r2
      using loop [OF that(4,2)] keep [OF that(1)] inbox_only_trans [OF that(1)] that(3) by (auto simp: resolved_ok_def)
    show ?thesis
    proof (cases "\<exists>d. q = Inr (Some d)")
      case False
      then have "fs' = fs1" using Cons.prems(1) data q by (auto split: sum.splits option.splits)
      then show ?thesis using q1 by simp
    next
      case True
      then have d: "q = Inr (Some (R @ [''inbox'', m]))" "is_dir fs1 (R @ [''inbox'', m])" using q1 by auto
      let ?f = "safe_filename env att"
      have cr: "inbox_only fs fs2 R m \<and> wf_fs fs2 \<and> is_dir fs2 (R @ [''inbox'', m])"
        if "create_exclusive env fs1 (join_segs (R @ [''inbox'', m]) ?f) (fe_base64 env data) = Created fs2" for fs2
        using create_in_inbox [OF that _ refl d(2) safe_filename_safe [OF assms(4)]] q1 inbox_only_trans by blast
      show ?thesis
      proof (cases "create_exclusive env fs1 (join_segs (R @ [''inbox'', m]) ?f) (fe_base64 env data)")
        case (Created fs2)
        then obtain r2 where "extract_loop env (sd @ [''inbox'']) m (Some (Some (R @ [''inbox'', m]))) atts fs2 = (r2, fs')"
          using Cons.prems(1) data q d(1) Created by (fastforce simp: Let_def split: prod.splits sum.splits)
        then show ?thesis using more cr [OF Created] by blast
      next
        case Exists
        then obtain r2 where "extract_loop env (sd @ [''inbox'']) m (Some (Some (R @ [''inbox'', m]))) atts fs1 = (r2, fs')"
          using Cons.prems(1) data q d(1) Exists by (fastforce simp: Let_def split: prod.splits sum.splits)
        then show ?thesis using more q1 d(2) by blast
      next
        case CreateFailed
        then have "fs' = fs1" using Cons.prems(1) data q d(1) by (simp add: Let_def)
        then show ?thesis using q1 by blast
      qed
    qed
  qed
qed simp

section \<open>What the host reads\<close>

lemma drop_common_append [simp]: "drop_common p (p @ q) = ([], q)"
  by (induction p) (cases q; simp)+

lemma inside_child:
  assumes "isSafeAttachmentName n" "\<not> starts_with ''..'' n"
  shows "isPathInside p (p @ [n])"
  using assms safe_plain [OF assms(1)] by (cases n) (auto simp: isPathInside_def isAbsolute_def plain_seg_def)

lemma lstat_below:
  assumes "realpathSync env fs p = Some d"
  shows "lstatSync env fs (p @ [s]) = fs (d @ [s])"
  using assms by (simp add: lstatSync_def)

lemma read_one_in:
  assumes "(name, data) \<in> set (read_one env dir D f fs)"
  shows "isSafeAttachmentName name \<and> (\<exists>c r. lstatSync env fs (dir @ [name]) = Some (FileNode c)
    \<and> realpathSync env fs (dir @ [name]) = Some r \<and> fs r = Some (FileNode data))"
proof (cases f)
  case (Str x)
  then show ?thesis using assms join_segs_safe [of x dir]
    by (auto simp: read_one_def Let_def split: if_splits option.splits fs_node.splits) metis+
qed (use assms in \<open>simp_all add: read_one_def\<close>)

text \<open>Below a directory that was reached, a path that exists leads to its plain continuation.\<close>

lemma realpath_below:
  assumes "wf_fs fs" "realpathSync env fs p = Some d" "fs (d @ [s]) = Some DirNode \<or> (\<exists>c. fs (d @ [s]) = Some (FileNode c))"
    and "realpathSync env fs (p @ [s]) = Some r"
  shows "r = d @ [s]"
proof -
  obtain x where x: "walk (fe_hops env) fs [] p = Some x" "walk (fe_hops env) fs x [s] = Some r"
    using walk_split [of "fe_hops env" fs "[]" p "[s]" r] assms(4) by (auto simp: realpathSync_def)
  then have "x = d" using assms(2) by (simp add: realpathSync_def)
  then show ?thesis using walk_down(1) [OF assms(1) _ x(2)] assms(3) by (auto simp: is_dir_def)
qed

section \<open>Properties\<close>

text \<open>C38: Whatever links and files the containers left in the session directory, and whatever id an
  inbound message carries, storing its attachments creates at most the directories \<open>inbox\<close> and
  \<open>inbox/<message>\<close> of that session and new files directly in the latter; nothing that exists is
  overwritten, removed or followed out of the session, and an id that is not a plain file name changes
  nothing at all.  The same holds of forwarding the files of another agent under a message id that is a
  plain file name, as the ids the host makes for forwarded messages are.\<close>

theorem inbox_writes_contained:
  assumes "wf_fs fs" "walk n fs [] session = Some R" "n + 2 \<le> fe_hops env" "is_dir fs R" "\<forall>s\<in>set session. plain_seg s"
    and "list_all is_digit (fe_now env)"
  shows "inbox_only fs (snd (extractAttachmentFiles env session m content fs)) R m
    \<and> (\<not> isSafeAttachmentName m \<longrightarrow> snd (extractAttachmentFiles env session m content fs) = fs)
    \<and> (isSafeAttachmentName m' \<longrightarrow> inbox_only fs (snd (forwardAttachedFiles env source sourceMessage names session m' fs)) R m')"
proof (intro conjI impI)
  show unsafe: "snd (extractAttachmentFiles env session m content fs) = fs" if "\<not> isSafeAttachmentName m"
    using that by (auto simp: extractAttachmentFiles_def split: option.splits jsval.splits)
  have "inbox_only fs fs' R m"
    if "isSafeAttachmentName m" "extract_loop env (session @ [''inbox'']) m None atts fs = (r, fs')" for atts r fs'
    using extract_loop_contained [OF assms(3,5) that(1) assms(6) that(2) assms(1,2,4)] by (simp add: resolved_ok_def)
  then show "inbox_only fs (snd (extractAttachmentFiles env session m content fs)) R m"
    using unsafe by (cases "isSafeAttachmentName m")
      (auto simp: extractAttachmentFiles_def split: option.splits jsval.splits prod.splits sum.splits)
  assume safe: "isSafeAttachmentName m'"
  have e: "inbox_only fs fs1 R m' \<and> wf_fs fs1 \<and> (\<forall>d. r = Inr (Some d) \<longrightarrow> d = R @ [''inbox'', m'] \<and> is_dir fs1 d)"
    if "ensureContainedInboxDir env (session @ [''inbox'']) m' fs = (r, fs1)" for r fs1
    by (rule ensure_contained [OF assms(1-5) safe that])
  have "inbox_only fs fs2 R m'" if "ensureContainedInboxDir env (session @ [''inbox'']) m' fs = (Inr (Some d), fs1)"
    "forward_all env a b d m' names fs1 = (x, fs2)" for d fs1 a b x fs2
    using e [OF that(1)] forward_all_contained [OF that(2)] inbox_only_trans by blast
  then show "inbox_only fs (snd (forwardAttachedFiles env source sourceMessage names session m' fs)) R m'"
    using e by (fastforce simp: forwardAttachedFiles_def Let_def split: option.splits prod.splits sum.splits)
qed

definition sample_fs :: file_system where
  "sample_fs = [[''s''] \<mapsto> DirNode, [''s'', ''outbox''] \<mapsto> LinkNode ''/etc'', [''etc''] \<mapsto> DirNode, [''etc'', ''keys''] \<mapsto> DirNode,
     [''etc'', ''keys'', ''id''] \<mapsto> FileNode ''secret'', [''u''] \<mapsto> DirNode, [''u'', ''outbox''] \<mapsto> DirNode,
     [''u'', ''outbox'', ''m1''] \<mapsto> DirNode, [''u'', ''outbox'', ''m1'', ''a.txt''] \<mapsto> FileNode ''hello'']"

definition sample_files :: file_env where
  "sample_files = \<lparr>fe_hops = 40, fe_io = (\<lambda>_. True), fe_now = ''1'', fe_base64 = id\<rparr>"

lemma sample_wf: "wf_fs sample_fs"
  unfolding wf_fs_def sample_fs_def
  by (auto simp: plain_seg_def append_eq_Cons_conv split: if_splits)

theorem inbox_writes_contained_witness:
  "inbox_only sample_fs (snd (extractAttachmentFiles sample_files [''s''] ''m1''
      ''{\"attachments\":[{\"name\":\"../../x\",\"data\":\"QQ==\"}]}'' sample_fs)) [''s''] ''m1''"
proof -
  have "walk 1 sample_fs [] [''s''] = Some [''s'']" "1 + 2 \<le> fe_hops sample_files" "is_dir sample_fs [''s'']"
    "\<forall>s\<in>set [''s'']. plain_seg s" "list_all is_digit (fe_now sample_files)"
    by (simp_all add: sample_fs_def sample_files_def is_dir_def plain_seg_def char_class_defs walk.simps(3))
  from inbox_writes_contained [OF sample_wf this] show ?thesis by blast
qed

text \<open>C39: If the \<open>outbox\<close> of a session is a directory of its own, every file that goes out with a message is
  a regular file the agent put directly under \<open>outbox/<message>\<close>, with the content it has there.\<close>

theorem outbox_reads_contained:
  assumes "wf_fs fs" "realpathSync env fs session = Some R" "fs (R @ [''outbox'']) = Some DirNode"
    and "(name, data) \<in> set (readOutboxFiles env session m names fs)"
  shows "isSafeAttachmentName name \<and> fs (R @ [''outbox'', m, name]) = Some (FileNode data)"
proof -
  let ?out = "session @ [''outbox'']" and ?dir = "session @ [''outbox'', m]"
  have m: "isSafeAttachmentName m" using assms(4) by (auto simp: readOutboxFiles_def split: if_splits)
  have dir: "join_segs ?out m = ?dir" using join_segs_safe [OF m] by simp
  have "existsSync env fs ?dir" "lstatSync env fs ?dir = Some DirNode"
    using assms(4) by (simp_all add: readOutboxFiles_def m dir Let_def split: if_splits)
  then obtain D where D2: "lstatSync env fs ?dir = Some DirNode" "realpathSync env fs ?dir = Some D"
    by (auto simp: existsSync_def)
  moreover have "readOutboxFiles env session m names fs = concat (map (\<lambda>f. read_one env ?dir D f fs) names)"
    using D2 by (simp add: readOutboxFiles_def m dir existsSync_def)
  ultimately obtain f where D: "lstatSync env fs ?dir = Some DirNode" "realpathSync env fs ?dir = Some D"
    "(name, data) \<in> set (read_one env ?dir D f fs)"
    using assms(4) by auto
  obtain X where X: "realpathSync env fs ?out = Some X"
    using D(1) by (auto simp: lstatSync_def butlast_append split: option.splits)
  then have XR: "X = R @ [''outbox'']" using realpath_below [OF assms(1,2) disjI1 [OF assms(3)]] by simp
  have "fs (X @ [m]) = Some DirNode" using lstat_below [OF X, of m] D(1) by simp
  then have DX: "D = X @ [m]" using realpath_below [OF assms(1) X disjI1] D(2) by simp
  obtain c r where n: "isSafeAttachmentName name" and r: "lstatSync env fs (?dir @ [name]) = Some (FileNode c)"
    "realpathSync env fs (?dir @ [name]) = Some r" "fs r = Some (FileNode data)"
    using read_one_in [OF D(3)] by blast
  have "fs (D @ [name]) = Some (FileNode c)" using lstat_below [OF D(2), of name] r(1) by simp
  then have "r = D @ [name]" using realpath_below [OF assms(1) D(2) _ r(2)] by blast
  then show ?thesis using r(3) n by (simp add: DX XR)
qed

lemma sample_read:
  "readOutboxFiles sample_files [''u''] ''m1'' [Str ''a.txt'', Str ''../b''] sample_fs = [(''a.txt'', ''hello'')]"
  "realpathSync sample_files sample_fs [''u''] = Some [''u'']" "sample_fs ([''u''] @ [''outbox'']) = Some DirNode"
  by code_simp+

theorem outbox_reads_contained_witness:
  "isSafeAttachmentName ''a.txt'' \<and> sample_fs ([''u''] @ [''outbox'', ''m1'', ''a.txt'']) = Some (FileNode ''hello'')"
  by (rule outbox_reads_contained [OF sample_wf sample_read(2,3), of _ _ _ "[Str ''a.txt'', Str ''../b'']"])
    (simp add: sample_read(1))

text \<open>C40: The checks of the outgoing side start below \<open>outbox\<close>: when the container replaces \<open>outbox\<close> by a
  link to another directory of the host, a message whose id names a directory there sends the files
  of that directory, and delivering it deletes the directory.\<close>

theorem outbox_link_escapes:
  assumes "wf_fs fs" "walk n fs [] session = Some R" "fs (R @ [''outbox'']) = Some (LinkNode (slash # t))"
    and "fs (split_on slash t @ [m]) = Some DirNode" "fs (split_on slash t @ [m, name]) = Some (FileNode data)"
    and "n + length (split_on slash t) + 4 \<le> fe_hops env"
    and "isSafeAttachmentName m" "isSafeAttachmentName name" "\<not> starts_with ''..'' m" "\<not> starts_with ''..'' name"
  shows "readOutboxFiles env session m [Str name] fs = [(name, data)]
    \<and> clearOutbox env session m fs (split_on slash t @ [m, name]) = None"
proof -
  let ?E = "split_on slash t" and ?out = "session @ [''outbox'']" and ?dir = "session @ [''outbox'', m]"
  have R: "is_dir fs R" using wf_fs_parent [OF assms(1), of R "''outbox''"] assms(3) by simp
  have E: "is_dir fs ?E" using wf_fs_parent [OF assms(1), of ?E m] assms(4) by simp
  have "walk (length ?E) fs [] ?E = Some ?E" using walk_down(2) [OF assms(1), of ?E "[]"] E by simp
  then have "walk (2 + length ?E) fs R [''outbox''] = Some ?E"
    using assms(3) by (simp add: walk.simps(3) numeral_2_eq_2 isAbsolute_def)
  then have out: "walk (n + (2 + length ?E)) fs [] ?out = Some ?E" by (rule walk_join [OF assms(2) R])
  have "walk 1 fs ?E [m] = Some (?E @ [m])" using walk_down(2) [OF assms(1), of "[m]" ?E 1] assms(4) by (simp add: is_dir_def)
  then have dir: "walk (n + (2 + length ?E) + 1) fs [] ?dir = Some (?E @ [m])" using walk_join [OF out E, of 1 "[m]" "?E @ [m]"] by simp
  have "walk 1 fs (?E @ [m]) [name] = Some (?E @ [m, name])"
    using walk_down(2) [OF assms(1), of "[name]" "?E @ [m]" 1] assms(5) by simp
  moreover have "is_dir fs (?E @ [m])" using assms(4) by (simp add: is_dir_def)
  ultimately have leaf: "walk (n + (2 + length ?E) + 1 + 1) fs [] (?dir @ [name]) = Some (?E @ [m, name])"
    using walk_join [OF dir] by blast
  have rp: "realpathSync env fs ?out = Some ?E" "realpathSync env fs ?dir = Some (?E @ [m])"
    "realpathSync env fs (?dir @ [name]) = Some (?E @ [m, name])"
    using walk_more [OF out] walk_more [OF dir] walk_more [OF leaf] assms(6) by (simp_all add: realpathSync_def)
  have ls: "lstatSync env fs ?dir = Some DirNode" "lstatSync env fs (?dir @ [name]) = Some (FileNode data)"
    using lstat_below [OF rp(1), of m] lstat_below [OF rp(2), of name] assms(4,5) by simp_all
  have j: "join_segs ?out m = ?dir" "join_segs ?dir name = ?dir @ [name]" using join_segs_safe assms(7,8) by simp_all
  have ins: "isPathInside ?E (?E @ [m])" "isPathInside (?E @ [m]) (?E @ [m, name])"
    using inside_child [OF assms(7,9)] inside_child [OF assms(8,10), of "?E @ [m]"] by simp_all
  have "read_one env ?dir (?E @ [m]) (Str name) fs = [(name, data)]"
    using assms(5,8) rp(3) ls(2) ins(2) by (simp add: read_one_def j)
  then have "readOutboxFiles env session m [Str name] fs = [(name, data)]"
    using assms(7) rp(2) ls(1) by (simp add: readOutboxFiles_def j existsSync_def)
  moreover have "clearOutbox env session m fs (?E @ [m, name]) = None"
    using assms(7) rp(1,2) ls(1) ins(1) by (simp add: clearOutbox_def j existsSync_def)
  ultimately show ?thesis by blast
qed

theorem outbox_link_escapes_witness:
  "readOutboxFiles sample_files [''s''] ''keys'' [Str ''id''] sample_fs = [(''id'', ''secret'')]
   \<and> clearOutbox sample_files [''s''] ''keys'' sample_fs (split_on slash ''etc'' @ [''keys'', ''id'']) = None"
  by (rule outbox_link_escapes [OF sample_wf, of 1 _ "[''s'']"])
    (simp_all add: sample_fs_def sample_files_def isSafeAttachmentName_def basename_def starts_with_def walk.simps(3))

end
