(* ===== verification/Spec2Isabelle.thy ===== *)
theory Spec2Isabelle
  imports Prelude JsValue JsonText ZodSchema CapabilityRegistry GateRouter CauseGate RateLimit SafetyBudget
    AuditLedger AuditedRouter SqlTable ActionStore TrustedRouter Reconciliation ActionSystem
    IsoTime IsoClock MailboxModel NodePath MountSecurity ReconcileQueue Coordination SessionMailbox Recurrence
    ReconcileSession Permissions CentralSessions SessionResolve AgentLinks Guard MessagingGroups InboundRouter
    Approvals ApprovalSystem AgentRoute Delivery DeliverySystem FileTransfer
begin

text \<open>
  A verification library of the self-healing back end.

  \<^bold>\<open>The program.\<close>  The repository has two TypeScript programs whose own logic is modelled here.
  The \<^emph>\<open>router\<close> (\<open>src/router/src\<close>) takes action plans of an untrusted agent, checks them
  against a capability registry, a cause gate and budgets, executes at most once on a container
  backend and records everything in a hash-chained audit ledger.  The \<^emph>\<open>host\<close>
  (\<open>src/nanoclaw/src\<close>) runs agents in containers: it keeps a mailbox per session, reconciles
  sessions in a keyed work queue, retries and schedules their messages, fences containers by
  incarnation, and validates the directories it mounts.  Around the mailboxes it decides who may
  reach an agent and what an agent may reach: inbound messages pass routing, access and command
  gates; privileged actions and messages between agents pass one guard, which may hold them for an
  approver; outbound messages are delivered under a permission check and counted retries.

  \<^bold>\<open>Shared foundations.\<close>  \<open>Prelude\<close>: results, JavaScript string functions, character classes.
  \<open>JsValue\<close>: JavaScript values with IEEE doubles as exact rationals.  \<open>JsonText\<close>: \<open>JSON.parse\<close>
  and the stringification the ledger needs.  \<open>ZodSchema\<close>: the schema validators.
  \<open>SqlTable\<close>: SQLite tables as lists of rows behind the locales \<open>keyed_table\<close> and
  \<open>upsert_table\<close>, which every table of the program interprets.  \<open>RateLimit\<close>: the locales
  \<open>window_limiter\<close> and \<open>cooled_limiter\<close> both budgets instantiate.  \<open>IsoTime\<close>, \<open>IsoClock\<close>:
  canonical timestamps, \<open>toISOString\<close> and \<open>Date.parse\<close> with their round trip.  \<open>NodePath\<close>: the
  path functions of Node.

  \<^bold>\<open>The router.\<close>
  \<^item> \<open>CapabilityRegistry\<close> (\<open>schemas/registry.ts\<close>) and \<open>GateRouter\<close> (\<open>router.ts\<close>): the capability
    table, the schemas of the parameters, the checks of a patch and the numbered gates of
    \<open>processActionPlan\<close>; lemmas give the exact gate that rejects a plan.
  \<^item> \<open>CauseGate\<close> (\<open>security/cause-gate.ts\<close>) and \<open>SafetyBudget\<close> (\<open>security/safety-budget.ts\<close>):
    equivalence of the gate with its specification, and the window limits of the in-memory budget.
  \<^item> \<open>AuditLedger\<close> (\<open>audit-ledger.ts\<close>) and \<open>AuditedRouter\<close> (\<open>audited-router.ts\<close>): validation,
    hash chain, verification, append with torn writes, lock file.  The hash function and the file
    system are arguments.  Waiting for the lock is bounded by 402 attempts.
  \<^item> \<open>ActionStore\<close> (\<open>storage/action-store.ts\<close>): the three tables with constraints and trigger, every
    method, the invariant of the tables, the status machine, the budget limits.
  \<^item> \<open>TrustedRouter\<close> (\<open>trusted-router.ts\<close>) and \<open>Reconciliation\<close> (\<open>recovery/reconciliation.ts\<close>):
    executions and reconciliations as small steps, each with an outcome of clock, file, database
    and backend.  \<open>ActionSystem\<close> composes any number of them with crashes: the backend is called at
    most once for an action, reservations of a target exclude each other, a healthy execution ends
    with exactly its two audit records, and an execution alone answers exactly what its checks and its
    environment allow, within the twelve steps that are the fuel of \<open>execute\<close>.  An await that never
    settles is not modelled.

  \<^bold>\<open>The host.\<close>
  \<^item> \<open>MailboxModel\<close> (\<open>mailbox/model.ts\<close>): the record parsers and constructors; what
    \<open>createDirectOutboundRecord\<close> accepts, field by field.
  \<^item> \<open>SessionMailbox\<close> (\<open>mailbox/sqlite/session-db.ts\<close>, \<open>index.ts\<close>, \<open>tasks.ts\<close>, \<open>schema.ts\<close>): the
    inbound and outbound tables, every query and write on them; well-formedness under any sequence
    of writes, pruning; a direct write is read back as the delivery it asked for.
  \<^item> \<open>Recurrence\<close> (\<open>modules/scheduling/recurrence.ts\<close>): the next occurrences of recurring tasks; no
    series is lost or doubled, exactly the turns that fail leave their occurrence armed, failing series
    are throttled and paused.
  \<^item> \<open>ReconcileSession\<close> (\<open>reconcile-session.ts\<close>): the stuck decision with its incarnation gate, the
    bounded retries, and the pass that composes them with the mailbox and the coordination tables.
  \<^item> \<open>Coordination\<close> (\<open>db/coordination.ts\<close>): leases, session claims, delivery attempts and wake
    signals, one function per SQL statement, and step relations that interleave the statements of
    concurrent hosts.
  \<^item> \<open>ReconcileQueue\<close> (\<open>reconcile-queue.ts\<close>, \<open>reconcile.ts\<close>): coalescing adds, back-off, bounded
    concurrency; draining starts every ready key once, in order, and every marked one again.
  \<^item> \<open>MountSecurity\<close> (\<open>modules/mount-security/index.ts\<close>): the allow-list file, and the confinement
    of every mount it lets through to the file's roots, outside its blocked patterns and the defaults.

  \<^bold>\<open>The host's central database and its gates.\<close>
  \<^item> \<open>Permissions\<close> (\<open>modules/permissions/db\<close>, \<open>access.ts\<close>): users, roles, members, DM channels; the
    constraints of the tables under every operation, who may access an agent group.
  \<^item> \<open>CentralSessions\<close> (\<open>db/sessions.ts\<close>, \<open>channels/ask-question.ts\<close>, the pending channel and sender
    approvals) and \<open>SessionResolve\<close> (\<open>resolveSession\<close> of \<open>session-manager.ts\<close>): the rows of sessions,
    questions and approvals; a conversation resolves to one active session, again and again.
  \<^item> \<open>AgentLinks\<close> (\<open>modules/agent-to-agent/db\<close>): destinations and message policies of agents; the
    names a wiring creates, with the termination of the search for a free one.
  \<^item> \<open>Guard\<close> (\<open>guard/\<close> and the guard modules): the catalog of guarded actions, the decision with
    grants, and the exact condition under which a message between agents is allowed.
  \<^item> \<open>MessagingGroups\<close> (\<open>db/messaging-groups.ts\<close>, \<open>channels\<close>) and \<open>InboundRouter\<close> (\<open>router.ts\<close>,
    \<open>command-gate.ts\<close>, \<open>db/dropped-messages.ts\<close>): chats, wirings, channel defaults, and the whole
    route of an inbound message; only admitted senders wake an agent.
  \<^item> \<open>Approvals\<close> (\<open>modules/approvals/primitive.ts\<close>): requesting an approval and judging a click.
    \<open>ApprovalSystem\<close> (\<open>response-handler.ts\<close>, \<open>finalize.ts\<close>, \<open>reason-capture.ts\<close>): clicks, typed
    reasons and sweeps as tasks that interleave at their awaits and are lost in a crash; every
    interleaving refines an abstract one-shot decision.
  \<^item> \<open>AgentRoute\<close> (\<open>modules/agent-to-agent/agent-route.ts\<close>, \<open>message-gate.ts\<close>): the target session of
    a message, the guard, the hold and the approved replay.
  \<^item> \<open>FileTransfer\<close> (\<open>attachment-safety.ts\<close>, \<open>inbox-safety.ts\<close>, \<open>attachment-naming.ts\<close>, the file parts of
    \<open>session-manager.ts\<close> and \<open>agent-route.ts\<close>): a file system with symbolic links, what the host writes
    into an inbox and reads from an outbox.  Following links takes fuel, one unit for each segment; the
    hypotheses say how much a path needs.
  \<^item> \<open>Delivery\<close> (\<open>delivery.ts\<close>, \<open>delivery-guard.ts\<close>, \<open>run-log.ts\<close>): the registry of system actions and
    \<open>deliverMessage\<close>.  \<open>DeliverySystem\<close>: the drains of the poll loops as small steps with crashes;
    at most one drain per session, at most one successful send per message unless a mark is lost,
    a message's failures are counted across restarts, and the third counted one gives it up.  Any number of drains may run at once, which covers
    the limit of eight of \<open>mapConcurrent\<close>.

  In these theories a fresh id, the clock, a regular expression, an interceptor, the outcome of a
  card and of an adapter call are inputs of an operation.  Texts shown to people are shortened where
  they hold message ids, ellipses or emoji.  The ids of agent groups and messaging groups, the targets
  of foreign keys, are fields of each record that refers to them.  An operation of several reads is one
  step unless a theory says that its tasks interleave: the authorization of a send is read at once.

  \<^bold>\<open>Conventions.\<close>  A thrown error is \<open>Inl\<close> with its message, SQL \<open>NULL\<close> and \<open>undefined\<close> results
  are \<open>None\<close>.  Strings are lists of 8-bit characters.  JavaScript integers that stay far below
  \<open>2 ^ 53\<close> (time values, counters, sequence numbers, incarnations) are \<open>int\<close>; where the bound
  matters it is a hypothesis.  The JSON parser runs on fuel \<open>2 * length + 2\<close>, which its round-trip
  lemmas show to be enough for what the program prints.  Code outside the repository (SQLite's
  \<open>datetime\<close> and \<open>GLOB\<close>, the hash function, the file system, the cron parser, the container
  runtime) is an argument of the definitions or an input of a step.

  \<^bold>\<open>Not modelled.\<close>  The container runner, its drivers and the agent runner inside the container;
  the channel bridge and the platform adapters; the set-up wizard, scripts and command line; gateway,
  provider and portal clients: they are dominated by process, network and file effects.  Of modelled
  files: the timers, typing indicators, sibling echoes and hooks around delivery (post-delivery hooks
  are recorded as calls), the creation and listing of session directories in \<open>session-manager.ts\<close>, the start-up of adapters, context backfill, and the card flows of channel
  registration and sender approval in \<open>modules/permissions\<close>.  The migrations of legacy session
  databases, and the opening and closing of database files.  The Docker backend and the offline
  benchmark of the router, the Python benchmark and broker, and the generated copy
  \<open>model.generated.ts\<close> of the mailbox model.
\<close>

end
